(* ===== verification/Net_Prelude.thy ===== *)
theory Net_Prelude
  imports Main "HOL-Library.Word" "HOL-Library.Monad_Syntax"
begin

text \<open>
  Shared vocabulary of the development: the fixed-width integers of
  \<open>include/types.h\<close>, byte buffers with their loads and stores, the byte order
  conversions \<open>htons\<close>/\<open>htonl\<close> as big-endian reads and writes of the wire bytes, and the
  named fact collections the component theories extend.

  Failure convention of the whole development: a C function that may touch memory out of
  bounds, dereference NULL, free twice or fail an \<open>assert\<close> returns \<open>None\<close> in exactly
  those cases and \<open>Some\<close> of its result otherwise.
\<close>

unbundle bit_operations_syntax

named_theorems buf_simps "laws of loads and stores on byte buffers"
named_theorems codec_simps "laws of the header codecs"
named_theorems wire_defs "definitions unfolded to compute on wire formats"

section \<open>Fixed-width integers\<close>

type_synonym u8 = "8 word"
type_synonym u16 = "16 word"
type_synonym u32 = "32 word"
type_synonym u64 = "64 word"
type_synonym bytes = "u8 list"

text \<open>The C conversion of a signed \<open>int\<close> value to an unsigned type of any width.\<close>

abbreviation to_u32 :: "int \<Rightarrow> u32" where
  "to_u32 i \<equiv> word_of_int i"

abbreviation to_u64 :: "int \<Rightarrow> u64" where
  "to_u64 i \<equiv> word_of_int i"

lemma unat_ucast_up:
  "LENGTH('a::len) \<le> LENGTH('b::len) \<Longrightarrow> unat (ucast (w :: 'a word) :: 'b word) = unat w"
proof -
  assume "LENGTH('a) \<le> LENGTH('b)"
  then have "(2::nat) ^ LENGTH('a) \<le> 2 ^ LENGTH('b)" by simp
  with unsigned_less[of w] have "unat w < 2 ^ LENGTH('b)" by (rule order_less_le_trans)
  then show ?thesis by (simp add: unsigned_ucast_eq take_bit_nat_eq_self_iff)
qed

lemma unat_ucast_widen [simp]:
  "unat (ucast (a :: u8) :: u16) = unat a" "unat (ucast (a :: u8) :: u32) = unat a"
  "unat (ucast (b :: u16) :: u32) = unat b" "unat (ucast (b :: u16) :: u64) = unat b"
  "unat (ucast (c :: u32) :: u64) = unat c"
  by (simp_all add: unat_ucast_up)

section \<open>Byte order\<close>

definition be16_dec :: "u8 \<Rightarrow> u8 \<Rightarrow> u16" where [wire_defs]:
  "be16_dec a b = push_bit 8 (ucast a) OR ucast b"

definition be16_enc :: "u16 \<Rightarrow> bytes" where [wire_defs]:
  "be16_enc w = [ucast (drop_bit 8 w), ucast w]"

definition le16_dec :: "u8 \<Rightarrow> u8 \<Rightarrow> u16" where [wire_defs]:
  "le16_dec a b = be16_dec b a"

definition le16_enc :: "u16 \<Rightarrow> bytes" where [wire_defs]:
  "le16_enc w = [ucast w, ucast (drop_bit 8 w)]"

definition be32_dec :: "u8 \<Rightarrow> u8 \<Rightarrow> u8 \<Rightarrow> u8 \<Rightarrow> u32" where [wire_defs]:
  "be32_dec a b c d =
     push_bit 24 (ucast a) OR push_bit 16 (ucast b) OR push_bit 8 (ucast c) OR ucast d"

definition be32_enc :: "u32 \<Rightarrow> bytes" where [wire_defs]:
  "be32_enc w = [ucast (drop_bit 24 w), ucast (drop_bit 16 w), ucast (drop_bit 8 w), ucast w]"

definition le32_dec :: "u8 \<Rightarrow> u8 \<Rightarrow> u8 \<Rightarrow> u8 \<Rightarrow> u32" where [wire_defs]:
  "le32_dec a b c d = be32_dec d c b a"

definition le32_enc :: "u32 \<Rightarrow> bytes" where [wire_defs]:
  "le32_enc w = [ucast w, ucast (drop_bit 8 w), ucast (drop_bit 16 w), ucast (drop_bit 24 w)]"

definition htons :: "u16 \<Rightarrow> u16" where [wire_defs]:
  "htons w = be16_dec (ucast w) (ucast (drop_bit 8 w))"

definition htonl :: "u32 \<Rightarrow> u32" where [wire_defs]:
  "htonl w = be32_dec (ucast w) (ucast (drop_bit 8 w)) (ucast (drop_bit 16 w)) (ucast (drop_bit 24 w))"

lemma be16_dec_inj [codec_simps]:
  "ucast (drop_bit 8 (be16_dec a b)) = a" "ucast (be16_dec a b) = b"
  by (rule bit_word_eqI; auto simp: be16_dec_def bit_simps dest: bit_imp_le_length)+

lemma be16_dec_enc [codec_simps]:
  "be16_dec (ucast (drop_bit 8 w)) (ucast w) = w"
  by (rule bit_word_eqI) (auto simp: be16_dec_def bit_simps)

lemma be32_dec_inj [codec_simps]:
  "ucast (drop_bit 24 (be32_dec a b c d)) = a" "ucast (drop_bit 16 (be32_dec a b c d)) = b"
  "ucast (drop_bit 8 (be32_dec a b c d)) = c" "ucast (be32_dec a b c d) = d"
  by (rule bit_word_eqI; auto simp: be32_dec_def bit_simps dest: bit_imp_le_length)+

lemma be32_dec_enc [codec_simps]:
  "be32_dec (ucast (drop_bit 24 w)) (ucast (drop_bit 16 w)) (ucast (drop_bit 8 w)) (ucast w) = w"
proof (rule bit_word_eqI)
  fix n assume "n < LENGTH(32)"
  then consider "n < 8" | "8 \<le> n \<and> n < 16" | "16 \<le> n \<and> n < 24" | "24 \<le> n \<and> n < 32"
    by fastforce
  then show "bit (be32_dec (ucast (drop_bit 24 w)) (ucast (drop_bit 16 w))
      (ucast (drop_bit 8 w)) (ucast w)) n \<longleftrightarrow> bit w n"
    by cases (auto simp: be32_dec_def bit_simps)
qed

lemma le16_dec_inj [codec_simps]:
  "ucast (drop_bit 8 (le16_dec a b)) = b" "ucast (le16_dec a b) = a"
  by (simp_all add: le16_dec_def codec_simps)

lemma le32_dec_inj [codec_simps]:
  "ucast (drop_bit 24 (le32_dec a b c d)) = d" "ucast (drop_bit 16 (le32_dec a b c d)) = c"
  "ucast (drop_bit 8 (le32_dec a b c d)) = b" "ucast (le32_dec a b c d) = a"
  by (simp_all add: le32_dec_def codec_simps)

lemma le16_dec_enc [codec_simps]: "le16_dec (ucast w) (ucast (drop_bit 8 w)) = w"
  by (simp add: le16_dec_def codec_simps)

lemma le32_dec_enc [codec_simps]:
  "le32_dec (ucast w) (ucast (drop_bit 8 w)) (ucast (drop_bit 16 w)) (ucast (drop_bit 24 w)) = w"
  by (simp add: le32_dec_def codec_simps)

lemma htons_htons [simp]: "htons (htons w) = w"
  by (simp add: htons_def codec_simps)

lemma htonl_htonl [simp]: "htonl (htonl w) = w"
  by (simp add: htonl_def codec_simps)

section \<open>Byte buffers\<close>

text \<open>
  \<open>ld_bytes p off n\<close> reads \<open>n\<close> bytes of a buffer, \<open>st_bytes p off src\<close> is
  \<open>memcpy (p + off, src, len)\<close>. Both are undefined (\<open>None\<close>) outside the allocated block.
\<close>

definition blit :: "nat \<Rightarrow> 'a list \<Rightarrow> 'a list \<Rightarrow> 'a list" where
  "blit off src dst = take off dst @ src @ drop (off + length src) dst"

definition ld_bytes :: "'a list \<Rightarrow> nat \<Rightarrow> nat \<Rightarrow> 'a list option" where
  "ld_bytes p off n = (if off + n \<le> length p then Some (take n (drop off p)) else None)"

definition st_bytes :: "'a list \<Rightarrow> nat \<Rightarrow> 'a list \<Rightarrow> 'a list option" where
  "st_bytes p off src = (if off + length src \<le> length p then Some (blit off src p) else None)"

lemma length_blit [buf_simps]: "off + length src \<le> length p \<Longrightarrow> length (blit off src p) = length p"
  by (simp add: blit_def)

lemma ld_bytes_Some [buf_simps]: "off + n \<le> length p \<Longrightarrow> ld_bytes p off n = Some (take n (drop off p))"
  by (simp add: ld_bytes_def)

lemma ld_bytes_None [buf_simps]: "length p < off + n \<Longrightarrow> ld_bytes p off n = None"
  by (simp add: ld_bytes_def)

lemma st_bytes_Some [buf_simps]:
  "off + length src \<le> length p \<Longrightarrow> st_bytes p off src = Some (blit off src p)"
  by (simp add: st_bytes_def)

lemma st_bytes_None [buf_simps]: "length p < off + length src \<Longrightarrow> st_bytes p off src = None"
  by (simp add: st_bytes_def)

lemma length_st_bytes: "st_bytes p off src = Some q \<Longrightarrow> length q = length p"
  by (auto simp: st_bytes_def length_blit split: if_splits)

lemma take_drop_blit_same [buf_simps]:
  "off + length src \<le> length p \<Longrightarrow> n = length src \<Longrightarrow> take n (drop off (blit off src p)) = src"
  by (simp add: blit_def)

lemma take_drop_blit_before [buf_simps]:
  "i + n \<le> off \<Longrightarrow> off + length src \<le> length p \<Longrightarrow>
     take n (drop i (blit off src p)) = take n (drop i p)"
  by (simp add: blit_def take_drop add.commute min_def)

lemma take_drop_blit_after [buf_simps]:
  "off + length src \<le> i \<Longrightarrow> off + length src \<le> length p \<Longrightarrow>
     take n (drop i (blit off src p)) = take n (drop i p)"
  by (simp add: blit_def add.commute)

lemma blit_blit_same [buf_simps]:
  "length a = length b \<Longrightarrow> off + length a \<le> length p \<Longrightarrow> blit off b (blit off a p) = blit off b p"
  by (simp add: blit_def)

lemma blit_take_drop_id [buf_simps]:
  "off + n \<le> length p \<Longrightarrow> blit off (take n (drop off p)) p = p"
  by (simp add: blit_def min_def) (metis add.commute append_take_drop_id drop_drop)

lemma blit_nth:
  "off + length src \<le> length p \<Longrightarrow> i < length p \<Longrightarrow>
     blit off src p ! i = (if off \<le> i \<and> i < off + length src then src ! (i - off) else p ! i)"
  by (auto simp: blit_def nth_append)

lemma length_1_conv: "length xs = Suc n \<longleftrightarrow> (\<exists>a ys. xs = a # ys \<and> length ys = n)"
  by (rule length_Suc_conv)

section \<open>Failing computations\<close>

lemma opt_bindE: "x \<bind> f = Some y \<Longrightarrow> (\<And>a. x = Some a \<Longrightarrow> f a = Some y \<Longrightarrow> P) \<Longrightarrow> P"
  by (cases x) simp_all

section \<open>Lists\<close>

text \<open>The loop \<open>list_for_each_entry\<close> with an early return: the first entry that matches.\<close>

lemma find_append: "List.find P (xs @ ys) =
    (case List.find P xs of None \<Rightarrow> List.find P ys | Some x \<Rightarrow> Some x)"
  by (induction xs) auto

lemma find_Some_split: "List.find P xs = Some x \<longleftrightarrow>
    (\<exists>us vs. xs = us @ x # vs \<and> P x \<and> (\<forall>u\<in>set us. \<not> P u))"
proof
  show "List.find P xs = Some x \<Longrightarrow>
      \<exists>us vs. xs = us @ x # vs \<and> P x \<and> (\<forall>u\<in>set us. \<not> P u)"
  proof (induction xs)
    case (Cons a xs)
    show ?case
    proof (cases "P a")
      case True
      with Cons.prems show ?thesis by (intro exI[of _ "[]"] exI[of _ xs]) auto
    next
      case False
      with Cons obtain us vs where "xs = us @ x # vs" "P x" "\<forall>u\<in>set us. \<not> P u" by auto
      with False show ?thesis by (intro exI[of _ "a # us"] exI[of _ vs]) auto
    qed
  qed simp
next
  assume "\<exists>us vs. xs = us @ x # vs \<and> P x \<and> (\<forall>u\<in>set us. \<not> P u)"
  then obtain us vs where xs: "xs = us @ x # vs" and "P x" and us: "\<forall>u\<in>set us. \<not> P u" by blast
  from us have "List.find P us = None" by (auto simp: find_None_iff)
  with xs \<open>P x\<close> show "List.find P xs = Some x" by (simp add: find_append)
qed

text \<open>Replacing the first entry that matches, in place.\<close>

fun upd_first :: "('a \<Rightarrow> bool) \<Rightarrow> ('a \<Rightarrow> 'a) \<Rightarrow> 'a list \<Rightarrow> 'a list" where
  "upd_first P f [] = []"
| "upd_first P f (x # xs) = (if P x then f x # xs else x # upd_first P f xs)"

lemma length_upd_first [simp]: "length (upd_first P f xs) = length xs"
  by (induction xs) auto

lemma upd_first_none [simp]: "\<forall>x\<in>set xs. \<not> P x \<Longrightarrow> upd_first P f xs = xs"
  by (induction xs) auto

lemma map_upd_first: "(\<And>x. P x \<Longrightarrow> g (f x) = g x) \<Longrightarrow> map g (upd_first P f xs) = map g xs"
  by (induction xs) auto

lemma set_upd_first: "set (upd_first P f xs) \<subseteq> set xs \<union> f ` {x \<in> set xs. P x}"
  by (induction xs) auto

end
