(* ===== verification/Linked_List.thy ===== *)
theory Linked_List
  imports Net_Prelude
begin

text \<open>
  \<open>include/list.h\<close> (prj14; prj04 to prj13 carry the same macros): the intrusive, circular,
  doubly linked list on which every table, queue and cache of the program is built.

  The operations are translated on an explicit store of list nodes, with NULL and freed nodes
  outside its domain. \<open>dll h head xs\<close> says that \<open>head\<close> is the pseudo node of a list holding the
  nodes \<open>xs\<close>. The refinement lemmas show that each operation is the expected one on \<open>xs\<close> and
  leaves every disjoint list alone; they are what allows the other theories to represent a
  \<open>struct list_head\<close> by a HOL list. They also show what a second deletion of the same node does.
\<close>

section \<open>Nodes and the store\<close>

type_synonym addr = nat

record list_head =
  ln_next :: addr
  ln_prev :: addr

type_synonym node_heap = "addr \<Rightarrow> list_head option"

definition set_next :: "node_heap \<Rightarrow> addr \<Rightarrow> addr \<Rightarrow> node_heap option" where
  "set_next h a v = map_option (\<lambda>n. h(a \<mapsto> n\<lparr>ln_next := v\<rparr>)) (h a)"

definition set_prev :: "node_heap \<Rightarrow> addr \<Rightarrow> addr \<Rightarrow> node_heap option" where
  "set_prev h a v = map_option (\<lambda>n. h(a \<mapsto> n\<lparr>ln_prev := v\<rparr>)) (h a)"

section \<open>The operations of list.h\<close>

definition list_empty :: "addr \<Rightarrow> node_heap \<Rightarrow> bool option" where
  "list_empty l h = map_option (\<lambda>n. ln_next n = l) (h l)"

definition init_list_head :: "addr \<Rightarrow> node_heap \<Rightarrow> node_heap option" where
  "init_list_head l h = do { h \<leftarrow> set_prev h l l; set_next h l l }"

definition list_insert :: "addr \<Rightarrow> addr \<Rightarrow> addr \<Rightarrow> node_heap \<Rightarrow> node_heap option" where
  "list_insert new prev next h = do {
     h \<leftarrow> set_prev h next new;
     h \<leftarrow> set_next h prev new;
     h \<leftarrow> set_next h new next;
     set_prev h new prev }"

definition list_add_head :: "addr \<Rightarrow> addr \<Rightarrow> node_heap \<Rightarrow> node_heap option" where
  "list_add_head new head h = do { n \<leftarrow> h head; list_insert new head (ln_next n) h }"

definition list_add_tail :: "addr \<Rightarrow> addr \<Rightarrow> node_heap \<Rightarrow> node_heap option" where
  "list_add_tail new head h = do { n \<leftarrow> h head; list_insert new (ln_prev n) head h }"

definition list_delete_entry :: "addr \<Rightarrow> node_heap \<Rightarrow> node_heap option" where
  "list_delete_entry entry h = do {
     n \<leftarrow> h entry;
     h \<leftarrow> set_prev h (ln_next n) (ln_prev n);
     n \<leftarrow> h entry;
     set_next h (ln_prev n) (ln_next n) }"

text \<open>
  The loop macros. \<open>list_for_each\<close> collects the nodes it visits from \<open>pos\<close> on;
  \<open>list_sweep\<close> is \<open>list_for_each_entry_safe\<close> with a body that deletes the nodes satisfying
  \<open>P\<close>, the successor \<open>q\<close> being read before the body runs. A walk that leaves the store or never
  comes back to the head has no result.
\<close>

partial_function (option) list_for_each :: "node_heap \<Rightarrow> addr \<Rightarrow> addr \<Rightarrow> addr list option" where
  "list_for_each h head pos =
     (if pos = head then Some []
      else do { n \<leftarrow> h pos; xs \<leftarrow> list_for_each h head (ln_next n); Some (pos # xs) })"

partial_function (option) list_sweep ::
    "(addr \<Rightarrow> bool) \<Rightarrow> addr \<Rightarrow> addr \<Rightarrow> addr \<Rightarrow> node_heap \<Rightarrow> node_heap option" where
  "list_sweep P head pos q h =
     (if pos = head then Some h
      else do {
        h \<leftarrow> (if P pos then list_delete_entry pos h else Some h);
        n \<leftarrow> h q;
        list_sweep P head q (ln_next n) h })"

section \<open>What the pointers represent\<close>

definition nx :: "node_heap \<Rightarrow> addr \<Rightarrow> addr option" where
  "nx h a = map_option ln_next (h a)"

definition pv :: "node_heap \<Rightarrow> addr \<Rightarrow> addr option" where
  "pv h a = map_option ln_prev (h a)"

definition linked :: "node_heap \<Rightarrow> addr \<Rightarrow> addr \<Rightarrow> bool" where
  "linked h a b \<longleftrightarrow> nx h a = Some b \<and> pv h b = Some a"

definition links :: "node_heap \<Rightarrow> addr list \<Rightarrow> bool" where
  "links h xs \<longleftrightarrow> successively (linked h) xs"

definition dll :: "node_heap \<Rightarrow> addr \<Rightarrow> addr list \<Rightarrow> bool" where
  "dll h head xs \<longleftrightarrow> distinct (head # xs) \<and> links h (head # xs @ [head])"

lemma links_simps [simp]:
  "links h []" "links h [x]" "links h (x # y # zs) \<longleftrightarrow> linked h x y \<and> links h (y # zs)"
  by (simp_all add: links_def)

lemma links_append: "links h (xs @ x # ys) \<longleftrightarrow> links h (xs @ [x]) \<and> links h (x # ys)"
  by (induction xs rule: induct_list012) (auto simp: links_def successively_append_iff successively_Cons)

lemma links_cong:
  assumes "\<And>a. a \<in> set (butlast xs) \<Longrightarrow> nx h' a = nx h a"
    and "\<And>b. b \<in> set (tl xs) \<Longrightarrow> pv h' b = pv h b"
  shows "links h' xs = links h xs"
  using assms
proof (induction xs rule: induct_list012)
  case (3 x y zs)
  have "links h' (y # zs) = links h (y # zs)"
    using "3.prems" by (intro "3.IH"(2)) (auto dest: list.set_sel(2)[rotated])
  moreover have "linked h' x y = linked h x y"
    using "3.prems" by (simp add: linked_def)
  ultimately show ?case by simp
qed auto

text \<open>A store update seen through \<open>nx\<close> and \<open>pv\<close>.\<close>

definition upd_to :: "node_heap \<Rightarrow> (addr \<Rightarrow> addr option) \<Rightarrow> (addr \<Rightarrow> addr option) \<Rightarrow> node_heap \<Rightarrow> bool" where
  "upd_to h n p h' \<longleftrightarrow> nx h' = n \<and> pv h' = p \<and> dom h' = dom h"

lemma set_next_upd: "a \<in> dom h \<Longrightarrow> \<exists>h'. set_next h a v = Some h' \<and> upd_to h ((nx h)(a \<mapsto> v)) (pv h) h'"
  by (fastforce simp: set_next_def upd_to_def nx_def pv_def)

lemma set_prev_upd: "a \<in> dom h \<Longrightarrow> \<exists>h'. set_prev h a v = Some h' \<and> upd_to h (nx h) ((pv h)(a \<mapsto> v)) h'"
  by (fastforce simp: set_prev_def upd_to_def nx_def pv_def)

lemma list_insert_upd:
  assumes "next \<in> dom h" "prev \<in> dom h" "new \<in> dom h"
  shows "\<exists>h'. list_insert new prev next h = Some h' \<and>
    upd_to h ((nx h)(prev \<mapsto> new, new \<mapsto> next)) ((pv h)(next \<mapsto> new, new \<mapsto> prev)) h'"
proof -
  obtain h1 where 1: "set_prev h next new = Some h1" "upd_to h (nx h) ((pv h)(next \<mapsto> new)) h1"
    using set_prev_upd[OF assms(1)] by blast
  have "prev \<in> dom h1" using 1 assms by (simp add: upd_to_def)
  from set_next_upd[OF this, of new] obtain h2 where 2: "set_next h1 prev new = Some h2"
      "upd_to h1 ((nx h1)(prev \<mapsto> new)) (pv h1) h2" by blast
  have "new \<in> dom h2" using 1 2 assms by (simp add: upd_to_def)
  from set_next_upd[OF this, of "next"] obtain h3 where 3: "set_next h2 new next = Some h3"
      "upd_to h2 ((nx h2)(new \<mapsto> next)) (pv h2) h3" by blast
  have "new \<in> dom h3" using 1 2 3 assms by (simp add: upd_to_def)
  from set_prev_upd[OF this, of prev] obtain h4 where 4: "set_prev h3 new prev = Some h4"
      "upd_to h3 (nx h3) ((pv h3)(new \<mapsto> prev)) h4" by blast
  from 1 2 3 4 show ?thesis by (simp add: list_insert_def upd_to_def)
qed

lemma nx_pv_SomeD: "nx h e = Some n \<Longrightarrow> pv h e = Some p \<Longrightarrow> h e = Some \<lparr>ln_next = n, ln_prev = p\<rparr>"
  by (auto simp: nx_def pv_def)

lemma cell_eqI: "nx h' a = nx h a \<Longrightarrow> pv h' a = pv h a \<Longrightarrow> h' a = h a"
  by (cases "h a"; cases "h' a") (auto simp: nx_def pv_def)

lemma list_delete_upd:
  assumes "nx h e = Some n" "pv h e = Some p" "n \<in> dom h" "p \<in> dom h"
  shows "\<exists>h'. list_delete_entry e h = Some h' \<and> upd_to h ((nx h)(p \<mapsto> n)) ((pv h)(n \<mapsto> p)) h'"
proof -
  from set_prev_upd[OF assms(3), of p] obtain h1
    where 1: "set_prev h n p = Some h1" "upd_to h (nx h) ((pv h)(n \<mapsto> p)) h1" by blast
  then have "nx h1 e = Some n" "pv h1 e = Some p" using assms by (auto simp: upd_to_def)
  then have e1: "h1 e = Some \<lparr>ln_next = n, ln_prev = p\<rparr>" by (rule nx_pv_SomeD)
  have "p \<in> dom h1" using 1 assms by (simp add: upd_to_def)
  from set_next_upd[OF this, of n] obtain h2 where 2: "set_next h1 p n = Some h2"
      "upd_to h1 ((nx h1)(p \<mapsto> n)) (pv h1) h2" by blast
  have "h e = Some \<lparr>ln_next = n, ln_prev = p\<rparr>" using assms by (intro nx_pv_SomeD)
  with e1 1 2 show ?thesis by (simp add: list_delete_entry_def upd_to_def)
qed

section \<open>Refinement: the operations on the represented list\<close>

text \<open>Lists whose nodes avoid \<open>S\<close> are untouched.\<close>

definition frame_ok :: "addr set \<Rightarrow> node_heap \<Rightarrow> node_heap \<Rightarrow> bool" where
  "frame_ok S h h' \<longleftrightarrow> (\<forall>g ys. dll h g ys \<longrightarrow> set (g # ys) \<inter> S = {} \<longrightarrow> dll h' g ys)"

lemma links_append_iff: "links h (xs @ ys) \<longleftrightarrow>
    links h xs \<and> links h ys \<and> (xs = [] \<or> ys = [] \<or> linked h (last xs) (hd ys))"
  by (auto simp: links_def successively_append_iff)

lemma linked_dom: "linked h a b \<Longrightarrow> a \<in> dom h \<and> b \<in> dom h"
  by (auto simp: linked_def nx_def pv_def)

lemma links_dom: "links h (x # y # zs) \<Longrightarrow> set (x # y # zs) \<subseteq> dom h"
  by (induction zs arbitrary: x y) (auto dest: linked_dom)

lemma dll_dom: "dll h head xs \<Longrightarrow> set (head # xs) \<subseteq> dom h"
proof -
  assume "dll h head xs"
  then have "links h (head # xs @ [head])" by (simp add: dll_def)
  moreover have "xs @ [head] = hd (xs @ [head]) # tl (xs @ [head])" by simp
  ultimately have "set (head # xs @ [head]) \<subseteq> dom h" using links_dom by metis
  then show ?thesis by auto
qed

lemma frame_okI:
  assumes "\<And>a. a \<notin> S \<Longrightarrow> nx h' a = nx h a" "\<And>a. a \<notin> S \<Longrightarrow> pv h' a = pv h a"
  shows "frame_ok S h h'"
proof -
  have "links h' (g # ys @ [g]) = links h (g # ys @ [g])" if "set (g # ys) \<inter> S = {}" for g ys
    using that assms by (intro links_cong) (auto simp: butlast_append split: if_splits)
  then show ?thesis by (simp add: frame_ok_def dll_def)
qed

lemma frame_ok_trans: "frame_ok S h h' \<Longrightarrow> frame_ok S h' h'' \<Longrightarrow> frame_ok S h h''"
  by (simp add: frame_ok_def)

lemma frame_ok_refl: "frame_ok S h h"
  by (simp add: frame_ok_def)

text \<open>The two neighbours at a cut of the circular list.\<close>

lemma dll_cut:
  "dll h head (ys @ zs) \<longleftrightarrow> distinct (head # ys @ zs) \<and> links h (head # ys) \<and> links h (zs @ [head])
     \<and> linked h (last (head # ys)) (hd (zs @ [head]))"
  using links_append_iff[of h "head # ys" "zs @ [head]"] by (auto simp: dll_def)

lemma cut_side_conds:
  assumes "distinct (head # ys @ zs)"
  shows "last (head # ys) \<notin> set (butlast (head # ys))" "last (head # ys) \<notin> set zs"
    "hd (zs @ [head]) \<notin> set ys" "hd (zs @ [head]) \<notin> set (tl (zs @ [head]))"
proof -
  show "last (head # ys) \<notin> set (butlast (head # ys))"
    using assms by (cases ys rule: rev_cases) (auto simp: butlast_append)
  show "last (head # ys) \<notin> set zs" using assms by (cases ys rule: rev_cases) auto
  show "hd (zs @ [head]) \<notin> set ys" using assms by (cases zs) auto
  show "hd (zs @ [head]) \<notin> set (tl (zs @ [head]))" using assms by (cases zs) auto
qed

lemma list_insert_dll:
  assumes "dll h head (ys @ zs)" "new \<in> dom h" "new \<notin> set (head # ys @ zs)"
  shows "\<exists>h'. list_insert new (last (head # ys)) (hd (zs @ [head])) h = Some h' \<and>
    dll h' head (ys @ new # zs) \<and> dom h' = dom h \<and> frame_ok (set (new # head # ys @ zs)) h h' \<and>
    (\<forall>a. a \<notin> set (new # head # ys @ zs) \<longrightarrow> h' a = h a)"
proof -
  let ?p = "last (head # ys)" and ?n = "hd (zs @ [head])"
  from assms(1) have d: "distinct (head # ys @ zs)" by (simp add: dll_cut)
  have in_p: "?p \<in> set (head # ys)" by (rule last_in_set) simp
  have in_n: "?n \<in> set (zs @ [head])" by (rule hd_in_set) simp
  have dm: "?p \<in> dom h" "?n \<in> dom h"
    using dll_dom[OF assms(1)] in_p in_n by auto
  from list_insert_upd[OF dm(2,1) assms(2)] obtain h'
    where h': "list_insert new ?p ?n h = Some h'"
      and u: "nx h' = (nx h)(?p \<mapsto> new, new \<mapsto> ?n)" "pv h' = (pv h)(?n \<mapsto> new, new \<mapsto> ?p)" "dom h' = dom h"
    by (auto simp: upd_to_def)
  have ne: "new \<noteq> ?p" "new \<noteq> ?n" using in_p in_n assms(3) by auto
  have "links h' (head # ys) = links h (head # ys)"
    using cut_side_conds[OF d] assms(3) by (intro links_cong) (auto simp: u dest: in_set_butlastD)
  moreover have "links h' (zs @ [head]) = links h (zs @ [head])"
    using cut_side_conds[OF d] assms(3) d
    by (intro links_cong) (auto simp: u butlast_append dest: list.set_sel(2)[rotated])
  moreover have "linked h' ?p new" "linked h' new ?n" using ne by (auto simp: u linked_def)
  moreover have "links h (head # ys)" "links h (zs @ [head])" using assms(1) by (simp_all add: dll_cut)
  ultimately have "links h' (head # ys @ new # zs @ [head])"
    using links_append_iff[of h' "head # ys" "new # zs @ [head]"]
      links_append_iff[of h' "[new]" "zs @ [head]"] by simp
  then have "dll h' head (ys @ new # zs)" using d assms(3) by (auto simp: dll_def)
  moreover have "frame_ok (set (new # head # ys @ zs)) h h'"
    using in_p in_n by (intro frame_okI) (auto simp: u)
  moreover have "h' a = h a" if "a \<notin> set (new # head # ys @ zs)" for a
    using that in_p in_n by (intro cell_eqI) (auto simp: u)
  ultimately show ?thesis using h' u by blast
qed

lemma list_delete_dll:
  assumes "dll h head (ys @ e # zs)"
  shows "\<exists>h'. list_delete_entry e h = Some h' \<and> dll h' head (ys @ zs) \<and> dom h' = dom h \<and>
    frame_ok (set (head # ys @ zs)) h h' \<and> h' e = h e"
proof -
  let ?p = "last (head # ys)" and ?n = "hd (zs @ [head])"
  have l: "links h ((head # ys) @ [e] @ (zs @ [head]))" and d: "distinct (head # ys @ e # zs)"
    using assms by (simp_all add: dll_def)
  then have L: "links h (head # ys)" "links h (zs @ [head])" "linked h ?p e" "linked h e ?n"
    unfolding links_append_iff by auto
  from d have d': "distinct (head # ys @ zs)" by auto
  have in_p: "?p \<in> set (head # ys)" by (rule last_in_set) simp
  have in_n: "?n \<in> set (zs @ [head])" by (rule hd_in_set) simp
  have ne: "e \<noteq> ?p" "e \<noteq> ?n" using in_p in_n d by auto
  have "nx h e = Some ?n" "pv h e = Some ?p" "?n \<in> dom h" "?p \<in> dom h"
    using linked_dom[OF L(3)] linked_dom[OF L(4)] L(3,4) by (auto simp: linked_def simp del: last.simps)
  from list_delete_upd[OF this] obtain h' where h': "list_delete_entry e h = Some h'"
      and u: "nx h' = (nx h)(?p \<mapsto> ?n)" "pv h' = (pv h)(?n \<mapsto> ?p)" "dom h' = dom h"
    by (auto simp: upd_to_def)
  have "links h' (head # ys) = links h (head # ys)"
    using cut_side_conds[OF d'] by (intro links_cong) (auto simp: u)
  moreover have "links h' (zs @ [head]) = links h (zs @ [head])"
    using cut_side_conds[OF d'] by (intro links_cong) (auto simp: u butlast_append)
  moreover have "linked h' ?p ?n" by (simp add: u linked_def)
  ultimately have "dll h' head (ys @ zs)" using L d' by (simp add: dll_cut)
  moreover have "frame_ok (set (head # ys @ zs)) h h'"
    using in_p in_n by (intro frame_okI) (auto simp: u)
  moreover have "h' e = h e"
  proof -
    have "nx h' e = nx h e" "pv h' e = pv h e" using ne by (auto simp: u)
    with L(3,4) show ?thesis
      by (metis linked_def nx_pv_SomeD)
  qed
  ultimately show ?thesis using h' u by blast
qed

lemma dll_head_Some: "dll h head xs \<Longrightarrow> \<exists>n. h head = Some n \<and> ln_next n = hd (xs @ [head]) \<and>
    ln_prev n = last (head # xs)"
proof -
  assume d: "dll h head xs"
  then have "linked h head (hd (xs @ [head]))" using dll_cut[of h head "[]" xs] by simp
  moreover have "linked h (last (head # xs)) head" using d dll_cut[of h head xs "[]"] by simp
  ultimately show ?thesis by (auto simp: linked_def nx_def pv_def)
qed

lemma list_add_tail_dll:
  assumes "dll h head xs" "new \<in> dom h" "new \<notin> set (head # xs)"
  shows "\<exists>h'. list_add_tail new head h = Some h' \<and> dll h' head (xs @ [new]) \<and> dom h' = dom h \<and>
    frame_ok (set (new # head # xs)) h h' \<and> (\<forall>a. a \<notin> set (new # head # xs) \<longrightarrow> h' a = h a)"
proof -
  from dll_head_Some[OF assms(1)] obtain n where "h head = Some n" "ln_prev n = last (head # xs)" by blast
  with list_insert_dll[of h head xs "[]" new] assms show ?thesis
    by (simp add: list_add_tail_def)
qed

lemma list_add_head_dll:
  assumes "dll h head xs" "new \<in> dom h" "new \<notin> set (head # xs)"
  shows "\<exists>h'. list_add_head new head h = Some h' \<and> dll h' head (new # xs) \<and> dom h' = dom h \<and>
    frame_ok (set (new # head # xs)) h h'"
proof -
  from dll_head_Some[OF assms(1)] obtain n where "h head = Some n" "ln_next n = hd (xs @ [head])" by blast
  with list_insert_dll[of h head "[]" xs new] assms show ?thesis
    by (auto simp: list_add_head_def)
qed

lemma init_list_head_dll: "l \<in> dom h \<Longrightarrow> \<exists>h'. init_list_head l h = Some h' \<and> dll h' l []"
  by (auto simp: init_list_head_def set_prev_def set_next_def dll_def linked_def nx_def pv_def)

lemma list_empty_dll: "dll h head xs \<Longrightarrow> list_empty head h = Some (xs = [])"
  using dll_head_Some[of h head xs] by (cases xs) (auto simp: list_empty_def dll_def)

lemma list_for_each_links:
  "links h (zs @ [head]) \<Longrightarrow> head \<notin> set zs \<Longrightarrow> list_for_each h head (hd (zs @ [head])) = Some zs"
proof (induction zs)
  case Nil
  then show ?case by (simp add: list_for_each.simps)
next
  case (Cons z zs)
  then have "linked h z (hd (zs @ [head]))" "links h (zs @ [head])"
    using links_append_iff[of h "[z]" "zs @ [head]"] by auto
  with Cons show ?case by (subst list_for_each.simps) (auto simp: linked_def nx_def)
qed

lemma list_for_each_dll:
  "dll h head xs \<Longrightarrow> h head = Some n \<Longrightarrow> list_for_each h head (ln_next n) = Some xs"
  using dll_head_Some[of h head xs] list_for_each_links[of h xs head] dll_cut[of h head "[]" xs] by auto

lemma list_sweep_dll:
  assumes "dll h head (us @ zs)" "zs \<noteq> [] \<Longrightarrow> q = hd (tl zs @ [head])"
  shows "\<exists>h'. list_sweep P head (hd (zs @ [head])) q h = Some h' \<and>
    dll h' head (us @ filter (\<lambda>z. \<not> P z) zs) \<and> frame_ok (set (head # us @ zs)) h h'"
  using assms
proof (induction zs arbitrary: us h q)
  case Nil
  then show ?case by (simp add: list_sweep.simps frame_ok_refl)
next
  case (Cons z zs)
  have zh: "z \<noteq> head" using Cons.prems(1) by (auto simp: dll_def)
  define us' where "us' = (if P z then us else us @ [z])"
  have "\<exists>h1. (if P z then list_delete_entry z h else Some h) = Some h1 \<and> dll h1 head (us' @ zs) \<and>
      frame_ok (set (head # us @ z # zs)) h h1"
    using list_delete_dll[OF Cons.prems(1)] Cons.prems(1)
    by (fastforce simp: us'_def frame_ok_def)
  then obtain h1 where h1: "(if P z then list_delete_entry z h else Some h) = Some h1"
    "dll h1 head (us' @ zs)" "frame_ok (set (head # us @ z # zs)) h h1" by blast
  let ?q = "hd (zs @ [head])"
  have "?q \<in> set (head # us' @ zs)" by (cases zs) auto
  with dll_dom[OF h1(2)] obtain n where n: "h1 ?q = Some n" by blast
  have "ln_next n = hd (tl zs @ [head])" if "zs \<noteq> []"
  proof -
    from that obtain y ys where zs: "zs = y # ys" by (cases zs) auto
    with h1(2) have "linked h1 y (hd (ys @ [head]))" using dll_cut[of h1 head "us' @ [y]" ys] by simp
    with n zs show ?thesis by (auto simp: linked_def nx_def)
  qed
  from Cons.IH[OF h1(2) this] obtain h' where h':
    "list_sweep P head ?q (ln_next n) h1 = Some h'" "dll h' head (us' @ filter (\<lambda>z. \<not> P z) zs)"
    "frame_ok (set (head # us' @ zs)) h1 h'" by blast
  have "list_sweep P head z q h = Some h'"
    using h1(1) h'(1) n zh Cons.prems(2) by (subst list_sweep.simps) auto
  moreover have "frame_ok (set (head # us @ z # zs)) h1 h'"
    using h'(3) by (fastforce simp: frame_ok_def us'_def split: if_splits)
  ultimately show ?case using h'(2) h1(3) frame_ok_trans by (auto simp: us'_def)
qed

section \<open>The list interface\<close>

text \<open>
  What the users of the list rely on. \<open>rep h l xs\<close>: the list with head \<open>l\<close> holds \<open>xs\<close>.
  Moving a node from one list to another is how \<open>tcp_sock_accept_enqueue\<close> promotes a
  connection and how \<open>arpcache_sweep\<close> collects the packets it gives up on.
\<close>

locale intrusive_list =
  fixes rep :: "'h \<Rightarrow> 'n \<Rightarrow> 'n list \<Rightarrow> bool"
    and live :: "'h \<Rightarrow> 'n set"
    and add_tail :: "'n \<Rightarrow> 'n \<Rightarrow> 'h \<Rightarrow> 'h option"
    and del :: "'n \<Rightarrow> 'h \<Rightarrow> 'h option"
  assumes rep_distinct: "rep h l xs \<Longrightarrow> distinct (l # xs) \<and> set (l # xs) \<subseteq> live h"
    and add_tail_law: "rep h l xs \<Longrightarrow> new \<in> live h \<Longrightarrow> new \<notin> set (l # xs) \<Longrightarrow>
      \<exists>h'. add_tail new l h = Some h' \<and> rep h' l (xs @ [new]) \<and> live h' = live h \<and>
        (\<forall>g ys. rep h g ys \<longrightarrow> set (g # ys) \<inter> set (new # l # xs) = {} \<longrightarrow> rep h' g ys)"
    and del_law: "rep h l (us @ e # vs) \<Longrightarrow>
      \<exists>h'. del e h = Some h' \<and> rep h' l (us @ vs) \<and> live h' = live h \<and>
        (\<forall>g ys. rep h g ys \<longrightarrow> set (g # ys) \<inter> set (l # us @ vs) = {} \<longrightarrow> rep h' g ys)"
begin

lemma move_to_tail:
  assumes l: "rep h l (us @ e # vs)" and g: "rep h g ys"
    and disj: "set (g # ys) \<inter> set (l # us @ e # vs) = {}"
  shows "\<exists>h'. Option.bind (del e h) (add_tail e g) = Some h' \<and> rep h' l (us @ vs) \<and> rep h' g (ys @ [e])"
proof -
  from del_law[OF l] obtain h1 where h1: "del e h = Some h1" "rep h1 l (us @ vs)" "live h1 = live h"
    "\<forall>g ys. rep h g ys \<longrightarrow> set (g # ys) \<inter> set (l # us @ vs) = {} \<longrightarrow> rep h1 g ys" by blast
  from disj have "set (g # ys) \<inter> set (l # us @ vs) = {}" by auto
  with h1(4) g have g1: "rep h1 g ys" by blast
  have e: "e \<in> live h1" "e \<notin> set (g # ys)" using rep_distinct[OF l] h1(3) disj by auto
  from add_tail_law[OF g1 e] obtain h2 where h2: "add_tail e g h1 = Some h2" "rep h2 g (ys @ [e])"
    "\<forall>k zs. rep h1 k zs \<longrightarrow> set (k # zs) \<inter> set (e # g # ys) = {} \<longrightarrow> rep h2 k zs" by blast
  have "set (l # us @ vs) \<inter> set (e # g # ys) = {}" using rep_distinct[OF l] disj by auto
  with h2(3) h1(2) have "rep h2 l (us @ vs)" by blast
  with h1(1) h2 show ?thesis by auto
qed

end

interpretation c_list: intrusive_list dll dom list_add_tail list_delete_entry
proof unfold_locales
  show "dll h l xs \<Longrightarrow> distinct (l # xs) \<and> set (l # xs) \<subseteq> dom h" for h l xs
    using dll_dom[of h l xs] by (simp add: dll_def)
  show "dll h l xs \<Longrightarrow> new \<in> dom h \<Longrightarrow> new \<notin> set (l # xs) \<Longrightarrow>
      \<exists>h'. list_add_tail new l h = Some h' \<and> dll h' l (xs @ [new]) \<and> dom h' = dom h \<and>
        (\<forall>g ys. dll h g ys \<longrightarrow> set (g # ys) \<inter> set (new # l # xs) = {} \<longrightarrow> dll h' g ys)" for h l xs new
    using list_add_tail_dll[of h l xs new] unfolding frame_ok_def by auto
  show "dll h l (us @ e # vs) \<Longrightarrow>
      \<exists>h'. list_delete_entry e h = Some h' \<and> dll h' l (us @ vs) \<and> dom h' = dom h \<and>
        (\<forall>g ys. dll h g ys \<longrightarrow> set (g # ys) \<inter> set (l # us @ vs) = {} \<longrightarrow> dll h' g ys)" for h l us e vs
    using list_delete_dll unfolding frame_ok_def by blast
qed

section \<open>Properties\<close>

text \<open>Property C26. A \<open>list_for_each_entry_safe\<close> loop whose body deletes the entries satisfying
  \<open>P\<close> comes to an end without touching invalid memory, leaves exactly the other entries in their
  order, and does not disturb any disjoint list.\<close>

theorem sweep_is_filter:
  assumes "dll h head xs" "h head = Some n" "h (ln_next n) = Some m"
  shows "\<exists>h'. list_sweep P head (ln_next n) (ln_next m) h = Some h' \<and>
    dll h' head (filter (\<lambda>x. \<not> P x) xs) \<and>
    (\<forall>g ys. dll h g ys \<longrightarrow> set (g # ys) \<inter> set (head # xs) = {} \<longrightarrow> dll h' g ys)"
proof -
  have n: "ln_next n = hd (xs @ [head])" using dll_head_Some[OF assms(1)] assms(2) by auto
  have "ln_next m = hd (tl xs @ [head])" if "xs \<noteq> []"
  proof -
    from that obtain y ys where xs: "xs = y # ys" by (cases xs) auto
    with assms(1) have "linked h y (hd (ys @ [head]))" using dll_cut[of h head "[y]" ys] by simp
    with assms(3) n xs show ?thesis by (auto simp: linked_def nx_def)
  qed
  with list_sweep_dll[of h head "[]" xs "ln_next m" P] assms(1) n show ?thesis
    by (auto simp: frame_ok_def)
qed

definition two_node_heap :: node_heap where
  "two_node_heap = [1 \<mapsto> \<lparr>ln_next = 2, ln_prev = 2\<rparr>, 2 \<mapsto> \<lparr>ln_next = 1, ln_prev = 1\<rparr>,
     3 \<mapsto> \<lparr>ln_next = 3, ln_prev = 3\<rparr>, 4 \<mapsto> \<lparr>ln_next = 0, ln_prev = 0\<rparr>]"

lemma two_node_heap_dll: "dll two_node_heap 1 [2]" "dll two_node_heap 3 []"
  by (simp_all add: dll_def linked_def nx_def pv_def two_node_heap_def)

theorem sweep_is_filter_witness:
  "\<exists>h'. list_sweep (\<lambda>a. a = 2) 1 2 1 two_node_heap = Some h' \<and> dll h' 1 []"
  using sweep_is_filter[OF two_node_heap_dll(1), of "\<lparr>ln_next = 2, ln_prev = 2\<rparr>"
      "\<lparr>ln_next = 1, ln_prev = 1\<rparr>" "\<lambda>a. a = 2"]
  by (auto simp: two_node_heap_def)

text \<open>Deleting a node and appending it to a disjoint list (the promotion of a
  connection to the accept queue, the collection of undeliverable packets) moves exactly that
  node.\<close>

theorem delete_then_add_tail_moves:
  assumes "dll h l (us @ e # vs)" "dll h g ys" "set (g # ys) \<inter> set (l # us @ e # vs) = {}"
  shows "\<exists>h'. Option.bind (list_delete_entry e h) (list_add_tail e g) = Some h' \<and>
    dll h' l (us @ vs) \<and> dll h' g (ys @ [e])"
  using assms by (rule c_list.move_to_tail)

theorem delete_then_add_tail_moves_witness:
  "\<exists>h'. Option.bind (list_delete_entry 2 two_node_heap) (list_add_tail 2 3) = Some h' \<and>
    dll h' 1 [] \<and> dll h' 3 [2]"
  using delete_then_add_tail_moves[of two_node_heap 1 "[]" 2 "[]" 3 "[]"] two_node_heap_dll by simp

text \<open>\<open>list_delete_entry\<close> does not reset the deleted node, so \<open>list_empty\<close> of it
  stays false and a second deletion goes through: if another node has entered the list in the
  meantime, the second deletion throws that node out of the list.\<close>

theorem second_delete_drops_newcomer:
  assumes d: "dll h head [e]" and new: "new \<in> dom h" "new \<notin> {head, e}"
  shows "\<exists>h1 h2 h3. list_delete_entry e h = Some h1 \<and> list_empty e h1 = Some False \<and>
    list_add_tail new head h1 = Some h2 \<and> dll h2 head [new] \<and>
    list_delete_entry e h2 = Some h3 \<and> dll h3 head []"
proof -
  have he: "head \<noteq> e" and l: "linked h head e" "linked h e head"
    using d by (auto simp: dll_def)
  from list_delete_dll[of h head "[]" e "[]"] d obtain h1
    where h1: "list_delete_entry e h = Some h1" "dll h1 head []" "dom h1 = dom h" "h1 e = h e" by auto
  from list_add_tail_dll[OF h1(2), of new] h1(3) new obtain h2
    where h2: "list_add_tail new head h1 = Some h2" "dll h2 head [new]" "dom h2 = dom h"
      "h2 e = h1 e" using he by auto
  have e2: "nx h2 e = Some head" "pv h2 e = Some head"
    using l h1(4) h2(4) by (auto simp: linked_def nx_def pv_def)
  have "head \<in> dom h2" using dll_dom[OF h2(2)] by simp
  from list_delete_upd[OF e2 this this] obtain h3 where h3: "list_delete_entry e h2 = Some h3"
    "nx h3 head = Some head" "pv h3 head = Some head" by (auto simp: upd_to_def)
  have "list_empty e h1 = Some False"
    using l(2) h1(4) he by (auto simp: list_empty_def linked_def nx_def)
  with h1 h2 h3 show ?thesis by (auto simp: dll_def linked_def)
qed

theorem second_delete_drops_newcomer_witness:
  "\<exists>h1 h2 h3. list_delete_entry 2 two_node_heap = Some h1 \<and> list_empty 2 h1 = Some False \<and>
    list_add_tail 4 1 h1 = Some h2 \<and> dll h2 1 [4] \<and> list_delete_entry 2 h2 = Some h3 \<and> dll h3 1 []"
  using second_delete_drops_newcomer[OF two_node_heap_dll(1), of 4] by (simp add: two_node_heap_def)

end
