(* ===== verification/Ring_Buffer.thy ===== *)
theory Ring_Buffer
  imports Net_Prelude
begin

text \<open>
  \<open>include/ring_buffer.h\<close> (prj14): the byte ring in which a socket keeps received data between
  \<open>tcp_process\<close> (the writer) and \<open>tcp_sock_read\<close> (the reader). The fields and the two-piece
  \<open>memcpy\<close> are those of the code; \<open>rb_contents\<close> is the byte queue they represent, and the
  \<open>byte_stream\<close> interface is what the TCP theories use.
\<close>

record ring_buffer =
  rb_size :: int
  rb_head :: int
  rb_tail :: int
  rb_buf :: bytes

definition alloc_ring_buffer :: "int \<Rightarrow> ring_buffer" where
  "alloc_ring_buffer sz =
     \<lparr>rb_size = sz + 1, rb_head = 0, rb_tail = 0, rb_buf = replicate (nat (sz + 1)) 0\<rparr>"

definition ring_buffer_used :: "ring_buffer \<Rightarrow> int" where
  "ring_buffer_used rb = (rb_tail rb - rb_head rb + rb_size rb) mod rb_size rb"

definition ring_buffer_free :: "ring_buffer \<Rightarrow> int" where
  "ring_buffer_free rb = rb_size rb - ring_buffer_used rb - 1"

definition ring_buffer_empty :: "ring_buffer \<Rightarrow> bool" where
  "ring_buffer_empty rb \<longleftrightarrow> ring_buffer_used rb = 0"

definition ring_buffer_full :: "ring_buffer \<Rightarrow> bool" where
  "ring_buffer_full rb \<longleftrightarrow> ring_buffer_free rb = 0"

text \<open>The bytes copied out (their number is the return value) and the advanced ring.\<close>

definition read_ring_buffer :: "ring_buffer \<Rightarrow> int \<Rightarrow> (bytes \<times> ring_buffer) option" where
  "read_ring_buffer rb sz =
     (let len = min (ring_buffer_used rb) sz in
      if len > 0 then
        do { bs \<leftarrow> (if rb_head rb + len > rb_size rb then
                     let right = rb_size rb - rb_head rb; left = len - right in
                     do { a \<leftarrow> ld_bytes (rb_buf rb) (nat (rb_head rb)) (nat right);
                          b \<leftarrow> ld_bytes (rb_buf rb) 0 (nat left);
                          Some (a @ b) }
                   else ld_bytes (rb_buf rb) (nat (rb_head rb)) (nat len));
             Some (bs, rb\<lparr>rb_head := (rb_head rb + len) mod rb_size rb\<rparr>) }
      else Some ([], rb))"

text \<open>The \<open>assert\<close> at the entry is a failure of the whole operation.\<close>

definition write_ring_buffer :: "ring_buffer \<Rightarrow> bytes \<Rightarrow> ring_buffer option" where
  "write_ring_buffer rb src =
     (let len = int (length src) in
      if \<not> (len > 0 \<and> ring_buffer_free rb \<ge> len) then None
      else do {
        buf \<leftarrow> (if rb_tail rb + len > rb_size rb then
                  let right = rb_size rb - rb_tail rb in
                  do { b \<leftarrow> st_bytes (rb_buf rb) (nat (rb_tail rb)) (take (nat right) src);
                       st_bytes b 0 (drop (nat right) src) }
                else st_bytes (rb_buf rb) (nat (rb_tail rb)) src);
        Some (rb\<lparr>rb_buf := buf, rb_tail := (rb_tail rb + len) mod rb_size rb\<rparr>) })"

section \<open>The represented queue\<close>

definition rb_inv :: "ring_buffer \<Rightarrow> bool" where
  "rb_inv rb \<longleftrightarrow> 0 \<le> rb_head rb \<and> rb_head rb < rb_size rb \<and> 0 \<le> rb_tail rb \<and> rb_tail rb < rb_size rb
     \<and> int (length (rb_buf rb)) = rb_size rb"

definition rb_contents :: "ring_buffer \<Rightarrow> bytes" where
  "rb_contents rb =
     map (\<lambda>i. rb_buf rb ! ((nat (rb_head rb) + i) mod nat (rb_size rb))) [0..<nat (ring_buffer_used rb)]"

lemma length_rb_contents [simp]: "length (rb_contents rb) = nat (ring_buffer_used rb)"
  by (simp add: rb_contents_def)

lemma rb_inv_alloc: "0 \<le> sz \<Longrightarrow> rb_inv (alloc_ring_buffer sz)"
  by (simp add: rb_inv_def alloc_ring_buffer_def)

lemma rb_contents_alloc: "rb_contents (alloc_ring_buffer sz) = []"
  by (simp add: rb_contents_def ring_buffer_used_def alloc_ring_buffer_def)

lemma used_bounds: "rb_inv rb \<Longrightarrow> 0 \<le> ring_buffer_used rb \<and> ring_buffer_used rb < rb_size rb"
  by (simp add: rb_inv_def ring_buffer_used_def)

text \<open>The indices as natural numbers: sz, head, number of bytes held.\<close>

lemma rb_nat_view:
  assumes "rb_inv rb"
  obtains S h u where "rb_size rb = int S" "rb_head rb = int h" "ring_buffer_used rb = int u"
    "rb_tail rb = int ((h + u) mod S)" "h < S" "u < S" "length (rb_buf rb) = S"
proof -
  let ?S = "nat (rb_size rb)" and ?h = "nat (rb_head rb)" and ?u = "nat (ring_buffer_used rb)"
  have "rb_tail rb = (rb_head rb + ring_buffer_used rb) mod rb_size rb"
    using assms by (simp add: rb_inv_def ring_buffer_used_def mod_add_right_eq)
  then have "rb_tail rb = int ((?h + ?u) mod ?S)"
    using assms used_bounds[OF assms] by (simp add: rb_inv_def zmod_int)
  with assms used_bounds[OF assms] show thesis by (intro that[of ?S ?h ?u]) (auto simp: rb_inv_def)
qed

lemma int_mod_diff_used: "h < S \<Longrightarrow> u < S \<Longrightarrow> (int ((h + u) mod S) - int h + int S) mod int S = int u"
proof -
  assume "h < S" "u < S"
  have "(int ((h + u) mod S) - int h + int S) mod int S = (int h + int u - int h) mod int S"
    by (simp add: zmod_int mod_diff_left_eq)
  with \<open>u < S\<close> show ?thesis by simp
qed

lemma take_drop_wrap:
  assumes "h < S" "len \<le> S" "length buf = S" "h + len > S"
  shows "map (\<lambda>i. buf ! ((h + i) mod S)) [0..<len] = drop h buf @ take (len - (S - h)) buf"
proof (rule nth_equalityI)
  show "length (map (\<lambda>i. buf ! ((h + i) mod S)) [0..<len]) = length (drop h buf @ take (len - (S - h)) buf)"
    using assms by simp
  fix i assume "i < length (map (\<lambda>i. buf ! ((h + i) mod S)) [0..<len])"
  then have "i < len" by simp
  have "(h + i) mod S = (if h + i < S then h + i else h + i - S)"
    using assms \<open>i < len\<close> by (simp add: mod_if)
  with assms \<open>i < len\<close> show "map (\<lambda>i. buf ! ((h + i) mod S)) [0..<len] ! i =
      (drop h buf @ take (len - (S - h)) buf) ! i"
    by (auto simp: nth_append add.commute)
qed

lemma take_drop_nowrap:
  assumes "h < S" "length buf = S" "h + len \<le> S"
  shows "map (\<lambda>i. buf ! ((h + i) mod S)) [0..<len] = take len (drop h buf)"
  using assms by (intro nth_equalityI) auto

lemma read_ring_buffer_spec:
  assumes inv: "rb_inv rb"
  shows "\<exists>rb'. read_ring_buffer rb sz = Some (take (nat sz) (rb_contents rb), rb') \<and> rb_inv rb' \<and>
    rb_contents rb' = drop (nat sz) (rb_contents rb) \<and> rb_size rb' = rb_size rb"
proof -
  obtain S h u where v: "rb_size rb = int S" "rb_head rb = int h" "ring_buffer_used rb = int u"
    "rb_tail rb = int ((h + u) mod S)" "h < S" "u < S" "length (rb_buf rb) = S"
    using rb_nat_view[OF inv] .
  let ?c = "\<lambda>i. rb_buf rb ! ((h + i) mod S)"
  have con: "rb_contents rb = map ?c [0..<u]" using v by (simp add: rb_contents_def)
  define len where "len = min u (nat sz)"
  have len: "len \<le> u" "len < S" using v by (auto simp: len_def)
  show ?thesis
  proof (cases "len = 0")
    case True
    then have "min (int u) sz \<le> 0" by (auto simp: len_def)
    have "nat sz = 0 \<or> rb_contents rb = []"
      using True v con by (auto simp: len_def min_def split: if_splits)
    then have "take (nat sz) (rb_contents rb) = []" "drop (nat sz) (rb_contents rb) = rb_contents rb"
      by auto
    moreover have "read_ring_buffer rb sz = Some ([], rb)"
      using \<open>min (int u) sz \<le> 0\<close> v by (auto simp: read_ring_buffer_def Let_def min_le_iff_disj)
    ultimately show ?thesis using inv by auto
  next
    case False
    then have il: "min (int u) sz = int len" by (auto simp: len_def)
    have "map ?c [0..<len] = (if h + len > S then drop h (rb_buf rb) @ take (len - (S - h)) (rb_buf rb)
        else take len (drop h (rb_buf rb)))"
      using take_drop_wrap[of h S len "rb_buf rb"] take_drop_nowrap[of h S "rb_buf rb" len] v len by auto
    then have "read_ring_buffer rb sz = Some (map ?c [0..<len],
        rb\<lparr>rb_head := int ((h + len) mod S)\<rparr>)"
      using v len False unfolding read_ring_buffer_def
      by (auto simp: il Let_def buf_simps nat_diff_distrib zmod_int simp flip: of_nat_add)
    moreover have "take (nat sz) (rb_contents rb) = map ?c [0..<len]"
      by (cases "nat sz \<le> u") (auto simp: con take_map len_def take_upt min_def)
    moreover have ru: "ring_buffer_used (rb\<lparr>rb_head := int ((h + len) mod S)\<rparr>) = int (u - len)"
    proof -
      have "(h + u) mod S = ((h + len) mod S + (u - len)) mod S" using len mod_add_left_eq[of "h + len" S "u - len"] by simp
      then show ?thesis using int_mod_diff_used[of "(h + len) mod S" S "u - len"] v len
        by (simp add: ring_buffer_used_def)
    qed
    moreover have "rb_contents (rb\<lparr>rb_head := int ((h + len) mod S)\<rparr>) = drop (nat sz) (rb_contents rb)"
    proof -
      have "rb_contents (rb\<lparr>rb_head := int ((h + len) mod S)\<rparr>) = map (\<lambda>i. ?c (len + i)) [0..<u - len]"
        using v ru by (simp add: rb_contents_def mod_add_left_eq add.assoc)
      also have "\<dots> = drop len (map ?c [0..<u])" by (rule nth_equalityI) (use len in auto)
      also have "\<dots> = drop (nat sz) (map ?c [0..<u])" by (auto simp: len_def min_def)
      finally show ?thesis by (simp add: con)
    qed
    moreover have "rb_inv (rb\<lparr>rb_head := int ((h + len) mod S)\<rparr>)" using inv v by (simp add: rb_inv_def)
    ultimately show ?thesis by auto
  qed
qed

text \<open>What the two-piece copy leaves in the buffer, position by position.\<close>

definition ring_store :: "nat \<Rightarrow> bytes \<Rightarrow> bytes \<Rightarrow> bytes" where
  "ring_store t src buf =
     (if t + length src > length buf
      then blit 0 (drop (length buf - t) src) (blit t (take (length buf - t) src) buf)
      else blit t src buf)"

lemma length_ring_store: "t < length buf \<Longrightarrow> length src < length buf \<Longrightarrow>
    length (ring_store t src buf) = length buf"
  by (auto simp: ring_store_def buf_simps)

lemma ring_store_nth:
  assumes "t < length buf" "length src < length buf" "k < length buf"
  shows "ring_store t src buf ! k =
    (if t \<le> k \<and> k < t + length src then src ! (k - t)
     else if k + length buf < t + length src then src ! (k + length buf - t)
     else buf ! k)"
proof (cases "t + length src > length buf")
  case True
  let ?r = "length buf - t"
  have "ring_store t src buf ! k = (if k < length src - ?r then drop ?r src ! k
      else blit t (take ?r src) buf ! k)"
    using True assms by (simp add: ring_store_def blit_nth buf_simps)
  also have "blit t (take ?r src) buf ! k = (if t \<le> k then src ! (k - t) else buf ! k)"
    using True assms by (auto simp: blit_nth)
  finally show ?thesis using True assms by (auto simp: algebra_simps)
next
  case False
  then show ?thesis using assms by (auto simp: ring_store_def blit_nth)
qed

lemma ring_store_written:
  assumes "t < length buf" "length src < length buf" "j < length src"
  shows "ring_store t src buf ! ((t + j) mod length buf) = src ! j"
proof -
  have "(t + j) mod length buf = (if t + j < length buf then t + j else t + j - length buf)"
    using assms by (simp add: mod_if)
  with assms show ?thesis by (auto simp: ring_store_nth)
qed

lemma ring_store_kept:
  assumes "h < S" "u + length src < S" "length buf = S" "i < u"
  shows "ring_store ((h + u) mod S) src buf ! ((h + i) mod S) = buf ! ((h + i) mod S)"
proof -
  have "(h + u) mod S = (if h + u < S then h + u else h + u - S)"
    "(h + i) mod S = (if h + i < S then h + i else h + i - S)"
    using assms by (simp_all add: mod_if)
  with assms show ?thesis by (auto simp: ring_store_nth)
qed

lemma write_ring_buffer_store:
  assumes inv: "rb_inv rb" and fit: "src \<noteq> []" "int (length src) \<le> ring_buffer_free rb"
  shows "write_ring_buffer rb src = Some (rb\<lparr>rb_buf := ring_store (nat (rb_tail rb)) src (rb_buf rb),
    rb_tail := (rb_tail rb + int (length src)) mod rb_size rb\<rparr>)"
proof -
  have "0 \<le> ring_buffer_used rb" using used_bounds[OF inv] by simp
  then have len: "int (length src) < rb_size rb" using fit by (simp add: ring_buffer_free_def)
  have "nat (rb_size rb) = length (rb_buf rb)" using inv by (simp add: rb_inv_def nat_eq_iff)
  then show ?thesis
    using inv fit len unfolding write_ring_buffer_def ring_store_def rb_inv_def
    by (auto simp: Let_def buf_simps nat_diff_distrib)
qed

lemma write_ring_buffer_spec:
  assumes inv: "rb_inv rb" and fit: "src \<noteq> []" "int (length src) \<le> ring_buffer_free rb"
  shows "\<exists>rb'. write_ring_buffer rb src = Some rb' \<and> rb_inv rb' \<and>
    rb_contents rb' = rb_contents rb @ src \<and> rb_size rb' = rb_size rb"
proof -
  obtain S h u where v: "rb_size rb = int S" "rb_head rb = int h" "ring_buffer_used rb = int u"
    "rb_tail rb = int ((h + u) mod S)" "h < S" "u < S" "length (rb_buf rb) = S"
    using rb_nat_view[OF inv] .
  let ?n = "length src" and ?t = "(h + u) mod S"
  let ?rb = "rb\<lparr>rb_buf := ring_store ?t src (rb_buf rb), rb_tail := int ((?t + ?n) mod S)\<rparr>"
  have n: "u + ?n < S" using fit v by (simp add: ring_buffer_free_def)
  have w: "write_ring_buffer rb src = Some ?rb"
  proof -
    have "(rb_tail rb + int ?n) mod rb_size rb = int ((?t + ?n) mod S)"
      using v by (simp add: zmod_int)
    moreover have "nat (rb_tail rb) = ?t" by (simp only: v(4) nat_int)
    ultimately show ?thesis using write_ring_buffer_store[OF inv fit] by simp
  qed
  have inv': "rb_inv ?rb"
    using inv v n by (simp add: rb_inv_def length_ring_store)
  have u': "ring_buffer_used ?rb = int (u + ?n)"
    using int_mod_diff_used[of h S "u + ?n"] v n
    by (simp add: ring_buffer_used_def mod_add_left_eq add.assoc)
  have "rb_contents ?rb = rb_contents rb @ src"
  proof (rule nth_equalityI)
    show "length (rb_contents ?rb) = length (rb_contents rb @ src)" using u' v by simp
    fix i assume "i < length (rb_contents ?rb)"
    then have i: "i < u + ?n" using u' by simp
    then have l: "rb_contents ?rb ! i = ring_store ?t src (rb_buf rb) ! ((h + i) mod S)"
      using v u' unfolding rb_contents_def by (simp add: nat_int_add)
    show "rb_contents ?rb ! i = (rb_contents rb @ src) ! i"
    proof (cases "i < u")
      case True
      then show ?thesis using l ring_store_kept[of h S u src "rb_buf rb" i] v n
        by (simp add: nth_append rb_contents_def)
    next
      case False
      then have "(h + i) mod S = (?t + (i - u)) mod S" using mod_add_left_eq[of "h + u" S "i - u"] by simp
      with False show ?thesis using l ring_store_written[of ?t "rb_buf rb" src "i - u"] v n i
        by (simp add: nth_append)
    qed
  qed
  with w inv' show ?thesis by auto
qed

lemma write_ring_buffer_None:
  "src = [] \<or> ring_buffer_free rb < int (length src) \<Longrightarrow> write_ring_buffer rb src = None"
  by (auto simp: write_ring_buffer_def)

section \<open>The byte stream interface\<close>

text \<open>
  A bounded byte queue with partial reads: what \<open>tcp_process\<close> and \<open>tcp_sock_read\<close> use of the
  receive buffer. The client lemma says that any interleaving of writes and reads delivers the
  written bytes in order, none lost, none repeated.
\<close>

datatype stream_op = Wr bytes | Rd int

fun stream_run :: "('b \<Rightarrow> bytes \<Rightarrow> 'b option) \<Rightarrow> ('b \<Rightarrow> int \<Rightarrow> (bytes \<times> 'b) option) \<Rightarrow>
    stream_op list \<Rightarrow> 'b \<Rightarrow> (bytes \<times> 'b) option" where
  "stream_run wr rd [] b = Some ([], b)"
| "stream_run wr rd (Wr xs # ops) b = do { b \<leftarrow> wr b xs; stream_run wr rd ops b }"
| "stream_run wr rd (Rd n # ops) b =
     do { (xs, b) \<leftarrow> rd b n; (ys, b) \<leftarrow> stream_run wr rd ops b; Some (xs @ ys, b) }"

fun written :: "stream_op list \<Rightarrow> bytes" where
  "written [] = []"
| "written (Wr xs # ops) = xs @ written ops"
| "written (Rd n # ops) = written ops"

locale byte_stream =
  fixes inv :: "'b \<Rightarrow> bool"
    and contents :: "'b \<Rightarrow> bytes"
    and room :: "'b \<Rightarrow> int"
    and wr :: "'b \<Rightarrow> bytes \<Rightarrow> 'b option"
    and rd :: "'b \<Rightarrow> int \<Rightarrow> (bytes \<times> 'b) option"
  assumes wr_law: "inv b \<Longrightarrow> xs \<noteq> [] \<Longrightarrow> int (length xs) \<le> room b \<Longrightarrow>
      \<exists>b'. wr b xs = Some b' \<and> inv b' \<and> contents b' = contents b @ xs \<and> room b' = room b - int (length xs)"
    and wr_assert: "xs = [] \<or> room b < int (length xs) \<Longrightarrow> wr b xs = None"
    and rd_law: "inv b \<Longrightarrow> \<exists>b'. rd b n = Some (take (nat n) (contents b), b') \<and> inv b' \<and>
      contents b' = drop (nat n) (contents b) \<and>
      room b' = room b + int (length (take (nat n) (contents b)))"
begin

lemma wr_SomeD:
  assumes "inv b" "wr b xs = Some b'"
  shows "xs \<noteq> [] \<and> int (length xs) \<le> room b \<and> inv b' \<and> contents b' = contents b @ xs
    \<and> room b' = room b - int (length xs)"
proof -
  have "xs \<noteq> [] \<and> int (length xs) \<le> room b" using assms(2) wr_assert[of xs b] by force
  with wr_law[OF assms(1)] assms(2) show ?thesis by fastforce
qed

lemma in_order:
  "inv b \<Longrightarrow> stream_run wr rd ops b = Some (out, b') \<Longrightarrow>
     inv b' \<and> contents b @ written ops = out @ contents b'"
proof (induction ops arbitrary: b out)
  case (Cons op ops)
  show ?case
  proof (cases op)
    case (Wr xs)
    with Cons.prems obtain b1 where b1: "wr b xs = Some b1" "stream_run wr rd ops b1 = Some (out, b')"
      by (auto split: bind_splits)
    from wr_SomeD[OF Cons.prems(1) b1(1)] Cons.IH[OF _ b1(2)] Wr show ?thesis by simp
  next
    case (Rd n)
    from rd_law[OF Cons.prems(1), of n] obtain b1 where b1: "rd b n = Some (take (nat n) (contents b), b1)"
      "inv b1" "contents b1 = drop (nat n) (contents b)" by blast
    with Rd Cons.prems(2) obtain ys where "stream_run wr rd ops b1 = Some (ys, b')"
      "out = take (nat n) (contents b) @ ys" by (auto split: bind_splits)
    with Cons.IH[OF b1(2)] b1(3) Rd show ?thesis by auto (metis append.assoc append_take_drop_id)
  qed
qed auto

lemma capacity: "inv b \<Longrightarrow> stream_run wr rd ops b = Some (out, b') \<Longrightarrow>
    room b' + int (length (contents b')) = room b + int (length (contents b))"
proof (induction ops arbitrary: b out)
  case (Cons op ops)
  show ?case
  proof (cases op)
    case (Wr xs)
    with Cons.prems obtain b1 where b1: "wr b xs = Some b1" "stream_run wr rd ops b1 = Some (out, b')"
      by (auto split: bind_splits)
    from wr_SomeD[OF Cons.prems(1) b1(1)] Cons.IH[OF _ b1(2)] Wr show ?thesis by simp
  next
    case (Rd n)
    from rd_law[OF Cons.prems(1), of n] obtain b1 where b1: "rd b n = Some (take (nat n) (contents b), b1)"
      "inv b1" "contents b1 = drop (nat n) (contents b)"
      "room b1 = room b + int (length (take (nat n) (contents b)))" by blast
    with Rd Cons.prems(2) obtain ys where "stream_run wr rd ops b1 = Some (ys, b')"
      by (auto split: bind_splits)
    with Cons.IH[OF b1(2)] b1(3,4) Rd show ?thesis by (simp add: min_def of_nat_diff)
  qed
qed auto

end

interpretation ring: byte_stream rb_inv rb_contents ring_buffer_free write_ring_buffer read_ring_buffer
proof unfold_locales
  fix b :: ring_buffer and xs :: bytes and n :: int
  have room: "ring_buffer_free c = rb_size c - int (length (rb_contents c)) - 1" if "rb_inv c" for c
    using used_bounds[OF that] by (simp add: ring_buffer_free_def)
  show "\<exists>b'. write_ring_buffer b xs = Some b' \<and> rb_inv b' \<and> rb_contents b' = rb_contents b @ xs \<and>
      ring_buffer_free b' = ring_buffer_free b - int (length xs)"
    if "rb_inv b" "xs \<noteq> []" "int (length xs) \<le> ring_buffer_free b"
    using write_ring_buffer_spec[OF that] room[OF that(1)] by (auto simp: room)
  show "write_ring_buffer b xs = None" if "xs = [] \<or> ring_buffer_free b < int (length xs)"
    using that by (rule write_ring_buffer_None)
  show "\<exists>b'. read_ring_buffer b n = Some (take (nat n) (rb_contents b), b') \<and> rb_inv b' \<and>
      rb_contents b' = drop (nat n) (rb_contents b) \<and>
      ring_buffer_free b' = ring_buffer_free b + int (length (take (nat n) (rb_contents b)))"
    if "rb_inv b"
    using read_ring_buffer_spec[OF that, of n] room[OF that] by (auto simp: room)
qed

section \<open>Properties\<close>

text \<open>Property C18. The ring buffer is a first-in first-out byte queue of the requested capacity:
  whatever sequence of writes and reads runs on a freshly allocated ring without failing, the bytes
  read are, in order, a prefix of the bytes written, the rest is what the ring still holds, and the
  free space is the capacity less what is held.\<close>

theorem ring_buffer_fifo:
  assumes "0 \<le> n" "stream_run write_ring_buffer read_ring_buffer ops (alloc_ring_buffer n) = Some (out, rb)"
  shows "written ops = out @ rb_contents rb \<and> ring_buffer_free rb = n - int (length (rb_contents rb))"
proof -
  note inv = rb_inv_alloc[OF assms(1)]
  have "ring_buffer_free (alloc_ring_buffer n) = n"
    using assms(1) by (simp add: ring_buffer_free_def ring_buffer_used_def alloc_ring_buffer_def)
  with ring.in_order[OF inv assms(2)] ring.capacity[OF inv assms(2)] show ?thesis
    by (simp add: rb_contents_alloc del: length_rb_contents)
qed

theorem ring_buffer_fifo_witness:
  "\<exists>rb. stream_run write_ring_buffer read_ring_buffer [Wr [1, 2, 3], Rd 2, Wr [4, 5], Rd 9]
      (alloc_ring_buffer 3) = Some ([1, 2, 3, 4, 5], rb) \<and>
    written [Wr [1, 2, 3], Rd 2, Wr [4, 5], Rd 9] = [1, 2, 3, 4, 5] @ rb_contents rb"
proof -
  let ?ops = "[Wr [1, 2, 3], Rd 2, Wr [4, 5], Rd 9]"
  have "stream_run write_ring_buffer read_ring_buffer ?ops (alloc_ring_buffer 3) =
      Some ([1, 2, 3, 4, 5], \<lparr>rb_size = 4, rb_head = 1, rb_tail = 1, rb_buf = [5, 2, 3, 4]\<rparr>)"
    by code_simp
  with ring_buffer_fifo[of 3 ?ops] show ?thesis by fastforce
qed

text \<open>A write succeeds exactly when it is not empty and fits into the free space
  (otherwise the \<open>assert\<close> fails), and a read never fails.\<close>

theorem ring_buffer_total:
  assumes "rb_inv rb"
  shows "(write_ring_buffer rb src \<noteq> None) = (src \<noteq> [] \<and> int (length src) \<le> ring_buffer_free rb)
    \<and> read_ring_buffer rb n \<noteq> None"
  using ring.wr_law[OF assms, of src] ring.wr_assert[of src rb] ring.rd_law[OF assms, of n]
  by (cases "src \<noteq> [] \<and> int (length src) \<le> ring_buffer_free rb") force+

theorem ring_buffer_total_witness:
  "write_ring_buffer (alloc_ring_buffer 1) [7] \<noteq> None \<and> write_ring_buffer (alloc_ring_buffer 1) [7, 8] = None"
  using ring_buffer_total[OF rb_inv_alloc[of 1], of "[7]" 0] ring_buffer_total[OF rb_inv_alloc[of 1], of "[7, 8]" 0]
  by (simp add: ring_buffer_free_def ring_buffer_used_def alloc_ring_buffer_def)

end
