(* ===== verification/Hash.thy ===== *)
theory Hash
  imports Net_Prelude
begin

text \<open>
  \<open>include/hash.h\<close> and \<open>include/tcp_hash.h\<close>: the XOR hash of a byte buffer and the bucket index
  of a connection. The length argument of \<open>hash8\<close> is the size of the buffer at every call, so the
  buffer alone is the argument here; \<open>hash8_prj07\<close> is the other loop the repository contains, whose
  index runs one below the buffer.
\<close>

abbreviation HASH_8BITS :: nat where
  "HASH_8BITS \<equiv> 256"

definition hash8 :: "bytes \<Rightarrow> u8" where
  "hash8 buf = foldl (XOR) 0 buf"

fun hash16_loop :: "u16 \<Rightarrow> bytes \<Rightarrow> u16" where
  "hash16_loop acc (a # b # rest) = hash16_loop (acc XOR le16_dec a b) rest"
| "hash16_loop acc [a] = acc XOR ucast a"
| "hash16_loop acc [] = acc"

definition hash16 :: "bytes \<Rightarrow> u16" where
  "hash16 buf = hash16_loop 0 buf"

text \<open>\<open>while (len >= 0) result ^= addr[--len];\<close> with the read of \<open>addr[-1]\<close> out of bounds.\<close>

function hash8_prj07 :: "bytes \<Rightarrow> int \<Rightarrow> u8 \<Rightarrow> u8 option" where
  "hash8_prj07 buf len result =
     (if len \<ge> 0 then
        (if len - 1 < 0 \<or> int (length buf) \<le> len - 1 then None
         else hash8_prj07 buf (len - 1) (result XOR buf ! nat (len - 1)))
      else Some result)"
  by pat_completeness auto
termination
  by (relation "measure (\<lambda>(buf, len, result). nat (len + 1))") auto

declare hash8_prj07.simps [simp del]

definition tcp_hash_function :: "u32 \<Rightarrow> u32 \<Rightarrow> u16 \<Rightarrow> u16 \<Rightarrow> nat" where
  "tcp_hash_function saddr daddr sport dport =
     unat ((hash8 (le32_enc saddr) XOR hash8 (le32_enc daddr) XOR hash8 (le16_enc sport)
       XOR hash8 (le16_enc dport)) AND 255)"

lemma foldl_xor: "foldl (XOR) a (xs :: bytes) = a XOR foldl (XOR) 0 xs"
proof (induction xs arbitrary: a)
  case (Cons x xs)
  show ?case using Cons[of "a XOR x"] Cons[of x] by (simp add: ac_simps)
qed simp

lemma hash8_append: "hash8 (xs @ ys) = hash8 xs XOR hash8 ys"
  unfolding hash8_def by (simp add: foldl_xor[of "foldl (XOR) 0 xs"])

lemma hash8_rev: "hash8 (rev xs) = hash8 xs"
proof (induction xs)
  case (Cons x xs)
  then show ?case using hash8_append[of "rev xs" "[x]"] hash8_append[of "[x]" xs] by (simp add: ac_simps)
qed simp

text \<open>Every bucket index is within the table, and exchanging the two endpoints of a
  connection does not change the bucket.\<close>

theorem tcp_hash_function_bucket:
  "tcp_hash_function saddr daddr sport dport < HASH_8BITS \<and>
   tcp_hash_function saddr daddr sport dport = tcp_hash_function daddr saddr dport sport"
proof
  have "unat (x AND 255) < 256" for x :: u8 by (rule order_less_le_trans[OF unsigned_less]) simp
  then show "tcp_hash_function saddr daddr sport dport < HASH_8BITS"
    by (simp add: tcp_hash_function_def)
  show "tcp_hash_function saddr daddr sport dport = tcp_hash_function daddr saddr dport sport"
    by (simp add: tcp_hash_function_def ac_simps)
qed

text \<open>The hash of prj07 reads one byte below the buffer whatever its arguments: it has
  no defined result for any buffer and any length up to the buffer's size.\<close>

theorem hash8_prj07_out_of_bounds:
  assumes "0 \<le> len"
  shows "hash8_prj07 buf len r = None"
  using assms
proof (induction buf len r rule: hash8_prj07.induct)
  case (1 buf len r)
  show ?case
  proof (cases "len = 0")
    case False
    with 1 show ?thesis by (subst hash8_prj07.simps) auto
  qed (simp add: hash8_prj07.simps)
qed

theorem hash8_prj07_out_of_bounds_witness: "hash8_prj07 [1, 2, 3] 3 0 = None"
  using hash8_prj07_out_of_bounds[of 3 "[1, 2, 3]" 0] by simp

end
