(* ===== verification/Synch_Wait.thy ===== *)
theory Synch_Wait
  imports Net_Prelude
begin

text \<open>
  \<open>include/synch_wait.h\<close> (prj11 to prj14): the wake-up flag with which the application threads and
  the packet thread wait for each other. Each function runs under the structure's own mutex, so it
  is one atomic step; \<open>sleep_on\<close> is cut at \<open>pthread_cond_wait\<close> into \<open>sleep_on_enter\<close> and
  \<open>sleep_on_resume\<close>. The second half is a step relation for any set of threads. Spurious returns
  of \<open>pthread_cond_wait\<close> are not modelled.
\<close>

record synch_wait =
  sw_dead :: bool
  sw_notified :: bool
  sw_sleep :: bool

datatype cond_op = CondNone | CondSignal | CondBroadcast

datatype sleep_result = Returned int | Waiting

definition wait_init :: synch_wait where
  "wait_init = \<lparr>sw_dead = False, sw_notified = False, sw_sleep = False\<rparr>"

definition wait_exit :: "synch_wait \<Rightarrow> cond_op \<times> synch_wait" where
  "wait_exit w =
     (if sw_dead w then (CondNone, w)
      else (if sw_sleep w then CondBroadcast else CondNone, w\<lparr>sw_dead := True\<rparr>))"

text \<open>The value returned is \<open>-(wait->dead)\<close>.\<close>

definition dead_ret :: "synch_wait \<Rightarrow> int" where
  "dead_ret w = (if sw_dead w then -1 else 0)"

definition sleep_on_resume :: "synch_wait \<Rightarrow> int \<times> synch_wait" where
  "sleep_on_resume w = (dead_ret w, w\<lparr>sw_notified := False, sw_sleep := False\<rparr>)"

definition sleep_on_enter :: "synch_wait \<Rightarrow> sleep_result \<times> synch_wait" where
  "sleep_on_enter w =
     (if sw_dead w then (Returned (dead_ret w), w)
      else let w = w\<lparr>sw_sleep := True\<rparr> in
        if \<not> sw_notified w then (Waiting, w)
        else (case sleep_on_resume w of (r, w) \<Rightarrow> (Returned r, w)))"

definition wake_up :: "synch_wait \<Rightarrow> int \<times> cond_op \<times> synch_wait" where
  "wake_up w =
     (if sw_dead w then (dead_ret w, CondNone, w)
      else if \<not> sw_notified w then
        (dead_ret w, if sw_sleep w then CondSignal else CondNone, w\<lparr>sw_notified := True\<rparr>)
      else (dead_ret w, CondNone, w))"

abbreviation wake :: "synch_wait \<Rightarrow> synch_wait" where
  "wake w \<equiv> snd (snd (wake_up w))"

section \<open>Threads around one wait structure\<close>

record wait_sys =
  ws :: synch_wait
  blocked :: "nat set"
  woken :: "nat set"

definition wait_sys_init :: wait_sys where
  "wait_sys_init = \<lparr>ws = wait_init, blocked = {}, woken = {}\<rparr>"

text \<open>What a condition variable operation does to the threads blocked on it.\<close>

inductive cond_effect :: "cond_op \<Rightarrow> wait_sys \<Rightarrow> wait_sys \<Rightarrow> bool" where
  none: "cond_effect CondNone s s"
| signal: "t \<in> blocked s \<Longrightarrow> cond_effect CondSignal s
     (s\<lparr>blocked := blocked s - {t}, woken := insert t (woken s)\<rparr>)"
| signal_nobody: "blocked s = {} \<Longrightarrow> cond_effect CondSignal s s"
| broadcast: "cond_effect CondBroadcast s (s\<lparr>blocked := {}, woken := woken s \<union> blocked s\<rparr>)"

inductive_cases cond_effect_noneE: "cond_effect CondNone s s'"
inductive_cases cond_effect_signalE: "cond_effect CondSignal s s'"
inductive_cases cond_effect_broadcastE: "cond_effect CondBroadcast s s'"

inductive wake_step :: "wait_sys \<Rightarrow> wait_sys \<Rightarrow> bool" where
  "wake_up (ws s) = (r, c, w) \<Longrightarrow> cond_effect c (s\<lparr>ws := w\<rparr>) s' \<Longrightarrow> wake_step s s'"

inductive wait_step :: "nat set \<Rightarrow> wait_sys \<Rightarrow> wait_sys \<Rightarrow> bool" for T where
  wake: "wake_step s s' \<Longrightarrow> wait_step T s s'"
| exit: "wait_exit (ws s) = (c, w) \<Longrightarrow> cond_effect c (s\<lparr>ws := w\<rparr>) s' \<Longrightarrow> wait_step T s s'"
| pass: "t \<in> T \<Longrightarrow> t \<notin> blocked s \<union> woken s \<Longrightarrow> sleep_on_enter (ws s) = (Returned r, w) \<Longrightarrow>
     wait_step T s (s\<lparr>ws := w\<rparr>)"
| block: "t \<in> T \<Longrightarrow> t \<notin> blocked s \<union> woken s \<Longrightarrow> sleep_on_enter (ws s) = (Waiting, w) \<Longrightarrow>
     wait_step T s (s\<lparr>ws := w, blocked := insert t (blocked s)\<rparr>)"
| resume: "t \<in> woken s \<Longrightarrow> sleep_on_resume (ws s) = (r, w) \<Longrightarrow>
     wait_step T s (s\<lparr>ws := w, woken := woken s - {t}\<rparr>)"

inductive wait_reach :: "nat set \<Rightarrow> wait_sys \<Rightarrow> bool" for T where
  start: "wait_reach T wait_sys_init"
| step: "wait_reach T s \<Longrightarrow> wait_step T s s' \<Longrightarrow> wait_reach T s'"

section \<open>One waiting thread\<close>

definition one_waiter_inv :: "nat \<Rightarrow> wait_sys \<Rightarrow> bool" where
  "one_waiter_inv t s \<longleftrightarrow> (blocked s = {} \<or> blocked s = {t} \<and> woken s = {}) \<and> woken s \<subseteq> {t} \<and>
     (blocked s \<noteq> {} \<longrightarrow> sw_sleep (ws s) \<and> \<not> sw_notified (ws s) \<and> \<not> sw_dead (ws s))"

lemma wake_step_one_waiter: "wake_step s s' \<Longrightarrow> one_waiter_inv t s \<Longrightarrow>
    one_waiter_inv t s' \<and> blocked s' = {} \<and> (\<not> sw_dead (ws s) \<longrightarrow> sw_notified (ws s'))"
  by (erule wake_step.cases)
    (auto simp: wake_up_def one_waiter_inv_def split: if_splits
      elim!: cond_effect_noneE cond_effect_signalE)

lemma wait_step_one_waiter: "wait_step {t} s s' \<Longrightarrow> one_waiter_inv t s \<Longrightarrow> one_waiter_inv t s'"
proof (induction rule: wait_step.induct)
  case (wake s s')
  then show ?case by (blast dest: wake_step_one_waiter)
next
  case (exit s c w s')
  then show ?case
    by (auto simp: wait_exit_def one_waiter_inv_def split: if_splits
        elim!: cond_effect_noneE cond_effect_broadcastE)
qed (auto simp: one_waiter_inv_def sleep_on_enter_def sleep_on_resume_def Let_def split: if_splits)

lemma wait_reach_one_waiter: "wait_reach {t} s \<Longrightarrow> one_waiter_inv t s"
proof (induction rule: wait_reach.induct)
  case start
  show ?case by (simp add: one_waiter_inv_def wait_sys_init_def)
next
  case (step s s')
  then show ?case by (blast intro: wait_step_one_waiter)
qed

section \<open>Properties\<close>

text \<open>With a single waiting thread no wake-up is lost: in every reachable state, after
  a \<open>wake_up\<close> nobody is blocked any more, and unless the structure is dead the notification is
  recorded, so that the next \<open>sleep_on\<close> returns at once.\<close>

theorem wake_up_not_lost:
  assumes "wait_reach {t} s" "wake_step s s'"
  shows "blocked s' = {} \<and>
    (\<not> sw_dead (ws s) \<longrightarrow> (\<exists>w. sleep_on_enter (ws s') = (Returned (dead_ret (ws s')), w)))"
  using wake_step_one_waiter[OF assms(2) wait_reach_one_waiter[OF assms(1)]]
  by (auto simp: sleep_on_enter_def sleep_on_resume_def Let_def dead_ret_def)

theorem wake_up_not_lost_witness:
  "\<exists>s s'. wait_reach {0} s \<and> blocked s = {0} \<and> wake_step s s' \<and> blocked s' = {}"
proof -
  let ?s = "wait_sys_init\<lparr>ws := wait_init\<lparr>sw_sleep := True\<rparr>, blocked := insert 0 {}\<rparr>"
  have "wait_step {0} wait_sys_init ?s"
    using wait_step.block[of 0 "{0}" wait_sys_init "wait_init\<lparr>sw_sleep := True\<rparr>"]
    by (simp add: wait_sys_init_def sleep_on_enter_def wait_init_def)
  with wait_reach.start have r: "wait_reach {0} ?s" by (rule wait_reach.step)
  let ?u = "?s\<lparr>ws := wait_init\<lparr>sw_sleep := True, sw_notified := True\<rparr>\<rparr>"
  have "cond_effect CondSignal ?u (?u\<lparr>blocked := blocked ?u - {0}, woken := insert 0 (woken ?u)\<rparr>)"
    by (rule cond_effect.signal) simp
  then have w: "wake_step ?s (?u\<lparr>blocked := blocked ?u - {0}, woken := insert 0 (woken ?u)\<rparr>)"
    by (intro wake_step.intros[where r = 0 and c = CondSignal])
      (simp_all add: wake_up_def wait_init_def dead_ret_def)
  from wake_up_not_lost[OF r w] r w show ?thesis by fastforce
qed

text \<open>With two waiting threads a wake-up can be lost: the first thread to resume clears
  the \<open>sleep\<close> flag, and from then on \<open>wake_up\<close> no longer signals the thread that is still
  blocked.\<close>

theorem second_waiter_stranded:
  "\<exists>s. wait_reach {0, 1} s \<and> blocked s = {1} \<and> \<not> sw_dead (ws s) \<and>
     (\<forall>s'. wake_step s s' \<longrightarrow> blocked s' = {1} \<and> woken s' = {})"
proof -
  let ?w1 = "wait_init\<lparr>sw_sleep := True\<rparr>" and ?w2 = "wait_init\<lparr>sw_sleep := True, sw_notified := True\<rparr>"
  let ?mk = "\<lambda>w b k. \<lparr>ws = w, blocked = b, woken = k\<rparr>"
  note [simp] = wait_sys_init_def wait_init_def sleep_on_enter_def sleep_on_resume_def wake_up_def dead_ret_def
  have "wait_reach {0, 1} (?mk ?w1 {0} {})"
    using wait_reach.step[OF wait_reach.start wait_step.block[of 0 "{0, 1}" wait_sys_init ?w1]] by simp
  then have "wait_reach {0, 1} (?mk ?w1 {1, 0} {})"
    using wait_reach.step[OF _ wait_step.block[of 1 "{0, 1}" "?mk ?w1 {0} {}" ?w1]] by simp
  moreover have "cond_effect CondSignal (?mk ?w2 {1, 0} {}) (?mk ?w2 {1} {0})"
    using cond_effect.signal[of 0 "?mk ?w2 {1, 0} {}"] by (simp add: insert_Diff_if)
  then have "wait_step {0, 1} (?mk ?w1 {1, 0} {}) (?mk ?w2 {1} {0})"
    by (intro wait_step.wake wake_step.intros[where r = 0 and c = CondSignal]) simp_all
  ultimately have "wait_reach {0, 1} (?mk ?w2 {1} {0})" by (rule wait_reach.step)
  then have "wait_reach {0, 1} (?mk wait_init {1} {})"
    using wait_reach.step[OF _ wait_step.resume[of 0 "?mk ?w2 {1} {0}" 0 wait_init "{0, 1}"]] by simp
  moreover have "blocked s' = {1} \<and> woken s' = {}" if "wake_step (?mk wait_init {1} {}) s'" for s'
    using that by (auto elim!: wake_step.cases cond_effect_noneE)
  ultimately show ?thesis by (intro exI[of _ "?mk wait_init {1} {}"]) auto
qed

end
