(* ===== verification/Checksum.thy ===== *)
theory Checksum
  imports Net_Prelude
begin

text \<open>
  \<open>include/checksum.h\<close>: the Internet checksum over the 16-bit words of a buffer as a little-endian
  machine loads them, accumulated in a 32-bit word that can wrap, folded to 16 bits and
  complemented. The specification is the one's complement sum on natural numbers.
\<close>

fun checksum_words :: "bytes \<Rightarrow> u32 \<Rightarrow> u32" where
  "checksum_words (a # b # rest) s0 = checksum_words rest (s0 + ucast (le16_dec a b))"
| "checksum_words [a] s0 = s0 + ucast a"
| "checksum_words [] s0 = s0"

lemma unat_high_half: "unat (drop_bit 16 s :: u32) = unat s div 65536"
  by (simp only: unat_drop_bit_eq) (simp add: drop_bit_eq_div)

lemma drop_bit_16_eq_0: "drop_bit 16 (s :: u32) = 0 \<longleftrightarrow> unat s < 65536"
proof -
  have "drop_bit 16 s = 0 \<longleftrightarrow> unat (drop_bit 16 s) = 0" by (simp only: unsigned_eq_0_iff)
  then show ?thesis by (simp add: unat_high_half div_eq_0_iff)
qed

lemma unat_low_half: "unat (s AND 0xFFFF :: u32) = unat s mod 65536"
proof -
  have "s AND 0xFFFF = take_bit 16 s" by (simp only: take_bit_eq_mask mask_eq_exp_minus_1) simp
  then have "unat (s AND 0xFFFF) = take_bit 16 (unat s)" by (simp only: unsigned_take_bit_eq)
  then show ?thesis by (simp add: take_bit_eq_mod)
qed

lemma unat_fold_step: "unat (drop_bit 16 s + (s AND 0xFFFF) :: u32) = unat s div 65536 + unat s mod 65536"
proof -
  have "unat s < 2 ^ 32" using unsigned_less[of s] by simp
  then have "unat s div 65536 + unat s mod 65536 < 2 ^ 32" by simp
  then show ?thesis by (simp add: unat_word_ariths unat_low_half unat_high_half)
qed

function checksum_fold :: "u32 \<Rightarrow> u32" where
  "checksum_fold s = (if drop_bit 16 s \<noteq> 0 then checksum_fold (drop_bit 16 s + (s AND 0xFFFF)) else s)"
  by pat_completeness auto
termination
proof (relation "measure unat")
  fix s :: u32
  assume "drop_bit 16 s \<noteq> 0"
  then have "65536 \<le> unat s" by (simp add: drop_bit_16_eq_0)
  then have "unat s div 65536 + unat s mod 65536 < unat s"
    using mult_div_mod_eq[of 65536 "unat s"] div_le_mono[of 65536 "unat s" 65536] by linarith
  then show "(drop_bit 16 s + (s AND 0xFFFF), s) \<in> measure unat" by (simp add: unat_fold_step)
qed simp

declare checksum_fold.simps [simp del]

definition checksum :: "bytes \<Rightarrow> u32 \<Rightarrow> u16" where
  "checksum buf s0 = NOT (ucast (checksum_fold (checksum_words buf s0)))"

section \<open>The one's complement sum\<close>

definition ones_sum :: "nat \<Rightarrow> nat" where
  "ones_sum n = (if n = 0 then 0 else (n - 1) mod 65535 + 1)"

fun word_sum :: "bytes \<Rightarrow> nat" where
  "word_sum (a # b # rest) = unat (le16_dec a b) + word_sum rest"
| "word_sum [a] = unat a"
| "word_sum [] = 0"

lemma ones_sum_small: "n < 65536 \<Longrightarrow> ones_sum n = n"
  by (cases "n = 0") (auto simp: ones_sum_def)

lemma ones_sum_le: "ones_sum n \<le> 65535"
proof -
  have "(n - 1) mod 65535 < 65535" by (rule mod_less_divisor) simp
  then have "(n - 1) mod 65535 + 1 \<le> 65535" by (simp only: Suc_le_eq Suc_eq_plus1[symmetric])
  then show ?thesis by (simp add: ones_sum_def)
qed

lemma ones_sum_eq_0: "ones_sum n = 0 \<longleftrightarrow> n = 0"
  by (simp add: ones_sum_def)

lemma ones_sum_cong: "ones_sum n mod 65535 = n mod 65535"
proof (cases n)
  case (Suc m)
  have "(m mod 65535 + 1) mod 65535 = (m + 1) mod 65535" by (rule mod_add_left_eq)
  with Suc show ?thesis by (simp add: ones_sum_def)
qed (simp add: ones_sum_def)

lemma ones_sum_full: "n \<noteq> 0 \<Longrightarrow> n mod 65535 = 0 \<Longrightarrow> ones_sum n = 65535"
proof (rule ccontr)
  assume "n \<noteq> 0" "n mod 65535 = 0" "ones_sum n \<noteq> 65535"
  then have "ones_sum n < 65535" using ones_sum_le[of n] by linarith
  then have "ones_sum n = 0" using ones_sum_cong[of n] \<open>n mod 65535 = 0\<close> by simp
  with \<open>n \<noteq> 0\<close> show False by (simp add: ones_sum_eq_0)
qed

lemma mod_add_cancel_left_nat: "((k::nat) + a) mod n = (k + b) mod n \<Longrightarrow> a mod n = b mod n"
proof -
  assume "(k + a) mod n = (k + b) mod n"
  then have "(int k + int a) mod int n = (int k + int b) mod int n" by (metis of_nat_add of_nat_mod)
  then have "(int k + int a - int k) mod int n = (int k + int b - int k) mod int n"
    by (rule mod_diff_cong) simp
  then show ?thesis by (simp flip: of_nat_mod)
qed

lemma ones_sum_step: "ones_sum (n div 65536 + n mod 65536) = ones_sum n"
proof (cases "n = 0")
  case False
  let ?m = "n div 65536 + n mod 65536"
  have n: "n = ?m + 65535 * (n div 65536)" by (simp add: algebra_simps)
  have m: "?m \<noteq> 0" using False by (metis add_is_0 div_mult_mod_eq mult_0)
  then have "n - 1 = (?m - 1) + 65535 * (n div 65536)" using n by linarith
  then have "(n - 1) mod 65535 = (?m - 1) mod 65535" by (metis mod_mult_self2)
  with False m show ?thesis by (simp add: ones_sum_def)
qed simp

lemma unat_checksum_fold: "unat (checksum_fold s) = ones_sum (unat s)"
proof (induction s rule: checksum_fold.induct)
  case (1 s)
  show ?case
  proof (cases "drop_bit 16 s = 0")
    case True
    then show ?thesis by (simp add: checksum_fold.simps[of s] ones_sum_small drop_bit_16_eq_0)
  next
    case False
    with 1 show ?thesis
      by (simp add: checksum_fold.simps[of s] unat_fold_step ones_sum_step)
  qed
qed

lemma unat_checksum_words: "unat (checksum_words buf s) = (unat s + word_sum buf) mod 2 ^ 32"
proof (induction buf s rule: checksum_words.induct)
  case (1 a b rest s)
  then show ?case by (simp add: unat_word_ariths mod_simps add.assoc)
next
  case (2 a s)
  then show ?case by (simp add: unat_word_ariths)
next
  case (3 s)
  have "unat s < 2 ^ LENGTH(32)" by (rule unsigned_less)
  then show ?case by simp
qed

lemma unat_not16: "unat (NOT w :: u16) = 65535 - unat w"
proof -
  have "NOT w = (65535 :: u16) - w" by (simp add: not_eq_complement)
  moreover have "unat w < 2 ^ LENGTH(16)" by (rule unsigned_less)
  then have "w \<le> 65535" by (simp add: word_le_nat_alt)
  ultimately show ?thesis by (simp add: unat_sub)
qed

lemma unat_checksum:
  "unat s + word_sum buf < 2 ^ 32 \<Longrightarrow> unat (checksum buf s) = 65535 - ones_sum (unat s + word_sum buf)"
proof -
  assume "unat s + word_sum buf < 2 ^ 32"
  then have f: "unat (checksum_fold (checksum_words buf s)) = ones_sum (unat s + word_sum buf)"
    by (simp add: unat_checksum_fold unat_checksum_words)
  have "unat (ucast (checksum_fold (checksum_words buf s)) :: u16) = ones_sum (unat s + word_sum buf)"
    using ones_sum_le[of "unat s + word_sum buf"] by (simp add: unsigned_ucast_eq f take_bit_nat_eq_self_iff)
  then show ?thesis by (simp add: checksum_def unat_not16)
qed

lemma word_sum_append: "even (length us) \<Longrightarrow> word_sum (us @ vs) = word_sum us + word_sum vs"
  by (induction us rule: word_sum.induct) auto

lemma word_sum_at: "even (length us) \<Longrightarrow>
    word_sum (us @ [a, b] @ vs) = word_sum us + unat (le16_dec a b) + word_sum vs"
  by (simp add: word_sum_append)

lemma word_sum_enc_at: "even (length us) \<Longrightarrow>
    word_sum (us @ le16_enc w @ vs) = word_sum us + unat w + word_sum vs"
  by (simp add: word_sum_append le16_enc_def codec_simps)

lemma complement_sum_mod: "x \<le> 65535 \<Longrightarrow> (x + (65535 - x)) mod 65535 = (0 :: nat)"
  by (simp only: le_add_diff_inverse mod_self)

lemma complement_sum_nonzero:
  assumes "x \<le> 65535" "n = 0 \<longrightarrow> x = 0" "c = 65535 - x"
  shows "n + c \<noteq> (0 :: nat)"
proof (cases "n = 0")
  case True
  with assms have "c = 65535" by simp
  then show ?thesis by simp
qed simp

lemma ones_sum_complement:
  assumes "c = 65535 - ones_sum n"
  shows "ones_sum (n + c) = 65535"
proof (rule ones_sum_full)
  have "ones_sum n mod 65535 = n mod 65535" by (rule ones_sum_cong)
  then have "(ones_sum n + c) mod 65535 = (n + c) mod 65535" by (rule mod_add_cong) simp
  moreover have "(ones_sum n + c) mod 65535 = 0"
    unfolding assms by (rule complement_sum_mod) (rule ones_sum_le)
  ultimately show "(n + c) mod 65535 = 0" by simp
  show "n + c \<noteq> 0"
    by (rule complement_sum_nonzero[OF ones_sum_le _ assms]) (simp add: ones_sum_def)
qed

lemma checksum_stored_verifies:
  assumes "even (length us)" "unat s + word_sum (us @ [0, 0] @ vs) + 65535 < 2 ^ 32"
  shows "checksum (us @ le16_enc (checksum (us @ [0, 0] @ vs) s) @ vs) s = 0"
proof -
  let ?n = "unat s + word_sum (us @ [0, 0] @ vs)" and ?ck = "checksum (us @ [0, 0] @ vs) s"
  have z: "word_sum (us @ [0, 0] @ vs) = word_sum us + word_sum vs"
    using word_sum_at[OF assms(1), of 0 0 vs] by (simp add: le16_dec_def be16_dec_def)
  have ck: "unat ?ck = 65535 - ones_sum ?n" using assms(2) by (intro unat_checksum) linarith
  let ?m = "unat s + word_sum (us @ le16_enc ?ck @ vs)"
  have m: "?m = ?n + unat ?ck" using word_sum_enc_at[OF assms(1)] z by simp
  have "ones_sum ?m = 65535" unfolding m using ck by (rule ones_sum_complement)
  moreover have "?m < 2 ^ 32" using assms(2) unfolding m ck by linarith
  ultimately have "unat (checksum (us @ le16_enc ?ck @ vs) s) = 0" by (simp add: unat_checksum)
  then show ?thesis by (simp add: unsigned_eq_0_iff)
qed

section \<open>Properties\<close>

text \<open>As long as the 32-bit accumulator does not wrap, the folding loop computes the
  one's complement sum: the checksum is its complement.\<close>

theorem checksum_is_ones_complement:
  assumes "unat s + word_sum buf < 2 ^ 32"
  shows "unat (checksum buf s) = 65535 - ones_sum (unat s + word_sum buf)"
  using assms by (rule unat_checksum)

theorem checksum_is_ones_complement_witness: "unat (checksum [0x12, 0x34, 0xFF] 0) = 65535 - 0x3511"
  using checksum_is_ones_complement[of 0 "[0x12, 0x34, 0xFF]"]
  by (simp add: le16_dec_def be16_dec_def ones_sum_def)

text \<open>Storing the computed checksum in a zeroed, even-aligned 16-bit field makes the
  whole buffer sum to zero: any receiver that verifies by summing accepts it.\<close>

theorem checksum_verifies:
  assumes "even (length us)" "unat s + word_sum (us @ [0, 0] @ vs) + 65535 < 2 ^ 32"
  shows "checksum (us @ le16_enc (checksum (us @ [0, 0] @ vs) s) @ vs) s = 0"
  using assms by (rule checksum_stored_verifies)

theorem checksum_verifies_witness:
  "checksum ([0x45, 0] @ le16_enc (checksum ([0x45, 0] @ [0, 0] @ [0xC0, 0xA8]) 7) @ [0xC0, 0xA8]) 7 = 0"
  using checksum_verifies[of "[0x45, 0]" 7 "[0xC0, 0xA8]"] by (simp add: le16_dec_def be16_dec_def)

text \<open>Corrupting one 16-bit word is detected, unless the two words are congruent
  modulo 65535, that is, unless all-zeros and all-ones are exchanged.\<close>

theorem checksum_detects_word_error:
  assumes "even (length us)" "unat s + word_sum (us @ [a, b] @ vs) < 2 ^ 32"
    "unat s + word_sum (us @ [c, d] @ vs) < 2 ^ 32"
    "checksum (us @ [a, b] @ vs) s = checksum (us @ [c, d] @ vs) s"
  shows "unat (le16_dec a b) mod 65535 = unat (le16_dec c d) mod 65535"
proof -
  let ?A = "unat s + word_sum (us @ [a, b] @ vs)" and ?C = "unat s + word_sum (us @ [c, d] @ vs)"
  have "65535 - ones_sum ?A = 65535 - ones_sum ?C"
    using unat_checksum[OF assms(2)] unat_checksum[OF assms(3)] assms(4) by simp
  then have "ones_sum ?A = ones_sum ?C" using ones_sum_le[of ?A] ones_sum_le[of ?C] by linarith
  then have "?A mod 65535 = ?C mod 65535" by (metis ones_sum_cong)
  then have "(unat s + word_sum us + word_sum vs + unat (le16_dec a b)) mod 65535 =
      (unat s + word_sum us + word_sum vs + unat (le16_dec c d)) mod 65535"
    by (simp only: word_sum_at[OF assms(1)] ac_simps)
  then show ?thesis by (rule mod_add_cancel_left_nat)
qed

theorem checksum_detects_word_error_witness:
  "unat (le16_dec 0 0) mod 65535 = unat (le16_dec 0xFF 0xFF) mod 65535"
proof -
  have "checksum ([] @ [0, 0] @ [0x0C, 0x08]) 0 = checksum ([] @ [0xFF, 0xFF] @ [0x0C, 0x08]) 0"
    by code_simp
  then show ?thesis
    using checksum_detects_word_error[of "[]" 0 0 0 "[0x0C, 0x08]" "0xFF" "0xFF"]
    by (simp add: le16_dec_def be16_dec_def)
qed

end
