(* ===== verification/Headers.thy ===== *)
theory Headers
  imports Checksum
begin

text \<open>
  The packet headers of \<open>include/ether.h\<close>, \<open>ip.h\<close>, \<open>arp.h\<close>, \<open>icmp.h\<close> and \<open>tcp.h\<close>. A header is a
  record whose fields hold what the CPU reads through the struct pointer on the little-endian
  target, so the code's \<open>ntohs\<close>, \<open>htonl\<close> and their omissions appear in the definitions as they do
  in the source. Casting \<open>packet + off\<close> to a struct pointer and reading it is \<open>get_x packet off\<close>,
  writing fields through the pointer is \<open>put_x packet off\<close>; both are undefined unless the whole
  struct lies in the packet's block. The locale \<open>hdr_codec\<close> is the interface all five share.
\<close>

section \<open>Field access\<close>

abbreviation ntohs :: "u16 \<Rightarrow> u16" where "ntohs \<equiv> htons"
abbreviation ntohl :: "u32 \<Rightarrow> u32" where "ntohl \<equiv> htonl"

definition u16_at :: "bytes \<Rightarrow> nat \<Rightarrow> u16" where [wire_defs]:
  "u16_at b i = le16_dec (b ! i) (b ! (i + 1))"

definition u32_at :: "bytes \<Rightarrow> nat \<Rightarrow> u32" where [wire_defs]:
  "u32_at b i = le32_dec (b ! i) (b ! (i + 1)) (b ! (i + 2)) (b ! (i + 3))"

text \<open>A hardware address, \<open>u8[ETH_ALEN]\<close>.\<close>

datatype mac_addr = Mac u8 u8 u8 u8 u8 u8

fun mac_bytes :: "mac_addr \<Rightarrow> bytes" where
  "mac_bytes (Mac a b c d e f) = [a, b, c, d, e, f]"

definition mac_at :: "bytes \<Rightarrow> nat \<Rightarrow> mac_addr" where [wire_defs]:
  "mac_at b i = Mac (b ! i) (b ! (i + 1)) (b ! (i + 2)) (b ! (i + 3)) (b ! (i + 4)) (b ! (i + 5))"

lemma length_mac_bytes [simp]: "length (mac_bytes m) = 6"
  by (cases m) simp

definition ETH_ALEN :: nat where "ETH_ALEN = 6"
definition ETHER_HDR_SIZE :: nat where "ETHER_HDR_SIZE = 14"
definition IP_BASE_HDR_SIZE :: nat where "IP_BASE_HDR_SIZE = 20"
definition ICMP_HDR_SIZE :: nat where "ICMP_HDR_SIZE = 8"
definition TCP_BASE_HDR_SIZE :: nat where "TCP_BASE_HDR_SIZE = 20"
definition ETHER_ARP_SIZE :: nat where "ETHER_ARP_SIZE = 28"

lemmas hdr_sizes = ETH_ALEN_def ETHER_HDR_SIZE_def IP_BASE_HDR_SIZE_def ICMP_HDR_SIZE_def
  TCP_BASE_HDR_SIZE_def ETHER_ARP_SIZE_def

section \<open>The interface of a header\<close>

locale hdr_codec =
  fixes dec :: "bytes \<Rightarrow> 'h" and enc :: "'h \<Rightarrow> bytes" and hsize :: nat
    and get_hdr :: "bytes \<Rightarrow> nat \<Rightarrow> 'h option" and put_hdr :: "bytes \<Rightarrow> nat \<Rightarrow> 'h \<Rightarrow> bytes option"
  assumes enc_length: "length (enc h) = hsize"
    and dec_enc: "dec (enc h) = h"
    and enc_dec: "length b = hsize \<Longrightarrow> enc (dec b) = b"
    and get_is_load: "get_hdr p off = map_option dec (ld_bytes p off hsize)"
    and put_is_store: "put_hdr p off h = st_bytes p off (enc h)"
begin

lemma get_Some_iff: "(\<exists>h. get_hdr p off = Some h) \<longleftrightarrow> off + hsize \<le> length p"
  by (simp add: get_is_load ld_bytes_def)

lemma put_Some_iff: "(\<exists>q. put_hdr p off h = Some q) \<longleftrightarrow> off + hsize \<le> length p"
  by (simp add: put_is_store st_bytes_def enc_length)

lemma get_in_bounds: "off + hsize \<le> length p \<Longrightarrow> get_hdr p off = Some (dec (take hsize (drop off p)))"
  by (simp add: get_is_load ld_bytes_def)

lemma put_in_bounds: "off + hsize \<le> length p \<Longrightarrow> put_hdr p off h = Some (blit off (enc h) p)"
  by (simp add: put_is_store st_bytes_def enc_length)

lemma put_length: "put_hdr p off h = Some q \<Longrightarrow> length q = length p"
  by (simp add: put_is_store length_st_bytes)

lemma get_put_same: "put_hdr p off h = Some q \<Longrightarrow> get_hdr q off = Some h"
  by (auto simp: put_is_store get_is_load st_bytes_def ld_bytes_def length_blit take_drop_blit_same
      enc_length dec_enc split: if_splits)

lemma put_frame:
  "put_hdr p off h = Some q \<Longrightarrow> i + n \<le> off \<or> off + hsize \<le> i \<Longrightarrow> ld_bytes q i n = ld_bytes p i n"
  by (auto simp: put_is_store st_bytes_def ld_bytes_def length_blit take_drop_blit_before
      take_drop_blit_after enc_length split: if_splits)

lemma put_get_id: "get_hdr p off = Some h \<Longrightarrow> put_hdr p off h = Some p"
  by (auto simp: put_is_store get_is_load st_bytes_def ld_bytes_def enc_length enc_dec
      blit_take_drop_id split: if_splits)

lemma put_put: "put_hdr p off h = Some q \<Longrightarrow> put_hdr q off h' = put_hdr p off h'"
  by (auto simp: put_is_store st_bytes_def length_blit blit_blit_same enc_length split: if_splits)

lemma enc_inj: "enc h = enc h' \<Longrightarrow> h = h'"
  by (metis dec_enc)

lemma get_at_front: "get_hdr (enc h @ rest) 0 = Some h"
  by (simp add: get_is_load ld_bytes_def enc_length dec_enc)

lemma get_append: "off = length us \<Longrightarrow> get_hdr (us @ enc h @ rest) off = Some h"
  by (simp add: get_is_load ld_bytes_def enc_length dec_enc)

lemma put_append: "off = length us \<Longrightarrow> put_hdr (us @ enc h @ rest) off h' = Some (us @ enc h' @ rest)"
  by (simp add: put_is_store st_bytes_def enc_length blit_def)

lemma put_raw: "off = length us \<Longrightarrow> length b = hsize \<Longrightarrow> put_hdr (us @ b @ rest) off h = Some (us @ enc h @ rest)"
  by (simp add: put_is_store st_bytes_def enc_length blit_def)

lemma get_splits: "get_hdr p off = Some h \<Longrightarrow> \<exists>us rest. p = us @ enc h @ rest \<and> length us = off"
proof -
  assume "get_hdr p off = Some h"
  then have b: "off + hsize \<le> length p" and h: "h = dec (take hsize (drop off p))"
    by (auto simp: get_is_load ld_bytes_def split: if_splits)
  have "p = take off p @ take hsize (drop off p) @ drop (off + hsize) p"
    by (metis add.commute append_take_drop_id drop_drop)
  with b h show ?thesis by (intro exI[of _ "take off p"] exI[of _ "drop (off + hsize) p"]) (simp add: enc_dec)
qed

end

text \<open>Expanding a list of known length, for the second half of the round trips.\<close>

lemma list_expand: "length b = n \<Longrightarrow> b = List.map (nth b) [0..<n]"
  by (rule nth_equalityI) auto

section \<open>Ethernet\<close>

record ether_header =
  ether_dhost :: mac_addr
  ether_shost :: mac_addr
  ether_type :: u16

definition ether_dec :: "bytes \<Rightarrow> ether_header" where [wire_defs]:
  "ether_dec b = \<lparr> ether_dhost = mac_at b 0, ether_shost = mac_at b 6, ether_type = u16_at b 12 \<rparr>"

definition ether_enc :: "ether_header \<Rightarrow> bytes" where [wire_defs]:
  "ether_enc h = mac_bytes (ether_dhost h) @ mac_bytes (ether_shost h) @ le16_enc (ether_type h)"

definition get_ether :: "bytes \<Rightarrow> nat \<Rightarrow> ether_header option" where
  "get_ether p off = map_option ether_dec (ld_bytes p off ETHER_HDR_SIZE)"

definition put_ether :: "bytes \<Rightarrow> nat \<Rightarrow> ether_header \<Rightarrow> bytes option" where
  "put_ether p off h = st_bytes p off (ether_enc h)"

lemma mac_at_enc: "mac_at (us @ mac_bytes m @ vs) (length us) = m"
  by (cases m) (simp add: mac_at_def nth_append)

lemma mac_bytes_at: "mac_bytes (mac_at b i) = [b ! i, b ! (i + 1), b ! (i + 2), b ! (i + 3), b ! (i + 4), b ! (i + 5)]"
  by (simp add: mac_at_def)

lemma le16_enc_at [codec_simps]: "le16_enc (u16_at b i) = [b ! i, b ! (i + 1)]"
  by (simp add: le16_enc_def u16_at_def codec_simps)

lemma le32_enc_at [codec_simps]: "le32_enc (u32_at b i) = [b ! i, b ! (i + 1), b ! (i + 2), b ! (i + 3)]"
  by (simp add: le32_enc_def u32_at_def codec_simps)

lemma ether_dec_enc: "ether_dec (ether_enc h) = h"
  by (cases "ether_dhost h"; cases "ether_shost h"; cases h)
     (simp add: ether_dec_def ether_enc_def mac_at_def u16_at_def le16_enc_def codec_simps)

lemma upt_14: "[0..<14] = [0,1,2,3,4,5,6,7,8,9,10,11,12,13]"
  by code_simp

lemma ether_enc_dec: "length b = 14 \<Longrightarrow> ether_enc (ether_dec b) = b"
  by (subst (2) list_expand[of b 14]) (simp_all add: ether_dec_def ether_enc_def mac_bytes_at codec_simps upt_14 numeral_2_eq_2 numeral_3_eq_3)

interpretation ether: hdr_codec ether_dec ether_enc ETHER_HDR_SIZE get_ether put_ether
  by unfold_locales
    (auto simp: ether_dec_enc ether_enc_dec hdr_sizes get_ether_def put_ether_def, simp add: ether_enc_def le16_enc_def)

section \<open>IPv4\<close>

record iphdr =
  ihl :: "4 word"
  version :: "4 word"
  tos :: u8
  tot_len :: u16
  ip_id :: u16
  frag_off :: u16
  ttl :: u8
  protocol :: u8
  ip_cksum :: u16
  saddr :: u32
  daddr :: u32

definition iphdr_dec :: "bytes \<Rightarrow> iphdr" where [wire_defs]:
  "iphdr_dec b = \<lparr> ihl = ucast (b ! 0), version = ucast (drop_bit 4 (b ! 0)), tos = b ! 1,
     tot_len = u16_at b 2, ip_id = u16_at b 4, frag_off = u16_at b 6, ttl = b ! 8,
     protocol = b ! 9, ip_cksum = u16_at b 10, saddr = u32_at b 12, daddr = u32_at b 16 \<rparr>"

definition iphdr_enc :: "iphdr \<Rightarrow> bytes" where [wire_defs]:
  "iphdr_enc h = [ucast (ihl h) OR push_bit 4 (ucast (version h)), tos h] @ le16_enc (tot_len h)
     @ le16_enc (ip_id h) @ le16_enc (frag_off h) @ [ttl h, protocol h] @ le16_enc (ip_cksum h)
     @ le32_enc (saddr h) @ le32_enc (daddr h)"

definition get_ip :: "bytes \<Rightarrow> nat \<Rightarrow> iphdr option" where
  "get_ip p off = map_option iphdr_dec (ld_bytes p off IP_BASE_HDR_SIZE)"

definition put_ip :: "bytes \<Rightarrow> nat \<Rightarrow> iphdr \<Rightarrow> bytes option" where
  "put_ip p off h = st_bytes p off (iphdr_enc h)"

lemma nibble_enc [codec_simps]:
  "ucast (ucast (l :: 4 word) OR push_bit 4 (ucast (h :: 4 word)) :: u8) = l"
  "ucast (drop_bit 4 (ucast l :: u8) OR drop_bit 4 (push_bit 4 (ucast h))) = h"
  by (rule bit_word_eqI; auto simp: bit_simps dest: bit_imp_le_length)+

lemma nibble_dec [codec_simps]:
  "ucast (ucast (b :: u8) :: 4 word) OR push_bit 4 (ucast (ucast (drop_bit 4 b) :: 4 word)) = b"
  by (rule bit_word_eqI) (auto simp: bit_simps)

lemma upt_20: "[0..<20] = [0,1,2,3,4,5,6,7,8,9,10,11,12,13,14,15,16,17,18,19]"
  by code_simp

lemma iphdr_dec_enc: "iphdr_dec (iphdr_enc h) = h"
  by (cases h) (simp add: iphdr_dec_def iphdr_enc_def u16_at_def u32_at_def le16_enc_def le32_enc_def codec_simps)

lemma iphdr_enc_dec: "length b = 20 \<Longrightarrow> iphdr_enc (iphdr_dec b) = b"
  by (subst (2) list_expand[of b 20]) (simp_all add: iphdr_dec_def iphdr_enc_def codec_simps upt_20 numeral_2_eq_2 numeral_3_eq_3)

lemma length_iphdr_enc [simp]: "length (iphdr_enc h) = 20"
  by (simp add: iphdr_enc_def le16_enc_def le32_enc_def)

interpretation ip: hdr_codec iphdr_dec iphdr_enc IP_BASE_HDR_SIZE get_ip put_ip
  by unfold_locales (auto simp: iphdr_dec_enc iphdr_enc_dec hdr_sizes get_ip_def put_ip_def)

section \<open>ARP\<close>

record ether_arp =
  arp_hrd :: u16
  arp_pro :: u16
  arp_hln :: u8
  arp_pln :: u8
  arp_op :: u16
  arp_sha :: mac_addr
  arp_spa :: u32
  arp_tha :: mac_addr
  arp_tpa :: u32

definition arp_dec :: "bytes \<Rightarrow> ether_arp" where [wire_defs]:
  "arp_dec b = \<lparr> arp_hrd = u16_at b 0, arp_pro = u16_at b 2, arp_hln = b ! 4, arp_pln = b ! 5,
     arp_op = u16_at b 6, arp_sha = mac_at b 8, arp_spa = u32_at b 14, arp_tha = mac_at b 18,
     arp_tpa = u32_at b 24 \<rparr>"

definition arp_enc :: "ether_arp \<Rightarrow> bytes" where [wire_defs]:
  "arp_enc h = le16_enc (arp_hrd h) @ le16_enc (arp_pro h) @ [arp_hln h, arp_pln h]
     @ le16_enc (arp_op h) @ mac_bytes (arp_sha h) @ le32_enc (arp_spa h) @ mac_bytes (arp_tha h)
     @ le32_enc (arp_tpa h)"

definition get_arp :: "bytes \<Rightarrow> nat \<Rightarrow> ether_arp option" where
  "get_arp p off = map_option arp_dec (ld_bytes p off ETHER_ARP_SIZE)"

definition put_arp :: "bytes \<Rightarrow> nat \<Rightarrow> ether_arp \<Rightarrow> bytes option" where
  "put_arp p off h = st_bytes p off (arp_enc h)"

lemma upt_28: "[0..<28] = [0,1,2,3,4,5,6,7,8,9,10,11,12,13,14,15,16,17,18,19,20,21,22,23,24,25,26,27]"
  by code_simp

lemma arp_dec_enc: "arp_dec (arp_enc h) = h"
  by (cases "arp_sha h"; cases "arp_tha h"; cases h)
     (simp add: arp_dec_def arp_enc_def mac_at_def u16_at_def u32_at_def le16_enc_def le32_enc_def codec_simps)

lemma arp_enc_dec: "length b = 28 \<Longrightarrow> arp_enc (arp_dec b) = b"
  by (subst (2) list_expand[of b 28]) (simp_all add: arp_dec_def arp_enc_def mac_bytes_at codec_simps upt_28 numeral_2_eq_2 numeral_3_eq_3)

lemma length_arp_enc [simp]: "length (arp_enc h) = 28"
  by (simp add: arp_enc_def le16_enc_def le32_enc_def)

interpretation arp: hdr_codec arp_dec arp_enc ETHER_ARP_SIZE get_arp put_arp
  by unfold_locales (auto simp: arp_dec_enc arp_enc_dec hdr_sizes get_arp_def put_arp_def)

section \<open>ICMP\<close>

record icmphdr =
  icmp_type :: u8
  icmp_code :: u8
  icmp_cksum :: u16
  icmp_identifier :: u16
  icmp_sequence :: u16

definition icmp_dec :: "bytes \<Rightarrow> icmphdr" where [wire_defs]:
  "icmp_dec b = \<lparr> icmp_type = b ! 0, icmp_code = b ! 1, icmp_cksum = u16_at b 2,
     icmp_identifier = u16_at b 4, icmp_sequence = u16_at b 6 \<rparr>"

definition icmp_enc :: "icmphdr \<Rightarrow> bytes" where [wire_defs]:
  "icmp_enc h = [icmp_type h, icmp_code h] @ le16_enc (icmp_cksum h)
     @ le16_enc (icmp_identifier h) @ le16_enc (icmp_sequence h)"

definition get_icmp :: "bytes \<Rightarrow> nat \<Rightarrow> icmphdr option" where
  "get_icmp p off = map_option icmp_dec (ld_bytes p off ICMP_HDR_SIZE)"

definition put_icmp :: "bytes \<Rightarrow> nat \<Rightarrow> icmphdr \<Rightarrow> bytes option" where
  "put_icmp p off h = st_bytes p off (icmp_enc h)"

lemma upt_8: "[0..<8] = [0,1,2,3,4,5,6,7]"
  by code_simp

lemma icmp_dec_enc: "icmp_dec (icmp_enc h) = h"
  by (cases h) (simp add: icmp_dec_def icmp_enc_def u16_at_def le16_enc_def codec_simps)

lemma icmp_enc_dec: "length b = 8 \<Longrightarrow> icmp_enc (icmp_dec b) = b"
  by (subst (2) list_expand[of b 8])
    (simp_all add: icmp_dec_def icmp_enc_def codec_simps upt_8 numeral_2_eq_2 numeral_3_eq_3)

lemma length_icmp_enc [simp]: "length (icmp_enc h) = 8"
  by (simp add: icmp_enc_def le16_enc_def)

interpretation icmp: hdr_codec icmp_dec icmp_enc ICMP_HDR_SIZE get_icmp put_icmp
  by unfold_locales (auto simp: icmp_dec_enc icmp_enc_dec hdr_sizes get_icmp_def put_icmp_def)

section \<open>TCP\<close>

record tcphdr =
  th_sport :: u16
  th_dport :: u16
  th_seq :: u32
  th_ack :: u32
  th_x2 :: "4 word"
  th_off :: "4 word"
  th_flags :: u8
  th_rwnd :: u16
  th_cksum :: u16
  th_urp :: u16

definition tcp_dec :: "bytes \<Rightarrow> tcphdr" where [wire_defs]:
  "tcp_dec b = \<lparr> th_sport = u16_at b 0, th_dport = u16_at b 2, th_seq = u32_at b 4,
     th_ack = u32_at b 8, th_x2 = ucast (b ! 12), th_off = ucast (drop_bit 4 (b ! 12)),
     th_flags = b ! 13, th_rwnd = u16_at b 14, th_cksum = u16_at b 16, th_urp = u16_at b 18 \<rparr>"

definition tcp_enc :: "tcphdr \<Rightarrow> bytes" where [wire_defs]:
  "tcp_enc h = le16_enc (th_sport h) @ le16_enc (th_dport h) @ le32_enc (th_seq h)
     @ le32_enc (th_ack h) @ [ucast (th_x2 h) OR push_bit 4 (ucast (th_off h)), th_flags h]
     @ le16_enc (th_rwnd h) @ le16_enc (th_cksum h) @ le16_enc (th_urp h)"

definition get_tcp :: "bytes \<Rightarrow> nat \<Rightarrow> tcphdr option" where
  "get_tcp p off = map_option tcp_dec (ld_bytes p off TCP_BASE_HDR_SIZE)"

definition put_tcp :: "bytes \<Rightarrow> nat \<Rightarrow> tcphdr \<Rightarrow> bytes option" where
  "put_tcp p off h = st_bytes p off (tcp_enc h)"

lemma tcp_dec_enc: "tcp_dec (tcp_enc h) = h"
  by (cases h) (simp add: tcp_dec_def tcp_enc_def u16_at_def u32_at_def le16_enc_def le32_enc_def codec_simps)

lemma tcp_enc_dec: "length b = 20 \<Longrightarrow> tcp_enc (tcp_dec b) = b"
  by (subst (2) list_expand[of b 20])
    (simp_all add: tcp_dec_def tcp_enc_def codec_simps upt_20 numeral_2_eq_2 numeral_3_eq_3)

lemma length_tcp_enc [simp]: "length (tcp_enc h) = 20"
  by (simp add: tcp_enc_def le16_enc_def le32_enc_def)

interpretation tcp: hdr_codec tcp_dec tcp_enc TCP_BASE_HDR_SIZE get_tcp put_tcp
  by unfold_locales (auto simp: tcp_dec_enc tcp_enc_dec hdr_sizes get_tcp_def put_tcp_def)

section \<open>Checksums of the headers\<close>

definition ip_hdr_size :: "iphdr \<Rightarrow> nat" where
  "ip_hdr_size h = unat (ihl h) * 4"

definition tcp_hdr_size :: "tcphdr \<Rightarrow> nat" where
  "tcp_hdr_size h = unat (th_off h) * 4"

definition ip_checksum :: "bytes \<Rightarrow> nat \<Rightarrow> u16 option" where
  "ip_checksum p off = do {
     h \<leftarrow> get_ip p off;
     p0 \<leftarrow> put_ip p off (h\<lparr>ip_cksum := 0\<rparr>);
     b \<leftarrow> ld_bytes p0 off (ip_hdr_size h);
     Some (checksum b 0) }"

definition icmp_checksum :: "bytes \<Rightarrow> nat \<Rightarrow> nat \<Rightarrow> u16 option" where
  "icmp_checksum p off len = do {
     h \<leftarrow> get_icmp p off;
     p0 \<leftarrow> put_icmp p off (h\<lparr>icmp_cksum := 0\<rparr>);
     b \<leftarrow> ld_bytes p0 off len;
     Some (checksum b 0) }"

definition tcp_checksum :: "bytes \<Rightarrow> nat \<Rightarrow> nat \<Rightarrow> u16 option" where
  "tcp_checksum p ipoff off = do {
     ip \<leftarrow> get_ip p ipoff;
     h \<leftarrow> get_tcp p off;
     p0 \<leftarrow> put_tcp p off (h\<lparr>th_cksum := 0\<rparr>);
     let reserv_proto = ucast (protocol ip);
     let tcp_len = ntohs (tot_len ip) - of_nat (ip_hdr_size ip);
     let sum0 = saddr ip + daddr ip + ucast (htons reserv_proto) + ucast (htons tcp_len);
     b \<leftarrow> ld_bytes p0 off (unat tcp_len);
     Some (checksum b sum0) }"

definition ip_init_hdr :: "u16 \<Rightarrow> bytes \<Rightarrow> nat \<Rightarrow> u32 \<Rightarrow> u32 \<Rightarrow> u16 \<Rightarrow> u8 \<Rightarrow> bytes option" where
  "ip_init_hdr rnd p off sip dip len proto = do {
     h \<leftarrow> get_ip p off;
     let h = h\<lparr>version := 4, ihl := 5, tos := 0, tot_len := htons len, ip_id := rnd,
       frag_off := htons 0x4000, ttl := 64, protocol := proto,
       saddr := htonl sip, daddr := htonl dip\<rparr>;
     p \<leftarrow> put_ip p off h;
     ck \<leftarrow> ip_checksum p off;
     put_ip p off (h\<lparr>ip_cksum := ck\<rparr>) }"

lemma ip_checksum_at:
  assumes "ihl h = 5"
  shows "ip_checksum (us @ iphdr_enc h @ rest) (length us)
    = Some (checksum (iphdr_enc (h\<lparr>ip_cksum := 0\<rparr>)) 0)"
  using assms
  by (simp add: ip_checksum_def ip.get_append ip.put_append ip_hdr_size_def ld_bytes_def)

text \<open>The header bytes before and after the checksum field.\<close>

definition iphdr_pre :: "iphdr \<Rightarrow> bytes" where
  "iphdr_pre h = take 10 (iphdr_enc h)"

definition iphdr_post :: "iphdr \<Rightarrow> bytes" where
  "iphdr_post h = drop 12 (iphdr_enc h)"

lemma iphdr_enc_cksum:
  "iphdr_enc (h\<lparr>ip_cksum := c\<rparr>) = iphdr_pre h @ le16_enc c @ iphdr_post h"
  "length (iphdr_pre h) = 10" "length (iphdr_post h) = 8"
  by (simp_all add: iphdr_pre_def iphdr_post_def iphdr_enc_def le16_enc_def le32_enc_def)

lemma word_sum_bound: "word_sum b \<le> length b * 65535"
proof (induction b rule: word_sum.induct)
  case (1 a b rest)
  have "unat (le16_dec a b) < 2 ^ LENGTH(16)" by (rule unsigned_less)
  then have "unat (le16_dec a b) \<le> 65535" by simp
  with 1 show ?case by simp
next
  case (2 a)
  have "unat a < 2 ^ LENGTH(8)" by (rule unsigned_less)
  then show ?case by simp
qed simp

lemma iphdr_checksum_verifies:
  "checksum (iphdr_enc (h\<lparr>ip_cksum := checksum (iphdr_enc (h\<lparr>ip_cksum := 0\<rparr>)) 0\<rparr>)) 0 = 0"
proof -
  have "le16_enc 0 = [0, 0]" by (simp add: le16_enc_def)
  moreover have "word_sum (iphdr_pre h @ [0, 0] @ iphdr_post h) \<le> 20 * 65535"
    using word_sum_bound[of "iphdr_pre h @ [0, 0] @ iphdr_post h"] by (simp add: iphdr_enc_cksum)
  ultimately show ?thesis
    unfolding iphdr_enc_cksum(1) by (simp only:) (rule checksum_stored_verifies, simp_all add: iphdr_enc_cksum)
qed

text \<open>The header \<open>ip_init_hdr\<close> leaves in the packet.\<close>

definition ip_header_of :: "u16 \<Rightarrow> iphdr \<Rightarrow> u32 \<Rightarrow> u32 \<Rightarrow> u16 \<Rightarrow> u8 \<Rightarrow> iphdr" where
  "ip_header_of rnd h sip dip len proto =
     (let h = h\<lparr>version := 4, ihl := 5, tos := 0, tot_len := htons len, ip_id := rnd,
        frag_off := htons 0x4000, ttl := 64, protocol := proto,
        saddr := htonl sip, daddr := htonl dip, ip_cksum := 0\<rparr>
      in h\<lparr>ip_cksum := checksum (iphdr_enc h) 0\<rparr>)"

lemma ip_init_hdr_on:
  "ip_init_hdr rnd (us @ iphdr_enc h @ rest) (length us) sip dip len proto =
     Some (us @ iphdr_enc (ip_header_of rnd h sip dip len proto) @ rest)"
  by (simp add: ip_init_hdr_def ip_header_of_def Let_def ip.get_append ip.put_append ip_checksum_at)

lemma ip_init_hdr_Some:
  assumes "off + IP_BASE_HDR_SIZE \<le> length p"
  shows "\<exists>us h rest. p = us @ iphdr_enc h @ rest \<and> length us = off \<and>
    ip_init_hdr rnd p off sip dip len proto =
      Some (us @ iphdr_enc (ip_header_of rnd h sip dip len proto) @ rest)"
proof -
  from assms obtain h where "get_ip p off = Some h" using ip.get_Some_iff by blast
  from ip.get_splits[OF this] show ?thesis using ip_init_hdr_on by blast
qed

lemma ip_header_of_checksum: "checksum (iphdr_enc (ip_header_of rnd h sip dip len proto)) 0 = 0"
  by (simp add: ip_header_of_def Let_def iphdr_checksum_verifies)

section \<open>The pseudo header\<close>

text \<open>What RFC 793 sums in front of the segment: addresses, zero, protocol and TCP length, in
  network byte order.\<close>

definition tcp_pseudo_header :: "iphdr \<Rightarrow> u16 \<Rightarrow> bytes" where
  "tcp_pseudo_header ip len = le32_enc (saddr ip) @ le32_enc (daddr ip) @ [0, protocol ip] @ be16_enc len"

lemma mod_eq_bounded:
  assumes "x \<le> N" "y \<le> N" "x mod N = y mod N" "x = 0 \<longleftrightarrow> y = (0::nat)"
  shows "x = y"
proof (cases "x < N")
  case True
  with assms show ?thesis by (cases "y < N") auto
next
  case False
  with assms(1) have "x = N" by simp
  with assms show ?thesis by (cases "y < N") auto
qed

lemma ones_sum_eqI:
  assumes "m mod 65535 = n mod 65535" "m = 0 \<longleftrightarrow> n = 0"
  shows "ones_sum m = ones_sum n"
  by (rule mod_eq_bounded[OF ones_sum_le ones_sum_le]) (simp_all only: ones_sum_cong ones_sum_eq_0 assms)

lemma mod_65535_words: "((l::nat) + 65536 * h) mod 65535 = (l + h) mod 65535"
proof -
  have "l + 65536 * h = (l + h) + 65535 * h" by simp
  then show ?thesis by (simp only: mod_mult_self2)
qed

lemma le32_dec_halves: "le32_dec a b c d = ucast (le16_dec a b) OR push_bit 16 (ucast (le16_dec c d))"
proof (rule bit_word_eqI)
  fix n assume "n < LENGTH(32)"
  then consider "n < 8" | "8 \<le> n \<and> n < 16" | "16 \<le> n \<and> n < 24" | "24 \<le> n \<and> n < 32"
    by fastforce
  then show "bit (le32_dec a b c d) n \<longleftrightarrow>
      bit (ucast (le16_dec a b) OR push_bit 16 (ucast (le16_dec c d)) :: u32) n"
    by cases (auto simp: le32_dec_def be32_dec_def le16_dec_def be16_dec_def bit_simps
        dest: bit_imp_le_length)
qed

lemma unat_le32_dec: "unat (le32_dec a b c d) = unat (le16_dec a b) + 65536 * unat (le16_dec c d)"
proof -
  have "le32_dec a b c d = ucast (le16_dec a b) + push_bit 16 (ucast (le16_dec c d))"
    unfolding le32_dec_halves
    by (rule disjunctive_add[symmetric]) (auto simp: bit_simps dest: bit_imp_le_length)
  moreover have "unat (le16_dec a b) < 2 ^ LENGTH(16)" "unat (le16_dec c d) < 2 ^ LENGTH(16)"
    by (rule unsigned_less)+
  ultimately show ?thesis by (simp add: unat_word_ariths push_bit_eq_mult)
qed

lemma unat_as_words: "unat (w :: u32) mod 65535 = word_sum (le32_enc w) mod 65535"
  "unat w = 0 \<longleftrightarrow> word_sum (le32_enc w) = 0"
proof -
  let ?l = "unat (le16_dec (ucast w) (ucast (drop_bit 8 w)))"
  let ?h = "unat (le16_dec (ucast (drop_bit 16 w)) (ucast (drop_bit 24 w)))"
  have w: "unat w = ?l + 65536 * ?h" by (simp add: unat_le32_dec[symmetric] codec_simps)
  show "unat w mod 65535 = word_sum (le32_enc w) mod 65535"
    unfolding w mod_65535_words by (simp add: le32_enc_def)
  show "unat w = 0 \<longleftrightarrow> word_sum (le32_enc w) = 0" by (simp add: w le32_enc_def)
qed

lemma le16_dec_pair: "unat (le16_dec 0 b) = unat (htons (ucast b))"
proof -
  have "ucast (ucast b :: u16) = b" "ucast (drop_bit 8 (ucast b :: u16)) = (0 :: u8)"
    by (rule bit_word_eqI; auto simp: bit_simps dest: bit_imp_le_length)+
  then show ?thesis by (simp add: htons_def le16_dec_def)
qed

lemma le16_dec_be: "le16_dec (ucast (drop_bit 8 w)) (ucast w) = htons w"
  by (simp add: htons_def le16_dec_def)

lemma word_sum_pseudo: "word_sum (tcp_pseudo_header ip len) =
    word_sum (le32_enc (saddr ip)) + word_sum (le32_enc (daddr ip))
      + unat (htons (ucast (protocol ip))) + unat (htons len)"
  by (simp add: tcp_pseudo_header_def le32_enc_def be16_enc_def le16_dec_pair le16_dec_be)

lemma mod_add4: "(a::nat) mod n = b mod n \<Longrightarrow> c mod n = d mod n \<Longrightarrow> (a + c + k + l) mod n = (b + d + k + l) mod n"
  by (metis mod_add_cong)

lemma ones_sum_pseudo:
  "ones_sum (unat (saddr ip) + unat (daddr ip) + unat (htons (ucast (protocol ip))) + unat (htons len) + W)
    = ones_sum (word_sum (tcp_pseudo_header ip len) + W)"
proof (rule ones_sum_eqI)
  show "(unat (saddr ip) + unat (daddr ip) + unat (htons (ucast (protocol ip))) + unat (htons len) + W) mod 65535
      = (word_sum (tcp_pseudo_header ip len) + W) mod 65535"
    unfolding word_sum_pseudo by (intro mod_add_cong mod_add4 unat_as_words refl)
  show "unat (saddr ip) + unat (daddr ip) + unat (htons (ucast (protocol ip))) + unat (htons len) + W = 0
      \<longleftrightarrow> word_sum (tcp_pseudo_header ip len) + W = 0"
    using unat_as_words(2)[of "saddr ip"] unat_as_words(2)[of "daddr ip"] by (auto simp: word_sum_pseudo)
qed

section \<open>The control block of a received segment\<close>

datatype tcp_state = TCP_CLOSED | TCP_LISTEN | TCP_SYN_RECV | TCP_SYN_SENT | TCP_ESTABLISHED
  | TCP_CLOSE_WAIT | TCP_LAST_ACK | TCP_FIN_WAIT_1 | TCP_FIN_WAIT_2 | TCP_CLOSING | TCP_TIME_WAIT

definition TCP_FIN :: u8 where "TCP_FIN = 0x01"
definition TCP_SYN :: u8 where "TCP_SYN = 0x02"
definition TCP_RST :: u8 where "TCP_RST = 0x04"
definition TCP_PSH :: u8 where "TCP_PSH = 0x08"
definition TCP_ACK :: u8 where "TCP_ACK = 0x10"
definition TCP_URG :: u8 where "TCP_URG = 0x20"

lemmas tcp_flag_defs = TCP_FIN_def TCP_SYN_def TCP_RST_def TCP_PSH_def TCP_ACK_def TCP_URG_def

text \<open>The macros \<open>less_or_equal_32b\<close> and so on: a signed comparison of the wrapped difference.\<close>

definition less_or_equal_32b :: "u32 \<Rightarrow> u32 \<Rightarrow> bool" where
  "less_or_equal_32b a b \<longleftrightarrow> sint (a - b) \<le> 0"

definition less_than_32b :: "u32 \<Rightarrow> u32 \<Rightarrow> bool" where
  "less_than_32b a b \<longleftrightarrow> sint (a - b) < 0"

definition greater_or_equal_32b :: "u32 \<Rightarrow> u32 \<Rightarrow> bool" where
  "greater_or_equal_32b a b \<longleftrightarrow> sint (a - b) \<ge> 0"

definition greater_than_32b :: "u32 \<Rightarrow> u32 \<Rightarrow> bool" where
  "greater_than_32b a b \<longleftrightarrow> sint (a - b) > 0"

record tcp_cb =
  cb_saddr :: u32
  cb_daddr :: u32
  cb_sport :: u16
  cb_dport :: u16
  cb_seq :: u32
  cb_seq_end :: u32
  cb_ack :: u32
  cb_rwnd :: u32
  cb_flags :: u8
  cb_payload :: nat
  cb_pl_len :: int

text \<open>\<open>tcp_cb_init (ip, tcp, cb)\<close>: both headers are already read, \<open>off\<close> is the position of the
  TCP header in the packet, so \<open>cb_payload\<close> is a position too. The length may be negative.\<close>

definition tcp_cb_init :: "iphdr \<Rightarrow> tcphdr \<Rightarrow> nat \<Rightarrow> tcp_cb" where
  "tcp_cb_init ip h off =
     (let len = int (unat (ntohs (tot_len ip))) - int (ip_hdr_size ip) - int (tcp_hdr_size h)
      in \<lparr> cb_saddr = ntohl (saddr ip), cb_daddr = ntohl (daddr ip),
           cb_sport = ntohs (th_sport h), cb_dport = ntohs (th_dport h),
           cb_seq = ntohl (th_seq h),
           cb_seq_end = ntohl (th_seq h) + to_u32 len
             + (if th_flags h AND (TCP_SYN OR TCP_FIN) \<noteq> 0 then 1 else 0),
           cb_ack = ntohl (th_ack h), cb_rwnd = ucast (ntohs (th_rwnd h)), cb_flags = th_flags h,
           cb_payload = off + tcp_hdr_size h, cb_pl_len = len \<rparr>)"

section \<open>Flag strings\<close>

text \<open>\<open>copy_flag_str\<close> returns the buffer it writes and the length it adds.\<close>

definition copy_flag_str :: "u8 \<Rightarrow> u8 \<Rightarrow> string \<Rightarrow> nat \<Rightarrow> string \<Rightarrow> nat \<Rightarrow> (string \<times> nat) option" where
  "copy_flag_str flags flag buf start str len =
     (if flags AND flag \<noteq> 0
      then do { buf \<leftarrow> st_bytes buf start (str @ [CHR 0x00]); Some (buf, len) }
      else Some (buf, 0))"

definition tcp_copy_flags_to_str :: "u8 \<Rightarrow> string option" where
  "tcp_copy_flags_to_str flags = do {
     let buf = replicate 32 (CHR 0x00);
     (buf, n1) \<leftarrow> copy_flag_str flags TCP_FIN buf 0 ''FIN|'' 4;
     (buf, n2) \<leftarrow> copy_flag_str flags TCP_SYN buf n1 ''SYN|'' 4;
     (buf, n3) \<leftarrow> copy_flag_str flags TCP_RST buf (n1 + n2) ''RST|'' 4;
     (buf, n4) \<leftarrow> copy_flag_str flags TCP_PSH buf (n1 + n2 + n3) ''PSH|'' 4;
     (buf, n5) \<leftarrow> copy_flag_str flags TCP_ACK buf (n1 + n2 + n3 + n4) ''ACK|'' 4;
     (buf, n6) \<leftarrow> copy_flag_str flags TCP_URG buf (n1 + n2 + n3 + n4 + n5) ''URG|'' 4;
     let len = n1 + n2 + n3 + n4 + n5 + n6;
     if len \<noteq> 0 then st_bytes buf (len - 1) [CHR 0x00] else Some buf }"

text \<open>The C string a buffer holds: everything before the first NUL.\<close>

definition c_string :: "string \<Rightarrow> string" where
  "c_string buf = takeWhile (\<lambda>c. c \<noteq> CHR 0x00) buf"

section \<open>Properties\<close>

text \<open>Writing an IP header through its pointer and reading it back yields the same
  fields, leaves every byte outside the header as it was, and is defined exactly when the header
  lies inside the packet.\<close>

theorem ip_header_roundtrip:
  assumes "off + IP_BASE_HDR_SIZE \<le> length p"
  shows "\<exists>q. put_ip p off h = Some q \<and> get_ip q off = Some h \<and> length q = length p \<and>
    (\<forall>i n. i + n \<le> off \<or> off + IP_BASE_HDR_SIZE \<le> i \<longrightarrow> ld_bytes q i n = ld_bytes p i n)"
proof -
  obtain q where q: "put_ip p off h = Some q" using assms ip.put_Some_iff by blast
  then show ?thesis using ip.get_put_same ip.put_length ip.put_frame by blast
qed

theorem ip_header_roundtrip_witness:
  "\<exists>q. put_ip (replicate 34 0) 14 (iphdr_dec (replicate 20 7)) = Some q \<and>
     get_ip q 14 = Some (iphdr_dec (replicate 20 7))"
  using ip_header_roundtrip[of 14 "replicate 34 0" "iphdr_dec (replicate 20 7)"]
  by (auto simp: hdr_sizes)

text \<open>\<open>ip_init_hdr\<close> succeeds on any packet with room for a header; the header it
  writes carries the requested fields in network order and its checksum verifies, so every
  receiver that sums the 20 header bytes gets zero. No other byte of the packet changes.\<close>

theorem ip_init_hdr_valid:
  assumes "off + IP_BASE_HDR_SIZE \<le> length p"
  shows "\<exists>q h. ip_init_hdr rnd p off sip dip len proto = Some q \<and> get_ip q off = Some h \<and>
    ntohl (saddr h) = sip \<and> ntohl (daddr h) = dip \<and> ntohs (tot_len h) = len \<and>
    protocol h = proto \<and> ttl h = 64 \<and> ihl h = 5 \<and> version h = 4 \<and>
    checksum (iphdr_enc h) 0 = 0 \<and> take off q = take off p \<and>
    drop (off + IP_BASE_HDR_SIZE) q = drop (off + IP_BASE_HDR_SIZE) p"
proof -
  obtain us h rest where *: "p = us @ iphdr_enc h @ rest" "length us = off"
    "ip_init_hdr rnd p off sip dip len proto =
      Some (us @ iphdr_enc (ip_header_of rnd h sip dip len proto) @ rest)"
    using ip_init_hdr_Some[OF assms] by blast
  have "checksum (iphdr_enc (ip_header_of rnd h sip dip len proto)) 0 = 0"
    by (rule ip_header_of_checksum)
  with * show ?thesis
    by (intro exI[of _ "us @ iphdr_enc (ip_header_of rnd h sip dip len proto) @ rest"]
        exI[of _ "ip_header_of rnd h sip dip len proto"])
      (simp add: ip.get_append, simp add: ip_header_of_def Let_def hdr_sizes)
qed

theorem ip_init_hdr_valid_witness:
  "\<exists>q h. ip_init_hdr 3 (replicate 34 0) 14 0x0A000001 0x0A000002 20 6 = Some q \<and>
     get_ip q 14 = Some h \<and> ntohl (daddr h) = 0x0A000002 \<and> checksum (iphdr_enc h) 0 = 0"
  using ip_init_hdr_valid[of 14 "replicate 34 0" 3 "0x0A000001" "0x0A000002" 20 6]
  by (auto simp: hdr_sizes)

text \<open>Property C35. As long as the 32-bit sum of addresses, protocol, length and segment words does
  not wrap, \<open>tcp_checksum\<close> is the checksum RFC 793 defines over the pseudo header and the segment
  with its checksum field zeroed.\<close>

theorem tcp_checksum_is_rfc793:
  assumes "get_ip p ipoff = Some ip" "get_tcp p off = Some h"
    and "len = ntohs (tot_len ip) - of_nat (ip_hdr_size ip)"
    and "put_tcp p off (h\<lparr>th_cksum := 0\<rparr>) = Some p0" "ld_bytes p0 off (unat len) = Some seg"
    and "unat (saddr ip) + unat (daddr ip) + unat (htons (ucast (protocol ip))) + unat (htons len)
          + word_sum seg < 2 ^ 32"
  shows "\<exists>ck. tcp_checksum p ipoff off = Some ck \<and>
    unat ck = 65535 - ones_sum (word_sum (tcp_pseudo_header ip len) + word_sum seg)"
proof -
  let ?sum = "saddr ip + daddr ip + ucast (htons (ucast (protocol ip))) + ucast (htons len)"
  have s: "unat ?sum = unat (saddr ip) + unat (daddr ip) + unat (htons (ucast (protocol ip))) + unat (htons len)"
    using assms(6) by (simp add: unat_word_ariths)
  have "tcp_checksum p ipoff off = Some (checksum seg ?sum)"
    using assms(1-5) by (simp add: tcp_checksum_def Let_def)
  moreover have "unat (checksum seg ?sum) = 65535 - ones_sum (unat ?sum + word_sum seg)"
    using assms(6) by (intro unat_checksum) (simp add: s)
  ultimately show ?thesis by (simp add: s ones_sum_pseudo)
qed

text \<open>A 20-byte ACK segment from 10.0.0.a to 10.0.0.b, without link header.\<close>

definition sample_ack :: "u8 \<Rightarrow> u8 \<Rightarrow> bytes" where
  "sample_ack a b = [0x45, 0, 0, 40, 0, 0, 0, 0, 64, 6, 0, 0, 10, 0, 0, a, 10, 0, 0, b,
     0x12, 0x34, 0x56, 0x78, 0, 0, 0, 1, 0, 0, 0, 2, 0x50, 0x10, 0, 0, 0, 0, 0, 0]"

lemmas hdr_eval = get_ether_def put_ether_def get_ip_def put_ip_def get_arp_def put_arp_def
  get_icmp_def put_icmp_def get_tcp_def put_tcp_def ld_bytes_def st_bytes_def hdr_sizes blit_def
  ip_hdr_size_def wire_defs

theorem tcp_checksum_is_rfc793_witness:
  "\<exists>ck. tcp_checksum (sample_ack 1 2) 0 20 = Some ck \<and>
     unat ck = 65535 - ones_sum (word_sum (tcp_pseudo_header (iphdr_dec (take 20 (sample_ack 1 2))) 20)
       + word_sum (drop 20 (sample_ack 1 2)))"
  by (rule tcp_checksum_is_rfc793[of _ 0 _ 20 "tcp_dec (drop 20 (sample_ack 1 2))" _ "sample_ack 1 2"])
    (simp_all add: sample_ack_def hdr_eval)

text \<open>The carry out of the 32-bit sum of the two addresses is lost: between 10.0.0.200
  and 10.0.0.100 the code's checksum of the same segment differs from the one of RFC 793.\<close>

theorem tcp_checksum_drops_carry:
  "\<exists>ck. tcp_checksum (sample_ack 200 100) 0 20 = Some ck \<and>
     unat ck \<noteq> 65535 - ones_sum (word_sum (tcp_pseudo_header (iphdr_dec (take 20 (sample_ack 200 100))) 20)
       + word_sum (drop 20 (sample_ack 200 100)))"
proof -
  have "tcp_checksum (sample_ack 200 100) 0 20 = Some 64050"
    by (simp add: sample_ack_def tcp_checksum_def hdr_eval)
      (simp add: checksum_def wire_defs checksum_fold.simps)
  moreover have "65535 - ones_sum (word_sum (tcp_pseudo_header (iphdr_dec (take 20 (sample_ack 200 100))) 20)
      + word_sum (drop 20 (sample_ack 200 100))) = 64049"
    by (simp add: sample_ack_def wire_defs tcp_pseudo_header_def ones_sum_def)
  ultimately show ?thesis by simp
qed

text \<open>The names of the flags set in a header, in bit order, and the string that joins them.\<close>

definition flag_names :: "u8 \<Rightarrow> string list" where
  "flag_names f = List.map snd (filter (\<lambda>(m, _). f AND m \<noteq> 0) [(TCP_FIN, ''FIN''), (TCP_SYN, ''SYN''),
     (TCP_RST, ''RST''), (TCP_PSH, ''PSH''), (TCP_ACK, ''ACK''), (TCP_URG, ''URG'')])"

fun join_bar :: "string list \<Rightarrow> string" where
  "join_bar [] = []"
| "join_bar [x] = x"
| "join_bar (x # y # r) = x @ ''|'' @ join_bar (y # r)"

lemma replicate_32: "replicate 32 x = [x,x,x,x,x,x,x,x,x,x,x,x,x,x,x,x,x,x,x,x,x,x,x,x,x,x,x,x,x,x,x,x]"
  by (simp add: numeral_eq_Suc)

text \<open>\<open>tcp_copy_flags_to_str\<close> never writes outside its 32-byte buffer, and the string
  it leaves lists exactly the names of the set flags, in header order, joined by bars.\<close>

theorem tcp_copy_flags_to_str_total:
  "\<exists>buf. tcp_copy_flags_to_str f = Some buf \<and> length buf = 32 \<and> c_string buf = join_bar (flag_names f)"
  by (cases "f AND TCP_FIN = 0"; cases "f AND TCP_SYN = 0"; cases "f AND TCP_RST = 0";
      cases "f AND TCP_PSH = 0"; cases "f AND TCP_ACK = 0"; cases "f AND TCP_URG = 0")
    (simp_all add: tcp_copy_flags_to_str_def copy_flag_str_def flag_names_def st_bytes_def blit_def
      c_string_def replicate_32)

end
