(* ===== verification/Routing.thy ===== *)
theory Routing
  imports Headers
begin

text \<open>
  Interfaces (\<open>include/base.h\<close>) and the forwarding table of \<open>rtable.c\<close>, with the longest prefix
  match of \<open>ip.c\<close> and the variant of it in \<open>prj07/ip_base.c\<close>. The table is the list the code
  links through \<open>rt_entry_t.list\<close>, front first; a pointer to an entry is its position.
\<close>

section \<open>Interfaces and entries\<close>

record iface =
  if_index :: int
  if_mac :: mac_addr
  if_ip :: u32
  if_mask :: u32
  if_name :: string

record rt_entry =
  rt_dest :: u32
  rt_mask :: u32
  rt_gw :: u32
  rt_flags :: int
  rt_if_name :: string
  rt_iface :: iface

type_synonym rtable = "rt_entry list"

text \<open>Both name fields have 16 bytes: \<open>strcpy\<close> of a longer name runs out of the field.\<close>

definition new_rt_entry :: "u32 \<Rightarrow> u32 \<Rightarrow> u32 \<Rightarrow> iface \<Rightarrow> rt_entry option" where
  "new_rt_entry dst msk gw ifc =
     (if length (if_name ifc) < 16
      then Some \<lparr> rt_dest = dst, rt_mask = msk, rt_gw = gw, rt_flags = 0,
                  rt_if_name = if_name ifc, rt_iface = ifc \<rparr>
      else None)"

definition add_rt_entry :: "rt_entry \<Rightarrow> rtable \<Rightarrow> rtable" where
  "add_rt_entry e rt = rt @ [e]"

definition remove_rt_entry :: "nat \<Rightarrow> rtable \<Rightarrow> rtable option" where
  "remove_rt_entry i rt = (if i < length rt then Some (take i rt @ drop (Suc i) rt) else None)"

fun clear_rtable :: "rtable \<Rightarrow> rtable" where
  "clear_rtable [] = []"
| "clear_rtable (e # rt) = clear_rtable rt"

definition get_next_hop :: "rt_entry \<Rightarrow> u32 \<Rightarrow> u32" where
  "get_next_hop e dst = (if rt_gw e \<noteq> 0 then rt_gw e else dst)"

section \<open>Longest prefix match\<close>

definition rt_matches :: "u32 \<Rightarrow> rt_entry \<Rightarrow> bool" where
  "rt_matches dst e \<longleftrightarrow> dst AND rt_mask e = rt_dest e AND rt_mask e"

fun lpm_loop :: "u32 \<Rightarrow> rtable \<Rightarrow> rt_entry option \<Rightarrow> rt_entry option" where
  "lpm_loop dst [] selected = selected"
| "lpm_loop dst (e # rt) selected =
     lpm_loop dst rt
       (if dst AND rt_mask e = rt_dest e AND rt_mask e \<and>
           (case selected of None \<Rightarrow> True | Some s \<Rightarrow> rt_mask s < rt_mask e)
        then Some e else selected)"

definition longest_prefix_match :: "rtable \<Rightarrow> u32 \<Rightarrow> rt_entry option" where
  "longest_prefix_match rt dst = lpm_loop dst rt None"

text \<open>\<open>prj07/ip_base.c\<close>: the running mask starts at zero and must be exceeded.\<close>

fun lpm07_loop :: "u32 \<Rightarrow> rtable \<Rightarrow> rt_entry option \<Rightarrow> u32 \<Rightarrow> rt_entry option" where
  "lpm07_loop dst [] res rmask = res"
| "lpm07_loop dst (e # rt) res rmask =
     (if rt_mask e > rmask \<and> rt_mask e AND dst = rt_dest e AND rt_mask e
      then lpm07_loop dst rt (Some e) (rt_mask e)
      else lpm07_loop dst rt res rmask)"

definition longest_prefix_match07 :: "rtable \<Rightarrow> u32 \<Rightarrow> rt_entry option" where
  "longest_prefix_match07 rt dst = lpm07_loop dst rt None 0"

lemma clear_rtable_empty [simp]: "clear_rtable rt = []"
  by (induction rt) auto

text \<open>The table and the running selection together determine the result: it is the first of the
  best entries.\<close>

definition best_first :: "(rt_entry \<Rightarrow> bool) \<Rightarrow> rtable \<Rightarrow> rt_entry \<Rightarrow> bool" where
  "best_first P rt e \<longleftrightarrow> (\<exists>us vs. rt = us @ e # vs \<and> P e \<and>
     (\<forall>f\<in>set us. P f \<longrightarrow> rt_mask f < rt_mask e) \<and> (\<forall>f\<in>set vs. P f \<longrightarrow> rt_mask f \<le> rt_mask e))"

lemma best_first_unique: "best_first P rt a \<Longrightarrow> best_first P rt b \<Longrightarrow> a = b"
proof -
  assume "best_first P rt a" "best_first P rt b"
  then obtain us vs us' vs' where *: "rt = us @ a # vs" "rt = us' @ b # vs'"
    and a: "P a" "\<forall>f\<in>set us. P f \<longrightarrow> rt_mask f < rt_mask a" "\<forall>f\<in>set vs. P f \<longrightarrow> rt_mask f \<le> rt_mask a"
    and b: "P b" "\<forall>f\<in>set us'. P f \<longrightarrow> rt_mask f < rt_mask b" "\<forall>f\<in>set vs'. P f \<longrightarrow> rt_mask f \<le> rt_mask b"
    unfolding best_first_def by blast
  consider (eq) "length us = length us'" | (l) "length us < length us'" | (g) "length us' < length us"
    by linarith
  then show ?thesis
  proof cases
    case eq
    with * show ?thesis by simp
  next
    case l
    with * have "a \<in> set us'" "b \<in> set vs"
      by (auto simp: append_eq_append_conv2 append_eq_Cons_conv Cons_eq_append_conv)
    with a b show ?thesis by fastforce
  next
    case g
    with * have "b \<in> set us" "a \<in> set vs'"
      by (auto simp: append_eq_append_conv2 append_eq_Cons_conv Cons_eq_append_conv)
    with a b show ?thesis by fastforce
  qed
qed

lemma best_first_snoc_keep:
  "best_first P rt s \<Longrightarrow> P e \<longrightarrow> rt_mask e \<le> rt_mask s \<Longrightarrow> best_first P (rt @ [e]) s"
  unfolding best_first_def by (elim exE conjE) (rule exI, rule_tac x = "vs @ [e]" in exI, auto)

lemma best_first_snoc_new:
  "P e \<Longrightarrow> \<forall>f\<in>set rt. P f \<longrightarrow> rt_mask f < rt_mask e \<Longrightarrow> best_first P (rt @ [e]) e"
  unfolding best_first_def by (intro exI[of _ rt] exI[of _ "[]"]) auto

lemma best_first_max: "best_first P rt s \<Longrightarrow> f \<in> set rt \<Longrightarrow> P f \<Longrightarrow> rt_mask f \<le> rt_mask s"
  unfolding best_first_def by (auto simp: less_imp_le)

text \<open>The loop invariant: the selection is the best of the entries already seen.\<close>

definition lpm_sel :: "(rt_entry \<Rightarrow> bool) \<Rightarrow> rtable \<Rightarrow> rt_entry option \<Rightarrow> bool" where
  "lpm_sel P seen sel \<longleftrightarrow> (case sel of None \<Rightarrow> \<forall>f\<in>set seen. \<not> P f | Some s \<Rightarrow> best_first P seen s)"

lemma lpm_sel_step:
  assumes "lpm_sel P seen sel"
  shows "lpm_sel P (seen @ [e])
    (if P e \<and> (case sel of None \<Rightarrow> True | Some s \<Rightarrow> rt_mask s < rt_mask e) then Some e else sel)"
proof (cases sel)
  case None
  with assms show ?thesis by (auto simp: lpm_sel_def intro: best_first_snoc_new)
next
  case (Some s)
  with assms have b: "best_first P seen s" by (simp add: lpm_sel_def)
  then show ?thesis using Some
    by (auto simp: lpm_sel_def not_less intro!: best_first_snoc_keep best_first_snoc_new
        dest!: best_first_max[OF b])
qed

lemma lpm_loop_sel: "lpm_sel (rt_matches dst) seen sel \<Longrightarrow>
    lpm_sel (rt_matches dst) (seen @ rt) (lpm_loop dst rt sel)"
proof (induction rt arbitrary: seen sel)
  case (Cons e rt)
  from Cons.IH[OF lpm_sel_step[OF Cons.prems, of e]] show ?case
    by (simp add: rt_matches_def)
qed simp

lemma lpm_correct: "lpm_sel (rt_matches dst) rt (longest_prefix_match rt dst)"
  using lpm_loop_sel[of dst "[]" None rt] by (simp add: longest_prefix_match_def lpm_sel_def)

text \<open>The variant is the original on the table without its zero-mask entries.\<close>

lemma lpm07_loop_eq:
  assumes "rmask = (case res of None \<Rightarrow> 0 | Some s \<Rightarrow> rt_mask s)"
  shows "lpm07_loop dst rt res rmask = lpm_loop dst (filter (\<lambda>e. rt_mask e \<noteq> 0) rt) res"
  using assms
proof (induction rt arbitrary: res rmask)
  case (Cons e rt)
  let ?new = "\<lambda>r. if dst AND rt_mask e = rt_dest e AND rt_mask e \<and>
      (case r of None \<Rightarrow> True | Some s \<Rightarrow> rt_mask s < rt_mask e) then Some e else r"
  let ?msk = "\<lambda>r. case r of None \<Rightarrow> 0 | Some s \<Rightarrow> rt_mask s"
  show ?case
  proof (cases "rt_mask e = 0")
    case True
    with Cons.IH[OF Cons.prems] show ?thesis by simp
  next
    case False
    then have "lpm07_loop dst (e # rt) res rmask = lpm07_loop dst rt (?new res) (?msk (?new res))"
      using Cons.prems by (cases res) (simp_all add: word_gt_0 and.commute[of dst])
    with Cons.IH[OF refl] False show ?thesis by simp
  qed
qed simp

section \<open>Prefix masks\<close>

definition prefix_mask :: "nat \<Rightarrow> u32" where
  "prefix_mask n = push_bit (32 - n) (- 1)"

lemma unat_not32: "unat (NOT w :: u32) = 2 ^ 32 - 1 - unat w"
proof -
  have "NOT w = - 1 - w" by (simp add: not_eq_complement)
  moreover have "unat w < 2 ^ LENGTH(32)" by (rule unsigned_less)
  ultimately show ?thesis by (simp add: unat_sub unsigned_minus_1_eq_mask mask_eq_exp_minus_1)
qed

lemma unat_mask32: "k \<le> 32 \<Longrightarrow> unat (mask k :: u32) = 2 ^ k - 1"
  by (simp only: take_bit_minus_one_eq_mask[symmetric] unsigned_take_bit_eq unsigned_minus_1_eq_mask)
    (simp only: take_bit_of_mask, simp add: min_def mask_eq_exp_minus_1)

lemma unat_prefix_mask: "n \<le> 32 \<Longrightarrow> unat (prefix_mask n) = 2 ^ 32 - 1 - (2 ^ (32 - n) - 1)"
  by (simp only: prefix_mask_def push_bit_minus_one_eq_not_mask unat_not32 unat_mask32 diff_le_self)

lemma diff_less_iff_nat: "1 \<le> a \<Longrightarrow> a \<le> N \<Longrightarrow> 1 \<le> b \<Longrightarrow> b \<le> N \<Longrightarrow> N - 1 - (a - 1) < N - 1 - (b - 1) \<longleftrightarrow> b < (a::nat)"
  by auto

lemma prefix_mask_less_iff: "m \<le> 32 \<Longrightarrow> n \<le> 32 \<Longrightarrow> prefix_mask m < prefix_mask n \<longleftrightarrow> m < n"
proof -
  assume *: "m \<le> 32" "n \<le> 32"
  then have "prefix_mask m < prefix_mask n \<longleftrightarrow> (2::nat) ^ (32 - n) < 2 ^ (32 - m)"
    unfolding word_less_nat_alt unat_prefix_mask[OF *(1)] unat_prefix_mask[OF *(2)]
    by (intro diff_less_iff_nat power_increasing one_le_power) simp_all
  then show ?thesis using * by auto
qed

lemma bit_prefix_mask: "n \<le> 32 \<Longrightarrow> bit (prefix_mask n) i \<longleftrightarrow> 32 - n \<le> i \<and> i < 32"
  by (auto simp: prefix_mask_def bit_simps)

text \<open>Under a prefix mask, matching an entry is agreeing with its leading bits.\<close>

lemma rt_matches_prefix:
  assumes "rt_mask e = prefix_mask n" "n \<le> 32"
  shows "rt_matches dst e \<longleftrightarrow> (\<forall>i. 32 - n \<le> i \<and> i < 32 \<longrightarrow> bit dst i = bit (rt_dest e) i)"
  unfolding rt_matches_def assms(1)
  by (auto simp: bit_eq_iff bit_and_iff bit_prefix_mask[OF assms(2)])

section \<open>Properties\<close>

text \<open>\<open>longest_prefix_match\<close> returns nothing exactly when no entry matches; otherwise
  the entry it returns is in the table, matches, has the largest mask of all matching entries, and
  is the first of those with that mask.\<close>

theorem longest_prefix_match_correct:
  "(longest_prefix_match rt dst = None \<longleftrightarrow> (\<forall>e\<in>set rt. \<not> rt_matches dst e)) \<and>
   (\<forall>e. longest_prefix_match rt dst = Some e \<longleftrightarrow> best_first (rt_matches dst) rt e)"
proof -
  have c: "lpm_sel (rt_matches dst) rt (longest_prefix_match rt dst)" by (rule lpm_correct)
  show ?thesis
  proof (cases "longest_prefix_match rt dst")
    case None
    with c have "\<forall>e\<in>set rt. \<not> rt_matches dst e" by (simp add: lpm_sel_def)
    moreover from this have "\<not> best_first (rt_matches dst) rt e" for e by (auto simp: best_first_def)
    ultimately show ?thesis using None by simp
  next
    case (Some s)
    with c have b: "best_first (rt_matches dst) rt s" by (simp add: lpm_sel_def)
    then have "s \<in> set rt" "rt_matches dst s" by (auto simp: best_first_def)
    moreover have "Some s = Some e \<longleftrightarrow> best_first (rt_matches dst) rt e" for e
      using b best_first_unique[OF b] by (metis option.inject)
    ultimately show ?thesis unfolding Some by blast
  qed
qed

definition sample_iface :: iface where
  "sample_iface = \<lparr> if_index = 1, if_mac = Mac 0 0 0 0 0 1, if_ip = 0x0A000001, if_mask = 0xFFFFFF00,
     if_name = ''r1-eth0'' \<rparr>"

definition sample_route :: "u32 \<Rightarrow> u32 \<Rightarrow> rt_entry" where
  "sample_route dst msk = \<lparr> rt_dest = dst, rt_mask = msk, rt_gw = 0, rt_flags = 0,
     rt_if_name = ''r1-eth0'', rt_iface = sample_iface \<rparr>"

theorem longest_prefix_match_correct_witness:
  "best_first (rt_matches 0x0A000107)
     [sample_route 0x0A000000 0xFFFF0000, sample_route 0x0A000100 0xFFFFFF00]
     (sample_route 0x0A000100 0xFFFFFF00)"
proof -
  have "longest_prefix_match [sample_route 0x0A000000 0xFFFF0000, sample_route 0x0A000100 0xFFFFFF00]
      0x0A000107 = Some (sample_route 0x0A000100 0xFFFFFF00)"
    by (simp add: longest_prefix_match_def sample_route_def)
  then show ?thesis using longest_prefix_match_correct by blast
qed

text \<open>Property C16. On a table of prefixes the match is the longest one: the destination agrees with
  the leading bits of the returned entry, and no matching entry has a longer prefix.\<close>

theorem longest_prefix_match_longest:
  assumes "longest_prefix_match rt dst = Some e" "rt_mask e = prefix_mask n" "n \<le> 32"
  shows "(\<forall>i. 32 - n \<le> i \<and> i < 32 \<longrightarrow> bit dst i = bit (rt_dest e) i) \<and>
    (\<forall>f\<in>set rt. \<forall>m\<le>32. rt_mask f = prefix_mask m \<longrightarrow>
       (\<forall>i. 32 - m \<le> i \<and> i < 32 \<longrightarrow> bit dst i = bit (rt_dest f) i) \<longrightarrow> m \<le> n)"
proof -
  have b: "best_first (rt_matches dst) rt e"
    using lpm_correct[of dst rt] assms(1) by (simp add: lpm_sel_def)
  then have "rt_matches dst e" by (auto simp: best_first_def)
  moreover have "m \<le> n" if "f \<in> set rt" "m \<le> 32" "rt_mask f = prefix_mask m" "rt_matches dst f" for f m
    using best_first_max[OF b that(1,4)] prefix_mask_less_iff[of n m] assms(2,3) that(2,3)
    by (simp add: not_less[symmetric])
  ultimately show ?thesis using rt_matches_prefix assms(2,3) by blast
qed

theorem longest_prefix_match_longest_witness:
  "bit (rt_dest (sample_route 0x0A000100 0xFFFFFF00)) 8 = bit (0x0A000107 :: u32) 8"
proof -
  have "longest_prefix_match [sample_route 0x0A000000 0xFFFF0000, sample_route 0x0A000100 0xFFFFFF00]
      0x0A000107 = Some (sample_route 0x0A000100 0xFFFFFF00)"
    by (simp add: longest_prefix_match_def sample_route_def)
  moreover have "rt_mask (sample_route 0x0A000100 0xFFFFFF00) = prefix_mask 24"
    unfolding sample_route_def by code_simp
  ultimately have "\<forall>i. 32 - 24 \<le> i \<and> i < 32 \<longrightarrow>
      bit (0x0A000107 :: u32) i = bit (rt_dest (sample_route 0x0A000100 0xFFFFFF00)) i"
    by (rule longest_prefix_match_longest[THEN conjunct1]) simp
  then have "8 \<le> (8::nat) \<and> (8::nat) < 32 \<longrightarrow>
      bit (0x0A000107 :: u32) 8 = bit (rt_dest (sample_route 0x0A000100 0xFFFFFF00)) 8" by (rule allE[of _ 8]) simp
  then show ?thesis by simp
qed

text \<open>The router of prj07 never uses a default route: its match is the longest prefix
  match on the table without the entries of mask zero, so a destination only the default route
  covers has no route.\<close>

theorem prj07_match_skips_default_route:
  "longest_prefix_match07 rt dst = longest_prefix_match (filter (\<lambda>e. rt_mask e \<noteq> 0) rt) dst"
  by (simp add: longest_prefix_match07_def longest_prefix_match_def lpm07_loop_eq)

end
