(* ===== verification/Learning_Table.thy ===== *)
theory Learning_Table
  imports Net_Prelude
begin

text \<open>
  The contract of a table that learns bindings from traffic: what is looked up right after it was
  learned is what was learned. The ARP cache provides it. The MAC table of the switch provides another
  contract: it is sticky, a key keeps the first binding it was learned with, and learning one key
  never disturbs another, so that the table is a function of the whole history.
\<close>

fun learn_all :: "('s \<Rightarrow> 'k \<Rightarrow> 'v \<Rightarrow> 's option) \<Rightarrow> 's \<Rightarrow> ('k \<times> 'v) list \<Rightarrow> 's option" where
  "learn_all learn s [] = Some s"
| "learn_all learn s ((k, v) # kvs) = Option.bind (learn s k v) (\<lambda>s. learn_all learn s kvs)"

lemma learn_all_append:
  "learn_all learn s (xs @ ys) = Option.bind (learn_all learn s xs) (\<lambda>s. learn_all learn s ys)"
proof (induction xs arbitrary: s)
  case (Cons kv xs)
  then show ?case by (cases kv; cases "learn s (fst kv) (snd kv)") auto
qed simp

locale learning_table =
  fixes inv :: "'s \<Rightarrow> bool" and lookup :: "'s \<Rightarrow> 'k \<Rightarrow> 'v option"
    and learn :: "'s \<Rightarrow> 'k \<Rightarrow> 'v \<Rightarrow> 's option"
  assumes learn_inv: "inv s \<Longrightarrow> learn s k v = Some t \<Longrightarrow> inv t"
    and learn_hit: "inv s \<Longrightarrow> learn s k v = Some t \<Longrightarrow> lookup t k = Some v"
begin

lemma learn_all_inv: "inv s \<Longrightarrow> learn_all learn s kvs = Some t \<Longrightarrow> inv t"
proof (induction kvs arbitrary: s)
  case (Cons kv kvs)
  then show ?case by (cases kv) (auto simp: bind_eq_Some_conv intro: learn_inv)
qed simp

lemma last_learned:
  "inv s \<Longrightarrow> learn_all learn s (kvs @ [(k, v)]) = Some t \<Longrightarrow> lookup t k = Some v"
  by (auto simp: learn_all_append bind_eq_Some_conv intro: learn_hit learn_all_inv)

end

locale sticky_table =
  fixes inv :: "'s \<Rightarrow> bool" and lookup :: "'s \<Rightarrow> 'k \<Rightarrow> 'v option"
    and learn :: "'s \<Rightarrow> 'k \<Rightarrow> 'v \<Rightarrow> 's option"
  assumes learn_total: "\<exists>t. learn s k v = Some t"
    and learn_inv: "inv s \<Longrightarrow> learn s k v = Some t \<Longrightarrow> inv t"
    and learn_lookup: "inv s \<Longrightarrow> learn s k v = Some t \<Longrightarrow>
       lookup t k' = (if k' = k \<and> lookup s k = None then Some v else lookup s k')"
begin

text \<open>The table maps every key to the oldest binding of the history, unless it knew one before.\<close>

lemma learn_all_history:
  assumes "inv s"
  shows "\<exists>t. learn_all learn s kvs = Some t \<and> inv t \<and>
    lookup t k = (case lookup s k of None \<Rightarrow> map_of kvs k | Some v \<Rightarrow> Some v)"
  using assms
proof (induction kvs arbitrary: s)
  case Nil
  then show ?case by (auto split: option.splits)
next
  case (Cons kv kvs)
  obtain a v where kv: "kv = (a, v)" by (cases kv)
  obtain u where u: "learn s a v = Some u" using learn_total by blast
  from Cons.IH[OF learn_inv[OF Cons.prems u]] learn_lookup[OF Cons.prems u, of k] u show ?case
    by (auto simp: kv split: option.splits if_splits)
qed

end

end
