(* ===== verification/Arp_Cache.thy ===== *)
theory Arp_Cache
  imports Routing Learning_Table "HOL-Library.Multiset"
begin

text \<open>
  \<open>packet.c\<close>, \<open>arp.c\<close> and \<open>arpcache.c\<close> of the stack: the state of the network layer, sending and
  broadcasting frames, the ARP cache with its 32 slots and its queue of packets that wait for a
  reply, ARP requests and replies. A C pair \<open>(char *packet, int len)\<close> is the byte list of the
  malloc'ed block, whose length is \<open>len\<close> at every call. The frames handed to \<open>sendto\<close> are recorded in
  \<open>n_out\<close> in order; \<open>time(NULL)\<close> is \<open>n_now\<close> and \<open>rand()\<close> draws from \<open>n_rnd\<close>. The mutex is not
  modelled here: each operation is one critical section.
\<close>

section \<open>State\<close>

record arp_entry =
  ae_ip4 :: u32
  ae_mac :: mac_addr
  ae_added :: int
  ae_valid :: bool

record arp_req =
  rq_iface :: iface
  rq_ip4 :: u32
  rq_sent :: int
  rq_retries :: int
  rq_pkts :: "bytes list"

record net =
  n_ifaces :: "iface list"
  n_rtable :: rtable
  n_entries :: "arp_entry list"
  n_reqs :: "arp_req list"
  n_out :: "(iface \<times> bytes) list"
  n_now :: int
  n_rnd :: "nat \<Rightarrow> nat"
  n_rnd_pos :: nat

definition MAX_ARP_SIZE :: nat where "MAX_ARP_SIZE = 32"
definition ARP_ENTRY_TIMEOUT :: int where "ARP_ENTRY_TIMEOUT = 15"
definition ARP_REQUEST_MAX_RETRIES :: int where "ARP_REQUEST_MAX_RETRIES = 5"

definition c_rand :: "net \<Rightarrow> nat \<times> net" where
  "c_rand s = (n_rnd s (n_rnd_pos s), s\<lparr>n_rnd_pos := Suc (n_rnd_pos s)\<rparr>)"

text \<open>\<open>bzero\<close> of the static cache.\<close>

definition arpcache_init :: "net \<Rightarrow> net" where
  "arpcache_init s = s\<lparr>
     n_entries := replicate MAX_ARP_SIZE \<lparr> ae_ip4 = 0, ae_mac = Mac 0 0 0 0 0 0, ae_added = 0, ae_valid = False \<rparr>,
     n_reqs := []\<rparr>"

definition arpcache_destroy :: "net \<Rightarrow> net" where
  "arpcache_destroy s = s\<lparr>n_reqs := []\<rparr>"

section \<open>Frames\<close>

text \<open>\<open>_iface_send_packet\<close> reads the destination from the Ethernet header before \<open>sendto\<close>.\<close>

definition iface_send_packet :: "iface \<Rightarrow> bytes \<Rightarrow> net \<Rightarrow> net option" where
  "iface_send_packet ifc p s = do {
     eh \<leftarrow> get_ether p 0;
     Some (s\<lparr>n_out := n_out s @ [(ifc, p)]\<rparr>) }"

fun broadcast_loop :: "iface \<Rightarrow> bytes \<Rightarrow> iface list \<Rightarrow> net \<Rightarrow> net option" where
  "broadcast_loop in_ifc p [] s = Some s"
| "broadcast_loop in_ifc p (ifc # rest) s =
     (if if_index ifc = if_index in_ifc then broadcast_loop in_ifc p rest s
      else do { s \<leftarrow> iface_send_packet ifc p s; broadcast_loop in_ifc p rest s })"

definition broadcast_packet :: "iface \<Rightarrow> bytes \<Rightarrow> net \<Rightarrow> net option" where
  "broadcast_packet in_ifc p s = broadcast_loop in_ifc p (n_ifaces s) s"

section \<open>ARP messages\<close>

definition bc_mac :: mac_addr where
  "bc_mac = Mac 255 255 255 255 255 255"

definition arp_send_request :: "iface \<Rightarrow> u32 \<Rightarrow> net \<Rightarrow> net option" where
  "arp_send_request ifc dst_ip s = do {
     p \<leftarrow> put_arp (replicate (ETHER_HDR_SIZE + ETHER_ARP_SIZE) 0) ETHER_HDR_SIZE
       \<lparr> arp_hrd = htons 1, arp_pro = htons 0x0800, arp_hln = 6, arp_pln = 4, arp_op = htons 1,
         arp_sha = if_mac ifc, arp_spa = htonl (if_ip ifc), arp_tha = Mac 0 0 0 0 0 0,
         arp_tpa = htonl dst_ip \<rparr>;
     p \<leftarrow> put_ether p 0
       \<lparr> ether_dhost = bc_mac, ether_shost = if_mac ifc, ether_type = htons 0x0806 \<rparr>;
     iface_send_packet ifc p s }"

definition arp_send_reply :: "iface \<Rightarrow> ether_arp \<Rightarrow> net \<Rightarrow> net option" where
  "arp_send_reply ifc req s = do {
     p \<leftarrow> put_arp (replicate (ETHER_HDR_SIZE + ETHER_ARP_SIZE) 0) ETHER_HDR_SIZE
       \<lparr> arp_hrd = htons 1, arp_pro = htons 0x0800, arp_hln = 6, arp_pln = 4, arp_op = htons 2,
         arp_sha = if_mac ifc, arp_spa = htonl (if_ip ifc), arp_tha = arp_sha req,
         arp_tpa = arp_spa req \<rparr>;
     p \<leftarrow> put_ether p 0
       \<lparr> ether_dhost = arp_sha req, ether_shost = if_mac ifc, ether_type = htons 0x0806 \<rparr>;
     iface_send_packet ifc p s }"

section \<open>The cache\<close>

fun arpcache_lookup_loop :: "u32 \<Rightarrow> arp_entry list \<Rightarrow> mac_addr option" where
  "arpcache_lookup_loop ip4 [] = None"
| "arpcache_lookup_loop ip4 (e # es) =
     (if ae_valid e \<and> ae_ip4 e = ip4 then Some (ae_mac e) else arpcache_lookup_loop ip4 es)"

text \<open>The value written to \<open>mac\<close> when \<open>arpcache_lookup\<close> returns 1.\<close>

definition arpcache_lookup :: "net \<Rightarrow> u32 \<Rightarrow> mac_addr option" where
  "arpcache_lookup s ip4 = arpcache_lookup_loop ip4 (n_entries s)"

definition same_req :: "iface \<Rightarrow> u32 \<Rightarrow> arp_req \<Rightarrow> bool" where
  "same_req ifc ip4 r \<longleftrightarrow> if_index (rq_iface r) = if_index ifc \<and> rq_ip4 r = ip4"

definition arpcache_append_packet :: "iface \<Rightarrow> u32 \<Rightarrow> bytes \<Rightarrow> net \<Rightarrow> net option" where
  "arpcache_append_packet ifc ip4 p s =
     (let found = list_ex (same_req ifc ip4) (n_reqs s);
          reqs = (if found then n_reqs s
                  else \<lparr> rq_iface = ifc, rq_ip4 = ip4, rq_sent = n_now s, rq_retries = 1,
                         rq_pkts = [] \<rparr> # n_reqs s);
          s = s\<lparr>n_reqs := upd_first (same_req ifc ip4) (\<lambda>r. r\<lparr>rq_pkts := rq_pkts r @ [p]\<rparr>) reqs\<rparr>
      in if found then Some s else arp_send_request ifc ip4 s)"

text \<open>The scan of \<open>arpcache_insert\<close>: position, last free position, found, and the slots so far.\<close>

fun arp_insert_scan :: "u32 \<Rightarrow> mac_addr \<Rightarrow> int \<Rightarrow> nat \<Rightarrow> nat option \<Rightarrow> bool \<Rightarrow> arp_entry list
    \<Rightarrow> nat option \<times> bool \<times> arp_entry list" where
  "arp_insert_scan ip4 m now i pos found [] = (pos, found, [])"
| "arp_insert_scan ip4 m now i pos found (e # es) =
     (let hit = ae_valid e \<and> ae_ip4 e = ip4;
          e' = (if hit then e\<lparr>ae_mac := m, ae_added := now\<rparr> else e);
          pos = (if ae_valid e' then pos else Some i);
          (pos, found, es) = arp_insert_scan ip4 m now (Suc i) pos (found \<or> hit) es
      in (pos, found, e' # es))"

text \<open>Sending the packets one request holds.\<close>

fun arp_flush :: "iface \<Rightarrow> mac_addr \<Rightarrow> bytes list \<Rightarrow> net \<Rightarrow> net option" where
  "arp_flush ifc m [] s = Some s"
| "arp_flush ifc m (p # ps) s = do {
     p \<leftarrow> st_bytes p 0 (mac_bytes m);
     p \<leftarrow> st_bytes p ETH_ALEN (mac_bytes (if_mac ifc));
     s \<leftarrow> iface_send_packet ifc p s;
     arp_flush ifc m ps s }"

fun arp_flush_first :: "u32 \<Rightarrow> mac_addr \<Rightarrow> arp_req list \<Rightarrow> arp_req list \<Rightarrow> net \<Rightarrow> net option" where
  "arp_flush_first ip4 m done [] s = Some (s\<lparr>n_reqs := done\<rparr>)"
| "arp_flush_first ip4 m done (r # rs) s =
     (if rq_ip4 r = ip4
      then do { s \<leftarrow> arp_flush (rq_iface r) m (rq_pkts r) s; Some (s\<lparr>n_reqs := done @ rs\<rparr>) }
      else arp_flush_first ip4 m (done @ [r]) rs s)"

text \<open>With no free slot \<open>pos\<close> stays \<open>-1\<close> and \<open>entries[-1]\<close> is written; with a free slot the code
  draws a random one instead of using it.\<close>

definition arpcache_insert :: "u32 \<Rightarrow> mac_addr \<Rightarrow> net \<Rightarrow> net option" where
  "arpcache_insert ip4 m s =
     (let (pos, found, es) = arp_insert_scan ip4 m (n_now s) 0 None False (n_entries s)
      in do {
        s \<leftarrow> (if found then Some (s\<lparr>n_entries := es\<rparr>)
             else case pos of
               None \<Rightarrow> None
             | Some _ \<Rightarrow>
                 let (r, s) = c_rand s
                 in Some (s\<lparr>n_entries := es[r mod MAX_ARP_SIZE :=
                      \<lparr> ae_ip4 = ip4, ae_mac = m, ae_added = n_now s, ae_valid = True \<rparr>]\<rparr>));
        arp_flush_first ip4 m [] (n_reqs s) s })"

definition handle_arp_packet :: "iface \<Rightarrow> bytes \<Rightarrow> net \<Rightarrow> net option" where
  "handle_arp_packet ifc p s = do {
     arp \<leftarrow> get_arp p ETHER_HDR_SIZE;
     let src_ip = ntohl (arp_spa arp);
     let dst_ip = ntohl (arp_tpa arp);
     if ntohs (arp_op arp) = 1 then
       (if if_ip ifc = dst_ip
        then do { s \<leftarrow> arp_send_reply ifc arp s; arpcache_insert src_ip (arp_sha arp) s }
        else Some s)
     else if ntohs (arp_op arp) = 2 then
       (if if_ip ifc = dst_ip then arpcache_insert src_ip (arp_sha arp) s else Some s)
     else Some s }"

definition iface_send_packet_by_arp :: "iface \<Rightarrow> u32 \<Rightarrow> bytes \<Rightarrow> net \<Rightarrow> net option" where
  "iface_send_packet_by_arp ifc dst_ip p s = do {
     eh \<leftarrow> get_ether p 0;
     p \<leftarrow> put_ether p 0 (eh\<lparr>ether_shost := if_mac ifc, ether_type := htons 0x0800\<rparr>);
     (case arpcache_lookup s dst_ip of
        Some m \<Rightarrow> do {
          p \<leftarrow> st_bytes p 0 (mac_bytes m);
          iface_send_packet ifc p s }
      | None \<Rightarrow> arpcache_append_packet ifc dst_ip p s) }"

text \<open>The first half of a round of \<open>arpcache_sweep\<close>, under the lock: slots older than the timeout
  are invalidated, each waiting request is asked again or given up. The packets of the requests
  given up are collected in order.\<close>

definition age_entry :: "int \<Rightarrow> arp_entry \<Rightarrow> arp_entry" where
  "age_entry now e =
     (if ae_valid e \<and> now - ae_added e \<ge> ARP_ENTRY_TIMEOUT then e\<lparr>ae_valid := False\<rparr> else e)"

fun sweep_reqs :: "int \<Rightarrow> arp_req list \<Rightarrow> arp_req list \<Rightarrow> bytes list \<Rightarrow> net \<Rightarrow> (net \<times> bytes list) option" where
  "sweep_reqs now done [] pkts s = Some (s\<lparr>n_reqs := done\<rparr>, pkts)"
| "sweep_reqs now done (r # rs) pkts s =
     (if now - rq_sent r < 1 then sweep_reqs now (done @ [r]) rs pkts s
      else if rq_retries r < ARP_REQUEST_MAX_RETRIES then do {
        s \<leftarrow> arp_send_request (rq_iface r) (rq_ip4 r) s;
        sweep_reqs now (done @ [r\<lparr>rq_retries := rq_retries r + 1\<rparr>]) rs pkts s }
      else sweep_reqs now done rs (pkts @ rq_pkts r) s)"

definition arpcache_sweep_locked :: "net \<Rightarrow> (net \<times> bytes list) option" where
  "arpcache_sweep_locked s =
     sweep_reqs (n_now s) [] (n_reqs s) [] (s\<lparr>n_entries := List.map (age_entry (n_now s)) (n_entries s)\<rparr>)"

section \<open>Frames built and sent\<close>

lemma length_ether_enc [simp]: "length (ether_enc h) = 14"
  by (simp add: ether_enc_def le16_enc_def)

lemma get_ether_Some_iff: "(\<exists>h. get_ether p 0 = Some h) \<longleftrightarrow> 14 \<le> length p"
  using ether.get_Some_iff[of p 0] by (simp add: hdr_sizes)

lemma iface_send_packet_eq:
  "iface_send_packet ifc p s = (if 14 \<le> length p then Some (s\<lparr>n_out := n_out s @ [(ifc, p)]\<rparr>) else None)"
proof (cases "14 \<le> length p")
  case True
  then obtain h where "get_ether p 0 = Some h" using get_ether_Some_iff by blast
  with True show ?thesis by (simp add: iface_send_packet_def)
next
  case False
  then have "get_ether p 0 = None" by (simp add: get_ether_def ld_bytes_def hdr_sizes)
  with False show ?thesis by (simp add: iface_send_packet_def)
qed

text \<open>An ARP frame: the Ethernet header in front of the message.\<close>

definition arp_frame :: "mac_addr \<Rightarrow> iface \<Rightarrow> ether_arp \<Rightarrow> bytes" where
  "arp_frame dst ifc a =
     ether_enc \<lparr> ether_dhost = dst, ether_shost = if_mac ifc, ether_type = htons 0x0806 \<rparr> @ arp_enc a"

lemma put_arp_frame:
  "put_arp (replicate (ETHER_HDR_SIZE + ETHER_ARP_SIZE) 0) ETHER_HDR_SIZE a
     = Some (replicate 14 0 @ arp_enc a)"
proof -
  have "replicate (ETHER_HDR_SIZE + ETHER_ARP_SIZE) 0 = replicate 14 (0::u8) @ replicate 28 0 @ []"
    by (simp add: hdr_sizes flip: replicate_add)
  then show ?thesis using arp.put_raw[of 14 "replicate 14 0" "replicate 28 0" "[]" a]
    by (simp add: hdr_sizes)
qed

lemma put_ether_front: "length b = 14 \<Longrightarrow> put_ether (b @ rest) 0 h = Some (ether_enc h @ rest)"
  using ether.put_raw[of 0 "[]" b rest h] by (simp add: hdr_sizes)

definition arp_request_of :: "iface \<Rightarrow> u32 \<Rightarrow> ether_arp" where
  "arp_request_of ifc ip4 = \<lparr> arp_hrd = htons 1, arp_pro = htons 0x0800, arp_hln = 6, arp_pln = 4,
     arp_op = htons 1, arp_sha = if_mac ifc, arp_spa = htonl (if_ip ifc),
     arp_tha = Mac 0 0 0 0 0 0, arp_tpa = htonl ip4 \<rparr>"

definition arp_reply_of :: "iface \<Rightarrow> ether_arp \<Rightarrow> ether_arp" where
  "arp_reply_of ifc req = \<lparr> arp_hrd = htons 1, arp_pro = htons 0x0800, arp_hln = 6, arp_pln = 4,
     arp_op = htons 2, arp_sha = if_mac ifc, arp_spa = htonl (if_ip ifc),
     arp_tha = arp_sha req, arp_tpa = arp_spa req \<rparr>"

lemma arp_send_request_eq: "arp_send_request ifc ip4 s =
    Some (s\<lparr>n_out := n_out s @ [(ifc, arp_frame bc_mac ifc (arp_request_of ifc ip4))]\<rparr>)"
  by (simp add: arp_send_request_def put_arp_frame put_ether_front iface_send_packet_eq arp_frame_def
      arp_request_of_def)

lemma arp_send_reply_eq: "arp_send_reply ifc req s =
    Some (s\<lparr>n_out := n_out s @ [(ifc, arp_frame (arp_sha req) ifc (arp_reply_of ifc req))]\<rparr>)"
  by (simp add: arp_send_reply_def put_arp_frame put_ether_front iface_send_packet_eq arp_frame_def
      arp_reply_of_def)

lemma broadcast_loop_eq: "14 \<le> length p \<Longrightarrow> broadcast_loop i p ifs s =
    Some (s\<lparr>n_out := n_out s @ [(j, p). j \<leftarrow> ifs, if_index j \<noteq> if_index i]\<rparr>)"
  by (induction ifs arbitrary: s) (auto simp: iface_send_packet_eq)

section \<open>The insertion scan\<close>

definition bind_entry :: "u32 \<Rightarrow> mac_addr \<Rightarrow> int \<Rightarrow> arp_entry \<Rightarrow> arp_entry" where
  "bind_entry ip4 m now e =
     (if ae_valid e \<and> ae_ip4 e = ip4 then e\<lparr>ae_mac := m, ae_added := now\<rparr> else e)"

definition holds_ip :: "u32 \<Rightarrow> arp_entry \<Rightarrow> bool" where
  "holds_ip ip4 e \<longleftrightarrow> ae_valid e \<and> ae_ip4 e = ip4"

lemma bind_entry_simps [simp]:
  "ae_valid (bind_entry ip4 m now e) = ae_valid e" "ae_ip4 (bind_entry ip4 m now e) = ae_ip4 e"
  "ae_mac (bind_entry ip4 m now e) = (if holds_ip ip4 e then m else ae_mac e)"
  by (simp_all add: bind_entry_def holds_ip_def)

lemma arp_insert_scan_eq:
  "arp_insert_scan ip4 m now i pos found es = (pos', found', es') \<Longrightarrow>
     es' = List.map (bind_entry ip4 m now) es \<and> (found' \<longleftrightarrow> found \<or> list_ex (holds_ip ip4) es) \<and>
     (pos' = None \<longleftrightarrow> pos = None \<and> list_all ae_valid es)"
proof (induction es arbitrary: i pos found pos' found' es')
  case (Cons e es)
  let ?hit = "ae_valid e \<and> ae_ip4 e = ip4"
  obtain p f x where r: "arp_insert_scan ip4 m now (Suc i) (if ae_valid e then pos else Some i) (found \<or> ?hit) es = (p, f, x)"
    by (metis prod_cases3)
  have v: "ae_valid (if ?hit then e\<lparr>ae_mac := m, ae_added := now\<rparr> else e) = ae_valid e" by simp
  from Cons.prems r have e: "pos' = p" "found' = f" "es' = bind_entry ip4 m now e # x"
    by (auto simp: Let_def v bind_entry_def split: prod.splits if_splits)
  from Cons.IH[OF r] show ?case unfolding e by (auto simp: holds_ip_def)
qed auto

lemma arpcache_insert_eq:
  "arpcache_insert ip4 m s =
     (if list_ex (holds_ip ip4) (n_entries s)
      then arp_flush_first ip4 m [] (n_reqs s)
             (s\<lparr>n_entries := List.map (bind_entry ip4 m (n_now s)) (n_entries s)\<rparr>)
      else if list_all ae_valid (n_entries s) then None
      else arp_flush_first ip4 m [] (n_reqs s)
             (s\<lparr>n_rnd_pos := Suc (n_rnd_pos s),
                n_entries := (n_entries s)[n_rnd s (n_rnd_pos s) mod 32 :=
                  \<lparr> ae_ip4 = ip4, ae_mac = m, ae_added = n_now s, ae_valid = True \<rparr>]\<rparr>))"
proof -
  obtain pos found es where r: "arp_insert_scan ip4 m (n_now s) 0 None False (n_entries s) = (pos, found, es)"
    by (metis prod_cases3)
  have *: "es = List.map (bind_entry ip4 m (n_now s)) (n_entries s)"
    "found = list_ex (holds_ip ip4) (n_entries s)" "pos = None \<longleftrightarrow> list_all ae_valid (n_entries s)"
    using arp_insert_scan_eq[OF r] by auto
  have id: "List.map (bind_entry ip4 m (n_now s)) (n_entries s) = n_entries s"
    if "\<not> list_ex (holds_ip ip4) (n_entries s)"
    using that by (intro map_idI) (auto simp: list_ex_iff bind_entry_def holds_ip_def)
  show ?thesis
    using *(3) id by (cases pos) (auto simp: arpcache_insert_def r Let_def *(1,2) c_rand_def MAX_ARP_SIZE_def)
qed

lemma lookup_loop_eq: "arpcache_lookup_loop ip4 es = map_option ae_mac (List.find (holds_ip ip4) es)"
  by (induction es) (auto simp: holds_ip_def)

section \<open>Releasing the waiting packets\<close>

definition readdress :: "mac_addr \<Rightarrow> mac_addr \<Rightarrow> bytes \<Rightarrow> bytes" where
  "readdress dst src p = mac_bytes dst @ mac_bytes src @ drop 12 p"

lemma length_readdress [simp]: "12 \<le> length p \<Longrightarrow> length (readdress d s p) = length p"
  by (simp add: readdress_def)

lemma arp_flush_eq:
  "\<forall>p\<in>set ps. 14 \<le> length p \<Longrightarrow> arp_flush ifc m ps s =
     Some (s\<lparr>n_out := n_out s @ List.map (\<lambda>p. (ifc, readdress m (if_mac ifc) p)) ps\<rparr>)"
proof (induction ps arbitrary: s)
  case (Cons p ps)
  have "st_bytes p 0 (mac_bytes m) = Some (mac_bytes m @ drop 6 p)"
    using Cons.prems by (simp add: st_bytes_def blit_def)
  moreover have "st_bytes (mac_bytes m @ drop 6 p) ETH_ALEN (mac_bytes (if_mac ifc)) =
      Some (readdress m (if_mac ifc) p)"
    using Cons.prems by (simp add: st_bytes_def blit_def hdr_sizes readdress_def)
  ultimately show ?case using Cons by (simp add: iface_send_packet_eq)
qed simp

fun drop_first :: "('a \<Rightarrow> bool) \<Rightarrow> 'a list \<Rightarrow> 'a list" where
  "drop_first P [] = []"
| "drop_first P (x # xs) = (if P x then xs else x # drop_first P xs)"

lemma set_drop_first: "set (drop_first P xs) \<subseteq> set xs"
  by (induction xs) auto

lemma map_drop_first_distinct: "distinct (List.map f xs) \<Longrightarrow> distinct (List.map f (drop_first P xs))"
proof (induction xs)
  case (Cons x xs)
  then show ?case using set_drop_first[of P xs] by auto
qed simp

lemma arp_flush_first_eq:
  "\<forall>r\<in>set rs. \<forall>p\<in>set (rq_pkts r). 14 \<le> length p \<Longrightarrow> arp_flush_first ip4 m dn rs s =
     (case List.find (\<lambda>r. rq_ip4 r = ip4) rs of
        None \<Rightarrow> Some (s\<lparr>n_reqs := dn @ rs\<rparr>)
      | Some r \<Rightarrow> Some (s\<lparr>n_reqs := dn @ drop_first (\<lambda>r. rq_ip4 r = ip4) rs,
          n_out := n_out s @ List.map (\<lambda>p. (rq_iface r, readdress m (if_mac (rq_iface r)) p)) (rq_pkts r)\<rparr>))"
  by (induction rs arbitrary: dn) (auto simp: arp_flush_eq split: option.splits)

section \<open>The invariant of the cache\<close>

definition req_key :: "arp_req \<Rightarrow> int \<times> u32" where
  "req_key r = (if_index (rq_iface r), rq_ip4 r)"

definition slots_wf :: "arp_entry list \<Rightarrow> bool" where
  "slots_wf es \<longleftrightarrow> length es = 32 \<and> (\<forall>i<32. \<forall>j<32. ae_valid (es ! i) \<longrightarrow> ae_valid (es ! j) \<longrightarrow>
     ae_ip4 (es ! i) = ae_ip4 (es ! j) \<longrightarrow> i = j)"

definition req_ok :: "arp_req \<Rightarrow> bool" where
  "req_ok r \<longleftrightarrow> 1 \<le> rq_retries r \<and> rq_retries r \<le> 5 \<and> (\<forall>p\<in>set (rq_pkts r). 34 \<le> length p)"

definition reqs_wf :: "arp_req list \<Rightarrow> bool" where
  "reqs_wf rs \<longleftrightarrow> distinct (List.map req_key rs) \<and> (\<forall>r\<in>set rs. req_ok r)"

definition arp_wf :: "net \<Rightarrow> bool" where
  "arp_wf s \<longleftrightarrow> slots_wf (n_entries s) \<and> reqs_wf (n_reqs s)"

lemmas arp_wf_halves = arp_wf_def

lemma slots_wf_map:
  "(\<And>e. ae_ip4 (f e) = ae_ip4 e) \<Longrightarrow> (\<And>e. ae_valid (f e) \<Longrightarrow> ae_valid e) \<Longrightarrow>
     slots_wf es \<Longrightarrow> slots_wf (List.map f es)"
  by (simp add: slots_wf_def)

lemma slots_wf_update:
  assumes "slots_wf es" "\<not> list_ex (holds_ip (ae_ip4 e)) es"
  shows "slots_wf (es[k := e])"
proof -
  have n: "ae_valid (es ! i) \<Longrightarrow> i < 32 \<Longrightarrow> ae_ip4 (es ! i) \<noteq> ae_ip4 e" for i
    using assms by (auto simp: slots_wf_def list_ex_iff holds_ip_def)
  have "i = j" if "i < 32" "j < 32" "ae_valid (es[k := e] ! i)" "ae_valid (es[k := e] ! j)"
    "ae_ip4 (es[k := e] ! i) = ae_ip4 (es[k := e] ! j)" for i j
    using that assms(1) n[of i] n[of j] by (cases "i = k"; cases "j = k") (auto simp: slots_wf_def)
  with assms(1) show ?thesis by (auto simp: slots_wf_def)
qed

lemma reqs_wf_drop_first: "reqs_wf rs \<Longrightarrow> reqs_wf (drop_first P rs)"
  using set_drop_first[of P rs] by (auto simp: reqs_wf_def map_drop_first_distinct)

lemma reqs_wf_len: "reqs_wf rs \<Longrightarrow> \<forall>r\<in>set rs. \<forall>p\<in>set (rq_pkts r). 14 \<le> length p"
  by (fastforce simp: reqs_wf_def req_ok_def)

lemma arpcache_init_wf: "arp_wf (arpcache_init s)"
  by (simp add: arp_wf_def slots_wf_def reqs_wf_def arpcache_init_def MAX_ARP_SIZE_def)

lemma arpcache_destroy_wf: "arp_wf s \<Longrightarrow> arp_wf (arpcache_destroy s)"
  by (simp add: arp_wf_def reqs_wf_def arpcache_destroy_def)

lemma arp_flush_first_wf:
  assumes "slots_wf (n_entries s)" "reqs_wf rs" "arp_flush_first ip4 m [] rs s = Some t"
  shows "arp_wf t \<and> n_entries t = n_entries s"
  using assms(3) unfolding arp_flush_first_eq[OF reqs_wf_len[OF assms(2)]]
  using assms(1,2) by (auto simp: arp_wf_halves reqs_wf_drop_first split: option.splits)

lemma find_map_holds: "list_ex (holds_ip ip4) es \<Longrightarrow>
    arpcache_lookup_loop ip4 (List.map (bind_entry ip4 m now) es) = Some m"
  by (induction es) (auto simp: holds_ip_def)

lemma lookup_loop_update:
  "k < length es \<Longrightarrow> \<not> list_ex (holds_ip ip4) es \<Longrightarrow>
     arpcache_lookup_loop ip4 (es[k := \<lparr> ae_ip4 = ip4, ae_mac = m, ae_added = now, ae_valid = True \<rparr>]) = Some m"
  by (induction es arbitrary: k) (auto simp: holds_ip_def nth_Cons split: nat.splits)

text \<open>Every successful insertion keeps the invariant and hits; the waiting packets are released
  after the slots are written.\<close>

lemma arpcache_insert_split:
  assumes "arp_wf s" "arpcache_insert ip4 m s = Some t"
  shows "\<exists>u. arp_flush_first ip4 m [] (n_reqs s) u = Some t \<and> slots_wf (n_entries u) \<and>
    arpcache_lookup u ip4 = Some m \<and> n_out u = n_out s"
proof (cases "list_ex (holds_ip ip4) (n_entries s)")
  case True
  let ?u = "s\<lparr>n_entries := List.map (bind_entry ip4 m (n_now s)) (n_entries s)\<rparr>"
  have "slots_wf (n_entries ?u)" using assms(1) by (auto simp: arp_wf_halves intro!: slots_wf_map)
  with True assms(2) show ?thesis
    by (intro exI[of _ ?u]) (simp add: arpcache_insert_eq arpcache_lookup_def find_map_holds)
next
  case False
  let ?u = "s\<lparr>n_rnd_pos := Suc (n_rnd_pos s), n_entries := (n_entries s)[n_rnd s (n_rnd_pos s) mod 32 :=
    \<lparr> ae_ip4 = ip4, ae_mac = m, ae_added = n_now s, ae_valid = True \<rparr>]\<rparr>"
  have "length (n_entries s) = 32" using assms(1) by (simp add: arp_wf_def slots_wf_def)
  moreover have "slots_wf (n_entries ?u)" using assms(1) False by (simp add: arp_wf_halves slots_wf_update)
  ultimately show ?thesis using False assms(2)
    by (intro exI[of _ ?u])
      (simp add: arpcache_insert_eq arpcache_lookup_def lookup_loop_update split: if_splits)
qed

lemma arpcache_insert_wf:
  assumes "arp_wf s" "arpcache_insert ip4 m s = Some t"
  shows "arp_wf t"
proof -
  obtain u where u: "arp_flush_first ip4 m [] (n_reqs s) u = Some t" "slots_wf (n_entries u)"
    using arpcache_insert_split[OF assms] by blast
  have "reqs_wf (n_reqs s)" using assms(1) by (simp add: arp_wf_halves)
  from arp_flush_first_wf[OF u(2) this u(1)] show ?thesis by blast
qed

lemma arpcache_insert_hit:
  assumes "arp_wf s" "arpcache_insert ip4 m s = Some t"
  shows "arpcache_lookup t ip4 = Some m"
proof -
  obtain u where u: "arp_flush_first ip4 m [] (n_reqs s) u = Some t" "slots_wf (n_entries u)"
    "arpcache_lookup u ip4 = Some m"
    using arpcache_insert_split[OF assms] by blast
  have "reqs_wf (n_reqs s)" using assms(1) by (simp add: arp_wf_halves)
  from arp_flush_first_wf[OF u(2) this u(1)] u(3) show ?thesis by (simp add: arpcache_lookup_def)
qed

interpretation arp_cache: learning_table arp_wf arpcache_lookup "\<lambda>s ip4 m. arpcache_insert ip4 m s"
  by unfold_locales (auto intro: arpcache_insert_wf arpcache_insert_hit)

section \<open>Queueing and sending\<close>

lemma same_req_key: "same_req ifc ip4 r \<longleftrightarrow> req_key r = (if_index ifc, ip4)"
  by (auto simp: same_req_def req_key_def)

lemma upd_first_same_key:
  "List.map req_key (upd_first (same_req ifc ip4) (\<lambda>r. r\<lparr>rq_pkts := f r\<rparr>) rs) = List.map req_key rs"
  by (rule map_upd_first) (simp add: req_key_def)

definition queued_reqs :: "iface \<Rightarrow> u32 \<Rightarrow> bytes \<Rightarrow> int \<Rightarrow> arp_req list \<Rightarrow> arp_req list" where
  "queued_reqs ifc ip4 p now rs =
     (if list_ex (same_req ifc ip4) rs
      then upd_first (same_req ifc ip4) (\<lambda>r. r\<lparr>rq_pkts := rq_pkts r @ [p]\<rparr>) rs
      else \<lparr> rq_iface = ifc, rq_ip4 = ip4, rq_sent = now, rq_retries = 1, rq_pkts = [p] \<rparr> # rs)"

lemma append_packet_eq:
  "arpcache_append_packet ifc ip4 p s = Some (s\<lparr>n_reqs := queued_reqs ifc ip4 p (n_now s) (n_reqs s),
     n_out := n_out s @ (if list_ex (same_req ifc ip4) (n_reqs s) then []
                         else [(ifc, arp_frame bc_mac ifc (arp_request_of ifc ip4))])\<rparr>)"
  by (simp add: arpcache_append_packet_def queued_reqs_def arp_send_request_eq Let_def same_req_def)

lemma queued_reqs_wf:
  assumes "reqs_wf rs" "34 \<le> length p"
  shows "reqs_wf (queued_reqs ifc ip4 p now rs)"
proof (cases "list_ex (same_req ifc ip4) rs")
  case True
  let ?f = "\<lambda>r. r\<lparr>rq_pkts := rq_pkts r @ [p]\<rparr>"
  have "req_ok r" if "r \<in> set rs \<union> ?f ` {x \<in> set rs. same_req ifc ip4 x}" for r
    using that assms by (auto simp: reqs_wf_def req_ok_def)
  then have "\<forall>r\<in>set (upd_first (same_req ifc ip4) ?f rs). req_ok r"
    using set_upd_first[of "same_req ifc ip4" ?f rs] by blast
  then show ?thesis using True assms(1)
    by (simp add: queued_reqs_def reqs_wf_def upd_first_same_key)
next
  case False
  then show ?thesis using assms
    by (auto simp: queued_reqs_def reqs_wf_def list_ex_iff same_req_key req_key_def req_ok_def)
qed

lemma append_packet_wf:
  "arp_wf s \<Longrightarrow> 34 \<le> length p \<Longrightarrow> arpcache_append_packet ifc ip4 p s = Some t \<Longrightarrow> arp_wf t"
  by (auto simp: append_packet_eq arp_wf_halves queued_reqs_wf)

text \<open>What leaves, or waits, when an IP packet is handed over for a next hop.\<close>

definition ip_framed :: "iface \<Rightarrow> bytes \<Rightarrow> bytes" where
  "ip_framed ifc p = take 6 p @ mac_bytes (if_mac ifc) @ le16_enc (htons 0x0800) @ drop 14 p"

lemma length_le16_enc [simp]: "length (le16_enc w) = 2"
  by (simp add: le16_enc_def)

lemma length_ip_framed [simp]: "14 \<le> length p \<Longrightarrow> length (ip_framed ifc p) = length p"
  by (simp add: ip_framed_def)

lemma put_ether_framed:
  assumes "get_ether p 0 = Some eh"
  shows "put_ether p 0 (eh\<lparr>ether_shost := if_mac ifc, ether_type := htons 0x0800\<rparr>) = Some (ip_framed ifc p)"
    and "14 \<le> length p"
proof -
  obtain us rest where p: "p = us @ ether_enc eh @ rest" "length us = 0"
    using ether.get_splits[OF assms] by blast
  then show "put_ether p 0 (eh\<lparr>ether_shost := if_mac ifc, ether_type := htons 0x0800\<rparr>) = Some (ip_framed ifc p)"
    by (simp add: put_ether_front) (simp add: ip_framed_def ether_enc_def)
  from p show "14 \<le> length p" by simp
qed

lemma send_by_arp_eq:
  assumes "14 \<le> length p"
  shows "iface_send_packet_by_arp ifc ip4 p s =
    (case arpcache_lookup s ip4 of
       Some m \<Rightarrow> Some (s\<lparr>n_out := n_out s @ [(ifc, mac_bytes m @ drop 6 (ip_framed ifc p))]\<rparr>)
     | None \<Rightarrow> arpcache_append_packet ifc ip4 (ip_framed ifc p) s)"
proof -
  obtain eh where e: "get_ether p 0 = Some eh" using assms get_ether_Some_iff by blast
  have st: "st_bytes (ip_framed ifc p) 0 (mac_bytes m) = Some (mac_bytes m @ drop 6 (ip_framed ifc p))" for m
    using assms by (simp add: st_bytes_def blit_def)
  show ?thesis using assms
    by (simp add: iface_send_packet_by_arp_def e put_ether_framed(1)[OF e] st iface_send_packet_eq
        split: option.splits)
qed

lemma send_by_arp_None: "length p < 14 \<Longrightarrow> iface_send_packet_by_arp ifc ip4 p s = None"
  by (simp add: iface_send_packet_by_arp_def get_ether_def ld_bytes_def hdr_sizes)

lemma send_by_arp_wf:
  assumes "arp_wf s" "34 \<le> length p" "iface_send_packet_by_arp ifc ip4 p s = Some t"
  shows "arp_wf t"
proof (cases "arpcache_lookup s ip4")
  case None
  have "arpcache_append_packet ifc ip4 (ip_framed ifc p) s = Some t"
    using assms(2,3) None by (simp add: send_by_arp_eq)
  from append_packet_wf[OF assms(1) _ this] assms(2) show ?thesis by simp
next
  case (Some m)
  have "t = s\<lparr>n_out := n_out t\<rparr>" using assms(2,3) Some by (auto simp: send_by_arp_eq)
  then have "n_entries t = n_entries s" "n_reqs t = n_reqs s" by (metis net.select_convs(3,4) net.surjective net.update_convs(5))+
  with assms(1) show ?thesis by (simp add: arp_wf_def)
qed

section \<open>A round of the sweeping thread\<close>

definition sweep_keep :: "int \<Rightarrow> arp_req \<Rightarrow> arp_req option" where
  "sweep_keep now r =
     (if now - rq_sent r < 1 then Some r
      else if rq_retries r < 5 then Some (r\<lparr>rq_retries := rq_retries r + 1\<rparr>) else None)"

definition sweep_resend :: "int \<Rightarrow> arp_req \<Rightarrow> bool" where
  "sweep_resend now r \<longleftrightarrow> \<not> now - rq_sent r < 1 \<and> rq_retries r < 5"

lemma sweep_reqs_eq:
  "sweep_reqs now dn rs pkts s = Some (
     s\<lparr>n_reqs := dn @ List.map_filter (sweep_keep now) rs,
       n_out := n_out s @ List.map (\<lambda>r. (rq_iface r, arp_frame bc_mac (rq_iface r)
         (arp_request_of (rq_iface r) (rq_ip4 r)))) (filter (sweep_resend now) rs)\<rparr>,
     pkts @ concat (List.map rq_pkts (filter (\<lambda>r. sweep_keep now r = None) rs)))"
  by (induction rs arbitrary: dn pkts s)
    (simp_all add: sweep_keep_def sweep_resend_def arp_send_request_eq ARP_REQUEST_MAX_RETRIES_def
      List.map_filter_simps)

lemma map_filter_keys:
  "set (List.map req_key (List.map_filter (sweep_keep now) rs)) \<subseteq> set (List.map req_key rs)"
  by (induction rs) (auto simp: map_filter_simps sweep_keep_def req_key_def split: option.splits if_splits)

lemma sweep_keep_ok: "req_ok r \<Longrightarrow> sweep_keep now r = Some r' \<Longrightarrow> req_ok r' \<and> req_key r' = req_key r"
  by (auto simp: sweep_keep_def req_ok_def req_key_def split: if_splits)

lemma sweep_reqs_wf: "reqs_wf rs \<Longrightarrow> reqs_wf (List.map_filter (sweep_keep now) rs)"
proof (induction rs)
  case (Cons r rs)
  have w: "reqs_wf rs" "req_ok r" using Cons.prems by (simp_all add: reqs_wf_def)
  with Cons have IH: "reqs_wf (List.map_filter (sweep_keep now) rs)" by blast
  have "req_key r \<notin> set (List.map req_key (List.map_filter (sweep_keep now) rs))"
    using Cons.prems map_filter_keys[of now rs] by (auto simp: reqs_wf_def)
  with IH show ?case using sweep_keep_ok[OF w(2)]
    by (cases "sweep_keep now r") (auto simp: map_filter_simps reqs_wf_def)
qed (simp add: map_filter_simps)

lemma age_entry_simps [simp]: "ae_ip4 (age_entry now e) = ae_ip4 e"
  "ae_added (age_entry now e) = ae_added e"
  "ae_valid (age_entry now e) \<longleftrightarrow> ae_valid e \<and> now - ae_added e < 15"
  by (auto simp: age_entry_def ARP_ENTRY_TIMEOUT_def)

lemma sweep_locked_wf:
  assumes "arp_wf s"
  shows "\<exists>t pkts. arpcache_sweep_locked s = Some (t, pkts) \<and> arp_wf t \<and> (\<forall>p\<in>set pkts. 34 \<le> length p)"
proof -
  have "slots_wf (List.map (age_entry (n_now s)) (n_entries s))"
    using assms by (intro slots_wf_map) (auto simp: arp_wf_def)
  moreover have "\<forall>p\<in>set (concat (List.map rq_pkts (filter (\<lambda>r. sweep_keep (n_now s) r = None) (n_reqs s)))).
      34 \<le> length p"
    using assms by (auto simp: arp_wf_def reqs_wf_def req_ok_def)
  ultimately show ?thesis using assms
    by (simp add: arpcache_sweep_locked_def sweep_reqs_eq arp_wf_def sweep_reqs_wf)
qed

section \<open>Receiving ARP\<close>

lemma get_arp_frame [simp]: "get_arp (arp_frame d ifc a) ETHER_HDR_SIZE = Some a"
  using arp.get_append[of ETHER_HDR_SIZE
      "ether_enc \<lparr> ether_dhost = d, ether_shost = if_mac ifc, ether_type = htons 0x0806 \<rparr>" a "[]"]
  by (simp add: arp_frame_def hdr_sizes)

lemma handle_request_eq: "if_ip ifc = ntohl (arp_tpa a) \<Longrightarrow> arp_op a = htons 1 \<Longrightarrow>
    handle_arp_packet ifc (arp_frame d j a) s =
      arpcache_insert (ntohl (arp_spa a)) (arp_sha a)
        (s\<lparr>n_out := n_out s @ [(ifc, arp_frame (arp_sha a) ifc (arp_reply_of ifc a))]\<rparr>)"
  by (simp add: handle_arp_packet_def arp_send_reply_eq)

lemma htons_2_1: "htons (htons 2) \<noteq> 1"
  by simp

lemma handle_reply_eq: "if_ip ifc = ntohl (arp_tpa a) \<Longrightarrow> arp_op a = htons 2 \<Longrightarrow>
    handle_arp_packet ifc (arp_frame d j a) s = arpcache_insert (ntohl (arp_spa a)) (arp_sha a) s"
  by (simp add: handle_arp_packet_def)

lemma arpcache_insert_None_iff:
  assumes "arp_wf s"
  shows "arpcache_insert ip4 m s = None \<longleftrightarrow>
    (\<forall>e\<in>set (n_entries s). ae_valid e) \<and> (\<forall>e\<in>set (n_entries s). ae_ip4 e \<noteq> ip4)"
proof -
  have f: "(arp_flush_first k m [] (n_reqs s) u = None) = False" for k m u
    using arp_flush_first_eq[OF reqs_wf_len, of "n_reqs s"] assms
    by (simp add: arp_wf_def split: option.splits)
  show ?thesis
    by (auto simp: arpcache_insert_eq f list_all_iff list_ex_iff holds_ip_def)
qed

lemma arpcache_insert_Some:
  assumes "arp_wf s" "\<exists>e\<in>set (n_entries s). \<not> ae_valid e"
  obtains t where "arpcache_insert ip4 m s = Some t"
  using arpcache_insert_None_iff[OF assms(1)] assms(2) by (cases "arpcache_insert ip4 m s") auto

lemma arpcache_insert_out:
  assumes "arp_wf s" "arpcache_insert ip4 m s = Some t"
  shows "n_reqs t = drop_first (\<lambda>r. rq_ip4 r = ip4) (n_reqs s) \<and>
    n_out t = n_out s @ (case List.find (\<lambda>r. rq_ip4 r = ip4) (n_reqs s) of None \<Rightarrow> []
      | Some r \<Rightarrow> List.map (\<lambda>p. (rq_iface r, readdress m (if_mac (rq_iface r)) p)) (rq_pkts r))"
proof -
  obtain u where u: "arp_flush_first ip4 m [] (n_reqs s) u = Some t" "n_out u = n_out s"
    using arpcache_insert_split[OF assms] by blast
  have "drop_first P rs = rs" if "List.find P rs = None" for P and rs :: "arp_req list"
    using that by (induction rs) (auto split: if_splits)
  then show ?thesis using u arp_flush_first_eq[OF reqs_wf_len, of "n_reqs s"] assms(1)
    by (auto simp: arp_wf_def split: option.splits)
qed

section \<open>Properties\<close>

text \<open>When an address is learned, the cache resolves it from then on, the packets of
  the request waiting for it leave in the order they were queued with both hardware addresses
  filled in and the rest of the frame unchanged, the request is gone, and the invariant holds.\<close>

theorem arpcache_insert_resolves:
  assumes "arp_wf s" "arpcache_insert ip4 m s = Some t"
  shows "arp_wf t \<and> arpcache_lookup t ip4 = Some m \<and>
    n_reqs t = drop_first (\<lambda>r. rq_ip4 r = ip4) (n_reqs s) \<and>
    n_out t = n_out s @ (case List.find (\<lambda>r. rq_ip4 r = ip4) (n_reqs s) of None \<Rightarrow> []
      | Some r \<Rightarrow> List.map (\<lambda>p. (rq_iface r, readdress m (if_mac (rq_iface r)) p)) (rq_pkts r))"
  using arp_cache.learn_inv[OF assms] arp_cache.learn_hit[OF assms] arpcache_insert_out[OF assms]
  by blast

definition empty_net :: net where
  "empty_net = arpcache_init \<lparr> n_ifaces = [sample_iface], n_rtable = [sample_route 0 0], n_entries = [],
     n_reqs = [], n_out = [], n_now = 100, n_rnd = (\<lambda>i. 3), n_rnd_pos = 0 \<rparr>"

lemma empty_net_wf: "arp_wf empty_net"
  unfolding empty_net_def by (rule arpcache_init_wf)

lemma empty_net_simps [simp]: "n_reqs empty_net = []" "n_out empty_net = []" "n_rtable empty_net = [sample_route 0 0]"
  "n_entries empty_net = replicate 32 \<lparr> ae_ip4 = 0, ae_mac = Mac 0 0 0 0 0 0, ae_added = 0, ae_valid = False \<rparr>"
  "n_now empty_net = 100" "n_rnd empty_net = (\<lambda>i. 3)" "n_ifaces empty_net = [sample_iface]"
  by (simp_all add: empty_net_def arpcache_init_def MAX_ARP_SIZE_def)

theorem arpcache_insert_resolves_witness:
  "\<exists>t. arpcache_insert 0x0A000002 (Mac 0 0 0 0 0 2) empty_net = Some t \<and>
     arpcache_lookup t 0x0A000002 = Some (Mac 0 0 0 0 0 2)"
proof -
  obtain t where t: "arpcache_insert 0x0A000002 (Mac 0 0 0 0 0 2) empty_net = Some t"
    by (rule arpcache_insert_Some[OF empty_net_wf]) (auto simp: in_set_conv_nth)
  with arpcache_insert_resolves[OF empty_net_wf t] show ?thesis by blast
qed

text \<open>Insertion fails exactly on a full cache: when all slots are valid and none is
  for the address, \<open>pos\<close> is still -1 and the code writes in front of the array. In every other
  state it succeeds.\<close>

theorem arpcache_insert_overruns_when_full:
  assumes "arp_wf s"
  shows "arpcache_insert ip4 m s = None \<longleftrightarrow>
    (\<forall>e\<in>set (n_entries s). ae_valid e) \<and> (\<forall>e\<in>set (n_entries s). ae_ip4 e \<noteq> ip4)"
  using assms by (rule arpcache_insert_None_iff)

definition full_net :: net where
  "full_net = empty_net\<lparr>n_entries := List.map (\<lambda>i. \<lparr> ae_ip4 = of_nat i, ae_mac = Mac 0 0 0 0 0 1,
     ae_added = 100, ae_valid = True \<rparr>) [0..<32]\<rparr>"

lemma full_net_wf: "arp_wf full_net"
proof -
  have "i = j" if "i < 32" "j < 32" "(of_nat i :: u32) = of_nat j" for i j :: nat
    using that by (simp add: word_of_nat_eq_iff take_bit_nat_eq_self)
  then show ?thesis by (auto simp: arp_wf_def slots_wf_def reqs_wf_def full_net_def)
qed

theorem arpcache_insert_overruns_when_full_witness:
  "arpcache_insert 0x0A000002 (Mac 0 0 0 0 0 2) full_net = None"
proof -
  have "(of_nat i :: u32) \<noteq> 0x0A000002" if "i < 32" for i
  proof -
    have "unat (of_nat i :: u32) = i" using that by (simp add: unat_of_nat take_bit_nat_eq_self)
    then show ?thesis using that by auto
  qed
  then show ?thesis using arpcache_insert_overruns_when_full[OF full_net_wf]
    by (auto simp: full_net_def)
qed

text \<open>A free slot does not protect the bindings already learned: learning a second
  address in an otherwise empty cache can overwrite the first, because the code draws a random
  slot precisely when a free one exists.\<close>

theorem arpcache_insert_evicts_despite_free_slots:
  "\<exists>s t u. arp_wf s \<and> arpcache_insert 0x0A000002 (Mac 0 0 0 0 0 2) s = Some t \<and>
     arpcache_lookup t 0x0A000002 = Some (Mac 0 0 0 0 0 2) \<and>
     arpcache_insert 0x0A000003 (Mac 0 0 0 0 0 3) t = Some u \<and> arpcache_lookup u 0x0A000002 = None \<and>
     (\<exists>e\<in>set (n_entries u). \<not> ae_valid e)"
proof -
  obtain t where t: "arpcache_insert 0x0A000002 (Mac 0 0 0 0 0 2) empty_net = Some t"
    by (rule arpcache_insert_Some[OF empty_net_wf]) (auto simp: in_set_conv_nth)
  then have e: "n_entries t = (n_entries empty_net)[3 := \<lparr> ae_ip4 = 0x0A000002, ae_mac = Mac 0 0 0 0 0 2,
      ae_added = 100, ae_valid = True \<rparr>]" and w: "arp_wf t" and r: "n_rnd t = (\<lambda>i. 3)" "n_reqs t = []"
    using arpcache_insert_wf[OF empty_net_wf t]
    by (auto simp: arpcache_insert_eq list_ex_iff list_all_iff holds_ip_def split: if_splits)
  let ?e = "n_entries empty_net"
  have f: "\<not> ae_valid (n_entries t ! 0)" "0 < length (n_entries t)" unfolding e by simp_all
  then have fs: "\<exists>x\<in>set (n_entries t). \<not> ae_valid x" by (meson nth_mem)
  obtain u where u: "arpcache_insert 0x0A000003 (Mac 0 0 0 0 0 3) t = Some u"
    by (rule arpcache_insert_Some[OF w fs])
  have nh: "\<not> list_ex (holds_ip 0x0A000003) (n_entries t)"
    unfolding e by (auto simp: list_ex_iff holds_ip_def in_set_conv_nth nth_list_update split: if_splits)
  from u nh fs r have eu: "n_entries u = (n_entries t)[3 := \<lparr> ae_ip4 = 0x0A000003, ae_mac = Mac 0 0 0 0 0 3,
      ae_added = n_now t, ae_valid = True \<rparr>]"
    by (auto simp: arpcache_insert_eq list_all_iff split: if_splits)
  have "arpcache_lookup u 0x0A000002 = None"
    unfolding arpcache_lookup_def lookup_loop_eq eu e
    by (auto simp: find_None_iff holds_ip_def in_set_conv_nth nth_list_update split: if_splits)
  moreover have "\<not> ae_valid (n_entries u ! 0)" "0 < length (n_entries u)" unfolding eu e by simp_all
  ultimately show ?thesis
    using empty_net_wf t arpcache_insert_hit[OF empty_net_wf t] u by (meson nth_mem)
qed

text \<open>Property C9. Address resolution works end to end. Host A hands a packet for B over while it
  does not know B: a broadcast request leaves and the packet waits. B answers the request and
  learns A. The answer makes A learn B and releases the waiting packet, addressed to B.\<close>

theorem arp_exchange:
  assumes "arp_wf a" "arp_wf b" "34 \<le> length p"
    and "arpcache_lookup a (if_ip ib) = None" "\<forall>r\<in>set (n_reqs a). rq_ip4 r \<noteq> if_ip ib"
    and "\<exists>e\<in>set (n_entries a). \<not> ae_valid e" "\<exists>e\<in>set (n_entries b). \<not> ae_valid e"
  shows "\<exists>a' request b' reply a''.
    iface_send_packet_by_arp ia (if_ip ib) p a = Some a' \<and> n_out a' = n_out a @ [(ia, request)] \<and>
    handle_arp_packet ib request b = Some b' \<and> take (Suc (length (n_out b))) (n_out b') = n_out b @ [(ib, reply)] \<and>
    arpcache_lookup b' (if_ip ia) = Some (if_mac ia) \<and>
    handle_arp_packet ia reply a' = Some a'' \<and> arpcache_lookup a'' (if_ip ib) = Some (if_mac ib) \<and>
    n_out a'' = n_out a' @ [(ia, readdress (if_mac ib) (if_mac ia) (ip_framed ia p))]"
proof -
  let ?req = "arp_request_of ia (if_ip ib)"
  let ?rep = "arp_reply_of ib ?req"
  let ?a = "a\<lparr>n_reqs := queued_reqs ia (if_ip ib) (ip_framed ia p) (n_now a) (n_reqs a),
     n_out := n_out a @ [(ia, arp_frame bc_mac ia ?req)]\<rparr>"
  let ?b = "b\<lparr>n_out := n_out b @ [(ib, arp_frame (if_mac ia) ib ?rep)]\<rparr>"
  have nq: "\<not> list_ex (same_req ia (if_ip ib)) (n_reqs a)"
    using assms(5) by (auto simp: list_ex_iff same_req_def)
  then have 1: "iface_send_packet_by_arp ia (if_ip ib) p a = Some ?a"
    using assms(3,4) by (simp add: send_by_arp_eq append_packet_eq)
  have wa: "arp_wf ?a" using send_by_arp_wf[OF assms(1,3) 1] .
  have wb: "arp_wf ?b" using assms(2) by (simp add: arp_wf_def)
  obtain b' where b': "arpcache_insert (if_ip ia) (if_mac ia) ?b = Some b'"
    using arpcache_insert_Some[OF wb] assms(7) by auto
  obtain a'' where a'': "arpcache_insert (if_ip ib) (if_mac ib) ?a = Some a''"
    using arpcache_insert_Some[OF wa] assms(6) by auto
  have 2: "handle_arp_packet ib (arp_frame bc_mac ia ?req) b = Some b'"
    using b' by (simp add: handle_request_eq arp_request_of_def)
  have 3: "handle_arp_packet ia (arp_frame (if_mac ia) ib ?rep) ?a = Some a''"
    using a'' by (simp add: handle_reply_eq arp_reply_of_def arp_request_of_def)
  have "n_out a'' = n_out ?a @ [(ia, readdress (if_mac ib) (if_mac ia) (ip_framed ia p))]"
    using arpcache_insert_out[OF wa a''] nq by (simp add: queued_reqs_def)
  moreover have "take (Suc (length (n_out b))) (n_out b') = n_out b @ [(ib, arp_frame (if_mac ia) ib ?rep)]"
    using arpcache_insert_out[OF wb b'] by simp
  ultimately show ?thesis
    using 1 2 3 arpcache_insert_hit[OF wb b'] arpcache_insert_hit[OF wa a''] by auto
qed

theorem arp_exchange_witness:
  "\<exists>a' request b' reply a''.
    iface_send_packet_by_arp sample_iface 0x0A000002 (replicate 34 0) empty_net = Some a' \<and>
    n_out a' = [(sample_iface, request)] \<and>
    handle_arp_packet (sample_iface\<lparr>if_ip := 0x0A000002\<rparr>) request empty_net = Some b' \<and>
    handle_arp_packet sample_iface reply a' = Some a'' \<and>
    arpcache_lookup a'' 0x0A000002 = Some (Mac 0 0 0 0 0 1)"
proof -
  have n: "arpcache_lookup empty_net k = None" for k
    by (auto simp: arpcache_lookup_def lookup_loop_eq find_None_iff holds_ip_def)
  have f: "\<exists>e\<in>set (n_entries empty_net). \<not> ae_valid e" by (auto simp: in_set_conv_nth)
  from arp_exchange[OF empty_net_wf empty_net_wf, of "replicate 34 0"
      "sample_iface\<lparr>if_ip := 0x0A000002\<rparr>" sample_iface] n f
  show ?thesis by (auto simp: sample_iface_def)
qed

text \<open>One round of the sweeping thread: it never fails, no valid slot is older than
  the timeout afterwards, younger ones keep their binding, each waiting request is repeated with one
  more retry until the fifth, then dropped and its packets handed back in order; the others wait.\<close>

theorem arpcache_sweep_round:
  assumes "arp_wf s"
  shows "\<exists>t pkts. arpcache_sweep_locked s = Some (t, pkts) \<and> arp_wf t \<and>
    (\<forall>e\<in>set (n_entries t). ae_valid e \<longrightarrow> n_now s - ae_added e < ARP_ENTRY_TIMEOUT) \<and>
    (\<forall>e\<in>set (n_entries s). ae_valid e \<and> n_now s - ae_added e < ARP_ENTRY_TIMEOUT \<longrightarrow> e \<in> set (n_entries t)) \<and>
    n_reqs t = List.map_filter (sweep_keep (n_now s)) (n_reqs s) \<and>
    n_out t = n_out s @ [(rq_iface r, arp_frame bc_mac (rq_iface r) (arp_request_of (rq_iface r) (rq_ip4 r))).
      r \<leftarrow> n_reqs s, sweep_resend (n_now s) r] \<and>
    pkts = concat (List.map rq_pkts (filter (\<lambda>r. sweep_keep (n_now s) r = None) (n_reqs s)))"
proof -
  obtain t pkts where t: "arpcache_sweep_locked s = Some (t, pkts)" "arp_wf t"
    using sweep_locked_wf[OF assms] by blast
  have c: "[(f r). r \<leftarrow> rs, P r] = List.map f (filter P rs)" for f :: "arp_req \<Rightarrow> iface \<times> bytes" and P rs
    by (induction rs) auto
  have e: "n_entries t = List.map (age_entry (n_now s)) (n_entries s)"
    using t(1) by (auto simp: arpcache_sweep_locked_def sweep_reqs_eq)
  have "e \<in> set (n_entries t)" if "e \<in> set (n_entries s)" "n_now s - ae_added e < 15" for e
    using that unfolding e by (force simp: age_entry_def ARP_ENTRY_TIMEOUT_def)
  then show ?thesis using t
    by (auto simp: arpcache_sweep_locked_def sweep_reqs_eq c ARP_ENTRY_TIMEOUT_def)
qed

definition waiting_net :: net where
  "waiting_net = empty_net\<lparr>n_reqs := [\<lparr> rq_iface = sample_iface, rq_ip4 = 9, rq_sent = 10, rq_retries = 5,
     rq_pkts = [replicate 34 1] \<rparr>]\<rparr>"

theorem arpcache_sweep_round_witness:
  "\<exists>t. arpcache_sweep_locked waiting_net = Some (t, [replicate 34 1]) \<and> n_reqs t = []"
proof -
  have "arp_wf waiting_net"
    using empty_net_wf by (simp add: arp_wf_def waiting_net_def reqs_wf_def req_ok_def)
  from arpcache_sweep_round[OF this] show ?thesis
    by (auto simp: waiting_net_def map_filter_simps sweep_keep_def)
qed

text \<open>The sweeping thread left alone: one round a second.\<close>

fun sweep_rounds :: "nat \<Rightarrow> net \<Rightarrow> (net \<times> bytes list) option" where
  "sweep_rounds 0 s = Some (s, [])"
| "sweep_rounds (Suc k) s = do {
     (s, ps) \<leftarrow> arpcache_sweep_locked (s\<lparr>n_now := n_now s + 1\<rparr>);
     (s, qs) \<leftarrow> sweep_rounds k s;
     Some (s, ps @ qs) }"

definition pending :: "net \<Rightarrow> bytes multiset" where
  "pending s = mset (concat (List.map rq_pkts (n_reqs s)))"

lemma sweep_keep_split:
  "mset (concat (List.map rq_pkts rs)) =
     mset (concat (List.map rq_pkts (List.map_filter (sweep_keep now) rs))) +
     mset (concat (List.map rq_pkts (filter (\<lambda>r. sweep_keep now r = None) rs)))"
  by (induction rs) (auto simp: map_filter_simps sweep_keep_def)

lemma set_map_filter: "set (List.map_filter f xs) = {y. \<exists>x\<in>set xs. f x = Some y}"
  by (induction xs) (auto simp: map_filter_simps split: option.splits)

lemma sweep_rounds_drain:
  assumes "\<forall>r\<in>set (n_reqs s). rq_sent r \<le> n_now s \<and> 5 - int k \<le> rq_retries r" "0 < n"
    "n = Suc k"
  shows "\<exists>t pkts. sweep_rounds n s = Some (t, pkts) \<and> n_reqs t = [] \<and> mset pkts = pending s"
  using assms
proof (induction k arbitrary: s n)
  case 0
  have "List.map_filter (sweep_keep (n_now s + 1)) (n_reqs s) = []"
    using 0 by (auto simp: map_filter_def filter_empty_conv sweep_keep_def)
  then show ?case using 0 sweep_keep_split[of "n_reqs s" "n_now s + 1"]
    by (simp add: arpcache_sweep_locked_def sweep_reqs_eq pending_def)
next
  case (Suc k)
  obtain t ps where t: "arpcache_sweep_locked (s\<lparr>n_now := n_now s + 1\<rparr>) = Some (t, ps)"
    and r: "n_reqs t = List.map_filter (sweep_keep (n_now s + 1)) (n_reqs s)"
    and n: "n_now t = n_now s + 1"
    and ps: "ps = concat (List.map rq_pkts (filter (\<lambda>r. sweep_keep (n_now s + 1) r = None) (n_reqs s)))"
    by (simp add: arpcache_sweep_locked_def sweep_reqs_eq)
  have "\<forall>q\<in>set (n_reqs t). rq_sent q \<le> n_now t \<and> 5 - int k \<le> rq_retries q"
    using Suc.prems(1) unfolding r n set_map_filter by (fastforce simp: sweep_keep_def split: if_splits)
  from Suc.IH[OF this, of "Suc k"] obtain u qs
    where u: "sweep_rounds (Suc k) t = Some (u, qs)" "n_reqs u = []" "mset qs = pending t" by auto
  have "sweep_rounds n s = Some (u, ps @ qs)"
    unfolding Suc.prems(3) sweep_rounds.simps(2)[of "Suc k"] t using u(1)
    by (simp del: sweep_rounds.simps)
  then show ?case using u sweep_keep_split[of "n_reqs s" "n_now s + 1"]
    by (simp add: pending_def r ps)
qed

text \<open>No packet waits for ever and none is lost or duplicated while waiting: left
  alone, the sweeping thread empties the queue within five rounds, and the packets it hands back for
  an ICMP error are exactly those that were waiting.\<close>

theorem arp_queue_drains:
  assumes "arp_wf s" "\<forall>r\<in>set (n_reqs s). rq_sent r \<le> n_now s"
  shows "\<exists>t pkts. sweep_rounds 5 s = Some (t, pkts) \<and> n_reqs t = [] \<and> mset pkts = pending s"
  by (rule sweep_rounds_drain[of _ 4]) (use assms in \<open>auto simp: arp_wf_def reqs_wf_def req_ok_def\<close>)

theorem arp_queue_drains_witness:
  "\<exists>t pkts. sweep_rounds 5 waiting_net = Some (t, pkts) \<and> mset pkts = {#replicate 34 1#}"
proof -
  have "arp_wf waiting_net"
    using empty_net_wf by (simp add: arp_wf_def waiting_net_def reqs_wf_def req_ok_def)
  from arp_queue_drains[OF this] show ?thesis by (auto simp: waiting_net_def pending_def)
qed

text \<open>Broadcasting sends the packet once on every interface except the one it came
  from, in the order of the interface list, unchanged.\<close>

theorem broadcast_packet_floods:
  assumes "14 \<le> length p"
  shows "broadcast_packet i p s =
    Some (s\<lparr>n_out := n_out s @ [(j, p). j \<leftarrow> n_ifaces s, if_index j \<noteq> if_index i]\<rparr>)"
  unfolding broadcast_packet_def using assms by (rule broadcast_loop_eq)

theorem broadcast_packet_floods_witness:
  "\<exists>s. broadcast_packet (sample_iface\<lparr>if_index := 2\<rparr>) (replicate 60 0) empty_net = Some s \<and>
     n_out s = [(sample_iface, replicate 60 0)]"
  using broadcast_packet_floods[of "replicate 60 0"] by (simp add: sample_iface_def)

end
