(* ===== verification/Ip_Stack.thy ===== *)
theory Ip_Stack
  imports Arp_Cache
begin

text \<open>
  \<open>icmp.c\<close> and the sending and forwarding half of \<open>ip.c\<close>, together with the second half of a
  sweeping round, which answers the packets given up with ICMP errors. Delivery to the local
  transport is in the theory of the whole stack.
\<close>

definition ICMP_ECHOREPLY :: u8 where "ICMP_ECHOREPLY = 0"
definition ICMP_DEST_UNREACH :: u8 where "ICMP_DEST_UNREACH = 3"
definition ICMP_ECHOREQUEST :: u8 where "ICMP_ECHOREQUEST = 8"
definition ICMP_TIME_EXCEEDED :: u8 where "ICMP_TIME_EXCEEDED = 11"
definition ICMP_NET_UNREACH :: u8 where "ICMP_NET_UNREACH = 0"
definition ICMP_HOST_UNREACH :: u8 where "ICMP_HOST_UNREACH = 1"
definition ICMP_EXC_TTL :: u8 where "ICMP_EXC_TTL = 0"
definition ICMP_COPIED_DATA_LEN :: nat where "ICMP_COPIED_DATA_LEN = 8"

definition IPPROTO_ICMP :: u8 where "IPPROTO_ICMP = 1"
definition IPPROTO_TCP :: u8 where "IPPROTO_TCP = 6"

lemmas icmp_consts = ICMP_ECHOREPLY_def ICMP_DEST_UNREACH_def ICMP_ECHOREQUEST_def
  ICMP_TIME_EXCEEDED_def ICMP_NET_UNREACH_def ICMP_HOST_UNREACH_def ICMP_EXC_TTL_def
  ICMP_COPIED_DATA_LEN_def IPPROTO_ICMP_def IPPROTO_TCP_def

section \<open>Sending\<close>

definition ip_send_packet :: "bytes \<Rightarrow> net \<Rightarrow> net option" where
  "ip_send_packet p s = do {
     ip \<leftarrow> get_ip p ETHER_HDR_SIZE;
     let dst = ntohl (daddr ip);
     (case longest_prefix_match (n_rtable s) dst of
        None \<Rightarrow> Some s
      | Some entry \<Rightarrow> do {
          let next_hop = get_next_hop entry dst;
          let ifc = rt_iface entry;
          eh \<leftarrow> get_ether p 0;
          p \<leftarrow> put_ether p 0 (eh\<lparr>ether_type := ntohs 0x0800, ether_shost := if_mac ifc\<rparr>);
          iface_send_packet_by_arp ifc next_hop p s }) }"

text \<open>\<open>memcpy (dst + doff, src + soff, n)\<close> between two packets; a negative \<open>n\<close> becomes a huge
  \<open>size_t\<close>.\<close>

definition copy_bytes :: "bytes \<Rightarrow> nat \<Rightarrow> bytes \<Rightarrow> nat \<Rightarrow> int \<Rightarrow> bytes option" where
  "copy_bytes dst doff src soff n =
     (if n < 0 then None else do { b \<leftarrow> ld_bytes src soff (nat n); st_bytes dst doff b })"

text \<open>The first half of \<open>icmp_send_packet\<close>: the zeroed packet with its ICMP part filled in.\<close>

definition icmp_fill :: "bytes \<Rightarrow> iphdr \<Rightarrow> u8 \<Rightarrow> u8 \<Rightarrow> (bytes \<times> int) option" where
  "icmp_fill in_pkt in_ip type code = do {
     let in_icmp_off = ETHER_HDR_SIZE + ip_hdr_size in_ip;
     let out_icmp_off = ETHER_HDR_SIZE + IP_BASE_HDR_SIZE;
     let icmp_len = (if type = ICMP_ECHOREPLY
       then int (unat (ntohs (tot_len in_ip))) - int (ip_hdr_size in_ip)
       else int (ICMP_HDR_SIZE + ip_hdr_size in_ip + ICMP_COPIED_DATA_LEN));
     let out_len = (if type = ICMP_ECHOREPLY then length in_pkt
       else ETHER_HDR_SIZE + IP_BASE_HDR_SIZE + nat icmp_len);
     let out = replicate out_len 0;
     out_icmp \<leftarrow> get_icmp out out_icmp_off;
     let out_icmp = out_icmp\<lparr>icmp_type := type, icmp_code := code\<rparr>;
     out \<leftarrow> put_icmp out out_icmp_off out_icmp;
     out \<leftarrow> (if type = ICMP_ECHOREPLY then do {
         in_icmp \<leftarrow> get_icmp in_pkt in_icmp_off;
         let out_icmp = out_icmp\<lparr>icmp_identifier := icmp_identifier in_icmp,
           icmp_sequence := icmp_sequence in_icmp\<rparr>;
         out \<leftarrow> put_icmp out out_icmp_off out_icmp;
         copy_bytes out (out_icmp_off + ICMP_HDR_SIZE) in_pkt (in_icmp_off + ICMP_HDR_SIZE)
           (icmp_len - int ICMP_HDR_SIZE) }
       else copy_bytes out (out_icmp_off + ICMP_HDR_SIZE) in_pkt ETHER_HDR_SIZE
           (icmp_len - int ICMP_HDR_SIZE));
     ck \<leftarrow> icmp_checksum out out_icmp_off (nat icmp_len);
     h \<leftarrow> get_icmp out out_icmp_off;
     out \<leftarrow> put_icmp out out_icmp_off (h\<lparr>icmp_cksum := ck\<rparr>);
     Some (out, icmp_len) }"

definition icmp_send_packet :: "bytes \<Rightarrow> u8 \<Rightarrow> u8 \<Rightarrow> net \<Rightarrow> net option" where
  "icmp_send_packet in_pkt type code s = do {
     in_ip \<leftarrow> get_ip in_pkt ETHER_HDR_SIZE;
     (out, icmp_len) \<leftarrow> icmp_fill in_pkt in_ip type code;
     let dst = ntohl (saddr in_ip);
     let src = (if type = ICMP_ECHOREPLY then Some (ntohl (daddr in_ip))
       else map_option (if_ip \<circ> rt_iface) (longest_prefix_match (n_rtable s) dst));
     (case src of
        None \<Rightarrow> Some s
      | Some src \<Rightarrow> do {
          let (r, s) = c_rand s;
          out \<leftarrow> ip_init_hdr (of_nat r) out ETHER_HDR_SIZE src dst
            (of_int (int IP_BASE_HDR_SIZE + icmp_len)) IPPROTO_ICMP;
          ip_send_packet out s }) }"

section \<open>Forwarding\<close>

definition ip_forward_packet :: "u32 \<Rightarrow> bytes \<Rightarrow> net \<Rightarrow> net option" where
  "ip_forward_packet ip_dst p s = do {
     hdr \<leftarrow> get_ip p ETHER_HDR_SIZE;
     if ttl hdr \<le> 1 then icmp_send_packet p ICMP_TIME_EXCEEDED ICMP_EXC_TTL s
     else do {
       let hdr = hdr\<lparr>ttl := ttl hdr - 1\<rparr>;
       p \<leftarrow> put_ip p ETHER_HDR_SIZE hdr;
       ck \<leftarrow> ip_checksum p ETHER_HDR_SIZE;
       p \<leftarrow> put_ip p ETHER_HDR_SIZE (hdr\<lparr>ip_cksum := ck\<rparr>);
       (case longest_prefix_match (n_rtable s) ip_dst of
          None \<Rightarrow> icmp_send_packet p ICMP_DEST_UNREACH ICMP_NET_UNREACH s
        | Some entry \<Rightarrow> do {
            let next_hop = get_next_hop entry ip_dst;
            (case arpcache_lookup s next_hop of
               Some dst \<Rightarrow> do {
                 eh \<leftarrow> get_ether p 0;
                 p \<leftarrow> put_ether p 0 (eh\<lparr>ether_dhost := dst, ether_shost := if_mac (rt_iface entry)\<rparr>);
                 iface_send_packet (rt_iface entry) p s }
             | None \<Rightarrow> arpcache_append_packet (rt_iface entry) next_hop p s) }) } }"

section \<open>The sweeping thread\<close>

fun sweep_errors :: "bytes list \<Rightarrow> net \<Rightarrow> net option" where
  "sweep_errors [] s = Some s"
| "sweep_errors (p # ps) s = do {
     s \<leftarrow> icmp_send_packet p ICMP_DEST_UNREACH ICMP_HOST_UNREACH s;
     sweep_errors ps s }"

definition arpcache_sweep :: "net \<Rightarrow> net option" where
  "arpcache_sweep s = do {
     (s, pkts) \<leftarrow> arpcache_sweep_locked s;
     sweep_errors pkts s }"

section \<open>Packets as header, header, rest\<close>

definition frame :: "ether_header \<Rightarrow> iphdr \<Rightarrow> bytes \<Rightarrow> bytes" where
  "frame eh ih rest = ether_enc eh @ iphdr_enc ih @ rest"

lemma length_frame [simp]: "length (frame eh ih rest) = 34 + length rest"
  by (simp add: frame_def)

lemma frame_cases:
  assumes "34 \<le> length p"
  obtains eh ih rest where "p = frame eh ih rest"
proof -
  let ?e = "take 14 p" and ?i = "take 20 (drop 14 p)"
  have "p = ?e @ ?i @ drop 34 p" by (simp add: take_add[symmetric] append.assoc[symmetric])
  moreover have "?e = ether_enc (ether_dec ?e)" using assms by (simp add: ether_enc_dec)
  moreover have "?i = iphdr_enc (iphdr_dec ?i)" using assms by (simp add: iphdr_enc_dec)
  ultimately have "p = frame (ether_dec ?e) (iphdr_dec ?i) (drop 34 p)" unfolding frame_def by metis
  then show ?thesis by (rule that)
qed

lemma frame_ops [simp]:
  "get_ether (frame eh ih rest) 0 = Some eh"
  "put_ether (frame eh ih rest) 0 eh' = Some (frame eh' ih rest)"
  "get_ip (frame eh ih rest) ETHER_HDR_SIZE = Some ih"
  "put_ip (frame eh ih rest) ETHER_HDR_SIZE ih' = Some (frame eh ih' rest)"
  using ether.get_at_front[of eh "iphdr_enc ih @ rest"] put_ether_front[of "ether_enc eh" "iphdr_enc ih @ rest" eh']
    ip.get_append[of ETHER_HDR_SIZE "ether_enc eh" ih rest] ip.put_append[of ETHER_HDR_SIZE "ether_enc eh" ih rest ih']
  by (simp_all add: frame_def hdr_sizes)

lemma ip_checksum_frame [simp]: "ihl ih = 5 \<Longrightarrow>
    ip_checksum (frame eh ih rest) ETHER_HDR_SIZE = Some (checksum (iphdr_enc (ih\<lparr>ip_cksum := 0\<rparr>)) 0)"
  using ip_checksum_at[of ih "ether_enc eh" rest] by (simp add: frame_def hdr_sizes)

lemma ip_init_hdr_frame [simp]:
  "ip_init_hdr rnd (frame eh ih rest) ETHER_HDR_SIZE sip dip len proto
     = Some (frame eh (ip_header_of rnd ih sip dip len proto) rest)"
  using ip_init_hdr_on[of rnd "ether_enc eh" ih rest] by (simp add: frame_def hdr_sizes)

lemma ip_framed_frame [simp]:
  "ip_framed ifc (frame eh ih rest) = frame (eh\<lparr>ether_shost := if_mac ifc, ether_type := htons 0x0800\<rparr>) ih rest"
  by (simp add: ip_framed_def frame_def ether_enc_def)

lemma mac_front_frame [simp]:
  "mac_bytes m @ drop 6 (frame eh ih rest) = frame (eh\<lparr>ether_dhost := m\<rparr>) ih rest"
  by (simp add: frame_def ether_enc_def)

lemma readdress_frame [simp]:
  "readdress d m (frame eh ih rest) = frame (eh\<lparr>ether_dhost := d, ether_shost := m\<rparr>) ih rest"
  by (simp add: readdress_def frame_def ether_enc_def)

section \<open>Sending is total on packets with both headers\<close>

lemma send_by_arp_total: "14 \<le> length p \<Longrightarrow> \<exists>t. iface_send_packet_by_arp ifc ip4 p s = Some t"
  by (simp add: send_by_arp_eq append_packet_eq split: option.splits)

lemma ip_send_frame:
  "ip_send_packet (frame eh ih rest) s =
    (case longest_prefix_match (n_rtable s) (ntohl (daddr ih)) of
       None \<Rightarrow> Some s
     | Some e \<Rightarrow> iface_send_packet_by_arp (rt_iface e) (get_next_hop e (ntohl (daddr ih)))
         (frame (eh\<lparr>ether_type := htons 0x0800, ether_shost := if_mac (rt_iface e)\<rparr>) ih rest) s)"
  by (simp add: ip_send_packet_def Let_def split: option.splits)

lemma ip_send_total: "34 \<le> length p \<Longrightarrow> \<exists>t. ip_send_packet p s = Some t"
proof -
  assume "34 \<le> length p"
  then obtain eh ih rest where "p = frame eh ih rest" by (rule frame_cases)
  then show ?thesis using send_by_arp_total by (simp add: ip_send_frame split: option.splits)
qed

lemma ip_send_wf: "arp_wf s \<Longrightarrow> 34 \<le> length p \<Longrightarrow> ip_send_packet p s = Some t \<Longrightarrow> arp_wf t"
proof -
  assume w: "arp_wf s" and l: "34 \<le> length p" and t: "ip_send_packet p s = Some t"
  from l obtain eh ih rest where p: "p = frame eh ih rest" by (rule frame_cases)
  show ?thesis
  proof (cases "longest_prefix_match (n_rtable s) (ntohl (daddr ih))")
    case None
    with t w show ?thesis by (simp add: p ip_send_frame)
  next
    case (Some e)
    with t have "iface_send_packet_by_arp (rt_iface e) (get_next_hop e (ntohl (daddr ih)))
      (frame (eh\<lparr>ether_type := htons 0x0800, ether_shost := if_mac (rt_iface e)\<rparr>) ih rest) s = Some t"
      by (simp add: p ip_send_frame)
    from send_by_arp_wf[OF w _ this] show ?thesis by simp
  qed
qed

lemma c_rand_simps [simp]: "fst (c_rand s) = n_rnd s (n_rnd_pos s)"
  "snd (c_rand s) = s\<lparr>n_rnd_pos := Suc (n_rnd_pos s)\<rparr>"
  by (simp_all add: c_rand_def)

section \<open>The ICMP messages\<close>

lemma icmp_checksum_verifies:
  assumes "length d \<le> 65527"
  shows "checksum (icmp_enc (h\<lparr>icmp_cksum := checksum (icmp_enc (h\<lparr>icmp_cksum := 0\<rparr>) @ d) 0\<rparr>) @ d) 0 = 0"
proof -
  let ?vs = "le16_enc (icmp_identifier h) @ le16_enc (icmp_sequence h) @ d"
  have e: "icmp_enc (h\<lparr>icmp_cksum := c\<rparr>) @ d = [icmp_type h, icmp_code h] @ le16_enc c @ ?vs" for c
    by (simp add: icmp_enc_def)
  have z: "le16_enc 0 = [0, 0]" by (simp add: le16_enc_def)
  have "word_sum ([icmp_type h, icmp_code h] @ [0, 0] @ ?vs) \<le> (8 + length d) * 65535"
    using word_sum_bound[of "[icmp_type h, icmp_code h] @ [0, 0] @ ?vs"] by simp
  also have "\<dots> \<le> 65535 * 65535" using assms by (intro mult_le_mono1) simp
  finally have "word_sum ([icmp_type h, icmp_code h] @ [0, 0] @ ?vs) \<le> 65535 * 65535" .
  then show ?thesis unfolding e z by (intro checksum_stored_verifies) simp_all
qed

lemma icmp_ops:
  "get_icmp (frame eh ih (icmp_enc h @ d)) 34 = Some h"
  "put_icmp (frame eh ih (icmp_enc h @ d)) 34 h' = Some (frame eh ih (icmp_enc h' @ d))"
  using icmp.get_append[of 34 "ether_enc eh @ iphdr_enc ih" h d]
    icmp.put_append[of 34 "ether_enc eh @ iphdr_enc ih" h d h']
  by (simp_all add: frame_def)

lemma icmp_checksum_frame:
  "length d = n \<Longrightarrow> icmp_checksum (frame eh ih (icmp_enc h @ d @ us)) 34 (8 + n) =
    Some (checksum (icmp_enc (h\<lparr>icmp_cksum := 0\<rparr>) @ d) 0)"
  using icmp_ops[of eh ih h "d @ us"]
  by (simp add: icmp_checksum_def ld_bytes_def) (simp add: frame_def)

definition zero_eth :: ether_header where "zero_eth = ether_dec (replicate 14 0)"
definition zero_iph :: iphdr where "zero_iph = iphdr_dec (replicate 20 0)"
definition zero_icmp :: icmphdr where "zero_icmp = icmp_dec (replicate 8 0)"

lemma zero_frame: "replicate (42 + n) 0 = frame zero_eth zero_iph (icmp_enc zero_icmp @ replicate n 0)"
proof -
  have "frame zero_eth zero_iph (icmp_enc zero_icmp @ replicate n 0) =
      replicate 14 0 @ replicate 20 0 @ replicate 8 0 @ replicate n 0"
    by (simp add: frame_def zero_eth_def zero_iph_def zero_icmp_def ether_enc_dec iphdr_enc_dec icmp_enc_dec)
  also have "\<dots> = replicate (42 + n) 0" by (simp flip: replicate_add)
  finally show ?thesis by simp
qed

lemma st_icmp_data:
  "length x = length src \<Longrightarrow> st_bytes (frame eh ih (icmp_enc h @ x @ us)) 42 src
     = Some (frame eh ih (icmp_enc h @ src @ us))"
  by (simp add: st_bytes_def blit_def frame_def)

text \<open>The ICMP header a message ends up with: checksummed together with its data.\<close>

definition icmp_sealed :: "icmphdr \<Rightarrow> bytes \<Rightarrow> icmphdr" where
  "icmp_sealed h d = h\<lparr>icmp_cksum := checksum (icmp_enc (h\<lparr>icmp_cksum := 0\<rparr>) @ d) 0\<rparr>"

lemma icmp_sealed_verifies: "length d \<le> 65527 \<Longrightarrow> checksum (icmp_enc (icmp_sealed h d) @ d) 0 = 0"
  unfolding icmp_sealed_def by (rule icmp_checksum_verifies)

lemma icmp_sealed_simps [simp]:
  "icmp_type (icmp_sealed h d) = icmp_type h" "icmp_code (icmp_sealed h d) = icmp_code h"
  "icmp_identifier (icmp_sealed h d) = icmp_identifier h"
  "icmp_sequence (icmp_sealed h d) = icmp_sequence h"
  by (simp_all add: icmp_sealed_def)

definition icmp_error_hdr :: "u8 \<Rightarrow> u8 \<Rightarrow> icmphdr" where
  "icmp_error_hdr type code = zero_icmp\<lparr>icmp_type := type, icmp_code := code\<rparr>"

lemma ip_hdr_size_le: "ip_hdr_size ih \<le> 60"
proof -
  have "unat (ihl ih) < 2 ^ LENGTH(4)" by (rule unsigned_less)
  then show ?thesis by (simp add: ip_hdr_size_def)
qed

text \<open>An error message quotes the IP header and eight bytes: defined exactly when they exist.\<close>

lemma icmp_fill_error:
  assumes "type \<noteq> ICMP_ECHOREPLY" "n = ip_hdr_size ih + 8"
  shows "icmp_fill p ih type code =
    (if 14 + n \<le> length p
     then let d = take n (drop 14 p)
          in Some (frame zero_eth zero_iph (icmp_enc (icmp_sealed (icmp_error_hdr type code) d) @ d), int (8 + n))
     else None)"
proof -
  let ?h = "icmp_error_hdr type code"
  have cp: "copy_bytes (frame zero_eth zero_iph (icmp_enc ?h @ replicate n 0)) 42 p 14 (int n) =
      (if 14 + n \<le> length p then Some (frame zero_eth zero_iph (icmp_enc ?h @ take n (drop 14 p))) else None)"
    using st_icmp_data[of "replicate n 0" "take n (drop 14 p)" zero_eth zero_iph ?h "[]"]
    by (simp add: copy_bytes_def ld_bytes_def)
  have n: "int (ICMP_HDR_SIZE + ip_hdr_size ih + ICMP_COPIED_DATA_LEN) = int (8 + n)"
    "int (8 + n) - int ICMP_HDR_SIZE = int n" "14 + IP_BASE_HDR_SIZE = 34"
    "34 + ICMP_HDR_SIZE = 42" "ETHER_HDR_SIZE = 14" "nat (int (8 + n)) = 8 + n" "34 + (8 + n) = 42 + n"
    by (simp_all add: hdr_sizes icmp_consts assms(2))
  have h: "zero_icmp\<lparr>icmp_type := type, icmp_code := code\<rparr> = ?h" by (simp add: icmp_error_hdr_def)
  have ck: "14 + n \<le> length p \<Longrightarrow>
      icmp_checksum (frame zero_eth zero_iph (icmp_enc ?h @ take n (drop 14 p))) 34 (8 + n) =
        Some (checksum (icmp_enc (?h\<lparr>icmp_cksum := 0\<rparr>) @ take n (drop 14 p)) 0)"
    using icmp_checksum_frame[of "take n (drop 14 p)" n zero_eth zero_iph ?h "[]"] by simp
  show ?thesis
    unfolding icmp_fill_def Let_def if_not_P[OF assms(1)] n zero_frame
    by (simp add: h icmp_ops cp ck icmp_sealed_def del: of_nat_add int_ops)
qed

definition icmp_reply_hdr :: "icmphdr \<Rightarrow> u8 \<Rightarrow> icmphdr" where
  "icmp_reply_hdr h code = zero_icmp\<lparr>icmp_type := ICMP_ECHOREPLY, icmp_code := code,
     icmp_identifier := icmp_identifier h, icmp_sequence := icmp_sequence h\<rparr>"

text \<open>An echo reply copies as much data as the request's \<open>tot_len\<close> claims.\<close>

lemma icmp_fill_reply:
  assumes "ihl ih = 5" "p = frame eh ih (icmp_enc h @ d)"
  shows "icmp_fill p ih ICMP_ECHOREPLY code =
    (let tot = unat (ntohs (tot_len ih)); n = tot - 28
     in if 28 \<le> tot \<and> n \<le> length d
        then Some (frame zero_eth zero_iph (icmp_enc (icmp_sealed (icmp_reply_hdr h code) (take n d))
               @ take n d @ replicate (length d - n) 0), int (8 + n))
        else None)"
proof -
  let ?tot = "unat (ntohs (tot_len ih))" and ?h = "icmp_reply_hdr h code"
  let ?base = "zero_icmp\<lparr>icmp_type := ICMP_ECHOREPLY, icmp_code := code\<rparr>"
  have ihs: "ip_hdr_size ih = 20" using assms(1) by (simp add: ip_hdr_size_def)
  have n: "ETHER_HDR_SIZE + IP_BASE_HDR_SIZE = 34" "34 + ICMP_HDR_SIZE = 42" "ETHER_HDR_SIZE + 20 = 34"
    by (simp_all add: hdr_sizes)
  have out: "replicate (length p) 0 = frame zero_eth zero_iph (icmp_enc zero_icmp @ replicate (length d) 0)"
    using zero_frame[of "length d"] by (simp add: assms(2) add.commute)
  have src: "get_icmp p 34 = Some h" unfolding assms(2) by (rule icmp_ops)
  have ld: "ld_bytes p 42 k = (if k \<le> length d then Some (take k d) else None)" for k
    by (simp add: ld_bytes_def assms(2) frame_def)
  have h: "?base\<lparr>icmp_identifier := icmp_identifier h, icmp_sequence := icmp_sequence h\<rparr> = ?h"
    by (simp add: icmp_reply_hdr_def)
  have cp: "copy_bytes (frame zero_eth zero_iph (icmp_enc ?h @ replicate (length d) 0)) 42 p 42 (int k) =
      (if k \<le> length d then Some (frame zero_eth zero_iph (icmp_enc ?h @ take k d @ replicate (length d - k) 0)) else None)" for k
  proof (cases "k \<le> length d")
    case True
    then have "replicate (length d) 0 = replicate k 0 @ replicate (length d - k) (0::u8)"
      by (simp flip: replicate_add)
    with True show ?thesis
      using st_icmp_data[of "replicate k 0" "take k d" zero_eth zero_iph ?h "replicate (length d - k) 0"]
      by (simp add: copy_bytes_def ld)
  qed (simp add: copy_bytes_def ld)
  show ?thesis
  proof (cases "28 \<le> ?tot")
    case False
    then have "int ?tot < 28" by linarith
    then have neg: "uint (ntohs (tot_len ih)) < 28" by simp
    show ?thesis
      by (simp add: icmp_fill_def Let_def ihs n out icmp_ops src copy_bytes_def hdr_sizes neg)
        (use False in blast)
  next
    case True
    define k where "k = ?tot - 28"
    have t: "?tot = 28 + k" using True by (simp add: k_def)
    have k: "int ?tot - int 20 = int (8 + k)" "int (8 + k) - int ICMP_HDR_SIZE = int k" "nat (int (8 + k)) = 8 + k"
      by (simp_all add: t hdr_sizes)
    have ck: "k \<le> length d \<Longrightarrow> icmp_checksum (frame zero_eth zero_iph
        (icmp_enc ?h @ take k d @ replicate (length d - k) 0)) 34 (8 + k) =
        Some (checksum (icmp_enc (?h\<lparr>icmp_cksum := 0\<rparr>) @ take k d) 0)"
      by (rule icmp_checksum_frame) simp
    have "icmp_fill p ih ICMP_ECHOREPLY code =
        (if k \<le> length d then Some (frame zero_eth zero_iph (icmp_enc (icmp_sealed ?h (take k d)) @ take k d
          @ replicate (length d - k) 0), int (8 + k)) else None)"
      unfolding icmp_fill_def Let_def ihs n k
      by (simp add: k(2) out icmp_ops src h cp ck icmp_sealed_def del: of_nat_add int_ops)
    then show ?thesis by (simp add: Let_def t)
  qed
qed

section \<open>Sending ICMP\<close>

lemma icmp_send_error:
  assumes "type \<noteq> ICMP_ECHOREPLY" "p = frame eh ih rest" "n = ip_hdr_size ih + 8"
  shows "icmp_send_packet p type code s =
    (if length p < 14 + n then None
     else case longest_prefix_match (n_rtable s) (ntohl (saddr ih)) of
       None \<Rightarrow> Some s
     | Some e \<Rightarrow> (let d = take n (drop 14 p) in ip_send_packet
         (frame zero_eth (ip_header_of (of_nat (n_rnd s (n_rnd_pos s))) zero_iph (if_ip (rt_iface e))
            (ntohl (saddr ih)) (of_nat (28 + n)) IPPROTO_ICMP)
           (icmp_enc (icmp_sealed (icmp_error_hdr type code) d) @ d))
         (s\<lparr>n_rnd_pos := Suc (n_rnd_pos s)\<rparr>)))"
proof -
  have g: "get_ip p ETHER_HDR_SIZE = Some ih" by (simp add: assms(2))
  show ?thesis
  proof (cases "14 + n \<le> length p")
    case True
    then show ?thesis using assms(1)
      by (simp add: icmp_send_packet_def g icmp_fill_error[OF assms(1,3)] c_rand_def Let_def hdr_sizes[symmetric]
          split: option.splits) (simp add: hdr_sizes)
  next
    case False
    then show ?thesis using assms(1)
      by (simp add: icmp_send_packet_def g icmp_fill_error[OF assms(1,3)])
  qed
qed

lemma icmp_send_reply:
  assumes "ihl ih = 5" "p = frame eh ih (icmp_enc h @ d)"
  shows "icmp_send_packet p ICMP_ECHOREPLY code s =
    (let tot = unat (ntohs (tot_len ih)); n = tot - 28
     in if 28 \<le> tot \<and> n \<le> length d
        then ip_send_packet
          (frame zero_eth (ip_header_of (of_nat (n_rnd s (n_rnd_pos s))) zero_iph (ntohl (daddr ih))
             (ntohl (saddr ih)) (of_nat tot) IPPROTO_ICMP)
            (icmp_enc (icmp_sealed (icmp_reply_hdr h code) (take n d)) @ take n d @ replicate (length d - n) 0))
          (s\<lparr>n_rnd_pos := Suc (n_rnd_pos s)\<rparr>)
        else None)"
proof -
  let ?tot = "unat (ntohs (tot_len ih))"
  have g: "get_ip p ETHER_HDR_SIZE = Some ih" by (simp add: assms(2))
  show ?thesis
  proof (cases "28 \<le> ?tot")
    case True
    define k where "k = ?tot - 28"
    have t: "?tot = 28 + k" using True by (simp add: k_def)
    show ?thesis
      by (cases "k \<le> length d")
        (simp_all add: icmp_send_packet_def g icmp_fill_reply[OF assms] c_rand_def Let_def t
          IP_BASE_HDR_SIZE_def)
  next
    case False
    then show ?thesis
      by (simp add: icmp_send_packet_def g icmp_fill_reply[OF assms] c_rand_def Let_def)
  qed
qed

lemma get_icmp_cases:
  assumes "42 \<le> length p"
  obtains eh ih h d where "p = frame eh ih (icmp_enc h @ d)" "length d = length p - 42"
proof -
  from assms have "34 \<le> length p" by simp
  then obtain eh ih rest where p: "p = frame eh ih rest" by (rule frame_cases)
  have "rest = icmp_enc (icmp_dec (take 8 rest)) @ drop 8 rest"
    using assms by (simp add: p icmp_enc_dec)
  with p show ?thesis by (intro that[of eh ih "icmp_dec (take 8 rest)" "drop 8 rest"]) (simp_all add: p)
qed

lemma icmp_send_wf:
  assumes "arp_wf s" "34 \<le> length p" "type \<noteq> ICMP_ECHOREPLY" "icmp_send_packet p type code s = Some t"
  shows "arp_wf t"
proof -
  obtain eh ih rest where p: "p = frame eh ih rest" using assms(2) by (rule frame_cases)
  have w: "arp_wf (s\<lparr>n_rnd_pos := k\<rparr>)" for k using assms(1) by (simp add: arp_wf_def)
  show ?thesis
    using assms(1,4) unfolding icmp_send_error[OF assms(3) p refl]
    by (auto simp: Let_def split: if_splits option.splits elim!: ip_send_wf[OF w, rotated])
qed

section \<open>Forwarding\<close>

definition fwd_hdr :: "iphdr \<Rightarrow> iphdr" where
  "fwd_hdr ih = ih\<lparr>ttl := ttl ih - 1,
     ip_cksum := checksum (iphdr_enc (ih\<lparr>ttl := ttl ih - 1, ip_cksum := 0\<rparr>)) 0\<rparr>"

lemma fwd_hdr_verifies: "checksum (iphdr_enc (fwd_hdr ih)) 0 = 0"
  using iphdr_checksum_verifies[of "ih\<lparr>ttl := ttl ih - 1\<rparr>"] by (simp add: fwd_hdr_def)

lemma ip_forward_frame:
  assumes "ihl ih = 5" "1 < ttl ih"
  shows "ip_forward_packet dst (frame eh ih rest) s =
    (case longest_prefix_match (n_rtable s) dst of
       None \<Rightarrow> icmp_send_packet (frame eh (fwd_hdr ih) rest) ICMP_DEST_UNREACH ICMP_NET_UNREACH s
     | Some e \<Rightarrow> (case arpcache_lookup s (get_next_hop e dst) of
         Some m \<Rightarrow> Some (s\<lparr>n_out := n_out s @ [(rt_iface e,
           frame (eh\<lparr>ether_dhost := m, ether_shost := if_mac (rt_iface e)\<rparr>) (fwd_hdr ih) rest)]\<rparr>)
       | None \<Rightarrow> arpcache_append_packet (rt_iface e) (get_next_hop e dst) (frame eh (fwd_hdr ih) rest) s))"
  using assms
  by (simp add: ip_forward_packet_def Let_def not_le[symmetric] fwd_hdr_def iface_send_packet_eq
      split: option.splits)

lemma ip_forward_expired:
  "ttl ih \<le> 1 \<Longrightarrow> ip_forward_packet dst (frame eh ih rest) s =
     icmp_send_packet (frame eh ih rest) ICMP_TIME_EXCEEDED ICMP_EXC_TTL s"
  by (simp add: ip_forward_packet_def)

section \<open>Properties\<close>

text \<open>Property C10. Forwarding a packet whose next hop is resolved sends exactly one frame on the
  interface of the longest matching route: addressed to the next hop, with the TTL one lower, a
  header checksum that verifies, and every other header field and the payload unchanged.\<close>

theorem ip_forward_correct:
  assumes "ihl ih = 5" "1 < ttl ih" "longest_prefix_match (n_rtable s) dst = Some e"
    and "arpcache_lookup s (get_next_hop e dst) = Some m"
  shows "\<exists>ih'. ip_forward_packet dst (frame eh ih rest) s =
      Some (s\<lparr>n_out := n_out s @ [(rt_iface e,
        frame \<lparr> ether_dhost = m, ether_shost = if_mac (rt_iface e), ether_type = ether_type eh \<rparr> ih' rest)]\<rparr>) \<and>
    ttl ih' = ttl ih - 1 \<and> checksum (iphdr_enc ih') 0 = 0 \<and>
    ih'\<lparr>ttl := ttl ih, ip_cksum := ip_cksum ih\<rparr> = ih"
proof (intro exI[of _ "fwd_hdr ih"] conjI)
  have eq: "eh\<lparr>ether_dhost := m, ether_shost := k\<rparr> = \<lparr> ether_dhost = m, ether_shost = k, ether_type = ether_type eh \<rparr>" for k
    by (cases eh) simp
  show "ip_forward_packet dst (frame eh ih rest) s = Some (s\<lparr>n_out := n_out s @ [(rt_iface e,
      frame \<lparr> ether_dhost = m, ether_shost = if_mac (rt_iface e), ether_type = ether_type eh \<rparr> (fwd_hdr ih) rest)]\<rparr>)"
    using assms(3,4) by (simp add: ip_forward_frame[OF assms(1,2)] eq)
  show "checksum (iphdr_enc (fwd_hdr ih)) 0 = 0" by (rule fwd_hdr_verifies)
  show "ttl (fwd_hdr ih) = ttl ih - 1" "(fwd_hdr ih)\<lparr>ttl := ttl ih, ip_cksum := ip_cksum ih\<rparr> = ih"
    by (simp_all add: fwd_hdr_def)
qed

definition known_net :: net where
  "known_net = empty_net\<lparr>n_entries := (n_entries empty_net)[0 := \<lparr> ae_ip4 = 0x0A000107, ae_mac = Mac 2 2 2 2 2 2,
     ae_added = 100, ae_valid = True \<rparr>]\<rparr>"

definition sample_iph :: iphdr where
  "sample_iph = zero_iph\<lparr>ihl := 5, version := 4, ttl := 64, tot_len := htons 36, saddr := htonl 0x0A000009, daddr := htonl 0x0A000107\<rparr>"

lemma known_net_simps [simp]: "n_rtable known_net = [sample_route 0 0]" "n_out known_net = []"
  "arpcache_lookup known_net 0x0A000107 = Some (Mac 2 2 2 2 2 2)"
  by (simp_all add: known_net_def arpcache_lookup_def) (simp add: numeral_eq_Suc)

lemma sample_default_route [simp]:
  "longest_prefix_match [sample_route 0 0] dst = Some (sample_route 0 0)"
  "get_next_hop (sample_route 0 0) dst = dst"
  by (simp_all add: longest_prefix_match_def sample_route_def get_next_hop_def)

lemma sample_iface_simps [simp]: "rt_iface (sample_route d k) = sample_iface"
  "if_mac sample_iface = Mac 0 0 0 0 0 1"
  by (simp_all add: sample_route_def sample_iface_def)

lemma sample_iph_simps [simp]: "ihl sample_iph = 5" "ttl sample_iph = 64"
  "tot_len sample_iph = htons 36" "saddr sample_iph = htonl 0x0A000009" "daddr sample_iph = htonl 0x0A000107"
  by (simp_all add: sample_iph_def)

theorem ip_forward_correct_witness:
  "\<exists>ih'. ip_forward_packet 0x0A000107 (frame zero_eth sample_iph [1, 2]) known_net =
      Some (known_net\<lparr>n_out := [(sample_iface, frame \<lparr> ether_dhost = Mac 2 2 2 2 2 2,
        ether_shost = Mac 0 0 0 0 0 1, ether_type = ether_type zero_eth \<rparr> ih' [1, 2])]\<rparr>) \<and> ttl ih' = 63"
  using ip_forward_correct[where ih = sample_iph and s = known_net and dst = "0x0A000107"
      and e = "sample_route 0 0" and m = "Mac 2 2 2 2 2 2" and eh = zero_eth and rest = "[1, 2]"]
  by auto

text \<open>Property C34. An ICMP error answers the sender of the offending packet: it is an IP packet to
  that source from the interface that routes back to it, its IP and ICMP checksums verify, and it
  quotes the offending IP header and the eight bytes after it.\<close>

theorem icmp_error_answers_sender:
  assumes "type \<noteq> ICMP_ECHOREPLY" "n = ip_hdr_size ih + 8" "14 + n \<le> length (frame eh ih rest)"
    and "longest_prefix_match (n_rtable s) (ntohl (saddr ih)) = Some e"
  shows "\<exists>oih h. icmp_send_packet (frame eh ih rest) type code s =
      ip_send_packet (frame zero_eth oih (icmp_enc h @ take n (drop 14 (frame eh ih rest))))
        (s\<lparr>n_rnd_pos := Suc (n_rnd_pos s)\<rparr>) \<and>
    ntohl (saddr oih) = if_ip (rt_iface e) \<and> daddr oih = saddr ih \<and> protocol oih = IPPROTO_ICMP \<and>
    ntohs (tot_len oih) = of_nat (28 + n) \<and> checksum (iphdr_enc oih) 0 = 0 \<and>
    icmp_type h = type \<and> icmp_code h = code \<and>
    checksum (icmp_enc h @ take n (drop 14 (frame eh ih rest))) 0 = 0"
proof -
  let ?d = "take n (drop 14 (frame eh ih rest))"
  let ?oih = "ip_header_of (of_nat (n_rnd s (n_rnd_pos s))) zero_iph (if_ip (rt_iface e))
    (ntohl (saddr ih)) (of_nat (28 + n)) IPPROTO_ICMP"
  let ?h = "icmp_sealed (icmp_error_hdr type code) ?d"
  have "n \<le> 68" using ip_hdr_size_le[of ih] by (simp add: assms(2))
  then have "checksum (icmp_enc ?h @ ?d) 0 = 0" by (intro icmp_sealed_verifies) simp
  moreover have "icmp_type ?h = type" "icmp_code ?h = code" by (simp_all add: icmp_error_hdr_def)
  moreover have "icmp_send_packet (frame eh ih rest) type code s =
      ip_send_packet (frame zero_eth ?oih (icmp_enc ?h @ ?d)) (s\<lparr>n_rnd_pos := Suc (n_rnd_pos s)\<rparr>)"
    using assms(3,4) icmp_send_error[OF assms(1) refl assms(2)] by (simp add: Let_def)
  moreover have "checksum (iphdr_enc ?oih) 0 = 0" by (rule ip_header_of_checksum)
  moreover have "ntohl (saddr ?oih) = if_ip (rt_iface e)" "daddr ?oih = saddr ih"
    "protocol ?oih = IPPROTO_ICMP" "ntohs (tot_len ?oih) = of_nat (28 + n)"
    by (simp_all add: ip_header_of_def Let_def)
  ultimately show ?thesis by blast
qed

lemma sample_hdr_size [simp]: "ip_hdr_size sample_iph = 20"
  by (simp add: ip_hdr_size_def)

theorem icmp_error_answers_sender_witness:
  "\<exists>oih h. icmp_send_packet (frame zero_eth sample_iph (replicate 8 7)) ICMP_TIME_EXCEEDED ICMP_EXC_TTL known_net =
      ip_send_packet (frame zero_eth oih (icmp_enc h @ take 28 (drop 14 (frame zero_eth sample_iph (replicate 8 7)))))
        (known_net\<lparr>n_rnd_pos := Suc (n_rnd_pos known_net)\<rparr>) \<and> daddr oih = htonl 0x0A000009"
  using icmp_error_answers_sender[of ICMP_TIME_EXCEEDED 28 sample_iph zero_eth "replicate 8 7" known_net
      "sample_route 0 0" ICMP_EXC_TTL]
  by (auto simp: icmp_consts)

text \<open>An error about a packet with less than eight bytes behind its IP header reads
  beyond the packet, in spite of the comment that makes sure of them; otherwise the error is sent.\<close>

theorem icmp_error_overreads_short_packet:
  assumes "type \<noteq> ICMP_ECHOREPLY"
  shows "icmp_send_packet (frame eh ih rest) type code s = None \<longleftrightarrow>
    length (frame eh ih rest) < 14 + ip_hdr_size ih + 8"
proof -
  have "ip_send_packet (frame a b (icmp_enc c @ d)) u \<noteq> None" for a b c d u
    using ip_send_total[of "frame a b (icmp_enc c @ d)" u] by auto
  then show ?thesis
    unfolding icmp_send_error[OF assms refl refl] by (auto simp: Let_def split: option.splits)
qed

theorem icmp_error_overreads_short_packet_witness:
  "icmp_send_packet (frame zero_eth sample_iph [1, 2]) ICMP_TIME_EXCEEDED ICMP_EXC_TTL known_net = None"
  using icmp_error_overreads_short_packet[of ICMP_TIME_EXCEEDED zero_eth sample_iph "[1, 2]" ICMP_EXC_TTL known_net]
  by (simp add: icmp_consts)

text \<open>An echo request whose IP length matches the frame is answered by an echo reply
  from the pinged address to the sender that carries the same identifier, sequence number and data,
  with IP and ICMP checksums that verify.\<close>

theorem icmp_echo_reply_mirrors:
  assumes "ihl ih = 5" "unat (ntohs (tot_len ih)) = 28 + length d"
  shows "\<exists>oih h'. icmp_send_packet (frame eh ih (icmp_enc h @ d)) ICMP_ECHOREPLY 0 s =
      ip_send_packet (frame zero_eth oih (icmp_enc h' @ d)) (s\<lparr>n_rnd_pos := Suc (n_rnd_pos s)\<rparr>) \<and>
    saddr oih = daddr ih \<and> daddr oih = saddr ih \<and> tot_len oih = tot_len ih \<and>
    checksum (iphdr_enc oih) 0 = 0 \<and> icmp_type h' = ICMP_ECHOREPLY \<and> icmp_code h' = 0 \<and>
    icmp_identifier h' = icmp_identifier h \<and> icmp_sequence h' = icmp_sequence h \<and>
    checksum (icmp_enc h' @ d) 0 = 0"
proof -
  let ?oih = "ip_header_of (of_nat (n_rnd s (n_rnd_pos s))) zero_iph (ntohl (daddr ih))
    (ntohl (saddr ih)) (of_nat (28 + length d)) IPPROTO_ICMP"
  let ?h = "icmp_sealed (icmp_reply_hdr h 0) d"
  have "unat (ntohs (tot_len ih)) < 2 ^ LENGTH(16)" by (rule unsigned_less)
  then have "length d \<le> 65527" using assms(2) by simp
  then have "checksum (icmp_enc ?h @ d) 0 = 0" by (rule icmp_sealed_verifies)
  moreover have "icmp_send_packet (frame eh ih (icmp_enc h @ d)) ICMP_ECHOREPLY 0 s =
      ip_send_packet (frame zero_eth ?oih (icmp_enc ?h @ d)) (s\<lparr>n_rnd_pos := Suc (n_rnd_pos s)\<rparr>)"
    by (simp add: icmp_send_reply[OF assms(1) refl] Let_def assms(2))
  moreover have "checksum (iphdr_enc ?oih) 0 = 0" by (rule ip_header_of_checksum)
  moreover have "ntohs (tot_len ih) = of_nat (28 + length d)"
    using arg_cong[OF assms(2), of "of_nat :: nat \<Rightarrow> u16"] by simp
  then have "tot_len ih = htons (of_nat (28 + length d))" by (metis htons_htons)
  then have "saddr ?oih = daddr ih" "daddr ?oih = saddr ih" "tot_len ?oih = tot_len ih"
    by (simp_all add: ip_header_of_def Let_def)
  ultimately show ?thesis
    by (intro exI[of _ ?oih] exI[of _ ?h]) (simp add: icmp_reply_hdr_def)
qed

theorem icmp_echo_reply_mirrors_witness:
  "\<exists>oih h'. icmp_send_packet (frame zero_eth sample_iph (icmp_enc (icmp_error_hdr 8 0) @ replicate 8 5)) ICMP_ECHOREPLY 0 known_net =
      ip_send_packet (frame zero_eth oih (icmp_enc h' @ replicate 8 5)) (known_net\<lparr>n_rnd_pos := Suc (n_rnd_pos known_net)\<rparr>) \<and>
    daddr oih = htonl 0x0A000009"
  using icmp_echo_reply_mirrors[of sample_iph "replicate 8 5" zero_eth "icmp_error_hdr 8 0" known_net] by auto

text \<open>The reply trusts the length field of the request: an echo request that claims
  more bytes than the frame holds, or less than its two headers, makes the reply copy out of bounds.\<close>

theorem icmp_echo_forged_length:
  assumes "ihl ih = 5"
  shows "icmp_send_packet (frame eh ih (icmp_enc h @ d)) ICMP_ECHOREPLY code s = None \<longleftrightarrow>
    unat (ntohs (tot_len ih)) < 28 \<or> 28 + length d < unat (ntohs (tot_len ih))"
proof -
  have f: "(ip_send_packet (frame a b (icmp_enc c @ e)) u = None) = False" for a b c e u
    using ip_send_total[of "frame a b (icmp_enc c @ e)" u] by auto
  show ?thesis unfolding icmp_send_reply[OF assms refl] Let_def by (auto simp: f)
qed

theorem icmp_echo_forged_length_witness:
  "icmp_send_packet (frame zero_eth sample_iph (icmp_enc (icmp_error_hdr 8 0) @ [1])) ICMP_ECHOREPLY 0 known_net = None"
  using icmp_echo_forged_length[of sample_iph zero_eth "icmp_error_hdr 8 0" "[1]" 0 known_net] by simp

end
