(* ===== verification/Tcp_Sock.thy ===== *)
theory Tcp_Sock
  imports Ip_Stack Ring_Buffer Hash Synch_Wait Linked_List
begin

text \<open>
  The sockets of prj14 (\<open>include/tcp_sock.h\<close>, the table half of \<open>tcp_sock.c\<close>, the timer list of
  \<open>tcp_timer.c\<close>): socket structures in a store indexed by address, the three hash tables as
  buckets of addresses in list order, allocation and reference counts, lookup, ports, listening and
  the accept queue. An embedded \<open>list_head\<close> is \<open>Zeroed\<close> after \<open>memset\<close>, \<open>Linked\<close> while on its list
  and \<open>Stale\<close> after \<open>list_delete_entry\<close>, which does not reset it; \<open>list_empty\<close> of a zeroed or stale
  node is false. Deleting such a node through its dead pointers, and linking a node that is on a
  list already, is undefined here (\<open>Linked_List\<close> shows
  what the second deletion of a node does to its former neighbours).
\<close>

section \<open>State\<close>

record send_buffer =
  sb_packet :: bytes
  sb_seq_end :: u32
  sb_times :: int
  sb_timeout :: int
  sb_retrans :: int

record ofo_buffer =
  ofo_seq :: u32
  ofo_seq_end :: u32
  ofo_payload :: bytes

datatype link = Zeroed | Linked | Stale

datatype queue_link = NoQueue | OnListen addr | OnAccept addr

datatype cgt = OPEN | RCVR | LOSS

text \<open>The out-of-order queue. \<open>write_ofo_buffer\<close> inserts in front of the first entry through a copy of
  the list head on its stack, so the queue's own head never learns of the new entry and the first
  entry's \<open>prev\<close> leaves the list: the links are then \<open>OfoBroken\<close>. Deleting the first entry of a
  broken queue leaves the head pointing to freed memory: \<open>OfoDangling\<close>.\<close>

datatype ofo_link = OfoOk | OfoBroken | OfoDangling

record tcp_sock =
  sk_sip :: u32
  sk_sport :: u16
  sk_dip :: u32
  sk_dport :: u16
  sk_parent :: "addr option"
  sk_ref_cnt :: int
  sk_hash_link :: link
  sk_bind_link :: link
  sk_listen_queue :: "addr list"
  sk_accept_queue :: "addr list"
  sk_accept_backlog :: int
  sk_backlog :: int
  sk_queue :: queue_link
  sk_timewait :: int
  sk_retrans_timeout :: int
  sk_wait_connect :: synch_wait
  sk_wait_accept :: synch_wait
  sk_wait_recv :: synch_wait
  sk_wait_read :: synch_wait
  sk_wait_send :: synch_wait
  sk_rcv_buf :: ring_buffer
  sk_send_buf :: "send_buffer list"
  sk_ofo :: "ofo_buffer list"
  sk_ofo_link :: ofo_link
  sk_inflight :: int
  sk_state :: tcp_state
  sk_iss :: u32
  sk_snd_una :: u32
  sk_snd_nxt :: u32
  sk_rcv_nxt :: u32
  sk_recovery_point :: u32
  sk_snd_wnd :: u32
  sk_adv_wnd :: u16
  sk_rcv_wnd :: u16
  sk_cwnd :: u32
  sk_cgt :: cgt
  sk_rep_ack :: int
  sk_cwnd_unit :: int
  sk_ssthresh :: u32

datatype timer = TimeWait addr | Retrans addr

record tcp =
  t_net :: net
  t_socks :: "addr \<Rightarrow> tcp_sock option"
  t_next :: addr
  t_est :: "nat \<Rightarrow> addr list"
  t_lis :: "nat \<Rightarrow> addr list"
  t_bind :: "nat \<Rightarrow> addr list"
  t_timers :: "timer list"

definition MSS :: nat where "MSS = 1514 - (14 + 20 + 20)"
definition TCP_DEFAULT_WINDOW :: nat where "TCP_DEFAULT_WINDOW = 65535"
definition TCP_TIMER_SCAN_INTERVAL :: int where "TCP_TIMER_SCAN_INTERVAL = 10000"
definition TCP_TIMEWAIT_TIMEOUT :: int where "TCP_TIMEWAIT_TIMEOUT = 2 * 1000000"
definition TCP_RETRANS_INTERVAL_INITIAL :: int where "TCP_RETRANS_INTERVAL_INITIAL = 200000"
definition PORT_MIN :: u16 where "PORT_MIN = 12345"
definition PORT_MAX :: u16 where "PORT_MAX = 23456"

lemmas tcp_consts = MSS_def TCP_DEFAULT_WINDOW_def TCP_TIMER_SCAN_INTERVAL_def
  TCP_TIMEWAIT_TIMEOUT_def TCP_RETRANS_INTERVAL_INITIAL_def PORT_MIN_def PORT_MAX_def

definition put_sk :: "addr \<Rightarrow> tcp_sock \<Rightarrow> tcp \<Rightarrow> tcp" where
  "put_sk i k s = s\<lparr>t_socks := (t_socks s)(i \<mapsto> k)\<rparr>"

text \<open>Reading, then updating, the socket behind a pointer.\<close>

definition upd_sk :: "addr \<Rightarrow> (tcp_sock \<Rightarrow> tcp_sock) \<Rightarrow> tcp \<Rightarrow> tcp option" where
  "upd_sk i f s = do { k \<leftarrow> t_socks s i; Some (put_sk i (f k) s) }"

section \<open>Start, allocation, release\<close>

definition init_tcp_stack :: "tcp \<Rightarrow> tcp" where
  "init_tcp_stack s = s\<lparr>t_est := (\<lambda>_. []), t_lis := (\<lambda>_. []), t_bind := (\<lambda>_. []), t_timers := []\<rparr>"

definition tcp_set_state :: "addr \<Rightarrow> tcp_state \<Rightarrow> tcp \<Rightarrow> tcp option" where
  "tcp_set_state i st s = upd_sk i (\<lambda>k. k\<lparr>sk_state := st\<rparr>) s"

definition tcp_set_timewait_timer :: "addr \<Rightarrow> tcp \<Rightarrow> tcp option" where
  "tcp_set_timewait_timer i s = do {
     s \<leftarrow> upd_sk i (\<lambda>k. k\<lparr>sk_timewait := TCP_TIMEWAIT_TIMEOUT\<rparr>) s;
     if TimeWait i \<in> set (t_timers s) then None
     else upd_sk i (\<lambda>k. k\<lparr>sk_ref_cnt := sk_ref_cnt k + 1\<rparr>) (s\<lparr>t_timers := t_timers s @ [TimeWait i]\<rparr>) }"

definition tcp_set_retrans_timer :: "addr \<Rightarrow> tcp \<Rightarrow> tcp option" where
  "tcp_set_retrans_timer i s = do {
     s \<leftarrow> upd_sk i (\<lambda>k. k\<lparr>sk_retrans_timeout := TCP_RETRANS_INTERVAL_INITIAL\<rparr>) s;
     if Retrans i \<in> set (t_timers s) then Some s
     else upd_sk i (\<lambda>k. k\<lparr>sk_ref_cnt := sk_ref_cnt k + 1\<rparr>) (s\<lparr>t_timers := t_timers s @ [Retrans i]\<rparr>) }"

definition tcp_unset_retrans_timer :: "addr \<Rightarrow> tcp \<Rightarrow> tcp option" where
  "tcp_unset_retrans_timer i s =
     (if Retrans i \<in> set (t_timers s)
      then upd_sk i (\<lambda>k. k\<lparr>sk_ref_cnt := sk_ref_cnt k - 1\<rparr>) (s\<lparr>t_timers := remove1 (Retrans i) (t_timers s)\<rparr>)
      else None)"

text \<open>The zeroed structure with the fields \<open>alloc_tcp_sock\<close> sets.\<close>

definition fresh_sock :: tcp_sock where
  "fresh_sock = \<lparr> sk_sip = 0, sk_sport = 0, sk_dip = 0, sk_dport = 0, sk_parent = None, sk_ref_cnt = 0,
     sk_hash_link = Zeroed, sk_bind_link = Zeroed, sk_listen_queue = [], sk_accept_queue = [],
     sk_accept_backlog = 0, sk_backlog = 0, sk_queue = NoQueue, sk_timewait = 0, sk_retrans_timeout = 0,
     sk_wait_connect = wait_init, sk_wait_accept = wait_init, sk_wait_recv = wait_init,
     sk_wait_read = wait_init, sk_wait_send = wait_init,
     sk_rcv_buf = alloc_ring_buffer (int TCP_DEFAULT_WINDOW), sk_send_buf = [], sk_ofo = [], sk_ofo_link = OfoOk,
     sk_inflight = 0, sk_state = TCP_CLOSED, sk_iss = 0, sk_snd_una = 0, sk_snd_nxt = 0, sk_rcv_nxt = 0,
     sk_recovery_point = 0, sk_snd_wnd = 0, sk_adv_wnd = 0, sk_rcv_wnd = of_nat TCP_DEFAULT_WINDOW,
     sk_cwnd = 1, sk_cgt = OPEN, sk_rep_ack = 0, sk_cwnd_unit = 0,
     sk_ssthresh = of_nat (TCP_DEFAULT_WINDOW div MSS) \<rparr>"

definition alloc_tcp_sock :: "tcp \<Rightarrow> (addr \<times> tcp) option" where
  "alloc_tcp_sock s =
     (let i = t_next s; s = put_sk i fresh_sock (s\<lparr>t_next := Suc i\<rparr>)
      in do { s \<leftarrow> tcp_set_retrans_timer i s; Some (i, s) })"

definition free_tcp_sock :: "addr \<Rightarrow> tcp \<Rightarrow> tcp option" where
  "free_tcp_sock i s = do {
     s \<leftarrow> upd_sk i (\<lambda>k. k\<lparr>sk_ref_cnt := sk_ref_cnt k - 1\<rparr>) s;
     k \<leftarrow> t_socks s i;
     if sk_ref_cnt k \<le> 0 then do {
       s \<leftarrow> tcp_unset_retrans_timer i s;
       Some (s\<lparr>t_socks := (t_socks s)(i := None)\<rparr>) }
     else Some s }"

section \<open>Lookup\<close>

text \<open>\<open>list_for_each_entry\<close> over a bucket with an early return; following the chain to a released
  socket is undefined.\<close>

fun find_sock :: "(tcp_sock \<Rightarrow> bool) \<Rightarrow> addr list \<Rightarrow> tcp \<Rightarrow> addr option option" where
  "find_sock P [] s = Some None"
| "find_sock P (i # is) s = do { k \<leftarrow> t_socks s i; if P k then Some (Some i) else find_sock P is s }"

definition same_tuple :: "u32 \<Rightarrow> u32 \<Rightarrow> u16 \<Rightarrow> u16 \<Rightarrow> tcp_sock \<Rightarrow> bool" where
  "same_tuple sip dip sport dport k \<longleftrightarrow>
     sip = sk_sip k \<and> dip = sk_dip k \<and> sport = sk_sport k \<and> dport = sk_dport k"

definition tcp_sock_lookup_established :: "u32 \<Rightarrow> u32 \<Rightarrow> u16 \<Rightarrow> u16 \<Rightarrow> tcp \<Rightarrow> addr option option" where
  "tcp_sock_lookup_established sip dip sport dport s =
     find_sock (same_tuple sip dip sport dport) (t_est s (tcp_hash_function sip dip sport dport)) s"

definition tcp_sock_lookup_listen :: "u16 \<Rightarrow> tcp \<Rightarrow> addr option option" where
  "tcp_sock_lookup_listen sport s =
     find_sock (\<lambda>k. sport = sk_sport k) (t_lis s (tcp_hash_function 0 0 sport 0)) s"

definition tcp_sock_lookup :: "tcp_cb \<Rightarrow> tcp \<Rightarrow> addr option option" where
  "tcp_sock_lookup cb s = do {
     let sip = cb_daddr cb;
     let dip = cb_saddr cb;
     let sport = cb_dport cb;
     let dport = cb_sport cb;
     r \<leftarrow> tcp_sock_lookup_established sip dip sport dport s;
     (case r of Some i \<Rightarrow> Some (Some i) | None \<Rightarrow> tcp_sock_lookup_listen sport s) }"

section \<open>Hash tables\<close>

definition tcp_bind_hash :: "addr \<Rightarrow> tcp \<Rightarrow> tcp option" where
  "tcp_bind_hash i s = do {
     k \<leftarrow> t_socks s i;
     let h = tcp_hash_function 0 0 (sk_sport k) 0;
     if sk_bind_link k = Linked then None
     else Some (put_sk i (k\<lparr>sk_bind_link := Linked, sk_ref_cnt := sk_ref_cnt k + 1\<rparr>)
       (s\<lparr>t_bind := (t_bind s)(h := i # t_bind s h)\<rparr>)) }"

definition tcp_bind_unhash :: "addr \<Rightarrow> tcp \<Rightarrow> tcp option" where
  "tcp_bind_unhash i s = do {
     k \<leftarrow> t_socks s i;
     if sk_bind_link k = Linked then do {
       let h = tcp_hash_function 0 0 (sk_sport k) 0;
       free_tcp_sock i (put_sk i (k\<lparr>sk_bind_link := Stale\<rparr>)
         (s\<lparr>t_bind := (t_bind s)(h := remove1 i (t_bind s h))\<rparr>)) }
     else None }"

definition tcp_port_in_use :: "u16 \<Rightarrow> tcp \<Rightarrow> bool option" where
  "tcp_port_in_use port s = do {
     r \<leftarrow> find_sock (\<lambda>k. sk_sport k = port) (t_bind s (tcp_hash_function 0 0 port 0)) s;
     Some (r \<noteq> None) }"

function get_port_from :: "u16 \<Rightarrow> tcp \<Rightarrow> u16 option" where
  "get_port_from port s =
     (if port < PORT_MAX then do {
        used \<leftarrow> tcp_port_in_use port s;
        if \<not> used then Some port else get_port_from (port + 1) s }
      else Some 0)"
  by pat_completeness auto
termination
proof (relation "measure (\<lambda>(port, s). 65536 - unat port)")
  fix port :: u16 and s :: tcp and used
  assume "port < PORT_MAX"
  then have "unat port < 23456" by (simp add: PORT_MAX_def word_less_nat_alt)
  then show "((port + 1, s), (port, s)) \<in> measure (\<lambda>(port, s). 65536 - unat port)"
    by (simp add: unat_word_ariths)
qed simp

declare get_port_from.simps [simp del]

definition tcp_get_port :: "tcp \<Rightarrow> u16 option" where
  "tcp_get_port s = get_port_from PORT_MIN s"

definition tcp_sock_set_sport :: "addr \<Rightarrow> u16 \<Rightarrow> tcp \<Rightarrow> (int \<times> tcp) option" where
  "tcp_sock_set_sport i port s = do {
     used \<leftarrow> (if port \<noteq> 0 then tcp_port_in_use port s else Some False);
     if used then Some (-1, s) else do {
       port \<leftarrow> (if port \<noteq> 0 then Some port else tcp_get_port s);
       if port = 0 then Some (-1, s) else do {
         s \<leftarrow> upd_sk i (\<lambda>k. k\<lparr>sk_sport := port\<rparr>) s;
         s \<leftarrow> tcp_bind_hash i s;
         Some (0, s) } } }"

definition tcp_hash :: "addr \<Rightarrow> tcp \<Rightarrow> (int \<times> tcp) option" where
  "tcp_hash i s = do {
     k \<leftarrow> t_socks s i;
     let linked = k\<lparr>sk_hash_link := Linked, sk_ref_cnt := sk_ref_cnt k + 1\<rparr>;
     if sk_state k = TCP_CLOSED then Some (-1, s)
     else if sk_state k = TCP_LISTEN then do {
       let h = tcp_hash_function 0 0 (sk_sport k) 0;
       if sk_hash_link k = Linked then None else Some (0, put_sk i linked (s\<lparr>t_lis := (t_lis s)(h := i # t_lis s h)\<rparr>)) }
     else do {
       let h = tcp_hash_function (sk_sip k) (sk_dip k) (sk_sport k) (sk_dport k);
       r \<leftarrow> find_sock (same_tuple (sk_sip k) (sk_dip k) (sk_sport k) (sk_dport k)) (t_est s h) s;
       if r \<noteq> None then Some (-1, s)
       else if sk_hash_link k = Linked then None
       else Some (0, put_sk i linked (s\<lparr>t_est := (t_est s)(h := i # t_est s h)\<rparr>)) } }"

text \<open>The node is on exactly one of the two tables.\<close>

definition tcp_unhash :: "addr \<Rightarrow> tcp \<Rightarrow> tcp option" where
  "tcp_unhash i s = do {
     k \<leftarrow> t_socks s i;
     if sk_hash_link k = Linked then do {
       let h = tcp_hash_function (sk_sip k) (sk_dip k) (sk_sport k) (sk_dport k);
       let hl = tcp_hash_function 0 0 (sk_sport k) 0;
       let s = put_sk i (k\<lparr>sk_hash_link := Stale\<rparr>) (if i \<in> set (t_est s h)
         then s\<lparr>t_est := (t_est s)(h := remove1 i (t_est s h))\<rparr>
         else s\<lparr>t_lis := (t_lis s)(hl := remove1 i (t_lis s hl))\<rparr>);
       free_tcp_sock i s }
     else None }"

section \<open>Binding, listening, accepting\<close>

definition tcp_sock_bind :: "addr \<Rightarrow> u16 \<Rightarrow> tcp \<Rightarrow> (int \<times> tcp) option" where
  "tcp_sock_bind i nport s = tcp_sock_set_sport i (ntohs nport) s"

definition tcp_sock_listen :: "addr \<Rightarrow> int \<Rightarrow> tcp \<Rightarrow> (int \<times> tcp) option" where
  "tcp_sock_listen i backlog s = do {
     s \<leftarrow> upd_sk i (\<lambda>k. k\<lparr>sk_backlog := backlog\<rparr>) s;
     s \<leftarrow> tcp_set_state i TCP_LISTEN s;
     tcp_hash i s }"

definition tcp_sock_accept_queue_full :: "tcp_sock \<Rightarrow> bool" where
  "tcp_sock_accept_queue_full k \<longleftrightarrow> sk_accept_backlog k \<ge> sk_backlog k"

text \<open>\<open>list_delete_entry (&tsk->list)\<close>, wherever the node is.\<close>

definition leave_queue :: "addr \<Rightarrow> tcp \<Rightarrow> tcp option" where
  "leave_queue i s = do {
     k \<leftarrow> t_socks s i;
     (case sk_queue k of
        NoQueue \<Rightarrow> Some s
      | OnListen j \<Rightarrow> upd_sk j (\<lambda>k. k\<lparr>sk_listen_queue := remove1 i (sk_listen_queue k)\<rparr>) s
      | OnAccept j \<Rightarrow> upd_sk j (\<lambda>k. k\<lparr>sk_accept_queue := remove1 i (sk_accept_queue k)\<rparr>) s) }"

definition tcp_sock_accept_enqueue :: "addr \<Rightarrow> tcp \<Rightarrow> tcp option" where
  "tcp_sock_accept_enqueue i s = do {
     s \<leftarrow> leave_queue i s;
     k \<leftarrow> t_socks s i;
     p \<leftarrow> sk_parent k;
     s \<leftarrow> upd_sk i (\<lambda>k. k\<lparr>sk_queue := OnAccept p\<rparr>) s;
     upd_sk p (\<lambda>k. k\<lparr>sk_accept_queue := sk_accept_queue k @ [i],
       sk_accept_backlog := sk_accept_backlog k + 1\<rparr>) s }"

definition tcp_sock_accept_dequeue :: "addr \<Rightarrow> tcp \<Rightarrow> (addr \<times> tcp) option" where
  "tcp_sock_accept_dequeue i s = do {
     k \<leftarrow> t_socks s i;
     (case sk_accept_queue k of
        [] \<Rightarrow> None
      | j # rest \<Rightarrow> do {
          s \<leftarrow> upd_sk i (\<lambda>k. k\<lparr>sk_accept_queue := rest, sk_accept_backlog := sk_accept_backlog k - 1\<rparr>) s;
          s \<leftarrow> upd_sk j (\<lambda>k. k\<lparr>sk_queue := NoQueue\<rparr>) s;
          Some (j, s) }) }"

end
