(* ===== verification/Tcp_Out.thy ===== *)
theory Tcp_Out
  imports Tcp_Sock
begin

text \<open>
  \<open>tcp_out.c\<close> of prj14: building segments, the queue of unacknowledged packets, data, control and
  reset segments. A segment is built in the packet itself, then checksummed and handed to
  \<open>ip_send_packet\<close>; a copy waits in \<open>sk_send_buf\<close> until it is acknowledged.
\<close>

text \<open>Running a network-layer operation inside the TCP state.\<close>

definition on_net :: "(net \<Rightarrow> net option) \<Rightarrow> tcp \<Rightarrow> tcp option" where
  "on_net f s = do { n \<leftarrow> f (t_net s); Some (s\<lparr>t_net := n\<rparr>) }"

definition put_sendbuf :: "addr \<Rightarrow> bytes \<Rightarrow> tcp \<Rightarrow> tcp option" where
  "put_sendbuf i p s =
     upd_sk i (\<lambda>k. k\<lparr>sk_send_buf := sk_send_buf k @ [\<lparr> sb_packet = p, sb_seq_end = sk_snd_nxt k,
         sb_times = 1, sb_timeout = TCP_RETRANS_INTERVAL_INITIAL, sb_retrans = 0 \<rparr>],
       sk_inflight := sk_inflight k + 1\<rparr>) s"

text \<open>\<open>tcp_pop_sendbuf\<close> of the first packet of the queue, the only one the callers pop.\<close>

definition tcp_pop_sendbuf :: "tcp_sock \<Rightarrow> tcp_sock" where
  "tcp_pop_sendbuf k = k\<lparr>sk_send_buf := tl (sk_send_buf k), sk_inflight := sk_inflight k - 1\<rparr>"

definition tcp_init_hdr :: "bytes \<Rightarrow> nat \<Rightarrow> u16 \<Rightarrow> u16 \<Rightarrow> u32 \<Rightarrow> u32 \<Rightarrow> u8 \<Rightarrow> u16 \<Rightarrow> bytes option" where
  "tcp_init_hdr p off sport dport seq ack flags rwnd =
     put_tcp p off \<lparr> th_sport = htons sport, th_dport = htons dport, th_seq = htonl seq,
       th_ack = htonl ack, th_x2 = 0, th_off = 5, th_flags = flags, th_rwnd = htons rwnd,
       th_cksum = 0, th_urp = 0 \<rparr>"

text \<open>\<open>tcp->checksum = tcp_checksum (ip, tcp)\<close>.\<close>

definition tcp_seal :: "bytes \<Rightarrow> nat \<Rightarrow> nat \<Rightarrow> bytes option" where
  "tcp_seal p ipoff off = do {
     ck \<leftarrow> tcp_checksum p ipoff off;
     h \<leftarrow> get_tcp p off;
     put_tcp p off (h\<lparr>th_cksum := ck\<rparr>) }"

definition tcp_send_packet :: "addr \<Rightarrow> bytes \<Rightarrow> tcp \<Rightarrow> tcp option" where
  "tcp_send_packet i p s = do {
     k \<leftarrow> t_socks s i;
     let ipoff = ETHER_HDR_SIZE;
     let off = ETHER_HDR_SIZE + IP_BASE_HDR_SIZE;
     let ip_tot_len = int (length p) - int ETHER_HDR_SIZE;
     let tcp_data_len = ip_tot_len - int IP_BASE_HDR_SIZE - int TCP_BASE_HDR_SIZE;
     p \<leftarrow> tcp_init_hdr p off (sk_sport k) (sk_dport k) (sk_snd_nxt k) (sk_rcv_nxt k) TCP_PSH (sk_rcv_wnd k);
     let (r, n) = c_rand (t_net s);
     let s = s\<lparr>t_net := n\<rparr>;
     p \<leftarrow> ip_init_hdr (of_nat r) p ipoff (sk_sip k) (sk_dip k) (of_int ip_tot_len) IPPROTO_TCP;
     p \<leftarrow> tcp_seal p ipoff off;
     ck \<leftarrow> ip_checksum p ipoff;
     ip \<leftarrow> get_ip p ipoff;
     p \<leftarrow> put_ip p ipoff (ip\<lparr>ip_cksum := ck\<rparr>);
     let s = put_sk i (k\<lparr>sk_snd_nxt := sk_snd_nxt k + to_u32 tcp_data_len,
       sk_snd_wnd := sk_snd_wnd k - to_u32 tcp_data_len\<rparr>) s;
     s \<leftarrow> put_sendbuf i p s;
     on_net (ip_send_packet p) s }"

definition tcp_send_control_packet :: "addr \<Rightarrow> u8 \<Rightarrow> tcp \<Rightarrow> tcp option" where
  "tcp_send_control_packet i flags s = do {
     k \<leftarrow> t_socks s i;
     let ipoff = ETHER_HDR_SIZE;
     let off = ETHER_HDR_SIZE + IP_BASE_HDR_SIZE;
     let p = replicate (ETHER_HDR_SIZE + IP_BASE_HDR_SIZE + TCP_BASE_HDR_SIZE) 0;
     let (r, n) = c_rand (t_net s);
     let s = s\<lparr>t_net := n\<rparr>;
     p \<leftarrow> ip_init_hdr (of_nat r) p ipoff (sk_sip k) (sk_dip k)
       (of_nat (IP_BASE_HDR_SIZE + TCP_BASE_HDR_SIZE)) IPPROTO_TCP;
     p \<leftarrow> tcp_init_hdr p off (sk_sport k) (sk_dport k) (sk_snd_nxt k) (sk_rcv_nxt k) flags (sk_rcv_wnd k);
     p \<leftarrow> tcp_seal p ipoff off;
     s \<leftarrow> (if flags AND (TCP_SYN OR TCP_FIN) \<noteq> 0
          then put_sendbuf i p (put_sk i (k\<lparr>sk_snd_nxt := sk_snd_nxt k + 1\<rparr>) s)
          else Some s);
     on_net (ip_send_packet p) s }"

definition tcp_send_reset :: "tcp_cb \<Rightarrow> tcp \<Rightarrow> tcp option" where
  "tcp_send_reset cb s = do {
     let ipoff = ETHER_HDR_SIZE;
     let off = ETHER_HDR_SIZE + IP_BASE_HDR_SIZE;
     let p = replicate (ETHER_HDR_SIZE + IP_BASE_HDR_SIZE + TCP_BASE_HDR_SIZE) 0;
     let (r, n) = c_rand (t_net s);
     let s = s\<lparr>t_net := n\<rparr>;
     p \<leftarrow> ip_init_hdr (of_nat r) p ipoff (cb_daddr cb) (cb_saddr cb)
       (of_nat (IP_BASE_HDR_SIZE + TCP_BASE_HDR_SIZE)) IPPROTO_TCP;
     p \<leftarrow> tcp_init_hdr p off (cb_dport cb) (cb_sport cb) 0 (cb_seq_end cb) (TCP_RST OR TCP_ACK) 0;
     p \<leftarrow> tcp_seal p ipoff off;
     on_net (ip_send_packet p) s }"

section \<open>Segments as frames\<close>

lemma ip_header_of_any: "ip_header_of r h sip dip len proto = ip_header_of r h' sip dip len proto"
  by (cases h; cases h') (simp add: ip_header_of_def Let_def)

lemma tcp_frame_ops [simp]:
  "get_tcp (frame eh ih (tcp_enc th @ d)) 34 = Some th"
  "length x = 20 \<Longrightarrow> put_tcp (frame eh ih (x @ d)) 34 th' = Some (frame eh ih (tcp_enc th' @ d))"
  using tcp.get_append[of 34 "ether_enc eh @ iphdr_enc ih" th d]
    tcp.put_raw[of 34 "ether_enc eh @ iphdr_enc ih" x d th']
  by (simp_all add: frame_def hdr_sizes)

definition pseudo_sum :: "iphdr \<Rightarrow> u16 \<Rightarrow> u32" where
  "pseudo_sum ih len = saddr ih + daddr ih + ucast (htons (ucast (protocol ih))) + ucast (htons len)"

text \<open>The checksum of a segment with header \<open>th\<close> and data \<open>d\<close>.\<close>

definition seg_cksum :: "iphdr \<Rightarrow> tcphdr \<Rightarrow> bytes \<Rightarrow> u16" where
  "seg_cksum ih th d = checksum (tcp_enc (th\<lparr>th_cksum := 0\<rparr>) @ d) (pseudo_sum ih (of_nat (20 + length d)))"

lemma unat_small16: "n < 65536 \<Longrightarrow> unat (of_nat n :: u16) = n"
  by (simp add: unsigned_of_nat take_bit_nat_eq_self)

lemma tcp_checksum_frame:
  assumes "ihl ih = 5" "ntohs (tot_len ih) = of_nat (40 + length d)" "length d \<le> 65495"
  shows "tcp_checksum (frame eh ih (tcp_enc th @ d)) ETHER_HDR_SIZE 34 = Some (seg_cksum ih th d)"
proof -
  let ?len = "ntohs (tot_len ih) - of_nat (ip_hdr_size ih)"
  have len: "?len = of_nat (20 + length d)" using assms by (simp add: ip_hdr_size_def)
  have u: "unat (of_nat (20 + length d) :: u16) = 20 + length d" using assms(3) by (intro unat_small16) simp
  have ld: "ld_bytes (frame eh ih (tcp_enc t @ d)) 34 (20 + length d) = Some (tcp_enc t @ d)" for t
    by (simp add: ld_bytes_def) (simp add: frame_def)
  show ?thesis unfolding tcp_checksum_def
    by (simp only: frame_ops tcp_frame_ops Let_def len u ld bind.bind_lunit length_tcp_enc seg_cksum_def pseudo_sum_def)
qed

lemma seg_cksum_own [simp]: "seg_cksum ih (th\<lparr>th_cksum := c\<rparr>) d = seg_cksum ih th d"
  by (simp add: seg_cksum_def)

definition sealed :: "iphdr \<Rightarrow> tcphdr \<Rightarrow> bytes \<Rightarrow> tcphdr" where
  "sealed ih th d = th\<lparr>th_cksum := seg_cksum ih th d\<rparr>"

lemma tcp_seal_frame:
  assumes "ihl ih = 5" "ntohs (tot_len ih) = of_nat (40 + length d)" "length d \<le> 65495"
  shows "tcp_seal (frame eh ih (tcp_enc th @ d)) ETHER_HDR_SIZE 34 = Some (frame eh ih (tcp_enc (sealed ih th d) @ d))"
  by (simp add: tcp_seal_def tcp_checksum_frame[OF assms] sealed_def)

text \<open>The segment a socket builds.\<close>

definition seg_ip :: "u16 \<Rightarrow> u32 \<Rightarrow> u32 \<Rightarrow> bytes \<Rightarrow> iphdr" where
  "seg_ip r sip dip d = ip_header_of r zero_iph sip dip (of_nat (40 + length d)) IPPROTO_TCP"

definition seg_hdr :: "u16 \<Rightarrow> u16 \<Rightarrow> u32 \<Rightarrow> u32 \<Rightarrow> u8 \<Rightarrow> u16 \<Rightarrow> tcphdr" where
  "seg_hdr sport dport seq ack flags rwnd = \<lparr> th_sport = htons sport, th_dport = htons dport,
     th_seq = htonl seq, th_ack = htonl ack, th_x2 = 0, th_off = 5, th_flags = flags,
     th_rwnd = htons rwnd, th_cksum = 0, th_urp = 0 \<rparr>"

definition segment :: "ether_header \<Rightarrow> u16 \<Rightarrow> u32 \<Rightarrow> u32 \<Rightarrow> tcphdr \<Rightarrow> bytes \<Rightarrow> bytes" where
  "segment eh r sip dip th d = (let ih = seg_ip r sip dip d in frame eh ih (tcp_enc (sealed ih th d) @ d))"

lemma seg_ip_simps [simp]:
  "ihl (seg_ip r sip dip d) = 5" "ntohs (tot_len (seg_ip r sip dip d)) = of_nat (40 + length d)"
  "saddr (seg_ip r sip dip d) = htonl sip" "daddr (seg_ip r sip dip d) = htonl dip"
  "protocol (seg_ip r sip dip d) = IPPROTO_TCP" "ip_hdr_size (seg_ip r sip dip d) = 20"
  by (simp_all add: seg_ip_def ip_header_of_def Let_def ip_hdr_size_def)

lemma seg_ip_checksum: "checksum (iphdr_enc ((seg_ip r sip dip d)\<lparr>ip_cksum := 0\<rparr>)) 0 = ip_cksum (seg_ip r sip dip d)"
  by (simp add: seg_ip_def ip_header_of_def Let_def)

lemma length_segment [simp]: "length (segment eh r sip dip th d) = 54 + length d"
  by (simp add: segment_def Let_def)

definition sent_buffer :: "bytes \<Rightarrow> u32 \<Rightarrow> send_buffer" where
  "sent_buffer p e = \<lparr> sb_packet = p, sb_seq_end = e, sb_times = 1,
     sb_timeout = TCP_RETRANS_INTERVAL_INITIAL, sb_retrans = 0 \<rparr>"

lemma put_sendbuf_put_sk:
  "put_sendbuf i p (put_sk i k s) = Some (put_sk i (k\<lparr>sk_send_buf := sk_send_buf k @ [sent_buffer p (sk_snd_nxt k)],
     sk_inflight := sk_inflight k + 1\<rparr>) s)"
  by (simp add: put_sendbuf_def upd_sk_def put_sk_def sent_buffer_def)

lemma on_net_put_sk: "on_net f (put_sk i k s) = map_option (put_sk i k) (on_net f s)"
  by (cases "f (t_net s)") (simp_all add: on_net_def put_sk_def)

text \<open>The randomness one call consumes.\<close>

definition draw :: "tcp \<Rightarrow> u16" where
  "draw s = of_nat (n_rnd (t_net s) (n_rnd_pos (t_net s)))"

definition drawn :: "tcp \<Rightarrow> tcp" where
  "drawn s = s\<lparr>t_net := (t_net s)\<lparr>n_rnd_pos := Suc (n_rnd_pos (t_net s))\<rparr>\<rparr>"

lemma drawn_simps [simp]: "t_socks (drawn s) = t_socks s" "t_est (drawn s) = t_est s"
  "t_lis (drawn s) = t_lis s" "t_bind (drawn s) = t_bind s" "t_timers (drawn s) = t_timers s"
  "t_next (drawn s) = t_next s" "n_out (t_net (drawn s)) = n_out (t_net s)"
  by (simp_all add: drawn_def)

text \<open>A data segment: what enters the queue, and what is handed to the IP layer.\<close>

lemma tcp_send_packet_eq:
  assumes "t_socks s i = Some k" "length x = 20" "length d \<le> 65495"
  shows "tcp_send_packet i (frame eh ih (x @ d)) s =
    (let q = segment eh (draw s) (sk_sip k) (sk_dip k) (seg_hdr (sk_sport k) (sk_dport k) (sk_snd_nxt k)
               (sk_rcv_nxt k) TCP_PSH (sk_rcv_wnd k)) d;
         nxt = sk_snd_nxt k + of_nat (length d)
     in on_net (ip_send_packet q) (put_sk i (k\<lparr>sk_snd_nxt := nxt, sk_snd_wnd := sk_snd_wnd k - of_nat (length d),
         sk_send_buf := sk_send_buf k @ [sent_buffer q nxt], sk_inflight := sk_inflight k + 1\<rparr>) (drawn s)))"
proof -
  let ?ih = "seg_ip (draw s) (sk_sip k) (sk_dip k) d"
  let ?th = "seg_hdr (sk_sport k) (sk_dport k) (sk_snd_nxt k) (sk_rcv_nxt k) TCP_PSH (sk_rcv_wnd k)"
  have n: "ETHER_HDR_SIZE + IP_BASE_HDR_SIZE = 34"
    "int (length (frame eh ih (x @ d))) - int ETHER_HDR_SIZE = int (40 + length d)"
    "int (40 + length d) - int IP_BASE_HDR_SIZE - int TCP_BASE_HDR_SIZE = int (length d)"
    "of_int (int (40 + length d)) = of_nat (40 + length d)"
    using assms(2) by (simp_all add: hdr_sizes)
  have init: "tcp_init_hdr (frame eh ih (x @ d)) 34 a b c e f g = Some (frame eh ih (tcp_enc (seg_hdr a b c e f g) @ d))"
    for a b c e f g using assms(2) by (simp add: tcp_init_hdr_def seg_hdr_def)
  have ipi: "ip_header_of r ih (sk_sip k) (sk_dip k) (of_nat (40 + length d)) IPPROTO_TCP =
      seg_ip r (sk_sip k) (sk_dip k) d" for r
    unfolding seg_ip_def by (rule ip_header_of_any)
  have ck: "ip_checksum (frame eh ?ih z) ETHER_HDR_SIZE = Some (ip_cksum ?ih)" for z
    by (simp add: seg_ip_checksum)
  have id: "?ih\<lparr>ip_cksum := ip_cksum ?ih\<rparr> = ?ih" by simp
  have sl: "tcp_seal (frame eh ?ih (tcp_enc ?th @ d)) ETHER_HDR_SIZE 34 = Some (frame eh ?ih (tcp_enc (sealed ?ih ?th d) @ d))"
    by (rule tcp_seal_frame) (use assms(3) in simp_all)
  show ?thesis
    unfolding tcp_send_packet_def Let_def assms(1) n c_rand_def
    apply (simp only: n init bind.bind_lunit prod.case ip_init_hdr_frame ipi draw_def[symmetric] sl ck
        frame_ops id put_sendbuf_put_sk)
    apply (simp add: segment_def Let_def sent_buffer_def drawn_def)
    done
qed

lemma zero_frame_20: "replicate (ETHER_HDR_SIZE + IP_BASE_HDR_SIZE + TCP_BASE_HDR_SIZE) 0 =
    frame zero_eth zero_iph (replicate 20 0 @ [])"
proof -
  have "frame zero_eth zero_iph (replicate 20 0 @ []) = replicate 14 0 @ replicate 20 0 @ replicate 20 0"
    by (simp add: frame_def zero_eth_def zero_iph_def ether_enc_dec iphdr_enc_dec)
  also have "\<dots> = replicate (ETHER_HDR_SIZE + IP_BASE_HDR_SIZE + TCP_BASE_HDR_SIZE) 0"
    by (simp add: hdr_sizes flip: replicate_add)
  finally show ?thesis by simp
qed

text \<open>The bytes of a control segment, from the five-tuple and the header fields.\<close>

lemma control_bytes:
  "do { p \<leftarrow> ip_init_hdr r (replicate (ETHER_HDR_SIZE + IP_BASE_HDR_SIZE + TCP_BASE_HDR_SIZE) 0) ETHER_HDR_SIZE
          sip dip (of_nat (IP_BASE_HDR_SIZE + TCP_BASE_HDR_SIZE)) IPPROTO_TCP;
        p \<leftarrow> tcp_init_hdr p (ETHER_HDR_SIZE + IP_BASE_HDR_SIZE) sport dport seq ack flags rwnd;
        p \<leftarrow> tcp_seal p ETHER_HDR_SIZE (ETHER_HDR_SIZE + IP_BASE_HDR_SIZE);
        g p } = g (segment zero_eth r sip dip (seg_hdr sport dport seq ack flags rwnd) [])"
proof -
  let ?ih = "seg_ip r sip dip []"
  have n: "ETHER_HDR_SIZE + IP_BASE_HDR_SIZE = 34" "IP_BASE_HDR_SIZE + TCP_BASE_HDR_SIZE = 40"
    by (simp_all add: hdr_sizes)
  have ipi: "ip_header_of r zero_iph sip dip (of_nat 40) IPPROTO_TCP = ?ih" by (simp add: seg_ip_def)
  have init: "tcp_init_hdr (frame zero_eth ?ih (replicate 20 0 @ [])) 34 sport dport seq ack flags rwnd =
      Some (frame zero_eth ?ih (tcp_enc (seg_hdr sport dport seq ack flags rwnd) @ []))"
    unfolding tcp_init_hdr_def seg_hdr_def by (rule tcp_frame_ops) simp
  have sl: "tcp_seal (frame zero_eth ?ih (tcp_enc th @ [])) ETHER_HDR_SIZE 34 =
      Some (frame zero_eth ?ih (tcp_enc (sealed ?ih th []) @ []))" for th
    by (rule tcp_seal_frame) simp_all
  show ?thesis
    unfolding zero_frame_20 unfolding n by (simp only: ip_init_hdr_frame ipi init sl bind.bind_lunit segment_def Let_def)
qed

definition ctl_seg :: "tcp \<Rightarrow> tcp_sock \<Rightarrow> u8 \<Rightarrow> bytes" where
  "ctl_seg s k flags = segment zero_eth (draw s) (sk_sip k) (sk_dip k)
     (seg_hdr (sk_sport k) (sk_dport k) (sk_snd_nxt k) (sk_rcv_nxt k) flags (sk_rcv_wnd k)) []"

lemma length_ctl_seg [simp]: "length (ctl_seg s k flags) = 54"
  by (simp add: ctl_seg_def)

lemma tcp_send_control_eq:
  assumes "t_socks s i = Some k"
  shows "tcp_send_control_packet i flags s =
    (let q = ctl_seg s k flags; nxt = sk_snd_nxt k + 1
     in if flags AND (TCP_SYN OR TCP_FIN) \<noteq> 0
        then on_net (ip_send_packet q) (put_sk i (k\<lparr>sk_snd_nxt := nxt,
          sk_send_buf := sk_send_buf k @ [sent_buffer q nxt], sk_inflight := sk_inflight k + 1\<rparr>) (drawn s))
        else on_net (ip_send_packet q) (drawn s))"
proof -
  have d: "s\<lparr>t_net := snd (c_rand (t_net s))\<rparr> = drawn s" "of_nat (fst (c_rand (t_net s))) = draw s"
    by (simp_all add: drawn_def draw_def)
  show ?thesis
    unfolding tcp_send_control_packet_def Let_def assms bind.bind_lunit case_prod_beta d control_bytes
    by (simp add: ctl_seg_def put_sendbuf_put_sk)
qed

lemma tcp_send_reset_eq:
  "tcp_send_reset cb s = on_net (ip_send_packet (segment zero_eth (draw s) (cb_daddr cb) (cb_saddr cb)
     (seg_hdr (cb_dport cb) (cb_sport cb) 0 (cb_seq_end cb) (TCP_RST OR TCP_ACK) 0) [])) (drawn s)"
proof -
  have d: "s\<lparr>t_net := snd (c_rand (t_net s))\<rparr> = drawn s" "of_nat (fst (c_rand (t_net s))) = draw s"
    by (simp_all add: drawn_def draw_def)
  show ?thesis unfolding tcp_send_reset_def Let_def case_prod_beta d control_bytes ..
qed

lemma on_net_send_total: "34 \<le> length q \<Longrightarrow> \<exists>n. on_net (ip_send_packet q) s = Some (s\<lparr>t_net := n\<rparr>)"
  using ip_send_total[of q "t_net s"] by (auto simp: on_net_def)

text \<open>Sending never fails on a socket that exists and only touches that socket and the network.\<close>

lemma tcp_send_control_total:
  assumes "t_socks s i = Some k"
  obtains n where "tcp_send_control_packet i flags s = Some
    ((if flags AND (TCP_SYN OR TCP_FIN) \<noteq> 0
      then put_sk i (k\<lparr>sk_snd_nxt := sk_snd_nxt k + 1,
          sk_send_buf := sk_send_buf k @ [sent_buffer (ctl_seg s k flags) (sk_snd_nxt k + 1)],
          sk_inflight := sk_inflight k + 1\<rparr>) s else s)\<lparr>t_net := n\<rparr>)"
proof -
  have "34 \<le> length (ctl_seg s k flags)" by simp
  from on_net_send_total[OF this, of "drawn s"] obtain n
    where n: "on_net (ip_send_packet (ctl_seg s k flags)) (drawn s) = Some ((drawn s)\<lparr>t_net := n\<rparr>)" by blast
  then show ?thesis
    by (intro that[of n])
      (simp add: tcp_send_control_eq[OF assms] Let_def on_net_put_sk, simp add: put_sk_def drawn_def)
qed

section \<open>Properties\<close>

lemma segment_reads:
  assumes "length d \<le> 65495"
  shows "\<exists>ih th. get_ip (segment eh r sip dip (seg_hdr sport dport seq ack flags rwnd) d) ETHER_HDR_SIZE = Some ih \<and>
    get_tcp (segment eh r sip dip (seg_hdr sport dport seq ack flags rwnd) d) 34 = Some th \<and>
    tcp_checksum (segment eh r sip dip (seg_hdr sport dport seq ack flags rwnd) d) ETHER_HDR_SIZE 34 = Some (th_cksum th) \<and>
    tcp_cb_init ih th 34 = \<lparr> cb_saddr = sip, cb_daddr = dip, cb_sport = sport, cb_dport = dport, cb_seq = seq,
      cb_seq_end = seq + of_nat (length d) + (if flags AND (TCP_SYN OR TCP_FIN) \<noteq> 0 then 1 else 0),
      cb_ack = ack, cb_rwnd = ucast rwnd, cb_flags = flags, cb_payload = 54, cb_pl_len = int (length d) \<rparr> \<and>
    ld_bytes (segment eh r sip dip (seg_hdr sport dport seq ack flags rwnd) d) 54 (length d) = Some d"
proof -
  let ?ih = "seg_ip r sip dip d" and ?h = "seg_hdr sport dport seq ack flags rwnd"
  let ?th = "sealed ?ih ?h d"
  have ck: "tcp_checksum (frame eh ?ih (tcp_enc ?th @ d)) ETHER_HDR_SIZE 34 = Some (th_cksum ?th)"
    using tcp_checksum_frame[of ?ih d eh ?th] assms by (simp add: sealed_def)
  have u: "unat (of_nat (40 + length d) :: u16) = 40 + length d" using assms by (intro unat_small16) simp
  have cb: "tcp_cb_init ?ih ?th 34 = \<lparr> cb_saddr = sip, cb_daddr = dip, cb_sport = sport, cb_dport = dport,
      cb_seq = seq, cb_seq_end = seq + of_nat (length d) + (if flags AND (TCP_SYN OR TCP_FIN) \<noteq> 0 then 1 else 0),
      cb_ack = ack, cb_rwnd = ucast rwnd, cb_flags = flags, cb_payload = 54, cb_pl_len = int (length d) \<rparr>"
    unfolding tcp_cb_init_def seg_ip_simps u
    by (simp add: sealed_def seg_hdr_def tcp_hdr_size_def Let_def)
  have ld: "ld_bytes (frame eh ?ih (tcp_enc ?th @ d)) 54 (length d) = Some d"
    by (simp add: ld_bytes_def) (simp add: frame_def)
  show ?thesis unfolding segment_def Let_def using ck cb ld by auto
qed

lemma header_bytes:
  assumes "length hdrs = 54"
  obtains eh ih where "hdrs @ d = frame eh ih (drop 34 hdrs @ d)"
proof -
  have "34 \<le> length hdrs" using assms by simp
  then obtain eh ih rest where f: "hdrs = frame eh ih rest" by (rule frame_cases)
  then have "drop 34 hdrs = rest" by (simp add: frame_def)
  with f have "hdrs @ d = frame eh ih (drop 34 hdrs @ d)" by (simp add: frame_def)
  then show ?thesis by (rule that)
qed

text \<open>Property C15. A data segment survives the trip. Whatever \<open>tcp_send_packet\<close> queues for a
  socket passes the receiver's checksum test and decodes to exactly the socket's addresses, ports,
  sequence and acknowledgement numbers, window and payload; the send sequence number advances by the
  payload and the segment waits at the end of the retransmission queue.\<close>

theorem tcp_send_packet_roundtrip:
  assumes "t_socks s i = Some k" "length hdrs = 54" "length d \<le> 65495"
  shows "\<exists>t k' q ih th. tcp_send_packet i (hdrs @ d) s = Some t \<and> t_socks t i = Some k' \<and>
    sk_send_buf k' = sk_send_buf k @ [sent_buffer q (sk_snd_nxt k')] \<and>
    sk_snd_nxt k' = sk_snd_nxt k + of_nat (length d) \<and> sk_inflight k' = sk_inflight k + 1 \<and>
    get_ip q ETHER_HDR_SIZE = Some ih \<and> get_tcp q 34 = Some th \<and>
    tcp_checksum q ETHER_HDR_SIZE 34 = Some (th_cksum th) \<and>
    tcp_cb_init ih th 34 = \<lparr> cb_saddr = sk_sip k, cb_daddr = sk_dip k, cb_sport = sk_sport k,
      cb_dport = sk_dport k, cb_seq = sk_snd_nxt k, cb_seq_end = sk_snd_nxt k', cb_ack = sk_rcv_nxt k,
      cb_rwnd = ucast (sk_rcv_wnd k), cb_flags = TCP_PSH, cb_payload = 54, cb_pl_len = int (length d) \<rparr> \<and>
    ld_bytes q 54 (length d) = Some d"
proof -
  obtain eh ih where h: "hdrs @ d = frame eh ih (drop 34 hdrs @ d)"
    using assms(2) by (rule header_bytes)
  let ?nxt = "sk_snd_nxt k + of_nat (length d)"
  let ?q = "segment eh (draw s) (sk_sip k) (sk_dip k) (seg_hdr (sk_sport k) (sk_dport k) (sk_snd_nxt k)
     (sk_rcv_nxt k) TCP_PSH (sk_rcv_wnd k)) d"
  let ?k = "k\<lparr>sk_snd_nxt := ?nxt, sk_snd_wnd := sk_snd_wnd k - of_nat (length d),
     sk_send_buf := sk_send_buf k @ [sent_buffer ?q ?nxt], sk_inflight := sk_inflight k + 1\<rparr>"
  have "34 \<le> length ?q" by simp
  from on_net_send_total[OF this] obtain n where
    "on_net (ip_send_packet ?q) (put_sk i ?k (drawn s)) = Some ((put_sk i ?k (drawn s))\<lparr>t_net := n\<rparr>)" by blast
  then have 1: "tcp_send_packet i (hdrs @ d) s = Some ((put_sk i ?k (drawn s))\<lparr>t_net := n\<rparr>)"
    unfolding h using assms by (simp add: tcp_send_packet_eq Let_def)
  have 2: "t_socks ((put_sk i ?k (drawn s))\<lparr>t_net := n\<rparr>) i = Some ?k" by (simp add: put_sk_def)
  have z: "(if TCP_PSH AND (TCP_SYN OR TCP_FIN) \<noteq> 0 then 1 else 0) = (0 :: u32)"
    by (simp add: tcp_flag_defs)
  obtain ih th where 3: "get_ip ?q ETHER_HDR_SIZE = Some ih" "get_tcp ?q 34 = Some th"
    "tcp_checksum ?q ETHER_HDR_SIZE 34 = Some (th_cksum th)"
    "tcp_cb_init ih th 34 = \<lparr> cb_saddr = sk_sip k, cb_daddr = sk_dip k, cb_sport = sk_sport k,
      cb_dport = sk_dport k, cb_seq = sk_snd_nxt k, cb_seq_end = ?nxt, cb_ack = sk_rcv_nxt k,
      cb_rwnd = ucast (sk_rcv_wnd k), cb_flags = TCP_PSH, cb_payload = 54, cb_pl_len = int (length d) \<rparr>"
    "ld_bytes ?q 54 (length d) = Some d"
    using segment_reads[OF assms(3), of eh "draw s" "sk_sip k" "sk_dip k" "sk_sport k" "sk_dport k"
        "sk_snd_nxt k" "sk_rcv_nxt k" TCP_PSH "sk_rcv_wnd k"] unfolding z add_0_right by blast
  have 4: "sk_send_buf ?k = sk_send_buf k @ [sent_buffer ?q (sk_snd_nxt ?k)]" "sk_snd_nxt ?k = ?nxt"
    "sk_inflight ?k = sk_inflight k + 1" by simp_all
  have 5: "tcp_cb_init ih th 34 = \<lparr> cb_saddr = sk_sip k, cb_daddr = sk_dip k, cb_sport = sk_sport k,
      cb_dport = sk_dport k, cb_seq = sk_snd_nxt k, cb_seq_end = sk_snd_nxt ?k, cb_ack = sk_rcv_nxt k,
      cb_rwnd = ucast (sk_rcv_wnd k), cb_flags = TCP_PSH, cb_payload = 54, cb_pl_len = int (length d) \<rparr>"
    unfolding 3(4) by simp
  show ?thesis by (rule exI conjI 1 2 4 3 5)+
qed

definition empty_tcp :: tcp where
  "empty_tcp = \<lparr> t_net = empty_net, t_socks = (\<lambda>_. None), t_next = 0, t_est = (\<lambda>_. []), t_lis = (\<lambda>_. []),
     t_bind = (\<lambda>_. []), t_timers = [] \<rparr>"

definition one_sock :: "tcp_sock \<Rightarrow> tcp" where
  "one_sock k = put_sk 0 k empty_tcp"

lemma one_sock_simps [simp]: "t_socks (one_sock k) 0 = Some k" "t_net (one_sock k) = empty_net"
  by (simp_all add: one_sock_def put_sk_def empty_tcp_def)

lemma fresh_sock_simps [simp]: "sk_send_buf fresh_sock = []" "sk_snd_nxt fresh_sock = 0"
  "sk_state fresh_sock = TCP_CLOSED" "sk_ofo fresh_sock = []" "sk_hash_link fresh_sock = Zeroed"
  "sk_bind_link fresh_sock = Zeroed" "sk_ref_cnt fresh_sock = 0" "sk_parent fresh_sock = None"
  by (simp_all add: fresh_sock_def)

theorem tcp_send_packet_roundtrip_witness:
  "\<exists>t k' q. tcp_send_packet 0 (replicate 54 0 @ [104, 105]) (one_sock fresh_sock) = Some t \<and>
     t_socks t 0 = Some k' \<and> sk_send_buf k' = [sent_buffer q (sk_snd_nxt k')] \<and>
     ld_bytes q 54 (length [104, 105 :: u8]) = Some [104, 105]"
proof -
  have "length (replicate 54 (0 :: u8)) = 54" "length [104, 105 :: u8] \<le> 65495" by simp_all
  from tcp_send_packet_roundtrip[OF one_sock_simps(1) this, of fresh_sock] show ?thesis
    unfolding fresh_sock_simps append_Nil by blast
qed

text \<open>Control segments survive the trip too. Building one never fails; SYN and FIN take
  one sequence number and wait for their acknowledgement, any other flags leave the socket as it was.\<close>

theorem tcp_send_control_roundtrip:
  assumes "t_socks s i = Some k"
  shows "\<exists>t q ih th. tcp_send_control_packet i flags s = Some t \<and>
    get_ip q ETHER_HDR_SIZE = Some ih \<and> get_tcp q 34 = Some th \<and>
    tcp_checksum q ETHER_HDR_SIZE 34 = Some (th_cksum th) \<and>
    cb_seq (tcp_cb_init ih th 34) = sk_snd_nxt k \<and> cb_ack (tcp_cb_init ih th 34) = sk_rcv_nxt k \<and>
    cb_flags (tcp_cb_init ih th 34) = flags \<and> cb_pl_len (tcp_cb_init ih th 34) = 0 \<and>
    t_socks t i = Some (if flags AND (TCP_SYN OR TCP_FIN) \<noteq> 0
      then k\<lparr>sk_snd_nxt := cb_seq_end (tcp_cb_init ih th 34),
        sk_send_buf := sk_send_buf k @ [sent_buffer q (cb_seq_end (tcp_cb_init ih th 34))],
        sk_inflight := sk_inflight k + 1\<rparr>
      else k)"
proof -
  obtain n where n: "tcp_send_control_packet i flags s = Some
    ((if flags AND (TCP_SYN OR TCP_FIN) \<noteq> 0
      then put_sk i (k\<lparr>sk_snd_nxt := sk_snd_nxt k + 1,
          sk_send_buf := sk_send_buf k @ [sent_buffer (ctl_seg s k flags) (sk_snd_nxt k + 1)],
          sk_inflight := sk_inflight k + 1\<rparr>) s else s)\<lparr>t_net := n\<rparr>)" (is "_ = Some ?t")
    using tcp_send_control_total[OF assms] by blast
  have "length ([] :: bytes) \<le> 65495" by simp
  from segment_reads[OF this, of zero_eth "draw s" "sk_sip k" "sk_dip k" "sk_sport k" "sk_dport k"
      "sk_snd_nxt k" "sk_rcv_nxt k" flags "sk_rcv_wnd k"]
  show ?thesis using n assms unfolding ctl_seg_def[symmetric]
    by (intro exI[of _ ?t] exI[of _ "ctl_seg s k flags"]) (auto simp: put_sk_def)
qed

theorem tcp_send_control_roundtrip_witness:
  "\<exists>t. tcp_send_control_packet 0 TCP_SYN (one_sock fresh_sock) = Some t"
  using tcp_send_control_roundtrip[of "one_sock fresh_sock" 0 fresh_sock TCP_SYN] by auto

end
