(* ===== verification/Tcp_In.thy ===== *)
theory Tcp_In
  imports Tcp_Out
begin

text \<open>
  \<open>tcp_in.c\<close> of prj14: congestion and window bookkeeping, the out-of-order queue, and
  \<open>tcp_process\<close>, the state machine that handles one segment. The data path of \<open>tcp_process\<close> can
  sleep on \<open>wait_recv\<close> while the receive buffer is full, so processing yields a program point:
  \<open>RxIdle\<close> when the segment is done, \<open>RxHead\<close> and \<open>RxOfo\<close> at the heads of its two waiting loops,
  \<open>RxHeadWait\<close> and \<open>RxOfoWait\<close> after the buffer lock is released, before \<open>sleep_on\<close>,
  \<open>RxHeadSleep\<close> and \<open>RxOfoSleep\<close> inside \<open>pthread_cond_wait\<close>.
\<close>

section \<open>Congestion window and send window\<close>

definition tcp_cwnd_inc :: "tcp_sock \<Rightarrow> tcp_sock" where
  "tcp_cwnd_inc k =
     (if sk_cgt k \<noteq> OPEN then k
      else if sk_cwnd k < sk_ssthresh k then k\<lparr>sk_cwnd := sk_cwnd k + 1\<rparr>
      else let k = k\<lparr>sk_cwnd_unit := sk_cwnd_unit k + 1\<rparr>
        in if to_u32 (sk_cwnd_unit k) \<ge> sk_cwnd k
           then k\<lparr>sk_cwnd_unit := 0, sk_cwnd := sk_cwnd k + 1\<rparr> else k)"

definition tcp_update_window :: "tcp_cb \<Rightarrow> tcp_sock \<Rightarrow> tcp_sock" where
  "tcp_update_window cb k =
     (let old_snd_wnd = (ucast (sk_snd_wnd k) :: u16);
          k = k\<lparr>sk_adv_wnd := ucast (cb_rwnd cb)\<rparr>;
          k = k\<lparr>sk_snd_wnd := min (ucast (sk_adv_wnd k)) (sk_cwnd k * of_nat MSS)\<rparr>
      in if old_snd_wnd = 0 then k\<lparr>sk_wait_send := wake (sk_wait_send k)\<rparr> else k)"

definition tcp_update_window_safe :: "tcp_cb \<Rightarrow> tcp_sock \<Rightarrow> tcp_sock" where
  "tcp_update_window_safe cb k =
     (if less_or_equal_32b (sk_snd_una k) (cb_ack cb) \<and> less_or_equal_32b (cb_ack cb) (sk_snd_nxt k)
      then tcp_update_window cb k else k)"

definition is_tcp_seq_valid :: "tcp_sock \<Rightarrow> tcp_cb \<Rightarrow> bool" where
  "is_tcp_seq_valid k cb =
     (let rcv_end = sk_rcv_nxt k + max (ucast (sk_rcv_wnd k)) 1
      in less_than_32b (cb_seq cb) rcv_end \<and> less_or_equal_32b (sk_rcv_nxt k) (cb_seq_end cb))"

section \<open>The out-of-order queue\<close>

text \<open>The scan of \<open>write_ofo_buffer\<close>. The flag is true while \<open>last\<close> is still the copy of the head;
  the result says whether the insertion went through that copy.\<close>

fun ofo_scan :: "bool \<Rightarrow> ofo_buffer \<Rightarrow> ofo_buffer list \<Rightarrow> ofo_buffer list \<times> bool" where
  "ofo_scan first b [] = ([b], False)"
| "ofo_scan first b (p # ps) =
     (if ofo_seq b > ofo_seq p then (let (r, x) = ofo_scan False b ps in (p # r, x))
      else if ofo_seq b = ofo_seq p then (p # ps, False)
      else if first then (p # ps, True)
      else (b # p # ps, False))"

definition write_ofo_buffer :: "tcp_cb \<Rightarrow> bytes \<Rightarrow> tcp_sock \<Rightarrow> tcp_sock option" where
  "write_ofo_buffer cb packet k =
     (if cb_pl_len cb < 0 then None
      else do {
        pl \<leftarrow> ld_bytes packet (cb_payload cb) (nat (cb_pl_len cb));
        if sk_ofo_link k = OfoDangling then None
        else do {
          let b = \<lparr> ofo_seq = cb_seq cb, ofo_seq_end = cb_seq_end cb, ofo_payload = pl \<rparr>;
          let (q, through_copy) = ofo_scan True b (sk_ofo k);
          Some (k\<lparr>sk_ofo := q, sk_ofo_link := (if through_copy then OfoBroken else sk_ofo_link k)\<rparr>) } })"

text \<open>\<open>list_delete_entry\<close> of the first entry.\<close>

definition ofo_delete_first :: "tcp_sock \<Rightarrow> tcp_sock" where
  "ofo_delete_first k = (if sk_ofo_link k = OfoOk then k\<lparr>sk_ofo := tl (sk_ofo k)\<rparr>
     else k\<lparr>sk_ofo := [], sk_ofo_link := OfoDangling\<rparr>)"

section \<open>Acknowledgements\<close>

definition tcp_retransmit :: "bytes \<Rightarrow> tcp \<Rightarrow> tcp option" where
  "tcp_retransmit p s = on_net (ip_send_packet p) s"

text \<open>The loop over the queue of sent packets: it pops what is acknowledged and stops at the first
  packet that is not. Nothing is returned when it runs off the end, where \<open>buf\<close> is no packet.\<close>

fun ack_pop :: "u32 \<Rightarrow> send_buffer list \<Rightarrow> tcp_sock \<Rightarrow> tcp_sock \<times> send_buffer option" where
  "ack_pop ack [] k = (k, None)"
| "ack_pop ack (b # bs) k =
     (if sb_seq_end b > ack then (k, Some b)
      else ack_pop ack bs (tcp_cwnd_inc (tcp_pop_sendbuf (k\<lparr>sk_snd_una := sb_seq_end b\<rparr>))))"

definition rcvr_dup_ack :: "tcp_sock \<Rightarrow> tcp_sock" where
  "rcvr_dup_ack k =
     (if sk_rep_ack k > 1
      then (let k = k\<lparr>sk_rep_ack := sk_rep_ack k - 2, sk_cwnd := sk_cwnd k - 1\<rparr>
            in if sk_cwnd k < 1 then k\<lparr>sk_cwnd := 1\<rparr> else k)
      else k)"

definition tcp_dup_ack :: "addr \<Rightarrow> tcp_sock \<Rightarrow> tcp \<Rightarrow> tcp option" where
  "tcp_dup_ack i k s =
     (let k = k\<lparr>sk_rep_ack := sk_rep_ack k + 1\<rparr> in
      case sk_cgt k of
        OPEN \<Rightarrow>
          if sk_rep_ack k > 2 then do {
            let k = k\<lparr>sk_cgt := RCVR, sk_ssthresh := (sk_cwnd k + 1) div 2, sk_recovery_point := sk_snd_nxt k\<rparr>;
            s \<leftarrow> (case sk_send_buf k of [] \<Rightarrow> Some s | b # _ \<Rightarrow> tcp_retransmit (sb_packet b) s);
            Some (put_sk i (rcvr_dup_ack k) s) }
          else Some (put_sk i k s)
      | RCVR \<Rightarrow> Some (put_sk i (rcvr_dup_ack k) s)
      | LOSS \<Rightarrow> Some (put_sk i k s))"

definition tcp_new_ack :: "addr \<Rightarrow> u32 \<Rightarrow> tcp_sock \<Rightarrow> tcp \<Rightarrow> tcp option" where
  "tcp_new_ack i ack k s =
     (let (k, buf) = ack_pop ack (sk_send_buf k) (k\<lparr>sk_rep_ack := 0\<rparr>);
          reached = less_or_equal_32b (sk_recovery_point k) ack
      in case sk_cgt k of
        RCVR \<Rightarrow>
          if reached then Some (put_sk i (k\<lparr>sk_cgt := OPEN\<rparr>) s)
          else do { b \<leftarrow> buf; s \<leftarrow> tcp_retransmit (sb_packet b) s; Some (put_sk i k s) }
      | LOSS \<Rightarrow> Some (put_sk i (if reached then k\<lparr>sk_cgt := OPEN\<rparr> else k) s)
      | OPEN \<Rightarrow> Some (put_sk i k s))"

definition tcp_process_ack :: "addr \<Rightarrow> tcp_cb \<Rightarrow> tcp \<Rightarrow> tcp option" where
  "tcp_process_ack i cb s = do {
     k \<leftarrow> t_socks s i;
     s \<leftarrow> (if cb_ack cb = sk_snd_una k then tcp_dup_ack i k s else tcp_new_ack i (cb_ack cb) k s);
     upd_sk i (tcp_update_window_safe cb) s }"

section \<open>The data path\<close>

datatype rx_pc = RxIdle
  | RxHead addr tcp_cb bytes | RxHeadWait addr tcp_cb bytes | RxHeadSleep addr tcp_cb bytes
  | RxOfo addr u32 "ofo_buffer list" | RxOfoWait addr u32 "ofo_buffer list"
  | RxOfoSleep addr u32 "ofo_buffer list"

text \<open>After the branches: unlock, notify the reader, acknowledge, notify the writer.\<close>

definition rx_finish :: "addr \<Rightarrow> tcp \<Rightarrow> (rx_pc \<times> tcp) option" where
  "rx_finish i s = do {
     s \<leftarrow> upd_sk i (\<lambda>k. if sw_sleep (sk_wait_read k) then k\<lparr>sk_wait_read := wake (sk_wait_read k)\<rparr> else k) s;
     s \<leftarrow> tcp_send_control_packet i TCP_ACK s;
     s \<leftarrow> upd_sk i (\<lambda>k. if sk_cgt k = OPEN \<and> sw_sleep (sk_wait_send k)
        then k\<lparr>sk_wait_send := wake (sk_wait_send k)\<rparr> else k) s;
     Some (RxIdle, s) }"

text \<open>\<open>sleep_on (wait_recv)\<close>, up to the wait. The result tells whether the thread blocks.\<close>

definition rx_sleep :: "tcp_sock \<Rightarrow> bool \<times> tcp_sock" where
  "rx_sleep k =
     (case sleep_on_enter (sk_wait_recv k) of
        (Waiting, w) \<Rightarrow> (True, k\<lparr>sk_wait_recv := w\<rparr>)
      | (Returned _, w) \<Rightarrow> (False, k\<lparr>sk_wait_recv := w\<rparr>))"

text \<open>One step of the thread; a sleeping or idle thread stays where it is.\<close>

fun rx_step :: "rx_pc \<Rightarrow> tcp \<Rightarrow> (rx_pc \<times> tcp) option" where
  "rx_step (RxHead i cb packet) s = do {
     k \<leftarrow> t_socks s i;
     if ring_buffer_free (sk_rcv_buf k) < cb_pl_len cb
     then Some (RxHeadWait i cb packet, put_sk i (k\<lparr>sk_wait_read := wake (sk_wait_read k)\<rparr>) s)
     else if cb_pl_len cb \<le> 0 then None
     else do {
       pl \<leftarrow> ld_bytes packet (cb_payload cb) (nat (cb_pl_len cb));
       rb \<leftarrow> write_ring_buffer (sk_rcv_buf k) pl;
       if sk_ofo_link k = OfoDangling then None
       else Some (RxOfo i (cb_seq_end cb) (sk_ofo k),
         put_sk i (k\<lparr>sk_rcv_buf := rb, sk_rcv_wnd := sk_rcv_wnd k - of_int (cb_pl_len cb)\<rparr>) s) } }"
| "rx_step (RxOfo i seq_end rest) s = do {
     k \<leftarrow> t_socks s i;
     (case rest of
        [] \<Rightarrow> rx_finish i (put_sk i (k\<lparr>sk_rcv_nxt := seq_end\<rparr>) s)
      | b # bs \<Rightarrow>
          if seq_end < ofo_seq b then rx_finish i (put_sk i (k\<lparr>sk_rcv_nxt := seq_end\<rparr>) s)
          else if ring_buffer_free (sk_rcv_buf k) < int (length (ofo_payload b))
          then Some (RxOfoWait i seq_end rest, put_sk i (k\<lparr>sk_wait_read := wake (sk_wait_read k)\<rparr>) s)
          else do {
            rb \<leftarrow> write_ring_buffer (sk_rcv_buf k) (ofo_payload b);
            Some (RxOfo i (ofo_seq_end b) bs,
              put_sk i (ofo_delete_first (k\<lparr>sk_rcv_buf := rb,
                sk_rcv_wnd := sk_rcv_wnd k - of_nat (length (ofo_payload b))\<rparr>)) s) }) }"
| "rx_step (RxHeadWait i cb packet) s = do {
     k \<leftarrow> t_socks s i;
     let (blocks, k) = rx_sleep k;
     Some (if blocks then RxHeadSleep i cb packet else RxHead i cb packet, put_sk i k s) }"
| "rx_step (RxOfoWait i seq_end rest) s = do {
     k \<leftarrow> t_socks s i;
     let (blocks, k) = rx_sleep k;
     Some (if blocks then RxOfoSleep i seq_end rest else RxOfo i seq_end rest, put_sk i k s) }"
| "rx_step pc s = Some (pc, s)"

text \<open>A signalled thread returns from \<open>sleep_on\<close> to its loop head.\<close>

fun rx_resume :: "rx_pc \<Rightarrow> tcp \<Rightarrow> (rx_pc \<times> tcp) option" where
  "rx_resume (RxHeadSleep i cb packet) s = do {
     s \<leftarrow> upd_sk i (\<lambda>k. k\<lparr>sk_wait_recv := snd (sleep_on_resume (sk_wait_recv k))\<rparr>) s;
     Some (RxHead i cb packet, s) }"
| "rx_resume (RxOfoSleep i seq_end rest) s = do {
     s \<leftarrow> upd_sk i (\<lambda>k. k\<lparr>sk_wait_recv := snd (sleep_on_resume (sk_wait_recv k))\<rparr>) s;
     Some (RxOfo i seq_end rest, s) }"
| "rx_resume pc s = Some (pc, s)"

fun rx_running :: "rx_pc \<Rightarrow> bool" where
  "rx_running (RxHead _ _ _) = True"
| "rx_running (RxOfo _ _ _) = True"
| "rx_running (RxHeadWait _ _ _) = True"
| "rx_running (RxOfoWait _ _ _) = True"
| "rx_running _ = False"

text \<open>The thread until it is idle or asleep; fuel bounds the steps.\<close>

fun rx_run :: "nat \<Rightarrow> rx_pc \<Rightarrow> tcp \<Rightarrow> (rx_pc \<times> tcp) option" where
  "rx_run 0 pc s = Some (pc, s)"
| "rx_run (Suc n) pc s =
     (if rx_running pc then do { (pc, s) \<leftarrow> rx_step pc s; rx_run n pc s } else Some (pc, s))"

definition tcp_rcv_data :: "addr \<Rightarrow> tcp_cb \<Rightarrow> bytes \<Rightarrow> tcp \<Rightarrow> (rx_pc \<times> tcp) option" where
  "tcp_rcv_data i cb packet s = do {
     k \<leftarrow> t_socks s i;
     let k = (if sk_state k = TCP_SYN_RECV then k\<lparr>sk_state := TCP_ESTABLISHED\<rparr> else k);
     let s = put_sk i k s;
     if sk_rcv_nxt k = cb_seq cb then Some (RxHead i cb packet, s)
     else if sk_rcv_nxt k < cb_seq cb then do {
       k \<leftarrow> write_ofo_buffer cb packet k;
       rx_finish i (put_sk i k s) }
     else do { s \<leftarrow> tcp_send_control_packet i TCP_ACK s; Some (RxIdle, s) } }"

section \<open>The state machine\<close>

definition wake_connect :: "addr \<Rightarrow> tcp \<Rightarrow> tcp option" where
  "wake_connect i s = upd_sk i (\<lambda>k. k\<lparr>sk_wait_connect := wake (sk_wait_connect k)\<rparr>) s"

definition wake_accept :: "addr \<Rightarrow> tcp \<Rightarrow> tcp option" where
  "wake_accept i s = upd_sk i (\<lambda>k. k\<lparr>sk_wait_accept := wake (sk_wait_accept k)\<rparr>) s"

definition wake_send :: "addr \<Rightarrow> tcp \<Rightarrow> tcp option" where
  "wake_send i s = upd_sk i (\<lambda>k. k\<lparr>sk_wait_send := wake (sk_wait_send k)\<rparr>) s"

text \<open>\<open>tcp_new_iss\<close>.\<close>

definition tcp_new_iss :: "tcp \<Rightarrow> u32 \<times> tcp" where
  "tcp_new_iss s = (let (r, n) = c_rand (t_net s) in (of_nat r, s\<lparr>t_net := n\<rparr>))"

text \<open>A SYN on a listening socket: the child takes its first sequence number from the listener's
  \<open>iss\<close>, not from the one drawn for it.\<close>

definition tcp_rcv_syn_listen :: "addr \<Rightarrow> tcp_cb \<Rightarrow> tcp \<Rightarrow> tcp option" where
  "tcp_rcv_syn_listen i cb s = do {
     (c, s) \<leftarrow> alloc_tcp_sock s;
     s \<leftarrow> upd_sk i (\<lambda>k. k\<lparr>sk_listen_queue := sk_listen_queue k @ [c]\<rparr>) s;
     k \<leftarrow> t_socks s i;
     let (iss, s) = tcp_new_iss s;
     s \<leftarrow> upd_sk c (\<lambda>ck. ck\<lparr>sk_queue := OnListen i, sk_sip := cb_daddr cb, sk_dip := cb_saddr cb,
       sk_dport := cb_sport cb, sk_sport := cb_dport cb, sk_parent := Some i, sk_iss := iss,
       sk_snd_una := sk_snd_una k, sk_rcv_nxt := sk_rcv_nxt k, sk_snd_nxt := sk_iss k,
       sk_rcv_wnd := sk_rcv_wnd k\<rparr>) s;
     s \<leftarrow> tcp_set_state c TCP_SYN_RECV s;
     (r, s) \<leftarrow> tcp_hash c s;
     tcp_send_control_packet c (TCP_SYN OR TCP_ACK) s }"

definition tcp_rcv_ack :: "addr \<Rightarrow> tcp \<Rightarrow> tcp option" where
  "tcp_rcv_ack i s = do {
     k \<leftarrow> t_socks s i;
     (case sk_state k of
        TCP_SYN_RECV \<Rightarrow> do {
          s \<leftarrow> tcp_sock_accept_enqueue i s;
          p \<leftarrow> sk_parent k;
          s \<leftarrow> wake_accept p s;
          tcp_set_state i TCP_ESTABLISHED s }
      | TCP_ESTABLISHED \<Rightarrow> (if sk_cgt k = OPEN then wake_send i s else Some s)
      | TCP_FIN_WAIT_1 \<Rightarrow> tcp_set_state i TCP_FIN_WAIT_2 s
      | TCP_LAST_ACK \<Rightarrow> do {
          s \<leftarrow> tcp_set_state i TCP_CLOSED s;
          s \<leftarrow> (if sk_parent k = None then tcp_bind_unhash i s else Some s);
          tcp_unhash i s }
      | _ \<Rightarrow> Some s) }"

definition tcp_rcv_ack_fin :: "addr \<Rightarrow> tcp \<Rightarrow> tcp option" where
  "tcp_rcv_ack_fin i s = do {
     k \<leftarrow> t_socks s i;
     if sk_state k = TCP_FIN_WAIT_1 then do {
       s \<leftarrow> tcp_set_state i TCP_TIME_WAIT s;
       s \<leftarrow> tcp_send_control_packet i TCP_ACK s;
       tcp_set_timewait_timer i s }
     else Some s }"

definition tcp_rcv_fin :: "addr \<Rightarrow> tcp \<Rightarrow> tcp option" where
  "tcp_rcv_fin i s = do {
     k \<leftarrow> t_socks s i;
     (case sk_state k of
        TCP_ESTABLISHED \<Rightarrow> do {
          s \<leftarrow> tcp_set_state i TCP_LAST_ACK s;
          s \<leftarrow> tcp_send_control_packet i (TCP_ACK OR TCP_FIN) s;
          tcp_set_timewait_timer i s }
      | TCP_FIN_WAIT_2 \<Rightarrow> do {
          s \<leftarrow> tcp_set_state i TCP_TIME_WAIT s;
          s \<leftarrow> tcp_send_control_packet i TCP_ACK s;
          tcp_set_timewait_timer i s }
      | _ \<Rightarrow> Some s) }"

definition tcp_process :: "addr option \<Rightarrow> tcp_cb \<Rightarrow> bytes \<Rightarrow> tcp \<Rightarrow> (rx_pc \<times> tcp) option" where
  "tcp_process tsk cb packet s =
     (case tsk of
        None \<Rightarrow> Some (RxIdle, s)
      | Some i \<Rightarrow> do {
          let f = cb_flags cb;
          s \<leftarrow> (if f AND TCP_PSH = 0 then upd_sk i (\<lambda>k. k\<lparr>sk_rcv_nxt := cb_seq_end cb\<rparr>) s else Some s);
          s \<leftarrow> (if f AND TCP_ACK \<noteq> 0 then tcp_process_ack i cb s else Some s);
          k \<leftarrow> t_socks s i;
          let idle = map_option (Pair RxIdle);
          if f = TCP_SYN then
            idle (if sk_state k = TCP_LISTEN then tcp_rcv_syn_listen i cb s else Some s)
          else if f = TCP_SYN OR TCP_ACK then
            idle (if sk_state k = TCP_SYN_SENT then wake_connect i s else Some s)
          else if f = TCP_ACK then idle (tcp_rcv_ack i s)
          else if f = TCP_PSH \<or> f = TCP_PSH OR TCP_ACK then tcp_rcv_data i cb packet s
          else if f = TCP_ACK OR TCP_FIN then idle (tcp_rcv_ack_fin i s)
          else if f = TCP_FIN then idle (tcp_rcv_fin i s)
          else Some (RxIdle, s) })"

section \<open>Laws of the socket store\<close>

lemma put_sk_simps [simp]:
  "t_socks (put_sk i k s) = (t_socks s)(i \<mapsto> k)" "t_net (put_sk i k s) = t_net s"
  "t_est (put_sk i k s) = t_est s" "t_lis (put_sk i k s) = t_lis s" "t_bind (put_sk i k s) = t_bind s"
  "t_timers (put_sk i k s) = t_timers s" "t_next (put_sk i k s) = t_next s"
  "put_sk i k (put_sk i k' s) = put_sk i k s"
  by (simp_all add: put_sk_def)

lemma put_sk_same [simp]: "t_socks s i = Some k \<Longrightarrow> put_sk i k s = s"
  by (simp add: put_sk_def fun_upd_idem)

lemma upd_sk_Some [simp]: "t_socks s i = Some k \<Longrightarrow> upd_sk i f s = Some (put_sk i (f k) s)"
  by (simp add: upd_sk_def)

lemma upd_sk_None [simp]: "t_socks s i = None \<Longrightarrow> upd_sk i f s = None"
  by (simp add: upd_sk_def)

text \<open>Two states that differ at most in the network.\<close>

definition same_but_net :: "tcp \<Rightarrow> tcp \<Rightarrow> bool" where
  "same_but_net s t \<longleftrightarrow> t = s\<lparr>t_net := t_net t\<rparr>"

lemma same_but_net_simps:
  "same_but_net s t \<Longrightarrow> t_socks t = t_socks s" "same_but_net s t \<Longrightarrow> t_est t = t_est s"
  "same_but_net s t \<Longrightarrow> t_lis t = t_lis s" "same_but_net s t \<Longrightarrow> t_bind t = t_bind s"
  "same_but_net s t \<Longrightarrow> t_timers t = t_timers s" "same_but_net s t \<Longrightarrow> t_next t = t_next s"
  by (metis same_but_net_def tcp.select_convs(2-7) tcp.surjective tcp.update_convs(1))+

lemma same_but_net_refl [simp]: "same_but_net s s"
  by (simp add: same_but_net_def)

lemma same_but_net_upd [simp]: "same_but_net s (s\<lparr>t_net := n\<rparr>)"
  by (simp add: same_but_net_def)

lemma retransmit_total: "34 \<le> length p \<Longrightarrow> \<exists>n. tcp_retransmit p s = Some (s\<lparr>t_net := n\<rparr>)"
  unfolding tcp_retransmit_def by (rule on_net_send_total)

section \<open>The queue of sent packets\<close>

text \<open>The packets acknowledged by \<open>ack\<close>: the longest prefix that ends at or before it.\<close>

definition acked :: "u32 \<Rightarrow> send_buffer list \<Rightarrow> send_buffer list" where
  "acked ack bs = takeWhile (\<lambda>b. sb_seq_end b \<le> ack) bs"

definition unacked :: "u32 \<Rightarrow> send_buffer list \<Rightarrow> send_buffer list" where
  "unacked ack bs = dropWhile (\<lambda>b. sb_seq_end b \<le> ack) bs"

lemma cwnd_inc_simps [simp]:
  "sk_send_buf (tcp_cwnd_inc k) = sk_send_buf k" "sk_inflight (tcp_cwnd_inc k) = sk_inflight k"
  "sk_snd_una (tcp_cwnd_inc k) = sk_snd_una k" "sk_cgt (tcp_cwnd_inc k) = sk_cgt k"
  "sk_state (tcp_cwnd_inc k) = sk_state k" "sk_snd_nxt (tcp_cwnd_inc k) = sk_snd_nxt k"
  "sk_recovery_point (tcp_cwnd_inc k) = sk_recovery_point k" "sk_ssthresh (tcp_cwnd_inc k) = sk_ssthresh k"
  by (simp_all add: tcp_cwnd_inc_def Let_def)

lemma pop_sendbuf_simps [simp]:
  "sk_send_buf (tcp_pop_sendbuf k) = tl (sk_send_buf k)" "sk_inflight (tcp_pop_sendbuf k) = sk_inflight k - 1"
  "sk_snd_una (tcp_pop_sendbuf k) = sk_snd_una k" "sk_cgt (tcp_pop_sendbuf k) = sk_cgt k"
  "sk_state (tcp_pop_sendbuf k) = sk_state k" "sk_snd_nxt (tcp_pop_sendbuf k) = sk_snd_nxt k"
  "sk_cwnd (tcp_pop_sendbuf k) = sk_cwnd k" "sk_ssthresh (tcp_pop_sendbuf k) = sk_ssthresh k"
  "sk_recovery_point (tcp_pop_sendbuf k) = sk_recovery_point k"
  by (simp_all add: tcp_pop_sendbuf_def)

text \<open>Fields acknowledgement processing never touches.\<close>

definition same_ident :: "tcp_sock \<Rightarrow> tcp_sock \<Rightarrow> bool" where
  "same_ident k k' \<longleftrightarrow> sk_state k' = sk_state k \<and> sk_snd_nxt k' = sk_snd_nxt k \<and> sk_rcv_nxt k' = sk_rcv_nxt k \<and>
     sk_sip k' = sk_sip k \<and> sk_dip k' = sk_dip k \<and> sk_sport k' = sk_sport k \<and> sk_dport k' = sk_dport k \<and>
     sk_parent k' = sk_parent k \<and> sk_rcv_buf k' = sk_rcv_buf k \<and> sk_rcv_wnd k' = sk_rcv_wnd k \<and>
     sk_ofo k' = sk_ofo k \<and> sk_ofo_link k' = sk_ofo_link k \<and> sk_iss k' = sk_iss k \<and> sk_queue k' = sk_queue k \<and>
     sk_hash_link k' = sk_hash_link k \<and> sk_bind_link k' = sk_bind_link k \<and> sk_ref_cnt k' = sk_ref_cnt k \<and>
     sk_listen_queue k' = sk_listen_queue k \<and> sk_accept_queue k' = sk_accept_queue k \<and>
     sk_wait_connect k' = sk_wait_connect k \<and> sk_wait_accept k' = sk_wait_accept k \<and>
     sk_wait_recv k' = sk_wait_recv k \<and> sk_wait_read k' = sk_wait_read k"

lemma same_ident_refl [simp]: "same_ident k k"
  by (simp add: same_ident_def)

lemma same_ident_trans: "same_ident a b \<Longrightarrow> same_ident b c \<Longrightarrow> same_ident a c"
  by (simp add: same_ident_def)

lemma same_ident_cwnd_inc [simp]: "same_ident k (tcp_cwnd_inc k)"
  by (simp add: same_ident_def tcp_cwnd_inc_def Let_def)

lemma ack_pop_spec:
  "ack_pop ack bs k = (k', buf) \<Longrightarrow> sk_send_buf k = bs @ cs \<Longrightarrow>
     sk_send_buf k' = unacked ack bs @ cs \<and> sk_inflight k' = sk_inflight k - int (length (acked ack bs)) \<and>
     sk_snd_una k' = (if acked ack bs = [] then sk_snd_una k else sb_seq_end (last (acked ack bs))) \<and>
     buf = (case unacked ack bs of [] \<Rightarrow> None | b # _ \<Rightarrow> Some b) \<and> sk_cgt k' = sk_cgt k \<and>
     sk_rep_ack k' = sk_rep_ack k \<and> sk_recovery_point k' = sk_recovery_point k \<and> same_ident k k'"
proof (induction ack bs k rule: ack_pop.induct)
  case (2 ack b bs k)
  show ?case
  proof (cases "sb_seq_end b > ack")
    case True
    with 2 show ?thesis by (auto simp: acked_def unacked_def not_le)
  next
    case False
    let ?k = "tcp_cwnd_inc (tcp_pop_sendbuf (k\<lparr>sk_snd_una := sb_seq_end b\<rparr>))"
    have r: "sk_rep_ack ?k = sk_rep_ack k" "same_ident k ?k"
      by (simp_all add: tcp_cwnd_inc_def Let_def tcp_pop_sendbuf_def same_ident_def)
    have "ack_pop ack bs ?k = (k', buf)" using False 2(2) by simp
    moreover have "sk_send_buf ?k = bs @ cs" using 2(3) by simp
    ultimately show ?thesis using 2(1)[OF False] False r
      by (auto simp: acked_def unacked_def not_less last_def takeWhile_eq_Nil_iff intro: same_ident_trans)
  qed
qed (auto simp: acked_def unacked_def)

lemma rcvr_dup_ack_simps [simp]:
  "same_ident k (rcvr_dup_ack k)" "sk_send_buf (rcvr_dup_ack k) = sk_send_buf k"
  "sk_inflight (rcvr_dup_ack k) = sk_inflight k" "sk_snd_una (rcvr_dup_ack k) = sk_snd_una k"
  "sk_cgt (rcvr_dup_ack k) = sk_cgt k"
  by (simp_all add: rcvr_dup_ack_def same_ident_def Let_def)

lemma update_window_safe_simps [simp]:
  "same_ident k (tcp_update_window_safe cb k)" "sk_send_buf (tcp_update_window_safe cb k) = sk_send_buf k"
  "sk_inflight (tcp_update_window_safe cb k) = sk_inflight k"
  "sk_snd_una (tcp_update_window_safe cb k) = sk_snd_una k" "sk_cgt (tcp_update_window_safe cb k) = sk_cgt k"
  "sk_cwnd (tcp_update_window_safe cb k) = sk_cwnd k"
  by (simp_all add: tcp_update_window_safe_def tcp_update_window_def same_ident_def Let_def)

text \<open>A queue entry long enough for the IP layer, as every entry a socket queues is.\<close>

definition sb_ok :: "tcp_sock \<Rightarrow> bool" where
  "sb_ok k \<longleftrightarrow> (\<forall>b\<in>set (sk_send_buf k). 34 \<le> length (sb_packet b))"

lemma tcp_dup_ack_frame:
  assumes "t_socks s i = Some k" "sb_ok k"
  shows "\<exists>n k'. tcp_dup_ack i k s = Some ((put_sk i k' s)\<lparr>t_net := n\<rparr>) \<and> same_ident k k' \<and>
    sk_send_buf k' = sk_send_buf k \<and> sk_inflight k' = sk_inflight k \<and> sk_snd_una k' = sk_snd_una k"
proof (cases "sk_cgt k = OPEN \<and> sk_rep_ack k + 1 > 2 \<and> sk_send_buf k \<noteq> []")
  case True
  then obtain b bs where b: "sk_send_buf k = b # bs" by (cases "sk_send_buf k") auto
  then have "34 \<le> length (sb_packet b)" using assms(2) by (simp add: sb_ok_def)
  from retransmit_total[OF this, of s] obtain n where n: "tcp_retransmit (sb_packet b) s = Some (s\<lparr>t_net := n\<rparr>)" ..
  let ?k = "k\<lparr>sk_rep_ack := sk_rep_ack k + 1, sk_cgt := RCVR, sk_ssthresh := (sk_cwnd k + 1) div 2, sk_recovery_point := sk_snd_nxt k\<rparr>"
  have "same_ident k ?k" by (simp add: same_ident_def)
  then have "same_ident k (rcvr_dup_ack ?k)" by (rule same_ident_trans) simp
  moreover have "tcp_dup_ack i k s = Some ((put_sk i (rcvr_dup_ack ?k) s)\<lparr>t_net := n\<rparr>)"
    using True b n by (simp add: tcp_dup_ack_def Let_def put_sk_def)
  ultimately show ?thesis by (intro exI[of _ n] exI[of _ "rcvr_dup_ack ?k"]) simp
next
  case False
  let ?r = "k\<lparr>sk_rep_ack := sk_rep_ack k + 1\<rparr>"
  let ?q = "?r\<lparr>sk_cgt := RCVR, sk_ssthresh := (sk_cwnd k + 1) div 2, sk_recovery_point := sk_snd_nxt k\<rparr>"
  have i: "same_ident k ?r" "same_ident k ?q" by (simp_all add: same_ident_def)
  have j: "same_ident k (rcvr_dup_ack ?r)" "same_ident k (rcvr_dup_ack ?q)"
    by (rule same_ident_trans[OF i(1)], simp) (rule same_ident_trans[OF i(2)], simp)
  have t: "put_sk i k' s = (put_sk i k' s)\<lparr>t_net := t_net s\<rparr>" for k' by (simp add: put_sk_def)
  have "tcp_dup_ack i k s = Some (put_sk i ?r s) \<or> tcp_dup_ack i k s = Some (put_sk i (rcvr_dup_ack ?r) s) \<or>
      tcp_dup_ack i k s = Some (put_sk i (rcvr_dup_ack ?q) s)"
  proof (cases "sk_cgt k")
    case OPEN
    show ?thesis
    proof (cases "2 \<le> sk_rep_ack k")
      case True
      with OPEN False have "sk_send_buf k = []" by simp
      with OPEN True show ?thesis by (simp add: tcp_dup_ack_def Let_def)
    qed (simp add: tcp_dup_ack_def Let_def OPEN)
  qed (simp_all add: tcp_dup_ack_def Let_def)
  then consider (a) "tcp_dup_ack i k s = Some (put_sk i ?r s)"
    | (b) "tcp_dup_ack i k s = Some (put_sk i (rcvr_dup_ack ?r) s)"
    | (c) "tcp_dup_ack i k s = Some (put_sk i (rcvr_dup_ack ?q) s)" by blast
  then show ?thesis
  proof cases
    case a with i t show ?thesis by (intro exI[of _ "t_net s"] exI[of _ ?r]) simp
  next
    case b with j t show ?thesis by (intro exI[of _ "t_net s"] exI[of _ "rcvr_dup_ack ?r"]) simp
  next
    case c with j t show ?thesis by (intro exI[of _ "t_net s"] exI[of _ "rcvr_dup_ack ?q"]) simp
  qed
qed

text \<open>A new acknowledgement is undefined in exactly one situation: recovery has not reached its
  point, yet no sent packet is left to send again.\<close>

definition wild_retransmit :: "u32 \<Rightarrow> tcp_sock \<Rightarrow> bool" where
  "wild_retransmit ack k \<longleftrightarrow> sk_cgt k = RCVR \<and> \<not> less_or_equal_32b (sk_recovery_point k) ack \<and>
     unacked ack (sk_send_buf k) = []"

text \<open>The socket after the packets up to \<open>ack\<close> left the queue.\<close>

definition acked_to :: "u32 \<Rightarrow> tcp_sock \<Rightarrow> tcp_sock \<Rightarrow> bool" where
  "acked_to ack k k' \<longleftrightarrow> same_ident k k' \<and> sk_send_buf k' = unacked ack (sk_send_buf k) \<and>
     sk_inflight k' = sk_inflight k - int (length (acked ack (sk_send_buf k))) \<and>
     sk_snd_una k' = (if acked ack (sk_send_buf k) = [] then sk_snd_una k
       else sb_seq_end (last (acked ack (sk_send_buf k))))"

lemma tcp_new_ack_frame:
  assumes "t_socks s i = Some k" "sb_ok k"
  shows "if wild_retransmit ack k then tcp_new_ack i ack k s = None
    else \<exists>n k'. tcp_new_ack i ack k s = Some ((put_sk i k' s)\<lparr>t_net := n\<rparr>) \<and> acked_to ack k k'"
proof -
  let ?k0 = "k\<lparr>sk_rep_ack := 0\<rparr>"
  obtain k1 buf where r: "ack_pop ack (sk_send_buf k) ?k0 = (k1, buf)" by (cases "ack_pop ack (sk_send_buf k) ?k0")
  have id0: "same_ident k ?k0" by (simp add: same_ident_def)
  note p = ack_pop_spec[OF r, of "[]", simplified]
  have id1: "same_ident k k1" using id0 p same_ident_trans by blast
  then have a: "acked_to ack k k1" using p by (simp add: acked_to_def)
  have "same_ident k (k1\<lparr>sk_cgt := OPEN\<rparr>)" using id1 by (simp add: same_ident_def)
  then have ao: "acked_to ack k (k1\<lparr>sk_cgt := OPEN\<rparr>)" using p by (simp add: acked_to_def)
  have t: "put_sk i k' s = (put_sk i k' s)\<lparr>t_net := t_net s\<rparr>" for k' by (simp add: put_sk_def)
  show ?thesis
  proof (cases "sk_cgt k = RCVR \<and> \<not> less_or_equal_32b (sk_recovery_point k) ack")
    case False
    then have "\<not> wild_retransmit ack k" by (auto simp: wild_retransmit_def)
    moreover have "tcp_new_ack i ack k s = Some (put_sk i k1 s) \<or> tcp_new_ack i ack k s = Some (put_sk i (k1\<lparr>sk_cgt := OPEN\<rparr>) s)"
      using False p by (cases "sk_cgt k") (auto simp: tcp_new_ack_def r Let_def)
    ultimately show ?thesis using a ao t by metis
  next
    case True
    show ?thesis
    proof (cases "unacked ack (sk_send_buf k)")
      case Nil
      with True p show ?thesis by (simp add: wild_retransmit_def tcp_new_ack_def r Let_def)
    next
      case (Cons b bs)
      have "set (unacked ack (sk_send_buf k)) \<subseteq> set (sk_send_buf k)"
        unfolding unacked_def by (meson set_dropWhileD subsetI)
      then have "b \<in> set (sk_send_buf k)" using Cons by auto
      then have "34 \<le> length (sb_packet b)" using assms(2) by (simp add: sb_ok_def)
      from retransmit_total[OF this, of s] obtain n where n: "tcp_retransmit (sb_packet b) s = Some (s\<lparr>t_net := n\<rparr>)" ..
      have "tcp_new_ack i ack k s = Some (put_sk i k1 (s\<lparr>t_net := n\<rparr>))"
        using True p Cons n by (simp add: tcp_new_ack_def r Let_def)
      moreover have "put_sk i k1 (s\<lparr>t_net := n\<rparr>) = (put_sk i k1 s)\<lparr>t_net := n\<rparr>" by (simp add: put_sk_def)
      moreover have "\<not> wild_retransmit ack k" using Cons by (simp add: wild_retransmit_def)
      ultimately show ?thesis using a by auto
    qed
  qed
qed

text \<open>Both cases together, with the window update that follows.\<close>

lemma tcp_process_ack_frame:
  assumes "t_socks s i = Some k" "sb_ok k"
  shows "if cb_ack cb \<noteq> sk_snd_una k \<and> wild_retransmit (cb_ack cb) k then tcp_process_ack i cb s = None
    else \<exists>n k'. tcp_process_ack i cb s = Some ((put_sk i k' s)\<lparr>t_net := n\<rparr>) \<and> same_ident k k' \<and>
      (if cb_ack cb = sk_snd_una k
       then sk_send_buf k' = sk_send_buf k \<and> sk_inflight k' = sk_inflight k \<and> sk_snd_una k' = sk_snd_una k
       else acked_to (cb_ack cb) k k')"
proof (cases "cb_ack cb = sk_snd_una k")
  case True
  obtain n k' where d: "tcp_dup_ack i k s = Some ((put_sk i k' s)\<lparr>t_net := n\<rparr>)" "same_ident k k'"
    "sk_send_buf k' = sk_send_buf k" "sk_inflight k' = sk_inflight k" "sk_snd_una k' = sk_snd_una k"
    using tcp_dup_ack_frame[OF assms] by blast
  let ?k = "tcp_update_window_safe cb k'"
  have "upd_sk i (tcp_update_window_safe cb) ((put_sk i k' s)\<lparr>t_net := n\<rparr>) = Some ((put_sk i ?k s)\<lparr>t_net := n\<rparr>)"
    by (simp add: put_sk_def upd_sk_def)
  moreover have "same_ident k ?k" using d(2) by (rule same_ident_trans) simp
  ultimately show ?thesis using True assms(1) d
    by (auto simp: tcp_process_ack_def intro!: exI[of _ n] exI[of _ ?k])
next
  case False
  show ?thesis
  proof (cases "wild_retransmit (cb_ack cb) k")
    case True
    with False assms show ?thesis using tcp_new_ack_frame[OF assms, of "cb_ack cb"]
      by (simp add: tcp_process_ack_def)
  next
    case nw: False
    then obtain n k' where d: "tcp_new_ack i (cb_ack cb) k s = Some ((put_sk i k' s)\<lparr>t_net := n\<rparr>)" "acked_to (cb_ack cb) k k'"
      using tcp_new_ack_frame[OF assms, of "cb_ack cb"] by auto
    let ?k = "tcp_update_window_safe cb k'"
    have "upd_sk i (tcp_update_window_safe cb) ((put_sk i k' s)\<lparr>t_net := n\<rparr>) = Some ((put_sk i ?k s)\<lparr>t_net := n\<rparr>)"
      by (simp add: put_sk_def upd_sk_def)
    moreover have "same_ident k k'" using d(2) by (simp add: acked_to_def)
    then have "same_ident k ?k" by (rule same_ident_trans) simp
    moreover from this d(2) have "acked_to (cb_ack cb) k ?k" by (simp add: acked_to_def)
    ultimately show ?thesis using False nw assms(1) d(1)
      by (auto simp: tcp_process_ack_def intro!: exI[of _ n] exI[of _ ?k])
  qed
qed


section \<open>Properties\<close>

text \<open>Property C8. A cumulative acknowledgement pops exactly the packets that end at or before it, in
  order: the unacknowledged rest stays queued, \<open>inflight\<close> keeps counting the queue, \<open>snd_una\<close>
  moves to the end of the last packet popped, and nothing outside the socket changes except the
  network.\<close>

theorem tcp_process_ack_pops_acked:
  assumes "t_socks s i = Some k" "sb_ok k" "sk_inflight k = int (length (sk_send_buf k))"
    and "cb_ack cb \<noteq> sk_snd_una k" "\<not> wild_retransmit (cb_ack cb) k"
  shows "\<exists>n k' gone. tcp_process_ack i cb s = Some ((put_sk i k' s)\<lparr>t_net := n\<rparr>) \<and>
    sk_send_buf k = gone @ sk_send_buf k' \<and> (\<forall>b\<in>set gone. sb_seq_end b \<le> cb_ack cb) \<and>
    (sk_send_buf k' = [] \<or> cb_ack cb < sb_seq_end (hd (sk_send_buf k'))) \<and>
    sk_inflight k' = int (length (sk_send_buf k')) \<and>
    sk_snd_una k' = (if gone = [] then sk_snd_una k else sb_seq_end (last gone)) \<and>
    sk_state k' = sk_state k \<and> sk_snd_nxt k' = sk_snd_nxt k \<and> sk_rcv_nxt k' = sk_rcv_nxt k"
proof -
  let ?a = "cb_ack cb" and ?bs = "sk_send_buf k"
  obtain n k' where r: "tcp_process_ack i cb s = Some ((put_sk i k' s)\<lparr>t_net := n\<rparr>)" and a: "acked_to ?a k k'"
    using tcp_process_ack_frame[OF assms(1,2), of cb] assms(4,5) by auto
  have sb: "sk_send_buf k' = unacked ?a ?bs" using a by (simp add: acked_to_def)
  have split: "?bs = acked ?a ?bs @ unacked ?a ?bs" by (simp add: acked_def unacked_def)
  have all: "\<forall>b\<in>set (acked ?a ?bs). sb_seq_end b \<le> ?a" by (auto simp: acked_def dest: set_takeWhileD)
  have hd: "unacked ?a ?bs = [] \<or> ?a < sb_seq_end (hd (unacked ?a ?bs))"
    unfolding unacked_def by (metis hd_dropWhile not_le)
  have "length ?bs = length (acked ?a ?bs) + length (unacked ?a ?bs)" using split length_append by metis
  then have infl: "sk_inflight k' = int (length (sk_send_buf k'))" using a assms(3) sb by (simp add: acked_to_def)
  have "same_ident k k'" using a by (simp add: acked_to_def)
  then have id: "sk_state k' = sk_state k" "sk_snd_nxt k' = sk_snd_nxt k" "sk_rcv_nxt k' = sk_rcv_nxt k"
    by (simp_all add: same_ident_def)
  have una: "sk_snd_una k' = (if acked ?a ?bs = [] then sk_snd_una k else sb_seq_end (last (acked ?a ?bs)))"
    using a by (simp add: acked_to_def)
  have "?bs = acked ?a ?bs @ sk_send_buf k'" using split sb by simp
  then show ?thesis using r all hd infl id una unfolding sb[symmetric] by blast
qed

text \<open>A socket with two packets in flight, ending at 10 and 20.\<close>

definition two_in_flight :: tcp_sock where
  "two_in_flight = fresh_sock\<lparr>sk_state := TCP_ESTABLISHED, sk_snd_nxt := 20, sk_inflight := 2,
     sk_send_buf := [sent_buffer (replicate 54 0) 10, sent_buffer (replicate 54 0) 20]\<rparr>"

lemma two_in_flight_simps [simp]: "sk_send_buf two_in_flight = [sent_buffer (replicate 54 0) 10, sent_buffer (replicate 54 0) 20]"
  "sk_inflight two_in_flight = 2" "sk_snd_una two_in_flight = 0" "sk_cgt two_in_flight = OPEN" "sb_ok two_in_flight"
  "sk_cwnd two_in_flight = 1" "sk_snd_nxt two_in_flight = 20"
  by (simp_all add: two_in_flight_def sb_ok_def sent_buffer_def fresh_sock_def)

definition ack_cb :: "u32 \<Rightarrow> tcp_cb" where
  "ack_cb a = \<lparr> cb_saddr = 0, cb_daddr = 0, cb_sport = 0, cb_dport = 0, cb_seq = 0, cb_seq_end = 0, cb_ack = a,
     cb_rwnd = 65535, cb_flags = TCP_ACK, cb_payload = 54, cb_pl_len = 0 \<rparr>"

lemma ack_cb_ack [simp]: "cb_ack (ack_cb a) = a" by (simp add: ack_cb_def)

theorem tcp_process_ack_pops_acked_witness:
  "\<exists>n k' gone. tcp_process_ack 0 (ack_cb 10) (one_sock two_in_flight) =
      Some ((put_sk 0 k' (one_sock two_in_flight))\<lparr>t_net := n\<rparr>) \<and> sk_send_buf two_in_flight = gone @ sk_send_buf k'"
proof -
  have "sk_inflight two_in_flight = int (length (sk_send_buf two_in_flight))"
    "cb_ack (ack_cb 10) \<noteq> sk_snd_una two_in_flight" "\<not> wild_retransmit (cb_ack (ack_cb 10)) two_in_flight"
    by (simp_all add: wild_retransmit_def)
  from tcp_process_ack_pops_acked[OF one_sock_simps(1) two_in_flight_simps(5) this] show ?thesis by blast
qed

text \<open>Processing an acknowledgement is undefined in exactly one case: in fast recovery, an
  acknowledgement other than \<open>snd_una\<close> that has not reached the recovery point although nothing
  sent is left unacknowledged makes the code send again through the loop variable, which then
  points into the list head instead of a packet.\<close>

theorem tcp_process_ack_undefined_iff:
  assumes "t_socks s i = Some k" "sb_ok k"
  shows "tcp_process_ack i cb s = None \<longleftrightarrow>
    cb_ack cb \<noteq> sk_snd_una k \<and> sk_cgt k = RCVR \<and> \<not> less_or_equal_32b (sk_recovery_point k) (cb_ack cb) \<and>
    (\<forall>b\<in>set (sk_send_buf k). sb_seq_end b \<le> cb_ack cb)"
proof -
  have "tcp_process_ack i cb s = None \<longleftrightarrow> cb_ack cb \<noteq> sk_snd_una k \<and> wild_retransmit (cb_ack cb) k"
    using tcp_process_ack_frame[OF assms, of cb] by (auto split: if_splits)
  then show ?thesis by (simp add: wild_retransmit_def unacked_def dropWhile_eq_Nil_conv)
qed

text \<open>A server that only receives enters recovery after three data segments, all acknowledging
  \<open>snd_una\<close>; an old acknowledgement arriving late then hits the undefined case.\<close>

definition idle_in_recovery :: tcp_sock where
  "idle_in_recovery = fresh_sock\<lparr>sk_state := TCP_ESTABLISHED, sk_snd_una := 5, sk_snd_nxt := 5,
     sk_cgt := RCVR, sk_recovery_point := 5\<rparr>"

theorem tcp_process_ack_undefined_iff_witness:
  "tcp_process_ack 0 (ack_cb 4) (one_sock idle_in_recovery) = None"
proof -
  have "sb_ok idle_in_recovery" by (simp add: sb_ok_def idle_in_recovery_def)
  from tcp_process_ack_undefined_iff[OF one_sock_simps(1) this, of "ack_cb 4"] show ?thesis
    by (simp add: idle_in_recovery_def less_or_equal_32b_def)
qed


section \<open>Congestion control\<close>

lemma cwnd_inc_bounds:
  assumes "unat (sk_cwnd k) + 1 < 2 ^ 32"
  shows "sk_cwnd k \<le> sk_cwnd (tcp_cwnd_inc k)" "unat (sk_cwnd (tcp_cwnd_inc k)) \<le> unat (sk_cwnd k) + 1"
proof -
  have u: "unat (sk_cwnd k + 1) = unat (sk_cwnd k) + 1"
    using assms by (subst unat_add_lem[THEN iffD1]) simp_all
  then show "sk_cwnd k \<le> sk_cwnd (tcp_cwnd_inc k)" "unat (sk_cwnd (tcp_cwnd_inc k)) \<le> unat (sk_cwnd k) + 1"
    by (simp_all add: tcp_cwnd_inc_def Let_def word_le_nat_alt)
qed

lemma ack_pop_cwnd:
  "ack_pop ack bs k = (k', buf) \<Longrightarrow> unat (sk_cwnd k) + length bs < 2 ^ 32 \<Longrightarrow>
     sk_cwnd k \<le> sk_cwnd k' \<and> unat (sk_cwnd k') \<le> unat (sk_cwnd k) + length (acked ack bs) \<and>
     (sk_cgt k = OPEN \<and> unat (sk_cwnd k) + length (acked ack bs) \<le> unat (sk_ssthresh k) \<longrightarrow>
        unat (sk_cwnd k') = unat (sk_cwnd k) + length (acked ack bs)) \<and> sk_ssthresh k' = sk_ssthresh k"
proof (induction ack bs k rule: ack_pop.induct)
  case (2 ack b bs k)
  show ?case
  proof (cases "sb_seq_end b > ack")
    case True
    with 2(2) show ?thesis by (auto simp: acked_def)
  next
    case False
    define h where "h = tcp_pop_sendbuf (k\<lparr>sk_snd_una := sb_seq_end b\<rparr>)"
    have h: "sk_cwnd h = sk_cwnd k" "sk_cgt h = sk_cgt k" "sk_ssthresh h = sk_ssthresh k" by (simp_all add: h_def)
    have le: "unat (sk_cwnd h) + 1 < 2 ^ 32" using 2(3) h by simp
    note inc = cwnd_inc_bounds[OF le]
    have p: "ack_pop ack bs (tcp_cwnd_inc h) = (k', buf)" using 2(2) False by (simp add: h_def)
    have lt: "unat (sk_cwnd (tcp_cwnd_inc h)) + length bs < 2 ^ 32" using inc(2) 2(3) h by simp
    note ih = 2(1)[OF False, folded h_def, OF p lt]
    have slow: "unat (sk_cwnd (tcp_cwnd_inc h)) = unat (sk_cwnd k) + 1"
      if "sk_cgt k = OPEN" "unat (sk_cwnd k) + 1 \<le> unat (sk_ssthresh k)"
    proof -
      have "sk_cwnd h < sk_ssthresh h" using that h by (simp add: word_less_nat_alt)
      then show ?thesis using that h le by (simp add: tcp_cwnd_inc_def) (subst unat_add_lem[THEN iffD1]; simp)
    qed
    have len: "length (acked ack (b # bs)) = Suc (length (acked ack bs))" using False by (simp add: acked_def not_less)
    show ?thesis unfolding len using ih inc slow h by (auto intro: order_trans)
  qed
qed (auto simp: acked_def)

lemma rcvr_dup_ack_cwnd: "1 \<le> sk_cwnd k \<Longrightarrow> 1 \<le> sk_cwnd (rcvr_dup_ack k) \<and> sk_cwnd (rcvr_dup_ack k) \<le> sk_cwnd k"
proof -
  assume "1 \<le> sk_cwnd k"
  then have "1 \<le> unat (sk_cwnd k)" by (simp add: word_le_nat_alt)
  then have "unat (sk_cwnd k - 1) = unat (sk_cwnd k) - 1" by (subst unat_sub) (simp_all add: word_le_nat_alt)
  then show ?thesis using \<open>1 \<le> unat (sk_cwnd k)\<close>
    by (auto simp: rcvr_dup_ack_def Let_def word_le_nat_alt word_less_nat_alt)
qed


lemma tcp_retransmit_net: "tcp_retransmit p s = Some t \<Longrightarrow> t_socks t = t_socks s"
  by (auto simp: tcp_retransmit_def on_net_def split: Option.bind_splits)

lemma tcp_dup_ack_cwnd:
  assumes "tcp_dup_ack i k s = Some t" "1 \<le> sk_cwnd k"
  shows "\<exists>k'. t_socks t i = Some k' \<and> 1 \<le> sk_cwnd k' \<and> sk_cwnd k' \<le> sk_cwnd k"
proof -
  have r: "1 \<le> sk_cwnd (rcvr_dup_ack q) \<and> sk_cwnd (rcvr_dup_ack q) \<le> sk_cwnd k" if "sk_cwnd q = sk_cwnd k" for q
    using rcvr_dup_ack_cwnd[of q] that assms(2) by simp
  show ?thesis
  proof (cases "sk_cgt k")
    case OPEN
    with assms(1) show ?thesis using assms(2)
      by (auto simp: tcp_dup_ack_def Let_def r split: if_splits Option.bind_splits)
  next
    case RCVR
    with assms(1) have "t = put_sk i (rcvr_dup_ack (k\<lparr>sk_rep_ack := sk_rep_ack k + 1\<rparr>)) s"
      by (simp add: tcp_dup_ack_def Let_def)
    then show ?thesis by (simp add: r)
  next
    case LOSS
    with assms(1) have "t = put_sk i (k\<lparr>sk_rep_ack := sk_rep_ack k + 1\<rparr>) s"
      by (simp add: tcp_dup_ack_def Let_def)
    then show ?thesis by (simp add: assms(2))
  qed
qed

lemma tcp_new_ack_cwnd:
  assumes "tcp_new_ack i ack k s = Some t" "unat (sk_cwnd k) + length (sk_send_buf k) < 2 ^ 32"
  shows "\<exists>k'. t_socks t i = Some k' \<and> sk_cwnd k \<le> sk_cwnd k' \<and>
    unat (sk_cwnd k') \<le> unat (sk_cwnd k) + length (acked ack (sk_send_buf k)) \<and>
    (sk_cgt k = OPEN \<and> unat (sk_cwnd k) + length (acked ack (sk_send_buf k)) \<le> unat (sk_ssthresh k) \<longrightarrow>
        unat (sk_cwnd k') = unat (sk_cwnd k) + length (acked ack (sk_send_buf k)))"
proof -
  obtain k1 buf where r: "ack_pop ack (sk_send_buf k) (k\<lparr>sk_rep_ack := 0\<rparr>) = (k1, buf)"
    by (cases "ack_pop ack (sk_send_buf k) (k\<lparr>sk_rep_ack := 0\<rparr>)")
  have "unat (sk_cwnd (k\<lparr>sk_rep_ack := 0\<rparr>)) + length (sk_send_buf k) < 2 ^ 32" using assms(2) by simp
  note c = ack_pop_cwnd[OF r this, simplified]
  have "\<exists>k'. t_socks t i = Some k' \<and> sk_cwnd k' = sk_cwnd k1"
    using assms(1) by (cases "sk_cgt k1")
      (auto simp: tcp_new_ack_def r Let_def split: if_splits Option.bind_splits)
  then show ?thesis using c by auto
qed



end
