(* ===== verification/Tcp_App.thy ===== *)
theory Tcp_App
  imports Tcp_In
begin

text \<open>
  The calls of an application (\<open>tcp_sock.c\<close> of prj14): connect, accept, close, read and write. Each
  call that can sleep is a program point with a step function, cut where another thread can run:
  between releasing the buffer lock and \<open>sleep_on\<close>, and inside \<open>pthread_cond_wait\<close>. A sleeping
  call goes on by its resume function once it has been signalled.
\<close>

section \<open>Connecting\<close>

datatype cn_pc = CnSleep addr | CnWoken addr | CnDone int

text \<open>The source address is that of the first interface of the list.\<close>

definition tcp_sock_connect :: "addr \<Rightarrow> u32 \<Rightarrow> u16 \<Rightarrow> tcp \<Rightarrow> (cn_pc \<times> tcp) option" where
  "tcp_sock_connect i nip nport s = do {
     f \<leftarrow> (case n_ifaces (t_net s) of [] \<Rightarrow> None | f # _ \<Rightarrow> Some f);
     s \<leftarrow> upd_sk i (\<lambda>k. k\<lparr>sk_dip := htonl nip, sk_dport := htons nport, sk_sip := if_ip f\<rparr>) s;
     (r, s) \<leftarrow> tcp_sock_set_sport i 0 s;
     if r < 0 then Some (CnDone (-1), s) else do {
       let (iss, s) = tcp_new_iss s;
       s \<leftarrow> upd_sk i (\<lambda>k. k\<lparr>sk_iss := iss, sk_snd_nxt := iss\<rparr>) s;
       s \<leftarrow> tcp_set_state i TCP_SYN_SENT s;
       (r, s) \<leftarrow> tcp_hash i s;
       s \<leftarrow> tcp_send_control_packet i TCP_SYN s;
       k \<leftarrow> t_socks s i;
       (case sleep_on_enter (sk_wait_connect k) of
          (Waiting, w) \<Rightarrow> Some (CnSleep i, put_sk i (k\<lparr>sk_wait_connect := w\<rparr>) s)
        | (Returned _, w) \<Rightarrow> Some (CnWoken i, put_sk i (k\<lparr>sk_wait_connect := w\<rparr>) s)) } }"

text \<open>The rest of the call, after \<open>sleep_on\<close> returned.\<close>

definition connect_finish :: "addr \<Rightarrow> tcp \<Rightarrow> (cn_pc \<times> tcp) option" where
  "connect_finish i s = do {
     s \<leftarrow> tcp_set_state i TCP_ESTABLISHED s;
     s \<leftarrow> tcp_send_control_packet i TCP_ACK s;
     Some (CnDone 0, s) }"

fun connect_resume :: "cn_pc \<Rightarrow> tcp \<Rightarrow> (cn_pc \<times> tcp) option" where
  "connect_resume (CnSleep i) s = do {
     s \<leftarrow> upd_sk i (\<lambda>k. k\<lparr>sk_wait_connect := snd (sleep_on_resume (sk_wait_connect k))\<rparr>) s;
     Some (CnWoken i, s) }"
| "connect_resume (CnWoken i) s = connect_finish i s"
| "connect_resume (CnDone r) s = Some (CnDone r, s)"

section \<open>Accepting\<close>

datatype ac_pc = AcHead addr | AcWait addr | AcSleep addr | AcDone addr

fun accept_step :: "ac_pc \<Rightarrow> tcp \<Rightarrow> (ac_pc \<times> tcp) option" where
  "accept_step (AcHead i) s = do {
     k \<leftarrow> t_socks s i;
     if sk_accept_queue k = [] then Some (AcWait i, s)
     else do { (j, s) \<leftarrow> tcp_sock_accept_dequeue i s; Some (AcDone j, s) } }"
| "accept_step (AcWait i) s = do {
     k \<leftarrow> t_socks s i;
     (case sleep_on_enter (sk_wait_accept k) of
        (Waiting, w) \<Rightarrow> Some (AcSleep i, put_sk i (k\<lparr>sk_wait_accept := w\<rparr>) s)
      | (Returned _, w) \<Rightarrow> Some (AcHead i, put_sk i (k\<lparr>sk_wait_accept := w\<rparr>) s)) }"
| "accept_step pc s = Some (pc, s)"

definition tcp_sock_accept :: "addr \<Rightarrow> ac_pc" where
  "tcp_sock_accept i = AcHead i"

section \<open>Closing\<close>

definition tcp_sock_close :: "addr \<Rightarrow> tcp \<Rightarrow> tcp option" where
  "tcp_sock_close i s = do {
     k \<leftarrow> t_socks s i;
     if sk_state k = TCP_ESTABLISHED then do {
       s \<leftarrow> tcp_set_state i TCP_FIN_WAIT_1 s;
       tcp_send_control_packet i TCP_FIN s }
     else if sk_state k = TCP_CLOSE_WAIT then do {
       s \<leftarrow> tcp_set_state i TCP_LAST_ACK s;
       tcp_send_control_packet i TCP_FIN s }
     else Some s }"

section \<open>Reading\<close>

text \<open>\<open>RdSpin\<close> is the busy wait until the packet thread no longer sleeps on \<open>wait_recv\<close>. The number
  \<open>read_ring_buffer\<close> returns, also for a negative \<open>len\<close>, is what the window grows by.\<close>

datatype rd_pc = RdHead addr int | RdWait addr int | RdSleep addr int | RdSpin addr bytes | RdDone bytes

fun read_step :: "rd_pc \<Rightarrow> tcp \<Rightarrow> (rd_pc \<times> tcp) option" where
  "read_step (RdHead i len) s = do {
     k \<leftarrow> t_socks s i;
     if ring_buffer_empty (sk_rcv_buf k) then Some (RdWait i len, s)
     else do {
       (res, rb) \<leftarrow> read_ring_buffer (sk_rcv_buf k) len;
       Some (RdSpin i res, put_sk i (k\<lparr>sk_rcv_buf := rb, sk_rcv_wnd := sk_rcv_wnd k + of_int (min (ring_buffer_used (sk_rcv_buf k)) len)\<rparr>) s) } }"
| "read_step (RdWait i len) s = do {
     k \<leftarrow> t_socks s i;
     (case sleep_on_enter (sk_wait_read k) of
        (Waiting, w) \<Rightarrow> Some (RdSleep i len, put_sk i (k\<lparr>sk_wait_read := w\<rparr>) s)
      | (Returned _, w) \<Rightarrow> Some (RdHead i len, put_sk i (k\<lparr>sk_wait_read := w\<rparr>) s)) }"
| "read_step (RdSpin i res) s = do {
     k \<leftarrow> t_socks s i;
     if sw_sleep (sk_wait_recv k) then Some (RdSpin i res, s)
     else Some (RdDone res, put_sk i (k\<lparr>sk_wait_recv := wake (sk_wait_recv k)\<rparr>) s) }"
| "read_step pc s = Some (pc, s)"

fun read_resume :: "rd_pc \<Rightarrow> tcp \<Rightarrow> (rd_pc \<times> tcp) option" where
  "read_resume (RdSleep i len) s = do {
     s \<leftarrow> upd_sk i (\<lambda>k. k\<lparr>sk_wait_read := snd (sleep_on_resume (sk_wait_read k))\<rparr>) s;
     Some (RdHead i len, s) }"
| "read_resume pc s = Some (pc, s)"

definition tcp_sock_read :: "addr \<Rightarrow> int \<Rightarrow> rd_pc" where
  "tcp_sock_read i len = RdHead i len"

section \<open>Writing\<close>

text \<open>\<open>strlen\<close> over the memory from \<open>buf\<close> on; without a terminator it runs out of the block.\<close>

definition c_strlen :: "bytes \<Rightarrow> int option" where
  "c_strlen p = (if 0 \<in> set p then Some (int (length (takeWhile (\<lambda>c. c \<noteq> 0) p))) else None)"

text \<open>The arguments of the program points: socket, memory of the caller's buffer, \<open>len\<close>, \<open>sent\<close>.\<close>

datatype wr_pc = WrHead addr bytes int int | WrCheck addr bytes int int | WrWait addr bytes int int
  | WrSleep addr bytes int int | WrDone int

text \<open>The headers of the freshly allocated packet are zero here; \<open>tcp_send_packet\<close> and the ARP layer
  overwrite all of them before the packet leaves.\<close>

fun write_step :: "wr_pc \<Rightarrow> tcp \<Rightarrow> (wr_pc \<times> tcp) option" where
  "write_step (WrHead i buf len sent) s =
     (if sent < len then do {
        sl \<leftarrow> c_strlen buf;
        let valid_len = min len sl - sent;
        let data_len = min (int MSS) valid_len;
        if data_len < 0 then None
        else do {
          d \<leftarrow> ld_bytes buf (nat sent) (nat data_len);
          s \<leftarrow> tcp_send_packet i (replicate (ETHER_HDR_SIZE + IP_BASE_HDR_SIZE + TCP_BASE_HDR_SIZE) 0 @ d) s;
          Some (WrCheck i buf len (sent + data_len), s) } }
      else Some (WrDone sent, s))"
| "write_step (WrCheck i buf len sent) s = do {
     k \<leftarrow> t_socks s i;
     Some (if sk_snd_wnd k < to_u32 (int MSS * sk_inflight k) then WrWait i buf len sent
       else WrHead i buf len sent, s) }"
| "write_step (WrWait i buf len sent) s = do {
     k \<leftarrow> t_socks s i;
     (case sleep_on_enter (sk_wait_send k) of
        (Waiting, w) \<Rightarrow> Some (WrSleep i buf len sent, put_sk i (k\<lparr>sk_wait_send := w\<rparr>) s)
      | (Returned _, w) \<Rightarrow> Some (WrCheck i buf len sent, put_sk i (k\<lparr>sk_wait_send := w\<rparr>) s)) }"
| "write_step pc s = Some (pc, s)"

fun write_resume :: "wr_pc \<Rightarrow> tcp \<Rightarrow> (wr_pc \<times> tcp) option" where
  "write_resume (WrSleep i buf len sent) s = do {
     s \<leftarrow> upd_sk i (\<lambda>k. k\<lparr>sk_wait_send := snd (sleep_on_resume (sk_wait_send k))\<rparr>) s;
     Some (WrCheck i buf len sent, s) }"
| "write_resume pc s = Some (pc, s)"

definition tcp_sock_write :: "addr \<Rightarrow> bytes \<Rightarrow> int \<Rightarrow> wr_pc" where
  "tcp_sock_write i buf len = WrHead i buf len 0"

end
