(* ===== verification/Tcp_States.thy ===== *)
theory Tcp_States
  imports Tcp_In
begin

text \<open>
  The state machine of a connection (prj14, \<open>tcp_process\<close>): which transitions one segment can cause,
  and that it changes the state of no other socket.
\<close>

section \<open>The states of all sockets\<close>

definition states :: "tcp \<Rightarrow> addr \<Rightarrow> tcp_state option" where
  "states s j = map_option sk_state (t_socks s j)"

lemma states_put [simp]: "states (put_sk i k s) = (states s)(i \<mapsto> sk_state k)"
  by (auto simp: states_def)

lemma states_upd_simps [simp]: "states (s\<lparr>t_net := n\<rparr>) = states s" "states (s\<lparr>t_timers := l\<rparr>) = states s"
  "states (s\<lparr>t_est := e\<rparr>) = states s" "states (s\<lparr>t_lis := e\<rparr>) = states s" "states (s\<lparr>t_bind := e\<rparr>) = states s"
  "states (s\<lparr>t_next := x\<rparr>) = states s"
  by (simp_all add: states_def fun_eq_iff)

lemma states_put_same: "t_socks s i = Some k \<Longrightarrow> sk_state k' = sk_state k \<Longrightarrow> (states s)(i \<mapsto> sk_state k') = states s"
  by (auto simp: states_def fun_eq_iff)

lemma states_upd_sk:
  "upd_sk i f s = Some t \<Longrightarrow> (\<And>k. sk_state (f k) = sk_state k) \<Longrightarrow> states t = states s"
  by (auto simp: upd_sk_def states_put_same split: Option.bind_splits)

named_theorems states_ops "what each operation does to the states of the sockets"

lemma states_set_state [states_ops]: "tcp_set_state i st s = Some t \<Longrightarrow> states t = (states s)(i \<mapsto> st)"
  by (auto simp: tcp_set_state_def upd_sk_def split: Option.bind_splits)

lemma states_on_net [states_ops]: "on_net f s = Some t \<Longrightarrow> states t = states s"
  by (auto simp: on_net_def split: Option.bind_splits)

lemma states_send_control [states_ops]: "tcp_send_control_packet i f s = Some t \<Longrightarrow> states t = states s"
proof -
  assume a: "tcp_send_control_packet i f s = Some t"
  then obtain k where k: "t_socks s i = Some k" by (auto simp: tcp_send_control_packet_def split: Option.bind_splits)
  have e: "states (put_sk i k' s) = states s" if "sk_state k' = sk_state k" for k'
    using states_put_same[OF k that] by simp
  from tcp_send_control_total[OF k, of f] obtain n where "t = (if f AND (TCP_SYN OR TCP_FIN) \<noteq> 0
      then put_sk i (k\<lparr>sk_snd_nxt := sk_snd_nxt k + 1,
          sk_send_buf := sk_send_buf k @ [sent_buffer (ctl_seg s k f) (sk_snd_nxt k + 1)],
          sk_inflight := sk_inflight k + 1\<rparr>) s else s)\<lparr>t_net := n\<rparr>" using a by (metis option.inject)
  then show ?thesis by (cases "f AND (TCP_SYN OR TCP_FIN) \<noteq> 0") (simp_all add: e del: states_put)
qed

lemma states_timewait [states_ops]: "tcp_set_timewait_timer i s = Some t \<Longrightarrow> states t = states s"
  by (auto simp: tcp_set_timewait_timer_def dest!: states_upd_sk split: Option.bind_splits if_splits)

lemma states_free:
  "free_tcp_sock i s = Some t \<Longrightarrow> states t = states s \<or> states t = (states s)(i := None)"
proof -
  assume a: "free_tcp_sock i s = Some t"
  then obtain s1 k where s1: "upd_sk i (\<lambda>k. k\<lparr>sk_ref_cnt := sk_ref_cnt k - 1\<rparr>) s = Some s1" "t_socks s1 i = Some k"
    by (auto simp: free_tcp_sock_def split: Option.bind_splits)
  have e: "states s1 = states s" using s1(1) by (rule states_upd_sk) simp
  show ?thesis
  proof (cases "sk_ref_cnt k \<le> 0")
    case False
    with a s1 e show ?thesis by (simp add: free_tcp_sock_def)
  next
    case True
    with a s1 obtain s2 where s2: "tcp_unset_retrans_timer i s1 = Some s2" "t = s2\<lparr>t_socks := (t_socks s2)(i := None)\<rparr>"
      by (auto simp: free_tcp_sock_def split: Option.bind_splits)
    have "states s2 = states s1" using s2(1)
      by (auto simp: tcp_unset_retrans_timer_def dest!: states_upd_sk split: if_splits)
    then have "states t = (states s)(i := None)" using s2(2) e by (auto simp: states_def fun_eq_iff)
    then show ?thesis ..
  qed
qed

lemma states_unhash: "tcp_unhash i s = Some t \<Longrightarrow> states t = states s \<or> states t = (states s)(i := None)"
proof -
  assume a: "tcp_unhash i s = Some t"
  then obtain k where k: "t_socks s i = Some k" by (auto simp: tcp_unhash_def split: Option.bind_splits)
  obtain s1 where "free_tcp_sock i (put_sk i (k\<lparr>sk_hash_link := Stale\<rparr>) s1) = Some t" "states s1 = states s"
    using a k by (auto simp: tcp_unhash_def Let_def split: if_splits)
  with states_free[OF this(1)] states_put_same[OF k refl] show ?thesis by simp
qed

lemma states_bind_unhash: "tcp_bind_unhash i s = Some t \<Longrightarrow> states t = states s \<or> states t = (states s)(i := None)"
proof -
  assume a: "tcp_bind_unhash i s = Some t"
  then obtain k where k: "t_socks s i = Some k" by (auto simp: tcp_bind_unhash_def split: Option.bind_splits)
  obtain s1 where "free_tcp_sock i (put_sk i (k\<lparr>sk_bind_link := Stale\<rparr>) s1) = Some t" "states s1 = states s"
    using a k by (auto simp: tcp_bind_unhash_def Let_def split: if_splits)
  with states_free[OF this(1)] states_put_same[OF k refl] show ?thesis by simp
qed

lemma states_hash [states_ops]: "tcp_hash i s = Some (r, t) \<Longrightarrow> states t = states s"
proof -
  assume a: "tcp_hash i s = Some (r, t)"
  then obtain k where k: "t_socks s i = Some k" by (auto simp: tcp_hash_def split: Option.bind_splits)
  show ?thesis using a k states_put_same[OF k refl]
    by (auto simp: tcp_hash_def Let_def split: if_splits Option.bind_splits simp del: fun_upd_apply)
qed

lemma states_wake [states_ops]:
  "wake_connect i s = Some t \<Longrightarrow> states t = states s" "wake_accept i s = Some t \<Longrightarrow> states t = states s"
  "wake_send i s = Some t \<Longrightarrow> states t = states s"
  unfolding wake_connect_def wake_accept_def wake_send_def by (rule states_upd_sk, assumption, simp)+

lemma states_leave_queue: "leave_queue i s = Some t \<Longrightarrow> states t = states s"
  unfolding leave_queue_def
  by (auto split: Option.bind_splits queue_link.splits dest: states_upd_sk)

lemma states_accept_enqueue [states_ops]: "tcp_sock_accept_enqueue i s = Some t \<Longrightarrow> states t = states s"
proof -
  assume a: "tcp_sock_accept_enqueue i s = Some t"
  obtain s1 where s1: "leave_queue i s = Some s1"
    using a by (cases "leave_queue i s") (simp_all add: tcp_sock_accept_enqueue_def)
  obtain k where k: "t_socks s1 i = Some k"
    using a unfolding tcp_sock_accept_enqueue_def s1 by (cases "t_socks s1 i") simp_all
  obtain p where p: "sk_parent k = Some p"
    using a unfolding tcp_sock_accept_enqueue_def s1 bind.bind_lunit k by (cases "sk_parent k") simp_all
  let ?s2 = "put_sk i (k\<lparr>sk_queue := OnAccept p\<rparr>) s1"
  have t: "upd_sk p (\<lambda>k. k\<lparr>sk_accept_queue := sk_accept_queue k @ [i], sk_accept_backlog := sk_accept_backlog k + 1\<rparr>) ?s2 = Some t"
    using a unfolding tcp_sock_accept_enqueue_def s1 bind.bind_lunit k p upd_sk_Some[OF k] by assumption
  have "states s1 = states s" using s1 by (rule states_leave_queue)
  moreover have "states ?s2 = states s1" using states_put_same[OF k refl] by simp
  moreover have "states t = states ?s2" using t by (rule states_upd_sk) simp
  ultimately show ?thesis by simp
qed

lemma states_dup_ack:
  assumes "t_socks s i = Some k" "tcp_dup_ack i k s = Some t" shows "states t = states s"
proof -
  have r: "sk_state (rcvr_dup_ack q) = sk_state q" for q by (simp add: rcvr_dup_ack_def Let_def)
  have p: "states (put_sk i k' s') = states s" if "sk_state k' = sk_state k" "states s' = states s" for k' s'
    using that states_put_same[OF assms(1) that(1)] by simp
  have rt: "states s' = states s" if "tcp_retransmit b s = Some s'" for b s'
    using that states_on_net by (simp add: tcp_retransmit_def)
  show ?thesis using assms(2)
    by (cases "sk_cgt k"; cases "sk_send_buf k")
      (auto simp: tcp_dup_ack_def Let_def r rt p simp del: states_put split: if_splits Option.bind_splits)
qed

lemma states_new_ack:
  assumes "t_socks s i = Some k" "tcp_new_ack i ack k s = Some t" shows "states t = states s"
proof -
  obtain k1 buf where r: "ack_pop ack (sk_send_buf k) (k\<lparr>sk_rep_ack := 0\<rparr>) = (k1, buf)"
    by (cases "ack_pop ack (sk_send_buf k) (k\<lparr>sk_rep_ack := 0\<rparr>)")
  have k1: "sk_state k1 = sk_state k" using ack_pop_spec[OF r, of "[]"] by (simp add: same_ident_def)
  have p: "states (put_sk i k' s') = states s" if "sk_state k' = sk_state k" "states s' = states s" for k' s'
    using that states_put_same[OF assms(1) that(1)] by simp
  have rt: "states s' = states s" if "tcp_retransmit b s = Some s'" for b s'
    using that states_on_net by (simp add: tcp_retransmit_def)
  show ?thesis using assms(2) k1
    by (cases "sk_cgt k1") (auto simp: tcp_new_ack_def r Let_def rt p simp del: states_put split: if_splits Option.bind_splits)
qed

lemma states_process_ack [states_ops]: "tcp_process_ack i cb s = Some t \<Longrightarrow> states t = states s"
proof -
  assume a: "tcp_process_ack i cb s = Some t"
  then obtain k s1 where k: "t_socks s i = Some k"
    and s1: "(if cb_ack cb = sk_snd_una k then tcp_dup_ack i k s else tcp_new_ack i (cb_ack cb) k s) = Some s1"
    and t: "upd_sk i (tcp_update_window_safe cb) s1 = Some t"
    by (auto simp: tcp_process_ack_def split: Option.bind_splits)
  have "states s1 = states s" using s1 states_dup_ack[OF k] states_new_ack[OF k] by (simp split: if_splits)
  moreover have "states t = states s1" using t
    by (rule states_upd_sk) (use update_window_safe_simps(1) in \<open>simp add: same_ident_def\<close>)
  ultimately show ?thesis by simp
qed

lemma states_rx_finish [states_ops]: "rx_finish i s = Some (pc, t) \<Longrightarrow> states t = states s"
  unfolding rx_finish_def
  by (auto split: Option.bind_splits dest!: states_upd_sk states_send_control)


lemma states_ofo_delete [simp]: "sk_state (ofo_delete_first k) = sk_state k"
  by (simp add: ofo_delete_first_def)

lemma states_rx_sleep [simp]: "rx_sleep k = (b, k') \<Longrightarrow> sk_state k' = sk_state k"
  by (auto simp: rx_sleep_def split: prod.splits sleep_result.splits)

lemma states_put_eq: "t_socks s i = Some k \<Longrightarrow> sk_state k' = sk_state k \<Longrightarrow> states (put_sk i k' s) = states s"
  using states_put_same[of s i k k'] by simp

lemma states_rx_step: "rx_step pc s = Some (pc', t) \<Longrightarrow> states t = states s"
proof (induction pc s rule: rx_step.induct)
  case (1 i cb packet s)
  then obtain k where k: "t_socks s i = Some k" by (auto split: Option.bind_splits)
  show ?case using 1 k
    by (auto simp: states_put_eq[OF k] Let_def simp del: states_put split: if_splits Option.bind_splits prod.splits)
next
  case (2 i seq_end rest s)
  then obtain k where k: "t_socks s i = Some k" by (auto split: Option.bind_splits)
  show ?case using 2 k
    by (cases rest)
      (auto simp: states_put_eq[OF k] Let_def simp del: states_put dest!: states_rx_finish
        split: if_splits Option.bind_splits prod.splits)
next
  case (3 i cb packet s)
  then obtain k where k: "t_socks s i = Some k" by (auto split: Option.bind_splits)
  show ?case using 3 k by (cases "rx_sleep k") (auto simp: states_put_eq[OF k] simp del: states_put)
next
  case (4 i seq_end rest s)
  then obtain k where k: "t_socks s i = Some k" by (auto split: Option.bind_splits)
  show ?case using 4 k by (cases "rx_sleep k") (auto simp: states_put_eq[OF k] simp del: states_put)
qed simp_all

lemma states_rx_run: "rx_run n pc s = Some (pc', t) \<Longrightarrow> states t = states s"
proof (induction n pc s rule: rx_run.induct)
  case (2 n pc s)
  show ?case
  proof (cases "rx_running pc")
    case True
    with 2(2) obtain pc1 s1 where "rx_step pc s = Some (pc1, s1)" "rx_run n pc1 s1 = Some (pc', t)"
      by (auto split: Option.bind_splits)
    with 2(1)[OF True] states_rx_step show ?thesis by force
  qed (use 2(2) in simp)
qed simp


section \<open>Transitions\<close>

text \<open>The transitions one segment may cause, by its flags.\<close>

inductive seg_step :: "u8 \<Rightarrow> tcp_state \<Rightarrow> tcp_state \<Rightarrow> bool" where
  stay: "seg_step f a a"
| handshake: "seg_step TCP_ACK TCP_SYN_RECV TCP_ESTABLISHED"
| early_data: "f = TCP_PSH \<or> f = TCP_PSH OR TCP_ACK \<Longrightarrow> seg_step f TCP_SYN_RECV TCP_ESTABLISHED"
| fin_acked: "seg_step TCP_ACK TCP_FIN_WAIT_1 TCP_FIN_WAIT_2"
| last_ack: "seg_step TCP_ACK TCP_LAST_ACK TCP_CLOSED"
| fin_ack: "seg_step (TCP_ACK OR TCP_FIN) TCP_FIN_WAIT_1 TCP_TIME_WAIT"
| peer_closes: "seg_step TCP_FIN TCP_ESTABLISHED TCP_LAST_ACK"
| peer_closes_too: "seg_step TCP_FIN TCP_FIN_WAIT_2 TCP_TIME_WAIT"

inductive_cases seg_step_from_closed: "seg_step f TCP_CLOSED b"
inductive_cases seg_step_to_established: "seg_step f a TCP_ESTABLISHED"

lemmas seg_steps = handshake early_data fin_acked last_ack fin_ack peer_closes peer_closes_too

lemma states_rcv_data:
  assumes "t_socks s i = Some k" "tcp_rcv_data i cb p s = Some (pc, t)"
  shows "states t = (states s)(i \<mapsto> if sk_state k = TCP_SYN_RECV then TCP_ESTABLISHED else sk_state k)"
proof -
  let ?k = "if sk_state k = TCP_SYN_RECV then k\<lparr>sk_state := TCP_ESTABLISHED\<rparr> else k"
  have s1: "states (put_sk i ?k s) = (states s)(i \<mapsto> if sk_state k = TCP_SYN_RECV then TCP_ESTABLISHED else sk_state k)"
    by simp
  have w: "sk_state k' = sk_state h" if "write_ofo_buffer cb p h = Some k'" for k' h
    using that by (auto simp: write_ofo_buffer_def Let_def split: if_splits Option.bind_splits prod.splits)
  have "states t = states (put_sk i ?k s)"
    using assms(2) unfolding tcp_rcv_data_def assms(1) bind.bind_lunit Let_def
    by (auto dest!: states_rx_finish states_send_control w simp: Let_def split: if_splits Option.bind_splits)
  with s1 show ?thesis by simp
qed

lemma states_rcv_ack:
  assumes "t_socks s i = Some k" "tcp_rcv_ack i s = Some t"
  shows "(\<forall>j. j \<noteq> i \<longrightarrow> states t j = states s j) \<and>
    (case states t i of Some st \<Rightarrow> seg_step TCP_ACK (sk_state k) st | None \<Rightarrow> sk_state k = TCP_LAST_ACK)"
proof -
  have i: "states s i = Some (sk_state k)" using assms(1) by (simp add: states_def)
  show ?thesis
  proof (cases "sk_state k")
    case TCP_SYN_RECV
    have "states t = (states s)(i \<mapsto> TCP_ESTABLISHED)"
      using assms TCP_SYN_RECV unfolding tcp_rcv_ack_def
      by (simp split: Option.bind_splits) (metis states_accept_enqueue states_wake(2) states_set_state)
    then show ?thesis using TCP_SYN_RECV by (simp add: seg_steps)
  next
    case TCP_LAST_ACK
    obtain s1 s2 where s1: "tcp_set_state i TCP_CLOSED s = Some s1"
      "(if sk_parent k = None then tcp_bind_unhash i s1 else Some s1) = Some s2" "tcp_unhash i s2 = Some t"
      using assms TCP_LAST_ACK unfolding tcp_rcv_ack_def by (auto split: Option.bind_splits)
    have 1: "states s1 = (states s)(i \<mapsto> TCP_CLOSED)" using s1(1) by (rule states_set_state)
    have 2: "states s2 = states s1 \<or> states s2 = (states s1)(i := None)"
      using s1(2) states_bind_unhash[of i s1 s2] by (auto split: if_splits)
    have 3: "states t = states s2 \<or> states t = (states s2)(i := None)" using s1(3) by (rule states_unhash)
    show ?thesis using 1 2 3 TCP_LAST_ACK by (elim disjE) (simp_all add: seg_steps)
  next
    case TCP_FIN_WAIT_1
    have "states t = (states s)(i \<mapsto> TCP_FIN_WAIT_2)"
      using assms TCP_FIN_WAIT_1 unfolding tcp_rcv_ack_def by (simp add: states_set_state)
    then show ?thesis using TCP_FIN_WAIT_1 by (simp add: seg_steps)
  qed (use assms i states_wake(3)[of i s t] in \<open>auto simp: tcp_rcv_ack_def stay split: if_splits\<close>)
qed

lemma states_rcv_fin:
  assumes "t_socks s i = Some k" "tcp_rcv_fin i s = Some t"
  shows "(\<forall>j. j \<noteq> i \<longrightarrow> states t j = states s j) \<and> (\<exists>st. states t i = Some st \<and> seg_step TCP_FIN (sk_state k) st)"
proof -
  have i: "states s i = Some (sk_state k)" using assms(1) by (simp add: states_def)
  show ?thesis
  proof (cases "sk_state k")
    case TCP_ESTABLISHED
    have "states t = (states s)(i \<mapsto> TCP_LAST_ACK)"
      using assms TCP_ESTABLISHED unfolding tcp_rcv_fin_def
      by (simp split: Option.bind_splits) (metis states_timewait states_send_control states_set_state)
    then show ?thesis using TCP_ESTABLISHED by (simp add: seg_steps)
  next
    case TCP_FIN_WAIT_2
    have "states t = (states s)(i \<mapsto> TCP_TIME_WAIT)"
      using assms TCP_FIN_WAIT_2 unfolding tcp_rcv_fin_def
      by (simp split: Option.bind_splits) (metis states_timewait states_send_control states_set_state)
    then show ?thesis using TCP_FIN_WAIT_2 by (simp add: seg_steps)
  qed (use assms i in \<open>auto simp: tcp_rcv_fin_def stay\<close>)
qed

lemma states_rcv_ack_fin:
  assumes "t_socks s i = Some k" "tcp_rcv_ack_fin i s = Some t"
  shows "(\<forall>j. j \<noteq> i \<longrightarrow> states t j = states s j) \<and> (\<exists>st. states t i = Some st \<and> seg_step (TCP_ACK OR TCP_FIN) (sk_state k) st)"
proof -
  have i: "states s i = Some (sk_state k)" using assms(1) by (simp add: states_def)
  show ?thesis
  proof (cases "sk_state k = TCP_FIN_WAIT_1")
    case True
    have "states t = (states s)(i \<mapsto> TCP_TIME_WAIT)"
      using assms True unfolding tcp_rcv_ack_fin_def
      by (simp split: Option.bind_splits) (metis states_timewait states_send_control states_set_state)
    then show ?thesis using True by (simp add: seg_steps)
  qed (use assms i in \<open>auto simp: tcp_rcv_ack_fin_def stay\<close>)
qed

lemma states_alloc: "alloc_tcp_sock s = Some (c, t) \<Longrightarrow> c = t_next s \<and> states t = (states s)(c \<mapsto> TCP_CLOSED)"
  unfolding alloc_tcp_sock_def tcp_set_retrans_timer_def Let_def
  by (auto dest!: states_upd_sk split: Option.bind_splits if_splits)

lemma states_rcv_syn_listen:
  assumes "tcp_rcv_syn_listen i cb s = Some t"
  shows "states t = (states s)(t_next s \<mapsto> TCP_SYN_RECV)"
proof -
  note b = assms[unfolded tcp_rcv_syn_listen_def]
  from b obtain c s1 where 1: "alloc_tcp_sock s = Some (c, s1)" by (auto split: Option.bind_splits)
  note b = b[unfolded 1 bind.bind_lunit prod.case]
  from b obtain s2 where 2: "upd_sk i (\<lambda>k. k\<lparr>sk_listen_queue := sk_listen_queue k @ [c]\<rparr>) s1 = Some s2"
    by (cases "upd_sk i (\<lambda>k. k\<lparr>sk_listen_queue := sk_listen_queue k @ [c]\<rparr>) s1") simp_all
  note b = b[unfolded 2 bind.bind_lunit prod.case]
  from b obtain k where k: "t_socks s2 i = Some k" by (cases "t_socks s2 i") simp_all
  note b = b[unfolded k bind.bind_lunit prod.case]
  obtain iss s3 where 3: "tcp_new_iss s2 = (iss, s3)" by (cases "tcp_new_iss s2")
  note b = b[unfolded 3 Let_def prod.case]
  from b obtain s4 f where 4: "upd_sk c f s3 = Some s4" "\<And>k. sk_state (f k) = sk_state k"
      "tcp_set_state c TCP_SYN_RECV s4 \<bind> (\<lambda>s. tcp_hash c s \<bind> (\<lambda>(r, s). tcp_send_control_packet c (TCP_SYN OR TCP_ACK) s)) = Some t"
    by (rule opt_bindE) (rule that, assumption, simp)
  from 4(3) obtain s5 r s6 where 5: "tcp_set_state c TCP_SYN_RECV s4 = Some s5" "tcp_hash c s5 = Some (r, s6)"
    "tcp_send_control_packet c (TCP_SYN OR TCP_ACK) s6 = Some t" by (auto split: Option.bind_splits)
  have "s3 = s2\<lparr>t_net := t_net s3\<rparr>" using 3 by (auto simp: tcp_new_iss_def split: prod.splits)
  then have "states s3 = states s2" by (metis states_upd_simps(1))
  then show ?thesis
    using states_alloc[OF 1] states_upd_sk[OF 2] states_upd_sk[OF 4(1,2)] states_set_state[OF 5(1)]
      states_hash[OF 5(2)] states_send_control[OF 5(3)] by simp
qed


text \<open>The part of \<open>tcp_process\<close> after the bookkeeping: which handler the flags select.\<close>

definition seg_dispatch :: "addr \<Rightarrow> tcp_cb \<Rightarrow> bytes \<Rightarrow> tcp_sock \<Rightarrow> tcp \<Rightarrow> (rx_pc \<times> tcp) option" where
  "seg_dispatch i cb p k s = (let f = cb_flags cb; idle = map_option (Pair RxIdle) in
     if f = TCP_SYN then idle (if sk_state k = TCP_LISTEN then tcp_rcv_syn_listen i cb s else Some s)
     else if f = TCP_SYN OR TCP_ACK then idle (if sk_state k = TCP_SYN_SENT then wake_connect i s else Some s)
     else if f = TCP_ACK then idle (tcp_rcv_ack i s)
     else if f = TCP_PSH \<or> f = TCP_PSH OR TCP_ACK then tcp_rcv_data i cb p s
     else if f = TCP_ACK OR TCP_FIN then idle (tcp_rcv_ack_fin i s)
     else if f = TCP_FIN then idle (tcp_rcv_fin i s)
     else Some (RxIdle, s))"

text \<open>The bookkeeping of the acknowledgement and of the window changes no state of any socket.\<close>

lemma tcp_process_prefix:
  assumes "tcp_process (Some i) cb p s = Some (pc, t)" "t_socks s i = Some k"
  shows "\<exists>s' k'. t_socks s' i = Some k' \<and> states s' = states s \<and> sk_state k' = sk_state k \<and>
    (cb_flags cb = TCP_SYN \<longrightarrow> t_next s' = t_next s) \<and> seg_dispatch i cb p k' s' = Some (pc, t)"
proof -
  note pr = assms(1)[unfolded tcp_process_def option.case Let_def]
  from pr obtain s2 where 2: "(if cb_flags cb AND TCP_PSH = 0 then upd_sk i (\<lambda>k. k\<lparr>sk_rcv_nxt := cb_seq_end cb\<rparr>) s else Some s) = Some s2"
    by (rule opt_bindE) (rule that)
  note pr = pr[unfolded 2 bind.bind_lunit]
  from pr obtain s3 where 3: "(if cb_flags cb AND TCP_ACK \<noteq> 0 then tcp_process_ack i cb s2 else Some s2) = Some s3"
    by (rule opt_bindE) (rule that)
  note pr = pr[unfolded 3 bind.bind_lunit]
  from pr obtain k3 where k3: "t_socks s3 i = Some k3" by (rule opt_bindE) (rule that)
  note pr = pr[unfolded k3 bind.bind_lunit]
  have "states s2 = states s" using 2 states_upd_sk by (auto split: if_splits)
  then have s3: "states s3 = states s" using 3 states_process_ack by (auto split: if_splits)
  moreover have "states s3 i = Some (sk_state k3)" "states s i = Some (sk_state k)" using k3 assms(2) by (simp_all add: states_def)
  moreover have "cb_flags cb = TCP_SYN \<Longrightarrow> s3 = s2" using 3 by (simp add: tcp_flag_defs)
  moreover have "t_next s2 = t_next s" using 2 assms(2) by (auto split: if_splits)
  ultimately show ?thesis using k3 pr unfolding seg_dispatch_def Let_def by fastforce
qed

text \<open>Property C2. One segment moves the socket it is for along a transition of \<open>seg_step\<close>, however
  long its data waits for buffer space, and no other socket: only a SYN for a listening socket adds
  a new one, in SYN-RECEIVED. The socket disappears only with the last acknowledgement.\<close>

theorem tcp_process_transitions:
  assumes "t_socks s i = Some k" "t_socks s (t_next s) = None"
    and "tcp_process (Some i) cb p s = Some (pc, s1)" "rx_run n pc s1 = Some (pc', t)"
  shows "(\<forall>j. j \<noteq> i \<longrightarrow> states t j = states s j \<or> j = t_next s \<and> states t j = Some TCP_SYN_RECV \<and>
        cb_flags cb = TCP_SYN \<and> sk_state k = TCP_LISTEN) \<and>
    (case states t i of Some st \<Rightarrow> seg_step (cb_flags cb) (sk_state k) st
       | None \<Rightarrow> cb_flags cb = TCP_ACK \<and> sk_state k = TCP_LAST_ACK)"
proof -
  have i: "states s i = Some (sk_state k)" using assms(1) by (simp add: states_def)
  have ne: "t_next s \<noteq> i" using assms(1,2) by auto
  have t: "states t = states s1" using states_rx_run[OF assms(4)] .
  obtain s3 k3 where k3: "t_socks s3 i = Some k3" and s3: "states s3 = states s" and k3k: "sk_state k3 = sk_state k"
    and nx: "cb_flags cb = TCP_SYN \<longrightarrow> t_next s3 = t_next s"
    and pr: "seg_dispatch i cb p k3 s3 = Some (pc, s1)"
    using tcp_process_prefix[OF assms(3,1)] by blast
  note pr = pr[unfolded seg_dispatch_def Let_def]
  have idle: "\<exists>x. r = Some x \<and> states t = states x" if "map_option (Pair RxIdle) r = Some (pc, s1)" for r
    using that t by (cases r) auto
  consider (syn) "cb_flags cb = TCP_SYN" | (synack) "cb_flags cb = TCP_SYN OR TCP_ACK" | (ack) "cb_flags cb = TCP_ACK"
    | (psh) "cb_flags cb = TCP_PSH \<or> cb_flags cb = TCP_PSH OR TCP_ACK" | (ackfin) "cb_flags cb = TCP_ACK OR TCP_FIN"
    | (fin) "cb_flags cb = TCP_FIN" | (other) "cb_flags cb \<notin> {TCP_SYN, TCP_SYN OR TCP_ACK, TCP_ACK, TCP_PSH,
        TCP_PSH OR TCP_ACK, TCP_ACK OR TCP_FIN, TCP_FIN}" by auto
  then show ?thesis
  proof cases
    case syn
    obtain x where x: "(if sk_state k3 = TCP_LISTEN then tcp_rcv_syn_listen i cb s3 else Some s3) = Some x" "states t = states x"
      using pr syn idle by auto
    then show ?thesis using states_rcv_syn_listen[of i cb s3 x] s3 k3k i ne nx syn by (auto simp: stay split: if_splits)
  next
    case synack
    obtain x where x: "(if sk_state k3 = TCP_SYN_SENT then wake_connect i s3 else Some s3) = Some x" "states t = states x"
      using pr synack idle by (auto simp: tcp_flag_defs)
    then show ?thesis using states_wake(1)[of i s3 x] s3 i by (auto simp: stay split: if_splits)
  next
    case ack
    obtain x where x: "tcp_rcv_ack i s3 = Some x" "states t = states x" using pr ack idle by (auto simp: tcp_flag_defs)
    show ?thesis using states_rcv_ack[OF k3 x(1)] x(2) s3 k3k ack by (auto split: option.splits)
  next
    case psh
    have "tcp_rcv_data i cb p s3 = Some (pc, s1)" using pr psh by (auto simp: tcp_flag_defs)
    from states_rcv_data[OF k3 this] t s3 k3k show ?thesis using psh by (auto simp: seg_steps stay)
  next
    case ackfin
    obtain x where x: "tcp_rcv_ack_fin i s3 = Some x" "states t = states x" using pr ackfin idle by (auto simp: tcp_flag_defs)
    show ?thesis using states_rcv_ack_fin[OF k3 x(1)] x(2) s3 k3k ackfin by auto
  next
    case fin
    obtain x where x: "tcp_rcv_fin i s3 = Some x" "states t = states x" using pr fin idle by (auto simp: tcp_flag_defs)
    show ?thesis using states_rcv_fin[OF k3 x(1)] x(2) s3 k3k fin by auto
  next
    case other
    then have "states t = states s3" using pr t by auto
    then show ?thesis using s3 i by (simp add: stay)
  qed
qed

text \<open>A FIN on an established connection.\<close>

definition fin_cb :: tcp_cb where
  "fin_cb = (ack_cb 0)\<lparr>cb_flags := TCP_FIN\<rparr>"

definition established :: tcp_sock where
  "established = fresh_sock\<lparr>sk_state := TCP_ESTABLISHED\<rparr>"

lemma established_state [simp]: "sk_state established = TCP_ESTABLISHED"
  by (simp add: established_def)

definition established_tcp :: tcp where
  "established_tcp = (one_sock established)\<lparr>t_next := 1\<rparr>"

lemma established_tcp_simps [simp]: "t_socks established_tcp 0 = Some established"
  "t_socks established_tcp (t_next established_tcp) = None" "t_timers established_tcp = []"
  by (simp_all add: established_tcp_def one_sock_def empty_tcp_def)

lemma tcp_rcv_fin_total:
  assumes "t_socks s i = Some k" "TimeWait i \<notin> set (t_timers s)"
  shows "\<exists>t. tcp_rcv_fin i s = Some t"
proof -
  have sent: "\<exists>t k2. tcp_send_control_packet i f (put_sk i k' s) = Some t \<and> t_timers t = t_timers s \<and> t_socks t i = Some k2"
    for f k'
  proof -
    have sk: "t_socks (put_sk i k' s) i = Some k'" by simp
    obtain n where n: "tcp_send_control_packet i f (put_sk i k' s) = Some
      ((if f AND (TCP_SYN OR TCP_FIN) \<noteq> 0
        then put_sk i (k'\<lparr>sk_snd_nxt := sk_snd_nxt k' + 1,
            sk_send_buf := sk_send_buf k' @ [sent_buffer (ctl_seg (put_sk i k' s) k' f) (sk_snd_nxt k' + 1)],
            sk_inflight := sk_inflight k' + 1\<rparr>) (put_sk i k' s) else put_sk i k' s)\<lparr>t_net := n\<rparr>)"
      by (rule tcp_send_control_total[OF sk])
    show ?thesis unfolding n by (cases "f AND (TCP_SYN OR TCP_FIN) \<noteq> 0") simp_all
  qed
  have tw: "\<exists>t. tcp_set_timewait_timer i s' = Some t" if "t_timers s' = t_timers s" "t_socks s' i = Some k2" for s' k2
    using that assms(2) by (simp add: tcp_set_timewait_timer_def upd_sk_def)
  have "\<exists>t. (tcp_send_control_packet i f (put_sk i k' s) \<bind> tcp_set_timewait_timer i) = Some t" for f k'
  proof -
    obtain t k2 where "tcp_send_control_packet i f (put_sk i k' s) = Some t" "t_timers t = t_timers s" "t_socks t i = Some k2"
      using sent by blast
    with tw[of t k2] show ?thesis by simp
  qed
  then show ?thesis
    unfolding tcp_rcv_fin_def assms(1) bind.bind_lunit tcp_set_state_def upd_sk_Some[OF assms(1)]
    by (cases "sk_state k") simp_all
qed

theorem tcp_process_transitions_witness:
  "\<exists>t st. tcp_process (Some 0) fin_cb [] established_tcp = Some (RxIdle, t) \<and> states t 0 = Some st \<and>
     seg_step TCP_FIN TCP_ESTABLISHED st"
proof -
  define k where "k = established\<lparr>sk_rcv_nxt := 0\<rparr>"
  have f: "cb_flags fin_cb = TCP_FIN" "cb_seq_end fin_cb = 0" by (simp_all add: fin_cb_def ack_cb_def)
  have b: "TCP_FIN AND TCP_PSH = 0" "TCP_FIN AND TCP_ACK = 0" "TCP_FIN \<noteq> TCP_SYN" "TCP_FIN \<noteq> TCP_SYN OR TCP_ACK"
    "TCP_FIN \<noteq> TCP_ACK" "TCP_FIN \<noteq> TCP_PSH" "TCP_FIN \<noteq> TCP_PSH OR TCP_ACK" "TCP_FIN \<noteq> TCP_ACK OR TCP_FIN"
    by (simp_all add: tcp_flag_defs)
  have r: "tcp_process (Some 0) fin_cb [] established_tcp =
      map_option (Pair RxIdle) (tcp_rcv_fin 0 (put_sk 0 k established_tcp))"
    unfolding tcp_process_def f by (simp add: b k_def)
  have "TimeWait 0 \<notin> set (t_timers (put_sk 0 k established_tcp))" by simp
  moreover have "t_socks (put_sk 0 k established_tcp) 0 = Some k" by simp
  ultimately obtain t where t: "tcp_rcv_fin 0 (put_sk 0 k established_tcp) = Some t"
    using tcp_rcv_fin_total by blast
  then have p: "tcp_process (Some 0) fin_cb [] established_tcp = Some (RxIdle, t)" using r by simp
  have "rx_run 0 RxIdle t = Some (RxIdle, t)" by simp
  note tr = tcp_process_transitions[OF established_tcp_simps(1,2) p this, unfolded f established_state]
  obtain st where st: "states t 0 = Some st" using tr b(5) by (cases "states t 0") simp_all
  with tr have "seg_step TCP_FIN TCP_ESTABLISHED st" by simp
  with p st show ?thesis by blast
qed

end
