(* ===== verification/Tcp_Data.thy ===== *)
theory Tcp_Data
  imports Tcp_App Tcp_States
begin

text \<open>
  The data path of \<open>tcp_process\<close> (prj14) against the byte stream of the peer. The stream is a list
  of bytes numbered from an initial sequence number; the peer cuts it at fixed points and may send,
  lose, repeat and reorder the pieces. The receiving thread may sleep at any loop head, and the
  application may read at any time between two steps of that thread.
\<close>

section \<open>Segments of a stream\<close>

text \<open>\<open>seg D b cuts j pl\<close>: the piece \<open>pl\<close> of the stream \<open>D\<close> between two neighbouring cuts, starting at
  offset \<open>j\<close>.\<close>

definition seg :: "bytes \<Rightarrow> nat set \<Rightarrow> nat \<Rightarrow> bytes \<Rightarrow> bool" where
  "seg D cuts j pl \<longleftrightarrow> j + length pl \<le> length D \<and> pl = take (length pl) (drop j D) \<and> pl \<noteq> [] \<and>
     j \<in> cuts \<and> j + length pl \<in> cuts \<and> (\<forall>c\<in>cuts. \<not> (j < c \<and> c < j + length pl))"

lemma seg_next:
  "seg D cuts j pl \<Longrightarrow> seg D cuts j' pl' \<Longrightarrow> j < j' \<Longrightarrow> j + length pl \<le> j'"
  unfolding seg_def by (meson not_le)

lemma seg_extends: "seg D cuts j pl \<Longrightarrow> take j D @ pl = take (j + length pl) D"
  unfolding seg_def by (metis take_add)

text \<open>The queued pieces, in the order of the queue, all starting at or after an offset.\<close>

fun pieces :: "bytes \<Rightarrow> nat set \<Rightarrow> u32 \<Rightarrow> nat \<Rightarrow> ofo_buffer list \<Rightarrow> bool" where
  "pieces D cuts b p [] \<longleftrightarrow> True"
| "pieces D cuts b p (x # xs) \<longleftrightarrow>
     (\<exists>j. p \<le> j \<and> seg D cuts j (ofo_payload x) \<and> ofo_seq x = b + of_nat j \<and>
       ofo_seq_end x = b + of_nat (j + length (ofo_payload x)) \<and> pieces D cuts b (j + length (ofo_payload x)) xs)"

lemma pieces_mono: "pieces D cuts b p xs \<Longrightarrow> q \<le> p \<Longrightarrow> pieces D cuts b q xs"
  by (cases xs) (auto intro: order_trans simp del: of_nat_add)

text \<open>Sequence numbers of a stream that does not wrap are ordered as their offsets.\<close>

definition fits :: "u32 \<Rightarrow> bytes \<Rightarrow> bool" where
  "fits b D \<longleftrightarrow> unat b + length D < 2 ^ 32"

lemma unat_off: "fits b D \<Longrightarrow> j \<le> length D \<Longrightarrow> unat (b + of_nat j) = unat b + j"
proof -
  assume "fits b D" "j \<le> length D"
  then have l: "unat b + j < 2 ^ 32" unfolding fits_def by linarith
  then have "unat (of_nat j :: u32) = j" by (simp add: unsigned_of_nat take_bit_nat_eq_self)
  then show ?thesis using l by (subst unat_add_lem[THEN iffD1]) simp_all
qed

lemma off_less: "fits b D \<Longrightarrow> i \<le> length D \<Longrightarrow> j \<le> length D \<Longrightarrow> b + of_nat i < b + of_nat j \<longleftrightarrow> i < j"
  by (simp only: word_less_nat_alt unat_off) simp

lemma off_eq: "fits b D \<Longrightarrow> i \<le> length D \<Longrightarrow> j \<le> length D \<Longrightarrow> b + of_nat i = b + of_nat j \<longleftrightarrow> i = j"
  by (metis add_left_cancel unat_off)

lemma seg_le: "seg D cuts j pl \<Longrightarrow> j \<le> length D \<and> j + length pl \<le> length D"
  by (simp add: seg_def)

text \<open>Inserting a piece that lies beyond the delivered part keeps the queue a queue of pieces.\<close>

lemma pieces_insert:
  assumes f: "fits b D"
    and "pieces D cuts b p xs" "seg D cuts j (ofo_payload x)" "p \<le> j"
    "ofo_seq x = b + of_nat j" "ofo_seq_end x = b + of_nat (j + length (ofo_payload x))"
    "ofo_scan first x xs = (ys, c)"
  shows "pieces D cuts b p ys"
  using assms(2-)
proof (induction xs arbitrary: p first ys c)
  case Nil
  then show ?case by auto
next
  case (Cons y ys' p first zs c)
  from Cons.prems(1) obtain i where i: "p \<le> i" "seg D cuts i (ofo_payload y)" "ofo_seq y = b + of_nat i"
    "ofo_seq_end y = b + of_nat (i + length (ofo_payload y))" "pieces D cuts b (i + length (ofo_payload y)) ys'"
    by auto
  have lt: "ofo_seq y < ofo_seq x \<longleftrightarrow> i < j" unfolding i(3) Cons.prems(4)
    by (rule off_less[OF f]) (use seg_le[OF i(2)] seg_le[OF Cons.prems(2)] in simp_all)
  have eq: "ofo_seq x = ofo_seq y \<longleftrightarrow> i = j" unfolding i(3) Cons.prems(4)
    using off_eq[OF f, of j i] seg_le[OF i(2)] seg_le[OF Cons.prems(2)] by auto
  show ?case
  proof (cases "i < j")
    case True
    obtain r d where r: "ofo_scan False x ys' = (r, d)" by (cases "ofo_scan False x ys'")
    have zs: "zs = y # r" using Cons.prems(6) True lt r by simp
    have "i + length (ofo_payload y) \<le> j" using seg_next[OF i(2) Cons.prems(2) True] .
    from Cons.IH[OF i(5) Cons.prems(2) this Cons.prems(4,5) r] show ?thesis using zs i by auto
  next
    case False
    show ?thesis
    proof (cases "i = j \<or> first")
      case True
      then have "zs = y # ys'" using Cons.prems(6) False lt eq by (auto split: if_splits)
      then show ?thesis using Cons.prems(1) by simp
    next
      case nf: False
      then have zs: "zs = x # y # ys'" using Cons.prems(6) False lt eq by (auto split: if_splits)
      have "j + length (ofo_payload x) \<le> i" using seg_next[OF Cons.prems(2) i(2)] False nf by simp
      then show ?thesis unfolding zs using i Cons.prems by auto
    qed
  qed
qed


section \<open>The receiving system\<close>

text \<open>Which piece a control block describes.\<close>

definition describes :: "bytes \<Rightarrow> nat set \<Rightarrow> u32 \<Rightarrow> tcp_cb \<Rightarrow> bytes \<Rightarrow> nat \<Rightarrow> bytes \<Rightarrow> bool" where
  "describes D cuts b cb packet j pl \<longleftrightarrow> seg D cuts j pl \<and> cb_seq cb = b + of_nat j \<and>
     cb_seq_end cb = b + of_nat (j + length pl) \<and> cb_pl_len cb = int (length pl) \<and>
     ld_bytes packet (cb_payload cb) (length pl) = Some pl"

text \<open>One step: a piece of the stream arrives while the packet thread is idle, the packet thread goes
  on or is signalled, the reader goes on or is signalled. The last component collects what finished
  reads returned.\<close>

inductive rx_sys :: "bytes \<Rightarrow> nat set \<Rightarrow> u32 \<Rightarrow> addr \<Rightarrow> rx_pc \<times> rd_pc \<times> tcp \<times> bytes \<Rightarrow>
    rx_pc \<times> rd_pc \<times> tcp \<times> bytes \<Rightarrow> bool" for D cuts b i where
  arrive: "describes D cuts b cb packet j pl \<Longrightarrow> tcp_rcv_data i cb packet s = Some (pc, t) \<Longrightarrow>
     rx_sys D cuts b i (RxIdle, rd, s, got) (pc, rd, t, got)"
| packet_thread: "rx_step pc s = Some (pc', t) \<Longrightarrow> rx_sys D cuts b i (pc, rd, s, got) (pc', rd, t, got)"
| packet_resume: "t_socks s i = Some k \<Longrightarrow> sw_notified (sk_wait_recv k) \<Longrightarrow> rx_resume pc s = Some (pc', t) \<Longrightarrow>
     rx_sys D cuts b i (pc, rd, s, got) (pc', rd, t, got)"
| read_call: "rx_sys D cuts b i (pc, RdDone r, s, got) (pc, tcp_sock_read i len, s, got @ r)"
| reader: "read_step rd s = Some (rd', t) \<Longrightarrow> rx_sys D cuts b i (pc, rd, s, got) (pc, rd', t, got)"
| reader_resume: "t_socks s i = Some k \<Longrightarrow> sw_notified (sk_wait_read k) \<Longrightarrow> read_resume rd s = Some (rd', t) \<Longrightarrow>
     rx_sys D cuts b i (pc, rd, s, got) (pc, rd', t, got)"

inductive_cases rx_sysE: "rx_sys D cuts b i (pc, rd, s, got) (pc', rd', t, got')"

inductive rx_runs :: "bytes \<Rightarrow> nat set \<Rightarrow> u32 \<Rightarrow> addr \<Rightarrow> rx_pc \<times> rd_pc \<times> tcp \<times> bytes \<Rightarrow>
    rx_pc \<times> rd_pc \<times> tcp \<times> bytes \<Rightarrow> bool" for D cuts b i where
  refl: "rx_runs D cuts b i x x"
| step: "rx_runs D cuts b i x y \<Longrightarrow> rx_sys D cuts b i y z \<Longrightarrow> rx_runs D cuts b i x z"

text \<open>What the reader holds but has not returned yet.\<close>

fun in_hand :: "rd_pc \<Rightarrow> bytes" where
  "in_hand (RdSpin _ r) = r"
| "in_hand (RdDone r) = r"
| "in_hand _ = []"

fun rd_sock :: "addr \<Rightarrow> rd_pc \<Rightarrow> bool" where
  "rd_sock i (RdHead j _) = (j = i)"
| "rd_sock i (RdWait j _) = (j = i)"
| "rd_sock i (RdSleep j _) = (j = i)"
| "rd_sock i (RdSpin j _) = (j = i)"
| "rd_sock i (RdDone _) = True"

text \<open>What a program point of the packet thread promises about the first \<open>p\<close> bytes of the stream, which
  were delivered. The queue holds pieces beyond them.\<close>

definition idle_ok :: "bytes \<Rightarrow> nat set \<Rightarrow> u32 \<Rightarrow> nat \<Rightarrow> tcp_sock \<Rightarrow> bool" where
  "idle_ok D cuts b p k \<longleftrightarrow> sk_rcv_nxt k = b + of_nat p \<and> pieces D cuts b (Suc p) (sk_ofo k)"

definition head_ok :: "bytes \<Rightarrow> nat set \<Rightarrow> u32 \<Rightarrow> nat \<Rightarrow> tcp_sock \<Rightarrow> tcp_cb \<Rightarrow> bytes \<Rightarrow> bool" where
  "head_ok D cuts b p k cb packet \<longleftrightarrow> idle_ok D cuts b p k \<and> (\<exists>pl. describes D cuts b cb packet p pl)"

definition ofo_ok :: "bytes \<Rightarrow> nat set \<Rightarrow> u32 \<Rightarrow> nat \<Rightarrow> tcp_sock \<Rightarrow> u32 \<Rightarrow> ofo_buffer list \<Rightarrow> bool" where
  "ofo_ok D cuts b p k e rest \<longleftrightarrow> e = b + of_nat p \<and> pieces D cuts b p rest \<and> (sk_ofo k = rest \<or> sk_ofo k = [])"

fun pc_ok :: "bytes \<Rightarrow> nat set \<Rightarrow> u32 \<Rightarrow> addr \<Rightarrow> nat \<Rightarrow> tcp_sock \<Rightarrow> rx_pc \<Rightarrow> bool" where
  "pc_ok D cuts b i p k RxIdle = idle_ok D cuts b p k"
| "pc_ok D cuts b i p k (RxHead j cb packet) = (j = i \<and> head_ok D cuts b p k cb packet)"
| "pc_ok D cuts b i p k (RxHeadWait j cb packet) = (j = i \<and> head_ok D cuts b p k cb packet)"
| "pc_ok D cuts b i p k (RxHeadSleep j cb packet) = (j = i \<and> head_ok D cuts b p k cb packet)"
| "pc_ok D cuts b i p k (RxOfo j e rest) = (j = i \<and> ofo_ok D cuts b p k e rest)"
| "pc_ok D cuts b i p k (RxOfoWait j e rest) = (j = i \<and> ofo_ok D cuts b p k e rest)"
| "pc_ok D cuts b i p k (RxOfoSleep j e rest) = (j = i \<and> ofo_ok D cuts b p k e rest)"

fun rx_inv :: "bytes \<Rightarrow> nat set \<Rightarrow> u32 \<Rightarrow> addr \<Rightarrow> rx_pc \<times> rd_pc \<times> tcp \<times> bytes \<Rightarrow> bool" where
  "rx_inv D cuts b i (pc, rd, s, got) =
     (\<exists>k p. t_socks s i = Some k \<and> rb_inv (sk_rcv_buf k) \<and> p \<le> length D \<and> rd_sock i rd \<and>
        got @ in_hand rd @ rb_contents (sk_rcv_buf k) = take p D \<and> pc_ok D cuts b i p k pc)"

text \<open>The promise depends on four fields only.\<close>

definition same_rx :: "tcp_sock \<Rightarrow> tcp_sock \<Rightarrow> bool" where
  "same_rx k k' \<longleftrightarrow> sk_rcv_nxt k' = sk_rcv_nxt k \<and> sk_ofo k' = sk_ofo k"

lemma pc_ok_same: "same_rx k k' \<Longrightarrow> pc_ok D cuts b i p k' pc = pc_ok D cuts b i p k pc"
  by (cases pc) (simp_all add: same_rx_def idle_ok_def head_ok_def ofo_ok_def)

lemma rx_invI: "t_socks s i = Some k \<Longrightarrow> rb_inv (sk_rcv_buf k) \<Longrightarrow> p \<le> length D \<Longrightarrow> rd_sock i rd \<Longrightarrow>
    got @ in_hand rd @ rb_contents (sk_rcv_buf k) = take p D \<Longrightarrow> pc_ok D cuts b i p k pc \<Longrightarrow>
    rx_inv D cuts b i (pc, rd, s, got)"
  by auto

lemma rx_invE:
  assumes "rx_inv D cuts b i (pc, rd, s, got)"
  obtains k p where "t_socks s i = Some k" "rb_inv (sk_rcv_buf k)" "p \<le> length D" "rd_sock i rd"
    "got @ in_hand rd @ rb_contents (sk_rcv_buf k) = take p D" "pc_ok D cuts b i p k pc"
  using assms by auto

text \<open>A step that leaves the four fields alone keeps the invariant.\<close>

lemma rx_inv_frame:
  assumes "rx_inv D cuts b i (pc, rd, s, got)" "t_socks s i = Some k" "t_socks t i = Some k'" "same_rx k k'"
    "sk_rcv_buf k' = sk_rcv_buf k" "rd_sock i rd'" "in_hand rd' = in_hand rd"
    "\<And>p. pc_ok D cuts b i p k pc \<Longrightarrow> pc_ok D cuts b i p k pc'"
  shows "rx_inv D cuts b i (pc', rd', t, got)"
  using assms by (elim rx_invE) (rule rx_invI, assumption, simp_all add: pc_ok_same)

declare rx_inv.simps [simp del]

lemma rx_finish_frame:
  assumes "t_socks s i = Some k" "rx_finish i s = Some (pc, t)"
  shows "pc = RxIdle \<and> (\<exists>k'. t_socks t i = Some k' \<and> same_rx k k' \<and> sk_rcv_buf k' = sk_rcv_buf k)"
proof -
  let ?k1 = "if sw_sleep (sk_wait_read k) then k\<lparr>sk_wait_read := wake (sk_wait_read k)\<rparr> else k"
  have u: "upd_sk i (\<lambda>k. if sw_sleep (sk_wait_read k) then k\<lparr>sk_wait_read := wake (sk_wait_read k)\<rparr> else k) s =
      Some (put_sk i ?k1 s)" by (rule upd_sk_Some[OF assms(1)])
  have k1: "t_socks (put_sk i ?k1 s) i = Some ?k1" by simp
  have c: "TCP_ACK AND (TCP_SYN OR TCP_FIN) = 0" by (simp add: tcp_flag_defs)
  obtain n where n: "tcp_send_control_packet i TCP_ACK (put_sk i ?k1 s) = Some ((put_sk i ?k1 s)\<lparr>t_net := n\<rparr>)"
    using tcp_send_control_total[OF k1, of TCP_ACK] unfolding c by auto
  have k2: "t_socks ((put_sk i ?k1 s)\<lparr>t_net := n\<rparr>) i = Some ?k1" by simp
  let ?k2 = "if sk_cgt ?k1 = OPEN \<and> sw_sleep (sk_wait_send ?k1) then ?k1\<lparr>sk_wait_send := wake (sk_wait_send ?k1)\<rparr> else ?k1"
  have "Some (RxIdle, put_sk i ?k2 ((put_sk i ?k1 s)\<lparr>t_net := n\<rparr>)) = Some (pc, t)"
    using assms(2) unfolding rx_finish_def u bind.bind_lunit n upd_sk_Some[OF k2] .
  then have "pc = RxIdle" "t_socks t i = Some ?k2" by auto
  moreover have "same_rx k ?k2 \<and> sk_rcv_buf ?k2 = sk_rcv_buf k" by (simp add: same_rx_def)
  ultimately show ?thesis by blast
qed


section \<open>Every step keeps the promise\<close>

lemma pieces_jump:
  assumes "seg D cuts p pl" "pieces D cuts b (Suc p) xs"
  shows "pieces D cuts b (p + length pl) xs"
proof (cases xs)
  case (Cons x ys)
  then obtain j where j: "Suc p \<le> j" "seg D cuts j (ofo_payload x)" "ofo_seq x = b + of_nat j"
    "ofo_seq_end x = b + of_nat (j + length (ofo_payload x))" "pieces D cuts b (j + length (ofo_payload x)) ys"
    using assms(2) by (auto simp del: of_nat_add)
  have "p + length pl \<le> j" using seg_next[OF assms(1) j(2)] j(1) by simp
  with j show ?thesis unfolding Cons by (auto simp del: of_nat_add)
qed simp

lemma rx_wait_inv:
  assumes "rx_inv D cuts b i (pc, rd, s, got)" "t_socks s i = Some k"
    and "\<And>p. pc_ok D cuts b i p k pc \<Longrightarrow> pc_ok D cuts b i p k pc'"
  shows "rx_inv D cuts b i (pc', rd, put_sk i (k\<lparr>sk_wait_read := w\<rparr>) s, got)"
proof -
  from assms(1) obtain k0 p where "t_socks s i = Some k0" "rd_sock i rd" by (rule rx_invE)
  with assms(2,3) show ?thesis
    by (intro rx_inv_frame[OF assms(1,2), of _ "k\<lparr>sk_wait_read := w\<rparr>"]) (simp_all add: same_rx_def)
qed

lemma rx_sleep_inv:
  assumes "rx_inv D cuts b i (pc, rd, s, got)" "t_socks s i = Some k" "rx_sleep k = (x, k')"
    and "\<And>p. pc_ok D cuts b i p k pc \<Longrightarrow> pc_ok D cuts b i p k pc'"
  shows "rx_inv D cuts b i (pc', rd, put_sk i k' s, got)"
proof -
  from assms(1) obtain k0 p where r: "t_socks s i = Some k0" "rd_sock i rd" by (rule rx_invE)
  have k': "same_rx k k'" "sk_rcv_buf k' = sk_rcv_buf k" using assms(3)
    by (auto simp: rx_sleep_def same_rx_def split: prod.splits sleep_result.splits)
  show ?thesis by (rule rx_inv_frame[OF assms(1,2) _ k' r(2) _ assms(4)]) simp_all
qed

lemma deliver:
  assumes "rx_inv D cuts b i (pc, rd, s, got)" "t_socks s i = Some k" "pl \<noteq> []"
    "write_ring_buffer (sk_rcv_buf k) pl = Some rb" "t_socks t i = Some k'" "sk_rcv_buf k' = rb"
    and ok: "\<And>p. p \<le> length D \<Longrightarrow> pc_ok D cuts b i p k pc \<Longrightarrow> seg D cuts p pl \<and> pc_ok D cuts b i (p + length pl) k' pc'"
  shows "rx_inv D cuts b i (pc', rd, t, got)"
  using assms(1)
proof (rule rx_invE)
  fix k0 p
  assume k0: "t_socks s i = Some k0" "rb_inv (sk_rcv_buf k0)" "p \<le> length D" "rd_sock i rd"
    "got @ in_hand rd @ rb_contents (sk_rcv_buf k0) = take p D" "pc_ok D cuts b i p k0 pc"
  have kk: "k0 = k" using k0(1) assms(2) by simp
  note o = ok[OF k0(3) k0(6)[unfolded kk]]
  have fit: "int (length pl) \<le> ring_buffer_free (sk_rcv_buf k)"
    using assms(4) write_ring_buffer_None[of pl "sk_rcv_buf k"] by force
  obtain rb' where rb': "write_ring_buffer (sk_rcv_buf k) pl = Some rb'" "rb_inv rb'"
    "rb_contents rb' = rb_contents (sk_rcv_buf k) @ pl"
    using write_ring_buffer_spec[OF k0(2)[unfolded kk] assms(3) fit] by blast
  then have rb: "rb' = rb" using assms(4) by simp
  have con: "got @ in_hand rd @ rb_contents (sk_rcv_buf k') = take (p + length pl) D"
    using k0(5) rb'(3) seg_extends[of D cuts p pl] o unfolding assms(6) rb kk by (metis append.assoc)
  have "p + length pl \<le> length D" using o by (simp add: seg_def)
  then show ?thesis
    by (intro rx_invI[OF assms(5) _ _ k0(4) con conjunct2[OF o]]) (use assms(6) rb'(2) rb in simp_all)
qed


lemma rx_head_inv:
  assumes inv: "rx_inv D cuts b i (RxHead i cb packet, rd, s, got)" and k: "t_socks s i = Some k"
    and st: "rx_step (RxHead i cb packet) s = Some (pc', t)"
  shows "rx_inv D cuts b i (pc', rd, t, got)"
proof (cases "ring_buffer_free (sk_rcv_buf k) < cb_pl_len cb")
  case True
  with st k have "pc' = RxHeadWait i cb packet" "t = put_sk i (k\<lparr>sk_wait_read := wake (sk_wait_read k)\<rparr>) s"
    by simp_all
  with rx_wait_inv[OF inv k, of pc'] show ?thesis by simp
next
  case False
  define h where "h = (\<lambda>rb. k\<lparr>sk_rcv_buf := rb, sk_rcv_wnd := sk_rcv_wnd k - of_int (cb_pl_len cb)\<rparr>)"
  have h: "sk_rcv_buf (h rb) = rb" "sk_ofo (h rb) = sk_ofo k" for rb by (simp_all add: h_def)
  let ?n = "nat (cb_pl_len cb)"
  note st = st[unfolded rx_step.simps k bind.bind_lunit if_not_P[OF False], folded h_def]
  have pos: "0 < cb_pl_len cb" using st by (simp split: if_splits)
  then have "\<not> cb_pl_len cb \<le> 0" by simp
  note st = st[unfolded if_not_P[OF this]]
  obtain pl where pl: "ld_bytes packet (cb_payload cb) ?n = Some pl" using st by (rule opt_bindE)
  note st = st[unfolded pl bind.bind_lunit]
  obtain rb where d: "write_ring_buffer (sk_rcv_buf k) pl = Some rb" using st by (rule opt_bindE)
  note st = st[unfolded d bind.bind_lunit]
  have d: "0 < cb_pl_len cb" "ld_bytes packet (cb_payload cb) ?n = Some pl"
    "write_ring_buffer (sk_rcv_buf k) pl = Some rb" "pc' = RxOfo i (cb_seq_end cb) (sk_ofo k)" "t = put_sk i (h rb) s"
    using pos pl d st by (simp_all add: h_def split: if_splits)
  have ne: "pl \<noteq> []" using d(1,2) by (auto simp: ld_bytes_def split: if_splits)
  show ?thesis
  proof (rule deliver[OF inv k ne d(3), of _ "h rb"])
    fix p assume p: "p \<le> length D" "pc_ok D cuts b i p k (RxHead i cb packet)"
    then obtain pl' where de: "describes D cuts b cb packet p pl'" "idle_ok D cuts b p k"
      by (auto simp: head_ok_def)
    have "pl' = pl" using de(1) d(2) by (simp add: describes_def)
    with de d(4) show "seg D cuts p pl \<and> pc_ok D cuts b i (p + length pl) (h rb) pc'"
      using pieces_jump[of D cuts p pl b "sk_ofo k"] by (simp add: describes_def ofo_ok_def idle_ok_def h)
  qed (simp_all add: d(5) h)
qed

lemma idle_after_ofo:
  assumes f: "fits b D" and p: "p \<le> length D" and e: "e = b + of_nat p" and rest: "pieces D cuts b p rest"
    and stop: "rest = [] \<or> e < ofo_seq (hd rest)"
  shows "pieces D cuts b (Suc p) rest"
proof (cases rest)
  case (Cons x ys)
  then obtain m where m: "p \<le> m" "seg D cuts m (ofo_payload x)" "ofo_seq x = b + of_nat m"
    "ofo_seq_end x = b + of_nat (m + length (ofo_payload x))" "pieces D cuts b (m + length (ofo_payload x)) ys"
    using rest by (auto simp del: of_nat_add)
  have "b + of_nat p < b + of_nat m" using stop e m(3) Cons by simp
  then have "p < m" using off_less[OF f p] seg_le[OF m(2)] by simp
  then show ?thesis unfolding Cons using m by (auto intro!: exI[of _ m] simp del: of_nat_add)
qed simp

lemma rx_ofo_end_inv:
  assumes f: "fits b D" and inv: "rx_inv D cuts b i (RxOfo i e rest, rd, s, got)" and k: "t_socks s i = Some k"
    and fi: "rx_finish i (put_sk i (k\<lparr>sk_rcv_nxt := e\<rparr>) s) = Some (pc', t)" and stop: "rest = [] \<or> e < ofo_seq (hd rest)"
  shows "rx_inv D cuts b i (pc', rd, t, got)"
proof -
  have k1: "t_socks (put_sk i (k\<lparr>sk_rcv_nxt := e\<rparr>) s) i = Some (k\<lparr>sk_rcv_nxt := e\<rparr>)" by simp
  obtain k' where k': "pc' = RxIdle" "t_socks t i = Some k'" "same_rx (k\<lparr>sk_rcv_nxt := e\<rparr>) k'" "sk_rcv_buf k' = sk_rcv_buf k"
    using rx_finish_frame[OF k1 fi] by auto
  obtain k0 p where k0: "t_socks s i = Some k0" "rb_inv (sk_rcv_buf k0)" "p \<le> length D" "rd_sock i rd"
    "got @ in_hand rd @ rb_contents (sk_rcv_buf k0) = take p D" "pc_ok D cuts b i p k0 (RxOfo i e rest)"
    by (rule rx_invE[OF inv])
  have kk: "k0 = k" using k0(1) k by simp
  have o: "e = b + of_nat p" "pieces D cuts b p rest" "sk_ofo k = rest \<or> sk_ofo k = []"
    using k0(6) kk by (simp_all add: ofo_ok_def)
  have "sk_rcv_nxt k' = e" "sk_ofo k' = sk_ofo k" using k'(3) by (simp_all add: same_rx_def)
  then have "idle_ok D cuts b p k'"
    using o idle_after_ofo[OF f k0(3) o(1,2) stop] by (auto simp: idle_ok_def)
  with k' k0 kk show ?thesis by (intro rx_invI[OF k'(2), of p]) simp_all
qed

lemma rx_ofo_inv:
  assumes f: "fits b D" and inv: "rx_inv D cuts b i (RxOfo i e rest, rd, s, got)" and k: "t_socks s i = Some k"
    and st: "rx_step (RxOfo i e rest) s = Some (pc', t)"
  shows "rx_inv D cuts b i (pc', rd, t, got)"
proof (cases rest)
  case Nil
  with st k have "rx_finish i (put_sk i (k\<lparr>sk_rcv_nxt := e\<rparr>) s) = Some (pc', t)" by simp
  with rx_ofo_end_inv[OF f inv k] Nil show ?thesis by simp
next
  case (Cons x ys)
  consider "e < ofo_seq x" | "\<not> e < ofo_seq x" "ring_buffer_free (sk_rcv_buf k) < int (length (ofo_payload x))"
    | (take) "\<not> e < ofo_seq x" "\<not> ring_buffer_free (sk_rcv_buf k) < int (length (ofo_payload x))" by blast
  then show ?thesis
  proof cases
    case 1
    with st k Cons have "rx_finish i (put_sk i (k\<lparr>sk_rcv_nxt := e\<rparr>) s) = Some (pc', t)" by simp
    with rx_ofo_end_inv[OF f inv k] Cons 1 show ?thesis by simp
  next
    case 2
    with st k Cons have "pc' = RxOfoWait i e rest" "t = put_sk i (k\<lparr>sk_wait_read := wake (sk_wait_read k)\<rparr>) s"
      by simp_all
    with rx_wait_inv[OF inv k, of pc'] show ?thesis by simp
  next
    case take
    define h where "h = (\<lambda>rb. k\<lparr>sk_rcv_buf := rb, sk_rcv_wnd := sk_rcv_wnd k - of_nat (length (ofo_payload x))\<rparr>)"
    from st k take Cons obtain rb where d: "write_ring_buffer (sk_rcv_buf k) (ofo_payload x) = Some rb"
      "pc' = RxOfo i (ofo_seq_end x) ys" "t = put_sk i (ofo_delete_first (h rb)) s"
      unfolding h_def by (auto split: Option.bind_splits if_splits)
    have ne: "ofo_payload x \<noteq> []" using d(1) by (auto simp: write_ring_buffer_def)
    have h: "sk_ofo (h rb) = sk_ofo k" "sk_rcv_buf (ofo_delete_first (h rb)) = rb"
      by (simp_all add: h_def ofo_delete_first_def)
    show ?thesis
    proof (rule deliver[OF inv k ne d(1), of _ "ofo_delete_first (h rb)"])
      fix p assume p: "p \<le> length D" "pc_ok D cuts b i p k (RxOfo i e rest)"
      then have o: "e = b + of_nat p" "pieces D cuts b p rest" "sk_ofo k = rest \<or> sk_ofo k = []"
        by (simp_all add: ofo_ok_def)
      then obtain m where m: "p \<le> m" "seg D cuts m (ofo_payload x)" "ofo_seq x = b + of_nat m"
        "ofo_seq_end x = b + of_nat (m + length (ofo_payload x))" "pieces D cuts b (m + length (ofo_payload x)) ys"
        unfolding Cons by (auto simp del: of_nat_add)
      have "\<not> b + of_nat p < b + of_nat m" using take(1) o(1) m(3) by simp
      then have mp: "m = p" using off_less[OF f p(1)] seg_le[OF m(2)] m(1) by simp
      have "sk_ofo (ofo_delete_first (h rb)) = ys \<or> sk_ofo (ofo_delete_first (h rb)) = []"
        using o(3) h by (auto simp: ofo_delete_first_def Cons)
      then show "seg D cuts p (ofo_payload x) \<and>
          pc_ok D cuts b i (p + length (ofo_payload x)) (ofo_delete_first (h rb)) pc'"
        using m unfolding d(2) mp by (simp add: ofo_ok_def)
    qed (simp_all add: d(3) h)
  qed
qed

lemma rx_step_inv:
  assumes f: "fits b D" and inv: "rx_inv D cuts b i (pc, rd, s, got)" and st: "rx_step pc s = Some (pc', t)"
  shows "rx_inv D cuts b i (pc', rd, t, got)"
proof -
  obtain k p0 where k: "t_socks s i = Some k" and p0: "pc_ok D cuts b i p0 k pc"
    by (rule rx_invE[OF inv])
  obtain x k' where sl: "rx_sleep k = (x, k')" by (cases "rx_sleep k")
  note sinv = rx_sleep_inv[OF inv k sl, of pc']
  show ?thesis
  proof (cases pc)
    case (RxHead j cb packet)
    with p0 have "j = i" by simp
    with rx_head_inv[of D cuts b i cb packet rd s got k pc' t] inv k st RxHead show ?thesis by simp
  next
    case (RxOfo j e rest)
    with p0 have "j = i" by simp
    with rx_ofo_inv[OF f, of cuts i e rest rd s got k pc' t] inv k st RxOfo show ?thesis by simp
  next
    case (RxHeadWait j cb packet)
    with p0 st k sl have "t = put_sk i k' s" "pc' = (if x then RxHeadSleep i cb packet else RxHead i cb packet)"
      by simp_all
    with sinv RxHeadWait show ?thesis by simp
  next
    case (RxOfoWait j e rest)
    with p0 st k sl have "t = put_sk i k' s" "pc' = (if x then RxOfoSleep i e rest else RxOfo i e rest)"
      by simp_all
    with sinv RxOfoWait show ?thesis by simp
  qed (use st inv in simp_all)
qed


lemma rx_rcv_inv:
  assumes f: "fits b D" and inv: "rx_inv D cuts b i (RxIdle, rd, s, got)" and de: "describes D cuts b cb packet j pl"
    and st: "tcp_rcv_data i cb packet s = Some (pc', t)"
  shows "rx_inv D cuts b i (pc', rd, t, got)"
proof -
  obtain k p where k: "t_socks s i = Some k" "rb_inv (sk_rcv_buf k)" "p \<le> length D" "rd_sock i rd"
    "got @ in_hand rd @ rb_contents (sk_rcv_buf k) = take p D" "pc_ok D cuts b i p k RxIdle"
    by (rule rx_invE[OF inv])
  define h where "h = (if sk_state k = TCP_SYN_RECV then k\<lparr>sk_state := TCP_ESTABLISHED\<rparr> else k)"
  have h: "sk_rcv_nxt h = b + of_nat p" "sk_ofo h = sk_ofo k" "sk_rcv_buf h = sk_rcv_buf k" "pieces D cuts b (Suc p) (sk_ofo k)"
    using k(6) by (simp_all add: h_def idle_ok_def)
  have idle: "rx_inv D cuts b i (RxIdle, rd, t, got)" if "t_socks t i = Some k'" "sk_rcv_nxt k' = b + of_nat p"
    "sk_rcv_buf k' = sk_rcv_buf k" "pieces D cuts b (Suc p) (sk_ofo k')" for k' t
    using that k by (intro rx_invI[OF that(1), of p]) (simp_all add: idle_ok_def)
  have sg: "seg D cuts j pl" "cb_seq cb = b + of_nat j" "cb_seq_end cb = b + of_nat (j + length pl)"
    "cb_pl_len cb = int (length pl)" "ld_bytes packet (cb_payload cb) (length pl) = Some pl"
    using de by (simp_all add: describes_def)
  note st = st[unfolded tcp_rcv_data_def k(1) bind.bind_lunit Let_def, folded h_def]
  consider "sk_rcv_nxt h = cb_seq cb" | (ahead) "sk_rcv_nxt h \<noteq> cb_seq cb" "sk_rcv_nxt h < cb_seq cb"
    | (old) "sk_rcv_nxt h \<noteq> cb_seq cb" "\<not> sk_rcv_nxt h < cb_seq cb" by blast
  then show ?thesis
  proof cases
    case 1
    with st have pc: "pc' = RxHead i cb packet" "t = put_sk i h s" by auto
    have "p = j" using 1 h(1) sg(2) off_eq[OF f k(3), of j] seg_le[OF sg(1)] by simp
    with de h k show ?thesis unfolding pc by (intro rx_invI[of _ _ h p]) (auto simp: head_ok_def idle_ok_def)
  next
    case ahead
    note st = st[unfolded if_not_P[OF ahead(1)] if_P[OF ahead(2)]]
    from st obtain k1 where k1: "write_ofo_buffer cb packet h = Some k1" "rx_finish i (put_sk i k1 (put_sk i h s)) = Some (pc', t)"
      by (rule opt_bindE)
    let ?x = "\<lparr>ofo_seq = cb_seq cb, ofo_seq_end = cb_seq_end cb, ofo_payload = pl\<rparr>"
    obtain q c where q: "ofo_scan True ?x (sk_ofo h) = (q, c)" by (cases "ofo_scan True ?x (sk_ofo h)")
    have k1f: "sk_ofo k1 = q" "sk_rcv_nxt k1 = sk_rcv_nxt h" "sk_rcv_buf k1 = sk_rcv_buf h"
      using k1(1) sg q by (auto simp: write_ofo_buffer_def Let_def split: if_splits)
    have "p < j" using ahead(2) h(1) sg(2) off_less[OF f k(3)] seg_le[OF sg(1)] by simp
    then have pq: "pieces D cuts b (Suc p) q"
      using pieces_insert[OF f, of cuts "Suc p" "sk_ofo h" j ?x True q c] h(2,4) sg q by simp
    have "t_socks (put_sk i k1 (put_sk i h s)) i = Some k1" by simp
    from rx_finish_frame[OF this k1(2)] obtain k' where "pc' = RxIdle" "t_socks t i = Some k'" "same_rx k1 k'"
      "sk_rcv_buf k' = sk_rcv_buf k1" by blast
    then show ?thesis using idle[of t k'] h k1f pq by (simp add: same_rx_def)
  next
    case old
    note st = st[unfolded if_not_P[OF old(1)] if_not_P[OF old(2)]]
    have hk: "t_socks (put_sk i h s) i = Some h" by simp
    have c: "TCP_ACK AND (TCP_SYN OR TCP_FIN) = 0" by (simp add: tcp_flag_defs)
    obtain n where "tcp_send_control_packet i TCP_ACK (put_sk i h s) = Some ((put_sk i h s)\<lparr>t_net := n\<rparr>)"
      using tcp_send_control_total[OF hk, of TCP_ACK] unfolding c by auto
    with st have "pc' = RxIdle" "t = (put_sk i h s)\<lparr>t_net := n\<rparr>" by auto
    then show ?thesis using idle[of t h] h by simp
  qed
qed

lemma rx_read_inv:
  assumes inv: "rx_inv D cuts b i (pc, rd, s, got)" and st: "read_step rd s = Some (rd', t)"
  shows "rx_inv D cuts b i (pc, rd', t, got)"
proof -
  obtain k p where k: "t_socks s i = Some k" "rb_inv (sk_rcv_buf k)" "p \<le> length D" "rd_sock i rd"
    "got @ in_hand rd @ rb_contents (sk_rcv_buf k) = take p D" "pc_ok D cuts b i p k pc"
    by (rule rx_invE[OF inv])
  have frame: "rx_inv D cuts b i (pc, rd', t, got)" if "t_socks t i = Some k'" "same_rx k k'" "sk_rcv_buf k' = sk_rcv_buf k"
    "rd_sock i rd'" "in_hand rd' = in_hand rd" for k'
    using rx_inv_frame[OF inv k(1) that(1-3) that(4,5)] by simp
  show ?thesis
  proof (cases rd)
    case (RdHead j len)
    with k have j: "j = i" by simp
    show ?thesis
    proof (cases "ring_buffer_empty (sk_rcv_buf k)")
      case True
      with st k(1) RdHead j have "rd' = RdWait i len" "t = s" by simp_all
      with frame[of k] k RdHead show ?thesis by (simp add: same_rx_def)
    next
      case False
      obtain rb where rb: "read_ring_buffer (sk_rcv_buf k) len = Some (take (nat len) (rb_contents (sk_rcv_buf k)), rb)"
        "rb_inv rb" "rb_contents rb = drop (nat len) (rb_contents (sk_rcv_buf k))"
        using read_ring_buffer_spec[OF k(2)] by blast
      define h where "h = k\<lparr>sk_rcv_buf := rb, sk_rcv_wnd := sk_rcv_wnd k + of_int (min (ring_buffer_used (sk_rcv_buf k)) len)\<rparr>"
      have rt: "rd' = RdSpin i (take (nat len) (rb_contents (sk_rcv_buf k)))" "t = put_sk i h s"
        using st k(1) RdHead j False rb(1) by (simp_all add: h_def)
      have "same_rx k h" "sk_rcv_buf h = rb" by (simp_all add: h_def same_rx_def)
      then show ?thesis using k rb RdHead unfolding rt by (intro rx_invI[of _ _ h p]) (simp_all add: pc_ok_same)
    qed
  next
    case (RdWait j len)
    with k have j: "j = i" by simp
    obtain w where "t_socks t i = Some (k\<lparr>sk_wait_read := w\<rparr>)" "rd' = RdSleep i len \<or> rd' = RdHead i len"
      using st k(1) RdWait j by (auto split: sleep_result.splits prod.splits)
    with frame show ?thesis using RdWait by (auto simp: same_rx_def)
  next
    case (RdSpin j r)
    with k have j: "j = i" by simp
    show ?thesis
    proof (cases "sw_sleep (sk_wait_recv k)")
      case True
      with st k(1) RdSpin j have "rd' = rd" "t = s" by simp_all
      with inv show ?thesis by simp
    next
      case False
      with st k(1) RdSpin j have "rd' = RdDone r" "t = put_sk i (k\<lparr>sk_wait_recv := wake (sk_wait_recv k)\<rparr>) s" by simp_all
      with frame[of "k\<lparr>sk_wait_recv := wake (sk_wait_recv k)\<rparr>"] RdSpin show ?thesis by (simp add: same_rx_def)
    qed
  qed (use st inv in simp_all)
qed

lemma rx_resume_inv:
  assumes inv: "rx_inv D cuts b i (pc, rd, s, got)" and st: "rx_resume pc s = Some (pc', t)"
  shows "rx_inv D cuts b i (pc', rd, t, got)"
proof -
  obtain k p where k: "t_socks s i = Some k" "rd_sock i rd" "pc_ok D cuts b i p k pc" by (rule rx_invE[OF inv])
  let ?k = "k\<lparr>sk_wait_recv := snd (sleep_on_resume (sk_wait_recv k))\<rparr>"
  have frame: "rx_inv D cuts b i (pc', rd, put_sk i ?k s, got)" if "\<And>p. pc_ok D cuts b i p k pc \<Longrightarrow> pc_ok D cuts b i p k pc'"
    by (rule rx_inv_frame[OF inv k(1), of _ ?k]) (use that k(2) in \<open>simp_all add: same_rx_def\<close>)
  show ?thesis
  proof (cases pc)
    case (RxHeadSleep j cb packet)
    with k(3) st k(1) have "pc' = RxHead i cb packet" "t = put_sk i ?k s" by simp_all
    with frame RxHeadSleep show ?thesis by simp
  next
    case (RxOfoSleep j e rest)
    with k(3) st k(1) have "pc' = RxOfo i e rest" "t = put_sk i ?k s" by simp_all
    with frame RxOfoSleep show ?thesis by simp
  qed (use st inv in simp_all)
qed

lemma rx_read_resume_inv:
  assumes inv: "rx_inv D cuts b i (pc, rd, s, got)" and st: "read_resume rd s = Some (rd', t)"
  shows "rx_inv D cuts b i (pc, rd', t, got)"
proof -
  obtain k p where k: "t_socks s i = Some k" "rd_sock i rd" by (rule rx_invE[OF inv])
  show ?thesis
  proof (cases rd)
    case (RdSleep j len)
    let ?k = "k\<lparr>sk_wait_read := snd (sleep_on_resume (sk_wait_read k))\<rparr>"
    from RdSleep k st have t: "rd' = RdHead i len" "t = put_sk i ?k s" by simp_all
    show ?thesis unfolding t
      by (rule rx_inv_frame[OF inv k(1), of _ ?k]) (use k RdSleep in \<open>simp_all add: same_rx_def\<close>)
  qed (use st inv in simp_all)
qed


lemma rx_sys_inv:
  assumes f: "fits b D" and inv: "rx_inv D cuts b i x" and st: "rx_sys D cuts b i x y"
  shows "rx_inv D cuts b i y"
  using st inv
proof (induction rule: rx_sys.induct)
  case (arrive cb packet j pl s pc t rd got)
  show ?case by (rule rx_rcv_inv[OF f arrive(3,1,2)])
next
  case (packet_thread pc s pc' t rd got)
  show ?case by (rule rx_step_inv[OF f packet_thread(2,1)])
next
  case (packet_resume s k pc pc' t rd got)
  show ?case by (rule rx_resume_inv[OF packet_resume(4,3)])
next
  case (read_call pc r s got len)
  obtain k p where "t_socks s i = Some k" "rb_inv (sk_rcv_buf k)" "p \<le> length D"
    "got @ in_hand (RdDone r) @ rb_contents (sk_rcv_buf k) = take p D" "pc_ok D cuts b i p k pc"
    by (rule rx_invE[OF read_call])
  then show ?case by (intro rx_invI[of s i k p]) (simp_all add: tcp_sock_read_def)
next
  case (reader rd s rd' t pc got)
  show ?case by (rule rx_read_inv[OF reader(2,1)])
next
  case (reader_resume s k rd rd' t pc got)
  show ?case by (rule rx_read_resume_inv[OF reader_resume(4,3)])
qed

lemma rx_runs_inv:
  assumes "fits b D"
  shows "rx_runs D cuts b i x y \<Longrightarrow> rx_inv D cuts b i x \<Longrightarrow> rx_inv D cuts b i y"
  by (induction rule: rx_runs.induct) (blast intro: rx_sys_inv[OF assms])+

section \<open>Properties\<close>

text \<open>A socket ready to receive the stream from its first byte.\<close>

definition at_start :: "u32 \<Rightarrow> tcp_sock \<Rightarrow> bool" where
  "at_start b k \<longleftrightarrow> sk_rcv_nxt k = b \<and> sk_ofo k = [] \<and> rb_inv (sk_rcv_buf k) \<and> rb_contents (sk_rcv_buf k) = []"




fun rx_asleep :: "addr \<Rightarrow> rx_pc \<Rightarrow> bool" where
  "rx_asleep i (RxHeadSleep j _ _) = (j = i)"
| "rx_asleep i (RxOfoSleep j _ _) = (j = i)"
| "rx_asleep i _ = False"

fun rd_done :: "rd_pc \<Rightarrow> bool" where
  "rd_done (RdDone _) = True"
| "rd_done _ = False"

definition recv_blocked :: "addr \<Rightarrow> tcp \<Rightarrow> bool" where
  "recv_blocked i s \<longleftrightarrow> (\<exists>k. t_socks s i = Some k \<and> sw_sleep (sk_wait_recv k) \<and> \<not> sw_notified (sk_wait_recv k))"

lemma read_step_blocked:
  assumes "recv_blocked i s" "rd_sock i rd" "\<not> rd_done rd" "read_step rd s = Some (rd', t)"
  shows "recv_blocked i t \<and> rd_sock i rd' \<and> \<not> rd_done rd'"
proof -
  obtain k where k: "t_socks s i = Some k" "sw_sleep (sk_wait_recv k)" "\<not> sw_notified (sk_wait_recv k)"
    using assms(1) by (auto simp: recv_blocked_def)
  show ?thesis
  proof (cases rd)
    case (RdHead j len)
    with assms k show ?thesis
      by (auto simp: recv_blocked_def split: if_splits Option.bind_splits)
  next
    case (RdWait j len)
    with assms k show ?thesis
      by (auto simp: recv_blocked_def split: sleep_result.splits prod.splits)
  next
    case (RdSpin j r)
    with assms k have "rd' = rd" "t = s" by simp_all
    with assms show ?thesis by simp
  next
    case (RdSleep j len)
    with assms(4) have "rd' = rd" "t = s" by simp_all
    with assms show ?thesis by simp
  qed (use assms(3) in simp)
qed

lemma rx_asleep_step: "rx_asleep i pc \<Longrightarrow> rx_step pc s = Some (pc', t) \<Longrightarrow> pc' = pc \<and> t = s"
  by (cases pc) auto

lemma rx_blocked_sys:
  assumes "rx_sys D cuts b i (pc, rd, s, got) (pc', rd', t, got')"
    and "rx_asleep i pc" "recv_blocked i s" "rd_sock i rd" "\<not> rd_done rd"
  shows "pc' = pc \<and> recv_blocked i t \<and> rd_sock i rd' \<and> \<not> rd_done rd' \<and> got' = got"
  using assms(1)
proof (cases rule: rx_sys.cases)
  case arrive
  with assms(2) show ?thesis by simp
next
  case packet_thread
  have "pc' = pc" "t = s" using rx_asleep_step[OF assms(2) packet_thread(3)] by simp_all
  with packet_thread assms(3-5) show ?thesis by simp
next
  case (packet_resume k)
  with assms(3) show ?thesis by (simp add: recv_blocked_def)
next
  case read_call
  with assms(5) show ?thesis by simp
next
  case reader
  with read_step_blocked[OF assms(3-5)] show ?thesis by simp
next
  case (reader_resume k)
  obtain k1 where k1: "t_socks s i = Some k1" "sw_sleep (sk_wait_recv k1)" "\<not> sw_notified (sk_wait_recv k1)"
    using assms(3) by (auto simp: recv_blocked_def)
  show ?thesis
  proof (cases rd)
    case (RdSleep j len)
    with assms(4) reader_resume(5) k1 have "rd' = RdHead i len"
      "t = put_sk i (k1\<lparr>sk_wait_read := snd (sleep_on_resume (sk_wait_read k1))\<rparr>) s" by simp_all
    with reader_resume k1 show ?thesis by (simp add: recv_blocked_def)
  qed (use reader_resume assms(3-5) in simp_all)
qed


definition blocked_tcp :: tcp where
  "blocked_tcp = one_sock (established\<lparr>sk_wait_recv := wait_init\<lparr>sw_sleep := True\<rparr>\<rparr>)"



lemma ack_frame_data:
  assumes "t_socks s i = Some k" "sb_ok k" "cb_ack cb = sk_snd_una k"
  shows "\<exists>t k'. tcp_process_ack i cb s = Some t \<and> t_socks t i = Some k' \<and> same_ident k k'"
proof -
  obtain n k' where "tcp_process_ack i cb s = Some ((put_sk i k' s)\<lparr>t_net := n\<rparr>)" "same_ident k k'"
    using tcp_process_ack_frame[OF assms(1,2), of cb] assms(3) by auto
  then show ?thesis by simp
qed

text \<open>A segment without data moves the receive position to its own end without comparing the
  two: if a pure acknowledgement overtakes lost data, the retransmitted data is old when it comes,
  and is acknowledged without ever being delivered.\<close>

theorem pure_ack_skips_lost_data:
  assumes "t_socks s i = Some k" "sk_state k = TCP_ESTABLISHED" "sb_ok k"
    and "cb_flags cb = TCP_ACK" "cb_ack cb = sk_snd_una k" "cb_seq data < cb_seq_end cb"
  shows "\<exists>t u k'. tcp_process (Some i) cb p s = Some (RxIdle, t) \<and> tcp_rcv_data i data q t = Some (RxIdle, u) \<and>
    t_socks u i = Some k' \<and> sk_rcv_nxt k' = cb_seq_end cb \<and> sk_rcv_buf k' = sk_rcv_buf k \<and> sk_ofo k' = sk_ofo k"
proof -
  define k0 where "k0 = k\<lparr>sk_rcv_nxt := cb_seq_end cb\<rparr>"
  have k0: "t_socks (put_sk i k0 s) i = Some k0" "sb_ok k0" "cb_ack cb = sk_snd_una k0"
    using assms(3,5) by (simp_all add: k0_def sb_ok_def)
  obtain s1 k1 where s1: "tcp_process_ack i cb (put_sk i k0 s) = Some s1" "t_socks s1 i = Some k1" "same_ident k0 k1"
    using ack_frame_data[OF k0] by blast
  have f: "TCP_ACK AND TCP_PSH = 0" "TCP_ACK AND TCP_ACK \<noteq> 0" "TCP_ACK \<noteq> TCP_SYN" "TCP_ACK \<noteq> TCP_SYN OR TCP_ACK"
    by (simp_all add: tcp_flag_defs)
  have k1: "sk_state k1 = TCP_ESTABLISHED" "sk_rcv_nxt k1 = cb_seq_end cb" "sk_rcv_buf k1 = sk_rcv_buf k" "sk_ofo k1 = sk_ofo k"
    using s1(3) assms(2) by (simp_all add: same_ident_def k0_def)
  define k2 where "k2 = (if sk_cgt k1 = OPEN then k1\<lparr>sk_wait_send := wake (sk_wait_send k1)\<rparr> else k1)"
  have ra: "tcp_rcv_ack i s1 = Some (put_sk i k2 s1)"
    unfolding tcp_rcv_ack_def s1(2) bind.bind_lunit k1(1) wake_send_def upd_sk_Some[OF s1(2)]
    by (simp add: k2_def s1(2))
  have tp: "tcp_process (Some i) cb p s = Some (RxIdle, put_sk i k2 s1)"
    unfolding tcp_process_def option.case Let_def assms(4) if_P[OF f(1)] if_P[OF f(2)] upd_sk_Some[OF assms(1)]
      bind.bind_lunit k0_def[symmetric] s1(1,2) if_not_P[OF f(3)] if_not_P[OF f(4)] if_P[OF refl] ra
    by simp
  let ?t = "put_sk i k2 s1"
  have k2: "t_socks ?t i = Some k2" "sk_state k2 = TCP_ESTABLISHED" "sk_rcv_nxt k2 = cb_seq_end cb"
    "sk_rcv_buf k2 = sk_rcv_buf k" "sk_ofo k2 = sk_ofo k" using k1 by (simp_all add: k2_def)
  have c: "TCP_ACK AND (TCP_SYN OR TCP_FIN) = 0" by (simp add: tcp_flag_defs)
  obtain n where "tcp_send_control_packet i TCP_ACK ?t = Some (?t\<lparr>t_net := n\<rparr>)"
    using tcp_send_control_total[OF k2(1), of TCP_ACK] unfolding c by auto
  moreover have lt: "sk_rcv_nxt k2 \<noteq> cb_seq data" "\<not> sk_rcv_nxt k2 < cb_seq data" using k2(3) assms(6) by auto
  ultimately have rd: "tcp_rcv_data i data q ?t = Some (RxIdle, ?t\<lparr>t_net := n\<rparr>)"
    using k2 lt by (simp add: tcp_rcv_data_def Let_def)
  have "t_socks (?t\<lparr>t_net := n\<rparr>) i = Some k2" by simp
  with tp rd show ?thesis using k2(3-5) by blast
qed

theorem pure_ack_skips_lost_data_witness:
  "\<exists>t u k'. tcp_process (Some 0) ((ack_cb 0)\<lparr>cb_seq_end := 500\<rparr>) [] established_tcp = Some (RxIdle, t) \<and>
     tcp_rcv_data 0 (ack_cb 0) [] t = Some (RxIdle, u) \<and> t_socks u 0 = Some k' \<and> sk_rcv_nxt k' = 500"
proof -
  have "sb_ok established" "sk_snd_una established = 0" by (simp_all add: established_def sb_ok_def fresh_sock_def)
  then show ?thesis
    using pure_ack_skips_lost_data[OF established_tcp_simps(1) established_state, of "(ack_cb 0)\<lparr>cb_seq_end := 500\<rparr>" "ack_cb 0" "[]" "[]"]
    by (auto simp: ack_cb_def)
qed

end
