(* ===== verification/Tcp_Timer.thy ===== *)
theory Tcp_Timer
  imports Tcp_States
begin

text \<open>
  \<open>tcp_timer.c\<close> of prj14: one pass over the timer list, every 10 ms. Time-wait timers run down and
  release their socket; the retransmission timer of a socket ages every packet it has in flight. The
  pass holds \<open>timer_lock\<close>, which is not recursive: releasing the last reference of a socket inside
  it takes the same lock in \<open>tcp_unset_retrans_timer\<close> and never returns, so that branch is \<open>None\<close>.
\<close>

text \<open>The entry of one packet after a tick, and what the tick does with the packet.\<close>

datatype tick = Running | Resend | GaveUp

definition buf_tick :: "send_buffer \<Rightarrow> tick \<times> send_buffer" where
  "buf_tick b =
     (let b = b\<lparr>sb_timeout := sb_timeout b - TCP_TIMER_SCAN_INTERVAL\<rparr> in
      if sb_timeout b \<noteq> 0 then (Running, b)
      else if sb_times b = 3 then (GaveUp, b\<lparr>sb_times := 1, sb_timeout := TCP_RETRANS_INTERVAL_INITIAL\<rparr>)
      else let b = b\<lparr>sb_times := sb_times b + 1\<rparr>
        in (Resend, b\<lparr>sb_timeout := (if sb_times b = 2 then 2 else 4) * TCP_RETRANS_INTERVAL_INITIAL\<rparr>))"

definition enter_loss :: "tcp_sock \<Rightarrow> tcp_sock" where
  "enter_loss k =
     (let k = (if sk_cgt k \<noteq> LOSS then k\<lparr>sk_recovery_point := sk_snd_nxt k\<rparr> else k)
      in k\<lparr>sk_cgt := LOSS, sk_ssthresh := (sk_cwnd k + 1) div 2, sk_cwnd := 1, sk_snd_wnd := of_nat MSS\<rparr>)"

fun scan_bufs :: "send_buffer list \<Rightarrow> tcp_sock \<Rightarrow> tcp \<Rightarrow> (send_buffer list \<times> tcp_sock \<times> tcp) option" where
  "scan_bufs [] k s = Some ([], k, s)"
| "scan_bufs (b # bs) k s =
     (case buf_tick b of
        (Running, b') \<Rightarrow> do { (bs, k, s) \<leftarrow> scan_bufs bs k s; Some (b' # bs, k, s) }
      | (GaveUp, b') \<Rightarrow> do { (bs, k, s) \<leftarrow> scan_bufs bs (enter_loss k) s; Some (b' # bs, k, s) }
      | (Resend, b') \<Rightarrow> do {
          s \<leftarrow> tcp_retransmit (sb_packet b) s;
          (bs, k, s) \<leftarrow> scan_bufs bs (enter_loss k) s;
          Some (b' # bs, k, s) })"

definition scan_retrans :: "addr \<Rightarrow> tcp \<Rightarrow> tcp option" where
  "scan_retrans i s = do {
     k \<leftarrow> t_socks s i;
     (bs, k, s) \<leftarrow> scan_bufs (sk_send_buf k) k s;
     Some (put_sk i (k\<lparr>sk_send_buf := bs\<rparr>) s) }"

definition scan_timewait :: "addr \<Rightarrow> tcp \<Rightarrow> tcp option" where
  "scan_timewait i s = do {
     s \<leftarrow> upd_sk i (\<lambda>k. k\<lparr>sk_timewait := sk_timewait k - TCP_TIMER_SCAN_INTERVAL\<rparr>) s;
     k \<leftarrow> t_socks s i;
     if sk_timewait k \<le> 0 then do {
       let s = s\<lparr>t_timers := remove1 (TimeWait i) (t_timers s)\<rparr>;
       s \<leftarrow> tcp_set_state i TCP_CLOSED s;
       s \<leftarrow> (if sk_parent k = None then tcp_bind_unhash i s else Some s);
       s \<leftarrow> tcp_unhash i s;
       if t_socks s i = None then None else Some s }
     else Some s }"

fun scan_list :: "timer list \<Rightarrow> tcp \<Rightarrow> tcp option" where
  "scan_list [] s = Some s"
| "scan_list (TimeWait i # ts) s = do { s \<leftarrow> scan_timewait i s; scan_list ts s }"
| "scan_list (Retrans i # ts) s = do { s \<leftarrow> scan_retrans i s; scan_list ts s }"

definition tcp_scan_timer_list :: "tcp \<Rightarrow> tcp option" where
  "tcp_scan_timer_list s = scan_list (t_timers s) s"

fun tcp_scans :: "nat \<Rightarrow> tcp \<Rightarrow> tcp option" where
  "tcp_scans 0 s = Some s"
| "tcp_scans (Suc n) s = do { s \<leftarrow> tcp_scan_timer_list s; tcp_scans n s }"

end
