(* ===== verification/Ustack.thy ===== *)
theory Ustack
  imports Tcp_Data Tcp_Timer
begin

text \<open>
  The composed stack of prj14: from a frame read off a device (\<open>ustack_run\<close>, \<open>handle_packet\<close> in
  \<open>main.c\<close>) through IP (\<open>handle_ip_packet\<close>) to TCP (\<open>handle_tcp_packet\<close>). Opening devices and
  reading their addresses is the operating system's; what \<open>getifaddrs\<close>, \<open>poll\<close> and \<open>recvfrom\<close>
  delivered are arguments here.
\<close>

section \<open>Dispatch\<close>

definition ETH_P_IP :: u16 where "ETH_P_IP = 0x0800"
definition ETH_P_ARP :: u16 where "ETH_P_ARP = 0x0806"

definition handle_tcp_packet :: "bytes \<Rightarrow> nat \<Rightarrow> nat \<Rightarrow> tcp \<Rightarrow> (rx_pc \<times> tcp) option" where
  "handle_tcp_packet packet ipoff off s = do {
     ck \<leftarrow> tcp_checksum packet ipoff off;
     h \<leftarrow> get_tcp packet off;
     if ck \<noteq> th_cksum h then Some (RxIdle, s)
     else do {
       ip \<leftarrow> get_ip packet ipoff;
       let cb = tcp_cb_init ip h off;
       tsk \<leftarrow> tcp_sock_lookup cb s;
       tcp_process tsk cb packet s } }"

definition handle_ip_packet :: "iface \<Rightarrow> bytes \<Rightarrow> tcp \<Rightarrow> (rx_pc \<times> tcp) option" where
  "handle_ip_packet ifc packet s = do {
     ip \<leftarrow> get_ip packet ETHER_HDR_SIZE;
     let dst = htonl (daddr ip);
     let data = ETHER_HDR_SIZE + ip_hdr_size ip;
     if dst = if_ip ifc then
       if protocol ip = IPPROTO_ICMP then do {
         icmp \<leftarrow> get_icmp packet data;
         if icmp_type icmp = ICMP_ECHOREQUEST
         then map_option (Pair RxIdle) (on_net (icmp_send_packet packet ICMP_ECHOREPLY 0) s)
         else Some (RxIdle, s) }
       else if protocol ip = IPPROTO_TCP then handle_tcp_packet packet ETHER_HDR_SIZE data s
       else Some (RxIdle, s)
     else map_option (Pair RxIdle) (on_net (ip_forward_packet dst packet) s) }"

definition handle_packet :: "iface \<Rightarrow> bytes \<Rightarrow> tcp \<Rightarrow> (rx_pc \<times> tcp) option" where
  "handle_packet ifc packet s = do {
     eh \<leftarrow> get_ether packet 0;
     let ty = htons (ether_type eh);
     if ty = ETH_P_IP then handle_ip_packet ifc packet s
     else if ty = ETH_P_ARP then map_option (Pair RxIdle) (on_net (handle_arp_packet ifc packet) s)
     else Some (RxIdle, s) }"

section \<open>Devices\<close>

fun fd_to_iface :: "int \<Rightarrow> (int \<times> iface) list \<Rightarrow> iface option" where
  "fd_to_iface fd [] = None"
| "fd_to_iface fd ((fd', ifc) # rest) = (if fd' = fd then Some ifc else fd_to_iface fd rest)"

text \<open>What one round of \<open>poll\<close> and \<open>recvfrom\<close> finds on a descriptor.\<close>

datatype event = NoEvent | ReceiveError | Outgoing bytes | Incoming bytes

text \<open>One round over the descriptors. The packet thread may fall asleep in a frame; it then goes on with
  the remaining descriptors only after it was woken, so the round yields them too.\<close>

fun ustack_round :: "(int \<times> iface) list \<Rightarrow> (int \<times> event) list \<Rightarrow> tcp \<Rightarrow> (rx_pc \<times> (int \<times> event) list \<times> tcp) option" where
  "ustack_round ifs [] s = Some (RxIdle, [], s)"
| "ustack_round ifs ((fd, Incoming p) # evs) s = do {
     ifc \<leftarrow> fd_to_iface fd ifs;
     (pc, s) \<leftarrow> handle_packet ifc p s;
     if pc = RxIdle then ustack_round ifs evs s else Some (pc, evs, s) }"
| "ustack_round ifs (ev # evs) s = ustack_round ifs evs s"

text \<open>\<open>find_available_ifaces\<close> over the result of \<open>getifaddrs\<close>: whether the entry has a packet address,
  and its name. No device at all ends the program.\<close>

fun has_eth :: "string \<Rightarrow> bool" where
  "has_eth [] = False"
| "has_eth (c # cs) = (take 4 (c # cs) = ''-eth'' \<or> has_eth cs)"

definition find_available_ifaces :: "(bool \<times> string) list \<Rightarrow> string list option" where
  "find_available_ifaces addrs =
     (let names = map snd (filter (\<lambda>(pkt, name). pkt \<and> has_eth name) addrs)
      in if names = [] then None else Some names)"

text \<open>\<open>run_application\<close>: which application the arguments select; anything else prints the usage.\<close>

datatype app = Server string | Client string string

definition run_application :: "string list \<Rightarrow> app option" where
  "run_application args =
     (case args of
        [] \<Rightarrow> None
      | a # rest \<Rightarrow>
          if a = ''server'' then (case rest of [port] \<Rightarrow> Some (Server port) | _ \<Rightarrow> None)
          else if a = ''client'' then (case rest of [ip, port] \<Rightarrow> Some (Client ip port) | _ \<Rightarrow> None)
          else None)"

end
