(* ===== verification/Tcp_Service.thy ===== *)
theory Tcp_Service
  imports Tcp_Data
begin

text \<open>
  The applications of prj14 (\<open>tcp_apps.c\<close> with \<open>FILE_TRANSFER\<close> and \<open>NO_ECHO\<close> defined): a server that
  writes what it reads to a file and a client that sends a file in pieces of at most 500 bytes. The
  threads are program points around those of the calls they make. The file system does what it is
  asked.
\<close>

definition CONTENT_SIZE :: nat where "CONTENT_SIZE = 500"

section \<open>The server\<close>

datatype srv_pc = SrvAccept ac_pc | SrvRead addr rd_pc bytes | SrvClosed bytes | SrvExit

text \<open>Up to \<open>tcp_sock_accept\<close>; \<open>SrvExit\<close> is \<open>exit (1)\<close>.\<close>

definition tcp_server :: "u16 \<Rightarrow> tcp \<Rightarrow> (srv_pc \<times> tcp) option" where
  "tcp_server port s = do {
     (i, s) \<leftarrow> alloc_tcp_sock s;
     (r, s) \<leftarrow> tcp_sock_bind i port s;
     if r < 0 then Some (SrvExit, s) else do {
       (r, s) \<leftarrow> tcp_sock_listen i 3 s;
       if r < 0 then Some (SrvExit, s) else Some (SrvAccept (tcp_sock_accept i), s) } }"

fun server_step :: "srv_pc \<Rightarrow> tcp \<Rightarrow> (srv_pc \<times> tcp) option" where
  "server_step (SrvAccept (AcDone c)) s = Some (SrvRead c (tcp_sock_read c (int CONTENT_SIZE)) [], s)"
| "server_step (SrvAccept pc) s = do { (pc, s) \<leftarrow> accept_step pc s; Some (SrvAccept pc, s) }"
| "server_step (SrvRead c (RdDone res) file) s =
     (if res = [] then do { s \<leftarrow> tcp_sock_close c s; Some (SrvClosed file, s) }
      else Some (SrvRead c (tcp_sock_read c (int CONTENT_SIZE)) (file @ res), s))"
| "server_step (SrvRead c pc file) s = do { (pc, s) \<leftarrow> read_step pc s; Some (SrvRead c pc file, s) }"
| "server_step pc s = Some (pc, s)"

section \<open>The client\<close>

datatype cl_pc = ClConnect addr cn_pc | ClSend addr wr_pc bytes | ClClosed | ClExit

definition tcp_client :: "u32 \<Rightarrow> u16 \<Rightarrow> tcp \<Rightarrow> (cl_pc \<times> tcp) option" where
  "tcp_client nip nport s = do {
     (i, s) \<leftarrow> alloc_tcp_sock s;
     (pc, s) \<leftarrow> tcp_sock_connect i nip nport s;
     Some (ClConnect i pc, s) }"

text \<open>The loop of \<open>fread\<close> and \<open>tcp_sock_write\<close>: \<open>wbuf\<close> holds the bytes read and zeros behind them.\<close>

definition client_send :: "addr \<Rightarrow> bytes \<Rightarrow> tcp \<Rightarrow> (cl_pc \<times> tcp) option" where
  "client_send i file s =
     (let chunk = take CONTENT_SIZE file;
          wbuf = chunk @ replicate (CONTENT_SIZE - length chunk) 0
      in if chunk = [] then do { s \<leftarrow> tcp_sock_close i s; Some (ClClosed, s) }
         else Some (ClSend i (tcp_sock_write i wbuf (int (length chunk))) (drop CONTENT_SIZE file), s))"

fun client_step :: "bytes \<Rightarrow> cl_pc \<Rightarrow> tcp \<Rightarrow> (cl_pc \<times> tcp) option" where
  "client_step file (ClConnect i (CnDone r)) s = (if r < 0 then Some (ClExit, s) else client_send i file s)"
| "client_step file (ClConnect i (CnWoken j)) s = do { (pc, s) \<leftarrow> connect_finish j s; Some (ClConnect i pc, s) }"
| "client_step file (ClSend i (WrDone r) rest) s = client_send i rest s"
| "client_step file (ClSend i pc rest) s = do { (pc, s) \<leftarrow> write_step pc s; Some (ClSend i pc rest, s) }"
| "client_step file pc s = Some (pc, s)"

end
