(* ===== verification/Tcp_Store.thy ===== *)
theory Tcp_Store
  imports Ustack Tcp_Service
begin

text \<open>
  The socket store of prj14 under every operation of the stack: segments, timers and the calls of
  applications in any order. An invariant of the store that the primitive operations keep (the
  locale \<open>store_invariant\<close>) is kept by every handler. It is interpreted on the reference counts: each
  socket is on the timer list for retransmission and that reference is never returned, so every
  count stays positive, no socket is ever released, and the hash tables never hold a dangling
  pointer. The search for a free port, which follows such tables, therefore always ends.
\<close>

section \<open>Partial correctness\<close>

text \<open>\<open>pred_option P m\<close>: whatever \<open>m\<close> returns satisfies \<open>P\<close>.\<close>

lemma pred_read: "(\<And>x. m = Some x \<Longrightarrow> pred_option P (f x)) \<Longrightarrow> pred_option P (m \<bind> f)"
  by (cases m) simp_all

lemma pred_if: "(b \<Longrightarrow> pred_option P x) \<Longrightarrow> (\<not> b \<Longrightarrow> pred_option P y) \<Longrightarrow> pred_option P (if b then x else y)"
  by simp

lemma pred_optionI: "(\<And>x. m = Some x \<Longrightarrow> P x) \<Longrightarrow> pred_option P m"
  by (cases m) simp_all

text \<open>Reading values that are not states.\<close>

lemmas reads = pred_read[where 'a = tcp_sock] pred_read[where 'a = "8 word list"] pred_read[where 'a = iphdr]
  pred_read[where 'a = u16] pred_read[where 'a = nat] pred_read[where 'a = iface] pred_read[where 'a = ring_buffer]
  pred_read[where 'a = "bytes \<times> ring_buffer"] pred_read[where 'a = send_buffer] pred_read[where 'a = bool]
  pred_read[where 'a = int] pred_read[where 'a = tcphdr] pred_read[where 'a = "nat option"]

lemma pred_optionD: "pred_option P m \<Longrightarrow> m = Some x \<Longrightarrow> P x"
  by simp

text \<open>The part of a socket that says who refers to it.\<close>

definition core :: "tcp_sock \<Rightarrow> int \<times> link \<times> link" where
  "core k = (sk_ref_cnt k, sk_hash_link k, sk_bind_link k)"

lemma core_simps [simp]: "core k' = core k \<longleftrightarrow> sk_ref_cnt k' = sk_ref_cnt k \<and> sk_hash_link k' = sk_hash_link k \<and> sk_bind_link k' = sk_bind_link k"
  by (simp add: core_def)

lemma retransmit: "pred_option (same_but_net s) (tcp_retransmit p s)"
  unfolding tcp_retransmit_def on_net_def by (intro pred_read) simp

lemma ack_pop_core: "ack_pop ack bs k = (k', buf) \<Longrightarrow> core k' = core k \<and> sk_timewait k' = sk_timewait k \<and> sk_state k' = sk_state k"
  by (induction ack bs k rule: ack_pop.induct) (auto simp: tcp_cwnd_inc_def tcp_pop_sendbuf_def Let_def split: if_splits)

lemma scan_bufs_core:
  "scan_bufs bs k s = Some (bs', k', t) \<Longrightarrow>
     core k' = core k \<and> sk_timewait k' = sk_timewait k \<and> same_but_net s t"
proof (induction bs k s arbitrary: bs' k' t rule: scan_bufs.induct)
  case (2 b bs k s)
  have e: "core (enter_loss q) = core q \<and> sk_timewait (enter_loss q) = sk_timewait q" for q by (simp add: enter_loss_def Let_def)
  obtain a b' where b: "buf_tick b = (a, b')" by (cases "buf_tick b")
  show ?case
  proof (cases a)
    case Running
    with 2(1,4) b show ?thesis by (auto split: Option.bind_splits)
  next
    case GaveUp
    with 2(4) b obtain bs1 where "scan_bufs bs (enter_loss k) s = Some (bs1, k', t)" by (auto split: Option.bind_splits)
    with 2(2) 2(3) b GaveUp e show ?thesis by simp
  next
    case Resend
    with 2(4) b obtain s' where s': "tcp_retransmit (sb_packet b) s = Some s'" by (auto split: Option.bind_splits)
    moreover obtain bs'' where "scan_bufs bs (enter_loss k) s' = Some (bs'', k', t)"
      using 2(4) b Resend s' by (auto split: Option.bind_splits)
    ultimately have "core k' = core k" "sk_timewait k' = sk_timewait k" "same_but_net s' t" using 2(2)[OF b[symmetric] Resend s'] e by auto
    moreover have "same_but_net s s'" using pred_optionD[OF retransmit s'] .
    ultimately show ?thesis by (cases s; cases s'; cases t) (simp add: same_but_net_def)
  qed
qed simp

section \<open>Invariants of the store\<close>

locale store_invariant =
  fixes I :: "tcp \<Rightarrow> bool"
  assumes net: "I s \<Longrightarrow> I (s\<lparr>t_net := n\<rparr>)"
    and put: "I s \<Longrightarrow> t_socks s i = Some k \<Longrightarrow> core k' = core k \<Longrightarrow> I (put_sk i k' s)"
    and alloc: "I s \<Longrightarrow> pred_option (\<lambda>x. I (snd x)) (alloc_tcp_sock s)"
    and timewait: "I s \<Longrightarrow> pred_option I (tcp_set_timewait_timer i s)"
    and bind_hash: "I s \<Longrightarrow> pred_option I (tcp_bind_hash i s)"
    and bind_unhash: "I s \<Longrightarrow> pred_option I (tcp_bind_unhash i s)"
    and hash: "I s \<Longrightarrow> pred_option (\<lambda>x. I (snd x)) (tcp_hash i s)"
    and unhash: "I s \<Longrightarrow> pred_option I (tcp_unhash i s)"
    and expire: "I s \<Longrightarrow> I (s\<lparr>t_timers := remove1 (TimeWait i) (t_timers s)\<rparr>)"
begin

lemma seq: "pred_option I m \<Longrightarrow> (\<And>s. I s \<Longrightarrow> pred_option P (f s)) \<Longrightarrow> pred_option P (m \<bind> f)"
  by (cases m) simp_all

lemma seq_pair: "pred_option (\<lambda>x. I (snd x)) m \<Longrightarrow> (\<And>x. I (snd x) \<Longrightarrow> pred_option P (f x)) \<Longrightarrow> pred_option P (m \<bind> f)"
  by (cases m) auto

lemma upd: "I s \<Longrightarrow> (\<And>k. core (f k) = core k) \<Longrightarrow> pred_option I (upd_sk i f s)"
  unfolding upd_sk_def by (intro pred_read) (simp add: put)

lemma set_state: "I s \<Longrightarrow> pred_option I (tcp_set_state i st s)"
  unfolding tcp_set_state_def by (rule upd) simp_all

lemma on_net: "I s \<Longrightarrow> pred_option I (on_net f s)"
  unfolding on_net_def by (intro pred_read) (simp add: net)

lemmas steps = net alloc timewait bind_hash bind_unhash hash unhash upd set_state on_net

lemma read_upd: "I s \<Longrightarrow> t_socks s i = Some k \<Longrightarrow> core k' = core k \<Longrightarrow> pred_option I (Some (put_sk i k' s))"
  by (simp add: put)

lemma put_sendbuf: "I s \<Longrightarrow> pred_option I (put_sendbuf i p s)"
  unfolding put_sendbuf_def by (rule upd) simp_all

lemma send_control: "I s \<Longrightarrow> pred_option I (tcp_send_control_packet i fl s)"
  unfolding tcp_send_control_packet_def Let_def split_beta
  by (intro reads seq pred_if put_sendbuf on_net) (simp_all add: put net)

lemma send_packet: "I s \<Longrightarrow> pred_option I (tcp_send_packet i p s)"
  unfolding tcp_send_packet_def Let_def split_beta
  by (intro reads seq put_sendbuf on_net put net) simp_all

lemma send_reset: "I s \<Longrightarrow> pred_option I (tcp_send_reset cb s)"
  unfolding tcp_send_reset_def Let_def split_beta
  by (intro reads on_net net) simp_all

lemma new_iss: "I s \<Longrightarrow> I (snd (tcp_new_iss s))"
  by (simp add: tcp_new_iss_def split_beta net)

text \<open>The calls of an application.\<close>

lemma set_sport: "I s \<Longrightarrow> pred_option (\<lambda>x. I (snd x)) (tcp_sock_set_sport i port s)"
  unfolding tcp_sock_set_sport_def
  by (intro reads pred_if seq upd bind_hash pred_read[where 'a = bool] pred_read[where 'a = u16]) simp_all

lemma bind_port: "I s \<Longrightarrow> pred_option (\<lambda>x. I (snd x)) (tcp_sock_bind i port s)"
  unfolding tcp_sock_bind_def by (rule set_sport)

lemma listen: "I s \<Longrightarrow> pred_option (\<lambda>x. I (snd x)) (tcp_sock_listen i n s)"
  unfolding tcp_sock_listen_def by (intro seq upd set_state hash) simp_all

lemma connect: "I s \<Longrightarrow> pred_option (\<lambda>x. I (snd x)) (tcp_sock_connect i a p s)"
  unfolding tcp_sock_connect_def Let_def split_beta
  by (intro reads seq seq_pair pred_if upd set_sport set_state hash send_control new_iss)
    (simp_all add: put split: prod.split sleep_result.split)

lemma connect_resume: "I s \<Longrightarrow> pred_option (\<lambda>x. I (snd x)) (connect_resume pc s)"
  unfolding connect_finish_def
  by (cases pc) (auto simp: connect_finish_def intro!: seq upd set_state send_control)

lemma dequeue: "I s \<Longrightarrow> pred_option (\<lambda>x. I (snd x)) (tcp_sock_accept_dequeue i s)"
  unfolding tcp_sock_accept_dequeue_def
  by (intro reads) (auto simp: put split: list.split intro!: seq upd)

lemma accept_call: "I s \<Longrightarrow> pred_option (\<lambda>x. I (snd x)) (accept_step pc s)"
  by (cases pc) (auto intro!: reads seq_pair dequeue simp: split_beta put split: sleep_result.split prod.split)

lemma close_call: "I s \<Longrightarrow> pred_option I (tcp_sock_close i s)"
  unfolding tcp_sock_close_def by (intro reads pred_if seq set_state send_control) simp_all

lemma read_call: "I s \<Longrightarrow> pred_option (\<lambda>x. I (snd x)) (read_step pc s)"
  by (cases pc) (auto intro!: reads simp: split_beta put split: sleep_result.split prod.split)

lemma read_resume: "I s \<Longrightarrow> pred_option (\<lambda>x. I (snd x)) (read_resume pc s)"
  by (cases pc) (auto intro!: seq upd)

lemma write_call: "I s \<Longrightarrow> pred_option (\<lambda>x. I (snd x)) (write_step pc s)"
  by (cases pc) (auto intro!: reads seq send_packet simp: Let_def put split: sleep_result.split prod.split)

lemma write_resume: "I s \<Longrightarrow> pred_option (\<lambda>x. I (snd x)) (write_resume pc s)"
  by (cases pc) (auto intro!: seq upd)

text \<open>Segments.\<close>

lemma wake_ups: "I s \<Longrightarrow> pred_option I (wake_connect i s)" "I s \<Longrightarrow> pred_option I (wake_accept i s)" "I s \<Longrightarrow> pred_option I (wake_send i s)"
  unfolding wake_connect_def wake_accept_def wake_send_def by (rule upd; simp)+

lemma leave_queue: "I s \<Longrightarrow> pred_option I (leave_queue i s)"
  unfolding leave_queue_def by (intro reads) (auto split: queue_link.split intro!: upd)

lemma enqueue: "I s \<Longrightarrow> pred_option I (tcp_sock_accept_enqueue i s)"
  unfolding tcp_sock_accept_enqueue_def by (intro seq reads leave_queue upd) simp_all

lemma rx_finish: "I s \<Longrightarrow> pred_option (\<lambda>x. I (snd x)) (rx_finish i s)"
  unfolding rx_finish_def by (intro seq upd send_control) simp_all

lemma rx_step: "I s \<Longrightarrow> pred_option (\<lambda>x. I (snd x)) (rx_step pc s)"
proof -
  have o: "core (ofo_delete_first k) = core k" for k by (simp add: ofo_delete_first_def)
  have r: "core (snd (rx_sleep k)) = core k" for k by (simp add: rx_sleep_def split: prod.split sleep_result.split)
  assume "I s"
  then show ?thesis using o r
    by (cases pc) (auto intro!: reads rx_finish simp: Let_def split_beta put split: list.split)
qed

lemma rx_resume: "I s \<Longrightarrow> pred_option (\<lambda>x. I (snd x)) (rx_resume pc s)"
  by (cases pc) (auto intro!: seq upd)

lemma rcv_data: "I s \<Longrightarrow> pred_option (\<lambda>x. I (snd x)) (tcp_rcv_data i cb p s)"
proof -
  have w: "core k' = core k" if "write_ofo_buffer cb p k = Some k'" for k k'
    using that by (auto simp: write_ofo_buffer_def Let_def split: if_splits Option.bind_splits prod.splits)
  assume "I s"
  then show ?thesis unfolding tcp_rcv_data_def Let_def
    by (intro reads pred_if rx_finish seq send_control) (auto simp: put dest!: w)
qed

lemma rcv_syn_listen: "I s \<Longrightarrow> pred_option I (tcp_rcv_syn_listen i cb s)"
  unfolding tcp_rcv_syn_listen_def Let_def split_beta
  by (intro seq_pair seq reads alloc upd set_state hash send_control new_iss) simp_all

lemma rcv_ack: "I s \<Longrightarrow> pred_option I (tcp_rcv_ack i s)"
  unfolding tcp_rcv_ack_def
  by (intro reads) (auto split: tcp_state.split intro!: seq reads enqueue wake_ups set_state bind_unhash unhash)

lemma rcv_fin: "I s \<Longrightarrow> pred_option I (tcp_rcv_fin i s)" "I s \<Longrightarrow> pred_option I (tcp_rcv_ack_fin i s)"
  unfolding tcp_rcv_fin_def tcp_rcv_ack_fin_def
  by (intro reads; auto split: tcp_state.split intro!: seq set_state send_control timewait)+

lemma put_net: "I s \<Longrightarrow> t_socks s i = Some k \<Longrightarrow> core k' = core k \<Longrightarrow> same_but_net s t \<Longrightarrow> I (put_sk i k' t)"
  using net[of s "t_net t"] put[of t i k k'] by (simp add: same_but_net_def) (metis tcp.select_convs(2) tcp.surjective tcp.update_convs(1))

lemma process_ack: "I s \<Longrightarrow> pred_option I (tcp_process_ack i cb s)"
proof -
  assume I: "I s"
  have r: "core (rcvr_dup_ack k) = core k" for k by (simp add: rcvr_dup_ack_def Let_def)
  have u: "core (tcp_update_window_safe cb k) = core k" for k
    by (simp add: tcp_update_window_safe_def tcp_update_window_def Let_def)
  have t: "same_but_net s t" if "tcp_retransmit p s = Some t" for p t using pred_optionD[OF retransmit that] .
  have "pred_option I (tcp_dup_ack i k s)" if "t_socks s i = Some k" for k
    unfolding tcp_dup_ack_def using I that r
    by (auto simp: Let_def put intro!: pred_optionI put_net dest!: t split: cgt.splits list.splits Option.bind_splits if_splits)
  moreover have "pred_option I (tcp_new_ack i (cb_ack cb) k s)" if "t_socks s i = Some k" for k
  proof -
    obtain k' buf where p: "ack_pop (cb_ack cb) (sk_send_buf k) (k\<lparr>sk_rep_ack := 0\<rparr>) = (k', buf)" by fastforce
    have "core k' = core k" using ack_pop_core[OF p] by simp
    then show ?thesis unfolding tcp_new_ack_def p using I that
      by (auto simp: Let_def put intro!: pred_optionI put_net dest!: t split: cgt.splits Option.bind_splits if_splits)
  qed
  ultimately show ?thesis unfolding tcp_process_ack_def using u
    by (intro reads seq upd) (auto split: if_splits)
qed

lemma process: "I s \<Longrightarrow> pred_option (\<lambda>x. I (snd x)) (tcp_process tsk cb p s)"
proof (cases tsk)
  case (Some i)
  have m: "pred_option (\<lambda>x. I (snd x)) (map_option (Pair RxIdle) q) = pred_option I q" for q by (cases q) simp_all
  assume "I s"
  then show ?thesis unfolding tcp_process_def Some Let_def option.case m
    by (intro seq reads pred_if) (auto simp: m intro!: upd process_ack rcv_syn_listen wake_ups rcv_ack rcv_data rcv_fin)
qed (simp add: tcp_process_def)

lemma idle: "I s \<Longrightarrow> pred_option (\<lambda>x. I (snd x)) (map_option (Pair RxIdle) (on_net f s))"
  using on_net[of s f] by (cases "on_net f s") simp_all

lemma segment: "I s \<Longrightarrow> pred_option (\<lambda>x. I (snd x)) (handle_tcp_packet p ipoff off s)"
  unfolding handle_tcp_packet_def Let_def by (intro reads pred_if process) simp_all

lemma packet: "I s \<Longrightarrow> pred_option (\<lambda>x. I (snd x)) (handle_packet ifc p s)"
  unfolding handle_packet_def handle_ip_packet_def Let_def
  by (intro pred_read[where 'a = ether_header] pred_read[where 'a = icmphdr] reads pred_if idle segment) simp_all

text \<open>The timer thread.\<close>

lemma scan_retrans: "I s \<Longrightarrow> pred_option I (scan_retrans i s)"
  unfolding scan_retrans_def
  by (intro reads pred_optionI) (auto split: Option.bind_splits dest!: scan_bufs_core intro!: put_net)

lemma scan_timewait: "I s \<Longrightarrow> pred_option I (scan_timewait i s)"
  unfolding scan_timewait_def Let_def
  by (intro seq reads pred_if upd set_state bind_unhash unhash expire) simp_all

lemma scan_list: "I s \<Longrightarrow> pred_option I (scan_list ts s)"
proof (induction ts arbitrary: s)
  case (Cons t ts)
  then show ?case by (cases t) (auto intro!: seq scan_timewait scan_retrans)
qed simp

lemma scan: "I s \<Longrightarrow> pred_option I (tcp_scan_timer_list s)"
  unfolding tcp_scan_timer_list_def by (rule scan_list)

end

section \<open>Reference counts\<close>

text \<open>The references a socket is sure to have: the retransmission timer and the tables it is in.\<close>

definition refs :: "tcp_sock \<Rightarrow> int" where
  "refs k = 1 + of_bool (sk_hash_link k = Linked) + of_bool (sk_bind_link k = Linked)"

definition counted :: "tcp \<Rightarrow> addr \<Rightarrow> bool" where
  "counted s i \<longleftrightarrow> (case t_socks s i of None \<Rightarrow> True
     | Some k \<Rightarrow> i < t_next s \<and> Retrans i \<in> set (t_timers s) \<and> refs k \<le> sk_ref_cnt k)"

text \<open>The addresses in tables and timers.\<close>

definition named :: "tcp \<Rightarrow> addr set" where
  "named s = (\<Union>h. set (t_est s h) \<union> set (t_lis s h) \<union> set (t_bind s h)) \<union>
     {i. Retrans i \<in> set (t_timers s) \<or> TimeWait i \<in> set (t_timers s)}"

text \<open>All sockets of \<open>D\<close> are there, every socket is counted, and every name is that of a socket.\<close>

definition store_ok :: "addr set \<Rightarrow> tcp \<Rightarrow> bool" where
  "store_ok D s \<longleftrightarrow> D \<subseteq> dom (t_socks s) \<and> (\<forall>i. counted s i) \<and> named s \<subseteq> dom (t_socks s)"

lemma named_put [simp]: "named (put_sk i k s) = named s"
  by (simp add: named_def)

lemma store_okI:
  "D \<subseteq> dom (t_socks s) \<Longrightarrow> (\<And>i. counted s i) \<Longrightarrow> named s \<subseteq> dom (t_socks s) \<Longrightarrow> store_ok D s"
  by (simp add: store_ok_def)

lemma store_okD:
  assumes "store_ok D s" "t_socks s i = Some k"
  shows "i < t_next s" "Retrans i \<in> set (t_timers s)" "refs k \<le> sk_ref_cnt k"
  using assms unfolding store_ok_def by (auto simp: counted_def split: option.splits dest!: spec[of _ i])

text \<open>Replacing one socket, while tables and timers lose names or gain its own.\<close>

lemma store_ok_put:
  assumes ok: "store_ok D s" and k: "t_socks s i = Some k" and r: "refs k' \<le> sk_ref_cnt k'"
    and t: "t_socks t = t_socks s" "t_next t = t_next s" "set (t_timers s) \<subseteq> insert (TimeWait j) (set (t_timers t))" "named t \<subseteq> insert i (named s)"
  shows "store_ok D (put_sk i k' t)"
proof (rule store_okI)
  show "D \<subseteq> dom (t_socks (put_sk i k' t))" using ok t(1) by (auto simp: store_ok_def)
  show "named (put_sk i k' t) \<subseteq> dom (t_socks (put_sk i k' t))"
    using ok t(1,4) by (auto simp: store_ok_def)
  fix m
  have "counted s m" using ok by (simp add: store_ok_def)
  then show "counted (put_sk i k' t) m"
    using t(1-3) store_okD[OF ok k] r by (auto simp: counted_def split: option.splits)
qed

lemma store_ok_same: "store_ok D s \<Longrightarrow> t_socks s i = Some k \<Longrightarrow> core k' = core k \<Longrightarrow> store_ok D (put_sk i k' s)"
  using store_okD(3)[of D s i k] by (intro store_ok_put[where k = k and j = 0]) (auto simp: refs_def)

lemma free_kept:
  "t_socks s i = Some k \<Longrightarrow> 2 \<le> sk_ref_cnt k \<Longrightarrow> free_tcp_sock i s = Some (put_sk i (k\<lparr>sk_ref_cnt := sk_ref_cnt k - 1\<rparr>) s)"
  by (simp add: free_tcp_sock_def)

lemma store_ok_unlink:
  assumes ok: "store_ok D s" and k: "t_socks s i = Some k" and l: "refs k' = refs k - 1" "sk_ref_cnt k' = sk_ref_cnt k"
    and t: "t_socks t = t_socks s" "t_next t = t_next s" "t_timers t = t_timers s" "named t \<subseteq> named s"
  shows "pred_option (store_ok D) (free_tcp_sock i (put_sk i k' t))"
proof -
  have "refs k \<le> sk_ref_cnt k" using store_okD[OF ok k] by simp
  moreover have "1 \<le> refs k'" by (simp add: refs_def)
  ultimately have "free_tcp_sock i (put_sk i k' t) = Some (put_sk i (k'\<lparr>sk_ref_cnt := sk_ref_cnt k' - 1\<rparr>) (put_sk i k' t))"
    using l by (intro free_kept) simp_all
  moreover have "store_ok D (put_sk i (k'\<lparr>sk_ref_cnt := sk_ref_cnt k' - 1\<rparr>) t)"
    using l t \<open>refs k \<le> sk_ref_cnt k\<close> by (intro store_ok_put[OF ok k, where j = 0]) (auto simp: refs_def)
  ultimately show ?thesis by simp
qed

definition counted_sock :: tcp_sock where
  "counted_sock = fresh_sock\<lparr>sk_retrans_timeout := TCP_RETRANS_INTERVAL_INITIAL, sk_ref_cnt := 1\<rparr>"

lemma counted_sock_simps [simp]: "sk_state counted_sock = TCP_CLOSED" "sk_ref_cnt counted_sock = 1" "refs counted_sock = 1"
  by (simp_all add: counted_sock_def fresh_sock_def refs_def)

lemma alloc_eq:
  assumes "Retrans (t_next s) \<notin> set (t_timers s)"
  shows "alloc_tcp_sock s = Some (t_next s, put_sk (t_next s) counted_sock
    (s\<lparr>t_next := Suc (t_next s), t_timers := t_timers s @ [Retrans (t_next s)]\<rparr>))"
  using assms by (simp add: alloc_tcp_sock_def tcp_set_retrans_timer_def put_sk_def counted_sock_def fresh_sock_def Let_def)

lemma store_ok_alloc: "store_ok D s \<Longrightarrow> pred_option (\<lambda>x. store_ok D (snd x)) (alloc_tcp_sock s)"
proof -
  assume ok: "store_ok D s"
  let ?i = "t_next s"
  have n: "t_socks s ?i = None" using store_okD(1)[OF ok, of ?i] by (cases "t_socks s ?i") auto
  have r: "Retrans ?i \<notin> set (t_timers s)" using ok n by (auto simp: store_ok_def named_def)
  let ?t = "put_sk ?i counted_sock (s\<lparr>t_next := Suc ?i, t_timers := t_timers s @ [Retrans ?i]\<rparr>)"
  have "alloc_tcp_sock s = Some (?i, ?t)" by (rule alloc_eq[OF r])
  moreover have "store_ok D ?t"
  proof (rule store_okI)
    show "D \<subseteq> dom (t_socks ?t)" using ok by (auto simp: store_ok_def)
    show "named ?t \<subseteq> dom (t_socks ?t)" using ok by (auto simp: store_ok_def named_def)
    fix m
    have "counted s m" using ok by (simp add: store_ok_def)
    then show "counted ?t m" by (auto simp: counted_def split: option.splits)
  qed
  ultimately show ?thesis by simp
qed

lemma store_ok_timewait: "store_ok D s \<Longrightarrow> pred_option (store_ok D) (tcp_set_timewait_timer i s)"
  unfolding tcp_set_timewait_timer_def
proof (cases "t_socks s i")
  case (Some k)
  assume ok: "store_ok D s"
  have "store_ok D (put_sk i (k\<lparr>sk_timewait := TCP_TIMEWAIT_TIMEOUT, sk_ref_cnt := sk_ref_cnt k + 1\<rparr>)
      (s\<lparr>t_timers := t_timers s @ [TimeWait i]\<rparr>))"
    using store_okD[OF ok Some] by (intro store_ok_put[OF ok Some, where j = 0]) (auto simp: refs_def named_def)
  then show "pred_option (store_ok D) (upd_sk i (\<lambda>k. k\<lparr>sk_timewait := TCP_TIMEWAIT_TIMEOUT\<rparr>) s \<bind>
      (\<lambda>s. if TimeWait i \<in> set (t_timers s) then None
        else upd_sk i (\<lambda>k. k\<lparr>sk_ref_cnt := sk_ref_cnt k + 1\<rparr>) (s\<lparr>t_timers := t_timers s @ [TimeWait i]\<rparr>)))"
    using Some by (simp add: put_sk_def upd_sk_def)
qed simp

lemma store_ok_link:
  assumes ok: "store_ok D s" and k: "t_socks s i = Some k"
  shows "sk_bind_link k \<noteq> Linked \<Longrightarrow> store_ok D (put_sk i (k\<lparr>sk_bind_link := Linked, sk_ref_cnt := sk_ref_cnt k + 1\<rparr>)
      (s\<lparr>t_bind := (t_bind s)(h := i # t_bind s h)\<rparr>))"
    and "sk_hash_link k \<noteq> Linked \<Longrightarrow> store_ok D (put_sk i (k\<lparr>sk_hash_link := Linked, sk_ref_cnt := sk_ref_cnt k + 1\<rparr>)
      (s\<lparr>t_est := (t_est s)(h := i # t_est s h)\<rparr>))"
    and "sk_hash_link k \<noteq> Linked \<Longrightarrow> store_ok D (put_sk i (k\<lparr>sk_hash_link := Linked, sk_ref_cnt := sk_ref_cnt k + 1\<rparr>)
      (s\<lparr>t_lis := (t_lis s)(h := i # t_lis s h)\<rparr>))"
  using store_okD(3)[OF ok k]
  by (intro store_ok_put[OF ok k, where j = 0]; auto simp: refs_def named_def split: if_splits)+

lemma store_ok_hash:
  assumes ok: "store_ok D s"
  shows "pred_option (store_ok D) (tcp_bind_hash i s)" "pred_option (\<lambda>x. store_ok D (snd x)) (tcp_hash i s)"
  unfolding tcp_bind_hash_def tcp_hash_def Let_def
  using ok by (intro reads pred_if; simp add: store_ok_link[OF ok])+

lemma named_remove: "named (s\<lparr>t_est := (t_est s)(h := remove1 i (t_est s h))\<rparr>) \<subseteq> named s"
  "named (s\<lparr>t_lis := (t_lis s)(h := remove1 i (t_lis s h))\<rparr>) \<subseteq> named s"
  "named (s\<lparr>t_bind := (t_bind s)(h := remove1 i (t_bind s h))\<rparr>) \<subseteq> named s"
  by (auto simp: named_def dest: notin_set_remove1 split: if_splits)

lemma store_ok_unhash:
  assumes ok: "store_ok D s"
  shows "pred_option (store_ok D) (tcp_bind_unhash i s)" "pred_option (store_ok D) (tcp_unhash i s)"
proof -
  show "pred_option (store_ok D) (tcp_bind_unhash i s)"
    unfolding tcp_bind_unhash_def Let_def
    by (intro reads pred_if store_ok_unlink[OF ok]) (simp_all add: refs_def named_remove)
  show "pred_option (store_ok D) (tcp_unhash i s)"
    unfolding tcp_unhash_def Let_def
    by (intro reads pred_if store_ok_unlink[OF ok]) (simp_all add: refs_def named_remove)
qed

lemma store_ok_expire: "store_ok D s \<Longrightarrow> store_ok D (s\<lparr>t_timers := remove1 (TimeWait i) (t_timers s)\<rparr>)"
  unfolding store_ok_def counted_def named_def
  by (auto split: option.splits dest: notin_set_remove1)

lemma store_ok_net: "store_ok D s \<Longrightarrow> store_ok D (s\<lparr>t_net := n\<rparr>)"
  by (auto simp: store_ok_def counted_def named_def split: option.splits)

interpretation sockets: store_invariant "store_ok D" for D
  by unfold_locales (simp_all add: store_ok_net store_ok_alloc store_ok_timewait store_ok_hash store_ok_unhash store_ok_expire store_ok_same)

section \<open>Runs of the stack\<close>

text \<open>One operation of any thread: the packet thread, the timer thread, an application, or the network
  layer.\<close>

inductive tcp_op :: "tcp \<Rightarrow> tcp \<Rightarrow> bool" where
  op_alloc: "alloc_tcp_sock s = Some (i, t) \<Longrightarrow> tcp_op s t"
| op_bind: "tcp_sock_bind i port s = Some (r, t) \<Longrightarrow> tcp_op s t"
| op_listen: "tcp_sock_listen i n s = Some (r, t) \<Longrightarrow> tcp_op s t"
| op_connect: "tcp_sock_connect i a port s = Some (cn, t) \<Longrightarrow> tcp_op s t"
| op_connect_resume: "connect_resume cn s = Some (cn', t) \<Longrightarrow> tcp_op s t"
| op_accept: "accept_step ac s = Some (ac', t) \<Longrightarrow> tcp_op s t"
| op_close: "tcp_sock_close i s = Some t \<Longrightarrow> tcp_op s t"
| op_read: "read_step rd s = Some (rd', t) \<Longrightarrow> tcp_op s t"
| op_read_resume: "read_resume rd s = Some (rd', t) \<Longrightarrow> tcp_op s t"
| op_write: "write_step wr s = Some (wr', t) \<Longrightarrow> tcp_op s t"
| op_write_resume: "write_resume wr s = Some (wr', t) \<Longrightarrow> tcp_op s t"
| op_packet: "handle_packet ifc p s = Some (rx, t) \<Longrightarrow> tcp_op s t"
| op_rx: "rx_step rx s = Some (rx', t) \<Longrightarrow> tcp_op s t"
| op_rx_resume: "rx_resume rx s = Some (rx', t) \<Longrightarrow> tcp_op s t"
| op_scan: "tcp_scan_timer_list s = Some t \<Longrightarrow> tcp_op s t"
| op_net: "tcp_op s (s\<lparr>t_net := n\<rparr>)"

lemma tcp_op_ok: "tcp_op s t \<Longrightarrow> store_ok D s \<Longrightarrow> store_ok D t"
proof (induction rule: tcp_op.induct)
  case (op_alloc s i t) then show ?case using pred_optionD[OF sockets.alloc] by fastforce
next
  case (op_bind i port s r t) then show ?case using pred_optionD[OF sockets.bind_port] by fastforce
next
  case (op_listen i n s r t) then show ?case using pred_optionD[OF sockets.listen] by fastforce
next
  case (op_connect i a port s cn t) then show ?case using pred_optionD[OF sockets.connect] by fastforce
next
  case (op_connect_resume cn s cn' t) then show ?case using pred_optionD[OF sockets.connect_resume] by fastforce
next
  case (op_accept ac s ac' t) then show ?case using pred_optionD[OF sockets.accept_call] by fastforce
next
  case (op_close i s t) then show ?case using pred_optionD[OF sockets.close_call] by fastforce
next
  case (op_read rd s rd' t) then show ?case using pred_optionD[OF sockets.read_call] by fastforce
next
  case (op_read_resume rd s rd' t) then show ?case using pred_optionD[OF sockets.read_resume] by fastforce
next
  case (op_write wr s wr' t) then show ?case using pred_optionD[OF sockets.write_call] by fastforce
next
  case (op_write_resume wr s wr' t) then show ?case using pred_optionD[OF sockets.write_resume] by fastforce
next
  case (op_packet ifc p s rx t) then show ?case using pred_optionD[OF sockets.packet] by fastforce
next
  case (op_rx rx s rx' t) then show ?case using pred_optionD[OF sockets.rx_step] by fastforce
next
  case (op_rx_resume rx s rx' t) then show ?case using pred_optionD[OF sockets.rx_resume] by fastforce
next
  case (op_scan s t) then show ?case using pred_optionD[OF sockets.scan] by fastforce
next
  case (op_net s n) then show ?case by (rule sockets.net)
qed

lemma tcp_ops_ok: "tcp_op\<^sup>*\<^sup>* s t \<Longrightarrow> store_ok D s \<Longrightarrow> store_ok D t"
  by (induction rule: rtranclp_induct) (simp_all add: tcp_op_ok)

lemma init_ok: "t_socks s = Map.empty \<Longrightarrow> store_ok {} (init_tcp_stack s)"
  by (simp add: store_ok_def counted_def named_def init_tcp_stack_def)

lemma store_ok_own: "store_ok D s \<Longrightarrow> store_ok (dom (t_socks s)) s"
  by (simp add: store_ok_def)

text \<open>Following a chain of a table of a good store is safe.\<close>

lemma find_sock_total: "set is \<subseteq> dom (t_socks s) \<Longrightarrow> \<exists>r. find_sock P is s = Some r"
  by (induction "is") auto

lemma bucket_dom:
  assumes "store_ok D s"
  shows "set (t_est s h) \<subseteq> dom (t_socks s)" "set (t_lis s h) \<subseteq> dom (t_socks s)" "set (t_bind s h) \<subseteq> dom (t_socks s)"
  using assms unfolding store_ok_def named_def by blast+

lemma lookup_total:
  assumes ok: "store_ok D s" shows "\<exists>r. tcp_sock_lookup cb s = Some r"
proof -
  obtain e where e: "tcp_sock_lookup_established (cb_daddr cb) (cb_saddr cb) (cb_dport cb) (cb_sport cb) s = Some e"
    using find_sock_total[OF bucket_dom(1)[OF ok]] unfolding tcp_sock_lookup_established_def by blast
  obtain l where l: "tcp_sock_lookup_listen (cb_dport cb) s = Some l"
    using find_sock_total[OF bucket_dom(2)[OF ok]] unfolding tcp_sock_lookup_listen_def by blast
  show ?thesis using e l by (cases e) (simp_all add: tcp_sock_lookup_def Let_def)
qed

lemma port_in_use_total: "store_ok D s \<Longrightarrow> \<exists>b. tcp_port_in_use p s = Some b"
proof -
  assume ok: "store_ok D s"
  obtain r where "find_sock (\<lambda>k. sk_sport k = p) (t_bind s (tcp_hash_function 0 0 p 0)) s = Some r"
    using find_sock_total[OF bucket_dom(3)[OF ok]] by blast
  then show ?thesis by (simp add: tcp_port_in_use_def)
qed

section \<open>Properties of the store\<close>


lemma next_port:
  assumes "p < PORT_MAX"
  shows "p + 1 \<le> PORT_MAX" "p \<le> r \<longleftrightarrow> r = p \<or> p + 1 \<le> r"
proof -
  have "unat p < 23456" using assms by (simp add: PORT_MAX_def word_less_nat_alt)
  then have s: "unat (p + 1) = unat p + 1" by (simp add: unat_word_ariths)
  show "p + 1 \<le> PORT_MAX" using s \<open>unat p < 23456\<close> by (simp add: PORT_MAX_def word_le_nat_alt)
  show "p \<le> r \<longleftrightarrow> r = p \<or> p + 1 \<le> r" using s by (auto simp: word_le_nat_alt word_unat_eq_iff)
qed

lemma get_port_from_ends:
  assumes ok: "store_ok D s" and "0 < p" "p \<le> PORT_MAX"
  shows "\<exists>q. get_port_from p s = Some q \<and>
    (if q = 0 then \<forall>r. p \<le> r \<longrightarrow> r < PORT_MAX \<longrightarrow> tcp_port_in_use r s = Some True
     else p \<le> q \<and> q < PORT_MAX \<and> tcp_port_in_use q s = Some False \<and>
       (\<forall>r. p \<le> r \<longrightarrow> r < q \<longrightarrow> tcp_port_in_use r s = Some True))"
  using assms
proof (induction p s rule: get_port_from.induct)
  case (1 p s)
  show ?case
  proof (cases "p < PORT_MAX")
    case False
    then show ?thesis by (subst get_port_from.simps) (auto simp: not_less)
  next
    case True
    obtain b where b: "tcp_port_in_use p s = Some b" using port_in_use_total[OF 1(2)] by blast
    show ?thesis
    proof (cases b)
      case False
      then show ?thesis using b True 1(3) by (subst get_port_from.simps) auto
    next
      case used: True
      have "0 < p + 1" using next_port(2)[OF True, of 0] 1(3) by (auto simp: word_neq_0_conv)
      from 1(1)[OF True b _ 1(2) this next_port(1)[OF True]] used obtain q where q: "get_port_from (p + 1) s = Some q"
        "if q = 0 then \<forall>r. p + 1 \<le> r \<longrightarrow> r < PORT_MAX \<longrightarrow> tcp_port_in_use r s = Some True
         else p + 1 \<le> q \<and> q < PORT_MAX \<and> tcp_port_in_use q s = Some False \<and>
           (\<forall>r. p + 1 \<le> r \<longrightarrow> r < q \<longrightarrow> tcp_port_in_use r s = Some True)" by blast
      have "get_port_from p s = Some q" using b True used q(1) by (subst get_port_from.simps) simp
      then show ?thesis using q(2) b used by (auto simp: next_port(2)[OF True] split: if_splits)
    qed
  qed
qed

text \<open>Property C25. The search for a free port ends in every state a run reaches: it returns the first port of the
  range that no bound socket has, or zero when there is none.\<close>

theorem port_search_ends:
  assumes "t_socks s0 = Map.empty" "tcp_op\<^sup>*\<^sup>* (init_tcp_stack s0) s"
  shows "\<exists>q. tcp_get_port s = Some q \<and>
    (if q = 0 then \<forall>r. PORT_MIN \<le> r \<longrightarrow> r < PORT_MAX \<longrightarrow> tcp_port_in_use r s = Some True
     else PORT_MIN \<le> q \<and> q < PORT_MAX \<and> tcp_port_in_use q s = Some False \<and>
       (\<forall>r. PORT_MIN \<le> r \<longrightarrow> r < q \<longrightarrow> tcp_port_in_use r s = Some True))"
  unfolding tcp_get_port_def
  by (rule get_port_from_ends[OF tcp_ops_ok[OF assms(2) init_ok[OF assms(1)]]]) (simp_all add: PORT_MIN_def PORT_MAX_def)


theorem port_search_ends_witness: "tcp_get_port (init_tcp_stack empty_tcp) = Some PORT_MIN"
proof -
  have u: "tcp_port_in_use r (init_tcp_stack empty_tcp) = Some False" for r
    by (simp add: tcp_port_in_use_def init_tcp_stack_def)
  have "t_socks empty_tcp = Map.empty" by (simp add: empty_tcp_def)
  from port_search_ends[OF this rtranclp.rtrancl_refl] obtain q where q: "tcp_get_port (init_tcp_stack empty_tcp) = Some q"
    "if q = 0 then \<forall>r. PORT_MIN \<le> r \<longrightarrow> r < PORT_MAX \<longrightarrow> tcp_port_in_use r (init_tcp_stack empty_tcp) = Some True
     else PORT_MIN \<le> q \<and> q < PORT_MAX \<and> tcp_port_in_use q (init_tcp_stack empty_tcp) = Some False \<and>
       (\<forall>r. PORT_MIN \<le> r \<longrightarrow> r < q \<longrightarrow> tcp_port_in_use r (init_tcp_stack empty_tcp) = Some True)" by blast
  have "PORT_MIN < PORT_MAX" by (simp add: PORT_MIN_def PORT_MAX_def)
  then have "q = PORT_MIN" using q(2) unfolding u by (auto split: if_splits simp: less_le)
  with q(1) show ?thesis by simp
qed

end
