(* ===== verification/Tcp_Close.thy ===== *)
theory Tcp_Close
  imports Tcp_Store
begin

text \<open>
  Closing a connection and the timer thread of prj14 (\<open>tcp_timer.c\<close>, the closing branches of
  \<open>tcp_process\<close>): what happens in the two seconds after a passive close, and the schedule by which an
  unacknowledged packet is sent again.
\<close>

section \<open>A passive close\<close>

text \<open>What an operation on one socket leaves alone.\<close>

definition untouched :: "addr \<Rightarrow> tcp \<Rightarrow> tcp \<Rightarrow> bool" where
  "untouched i s t \<longleftrightarrow> t_socks t i = t_socks s i \<and> (TimeWait i \<in> set (t_timers t) \<longleftrightarrow> TimeWait i \<in> set (t_timers s))"

lemma untouched_trans: "untouched i s t \<Longrightarrow> untouched i t u \<Longrightarrow> untouched i s u"
  by (simp add: untouched_def)

lemma untouched_simps [simp]: "untouched i s s" "j \<noteq> i \<Longrightarrow> untouched i s (put_sk j k s)"
  by (simp_all add: untouched_def)

lemma untouched_free: "free_tcp_sock j s = Some t \<Longrightarrow> j \<noteq> i \<Longrightarrow> untouched i s t"
  by (auto simp: free_tcp_sock_def tcp_unset_retrans_timer_def upd_sk_def untouched_def split: if_splits Option.bind_splits)

lemma untouched_unhash:
  "tcp_unhash j s = Some t \<Longrightarrow> j \<noteq> i \<Longrightarrow> untouched i s t" "tcp_bind_unhash j s = Some t \<Longrightarrow> j \<noteq> i \<Longrightarrow> untouched i s t"
  by (auto simp: tcp_unhash_def tcp_bind_unhash_def Let_def untouched_def dest!: untouched_free[where i = i]
      split: if_splits Option.bind_splits)

lemma untouched_scan_timewait: "scan_timewait j s = Some t \<Longrightarrow> j \<noteq> i \<Longrightarrow> untouched i s t"
  by (auto simp: scan_timewait_def tcp_set_state_def upd_sk_def Let_def untouched_def dest!: untouched_unhash[where i = i]
      split: if_splits Option.bind_splits)

lemma untouched_scan_retrans: "scan_retrans j s = Some t \<Longrightarrow> j \<noteq> i \<Longrightarrow> untouched i s t"
  by (auto simp: scan_retrans_def untouched_def same_but_net_simps dest!: scan_bufs_core split: Option.bind_splits)

text \<open>A socket that is in no hash table and whose time-wait timer has at most \<open>n\<close> rounds to go.\<close>

definition doomed :: "nat \<Rightarrow> addr \<Rightarrow> tcp \<Rightarrow> bool" where
  "doomed n i s \<longleftrightarrow> TimeWait i \<in> set (t_timers s) \<and>
     (\<forall>k. t_socks s i = Some k \<longrightarrow> sk_hash_link k \<noteq> Linked \<and> sk_timewait k \<le> int n * TCP_TIMER_SCAN_INTERVAL)"

lemma doomed_untouched: "untouched i s t \<Longrightarrow> doomed n i s \<Longrightarrow> doomed n i t"
  by (simp add: untouched_def doomed_def)

lemma bind_unhash_link:
  "tcp_bind_unhash i s = Some t \<Longrightarrow> t_socks s i = Some k \<Longrightarrow> t_socks t i = Some k' \<Longrightarrow>
     sk_hash_link k' = sk_hash_link k \<and> sk_timewait k' = sk_timewait k"
  by (auto simp: tcp_bind_unhash_def free_tcp_sock_def tcp_unset_retrans_timer_def upd_sk_def Let_def split: if_splits Option.bind_splits)

lemma unhash_stale: "tcp_unhash i s = Some t \<Longrightarrow> \<exists>k. t_socks s i = Some k \<and> sk_hash_link k = Linked"
  by (auto simp: tcp_unhash_def split: if_splits Option.bind_splits)

lemma put_sk_timers: "(put_sk i k s)\<lparr>t_timers := l\<rparr> = put_sk i k (s\<lparr>t_timers := l\<rparr>)"
  by (simp add: put_sk_def)

lemma scan_timewait_cases:
  assumes "scan_timewait i s = Some t" "t_socks s i = Some k"
  shows "if sk_timewait k \<le> TCP_TIMER_SCAN_INTERVAL then sk_hash_link k = Linked
    else t = put_sk i (k\<lparr>sk_timewait := sk_timewait k - TCP_TIMER_SCAN_INTERVAL\<rparr>) s"
proof -
  let ?k = "k\<lparr>sk_timewait := sk_timewait k - TCP_TIMER_SCAN_INTERVAL\<rparr>"
  define s1 where "s1 = put_sk i (?k\<lparr>sk_state := TCP_CLOSED\<rparr>) (s\<lparr>t_timers := remove1 (TimeWait i) (t_timers s)\<rparr>)"
  have e: "scan_timewait i s = (if sk_timewait k \<le> TCP_TIMER_SCAN_INTERVAL
      then (if sk_parent k = None then tcp_bind_unhash i s1 else Some s1) \<bind>
        (\<lambda>s. tcp_unhash i s \<bind> (\<lambda>s. if t_socks s i = None then None else Some s))
      else Some (put_sk i ?k s))"
    unfolding scan_timewait_def upd_sk_Some[OF assms(2)] bind.bind_lunit put_sk_simps(1) fun_upd_same Let_def put_sk_timers
    by (simp add: tcp_set_state_def s1_def)
  have s1: "t_socks s1 i = Some (?k\<lparr>sk_state := TCP_CLOSED\<rparr>)" by (simp add: s1_def)
  show ?thesis
  proof (cases "sk_timewait k \<le> TCP_TIMER_SCAN_INTERVAL")
    case True
    with assms(1) e obtain u v where u: "(if sk_parent k = None then tcp_bind_unhash i s1 else Some s1) = Some u"
      "tcp_unhash i u = Some v" by (cases "if sk_parent k = None then tcp_bind_unhash i s1 else Some s1") (auto split: Option.bind_splits)
    from unhash_stale[OF u(2)] obtain ku where ku: "t_socks u i = Some ku" "sk_hash_link ku = Linked" by blast
    have "sk_hash_link ku = sk_hash_link k"
      using u(1) ku(1) bind_unhash_link[OF _ s1, of u ku] s1 by (cases "sk_parent k = None") simp_all
    with ku(2) True show ?thesis by simp
  qed (use assms(1) e in simp)
qed

lemma scan_timewait_doomed:
  assumes "doomed n i s" "scan_timewait i s = Some t"
  shows "2 \<le> n \<and> doomed (n - 1) i t"
proof -
  obtain k where k: "t_socks s i = Some k" using assms(2) by (auto simp: scan_timewait_def upd_sk_def split: Option.bind_splits)
  have d: "sk_hash_link k \<noteq> Linked" "sk_timewait k \<le> int n * TCP_TIMER_SCAN_INTERVAL" using assms(1) k by (simp_all add: doomed_def)
  then have t: "t = put_sk i (k\<lparr>sk_timewait := sk_timewait k - TCP_TIMER_SCAN_INTERVAL\<rparr>) s" "TCP_TIMER_SCAN_INTERVAL < sk_timewait k"
    using scan_timewait_cases[OF assms(2) k] by (auto split: if_splits)
  have n: "2 \<le> n"
  proof (rule ccontr)
    assume "\<not> 2 \<le> n"
    then have "int n * TCP_TIMER_SCAN_INTERVAL \<le> TCP_TIMER_SCAN_INTERVAL" by (simp add: TCP_TIMER_SCAN_INTERVAL_def)
    with d(2) t(2) show False by simp
  qed
  then have "int n * TCP_TIMER_SCAN_INTERVAL = int (n - 1) * TCP_TIMER_SCAN_INTERVAL + TCP_TIMER_SCAN_INTERVAL"
    by (simp add: TCP_TIMER_SCAN_INTERVAL_def)
  with n d assms(1) show ?thesis unfolding t(1) by (simp add: doomed_def)
qed

lemma doomed_mono: "doomed n i s \<Longrightarrow> n \<le> m \<Longrightarrow> doomed m i s"
proof -
  assume "n \<le> m"
  then have "int n * TCP_TIMER_SCAN_INTERVAL \<le> int m * TCP_TIMER_SCAN_INTERVAL" by (simp add: TCP_TIMER_SCAN_INTERVAL_def)
  then show "doomed n i s \<Longrightarrow> doomed m i s" by (fastforce simp: doomed_def)
qed

lemma scan_retrans_doomed: "doomed n i s \<Longrightarrow> scan_retrans i s = Some t \<Longrightarrow> doomed n i t"
  by (auto simp: scan_retrans_def doomed_def same_but_net_simps dest!: scan_bufs_core split: Option.bind_splits)

text \<open>One pass over timers of which \<open>m\<close> are time-wait timers of the socket.\<close>

lemma scan_list_doomed:
  "scan_list ts s = Some t \<Longrightarrow> doomed n i s \<Longrightarrow> m = count_list ts (TimeWait i) \<Longrightarrow> (m = 0 \<or> m < n) \<and> doomed (n - m) i t"
proof (induction ts arbitrary: s n m)
  case (Cons x ts)
  then obtain u where u: "scan_list [x] s = Some u" "scan_list ts u = Some t"
    by (cases x) (auto split: Option.bind_splits)
  show ?case
  proof (cases "x = TimeWait i")
    case True
    with u(1) have "scan_timewait i s = Some u" by (auto split: Option.bind_splits)
    from scan_timewait_doomed[OF Cons.prems(2) this] have n: "2 \<le> n" "doomed (n - 1) i u" by simp_all
    from Cons.IH[OF u(2) n(2) HOL.refl] show ?thesis using Cons.prems(3) True n(1) by auto
  next
    case False
    have "doomed n i u"
    proof (cases x)
      case (TimeWait j)
      with False u(1) have "scan_timewait j s = Some u" "j \<noteq> i" by (auto split: Option.bind_splits)
      then show ?thesis using untouched_scan_timewait doomed_untouched Cons.prems(2) by blast
    next
      case (Retrans j)
      with u(1) have r: "scan_retrans j s = Some u" by (auto split: Option.bind_splits)
      show ?thesis
        using untouched_scan_retrans[OF r] doomed_untouched[OF _ Cons.prems(2)] scan_retrans_doomed[OF Cons.prems(2)] r by (cases "j = i") blast+
    qed
    from Cons.IH[OF u(2) this HOL.refl] show ?thesis using Cons.prems(3) False by simp
  qed
qed simp

lemma scans_doomed: "doomed n i s \<Longrightarrow> 0 < n \<Longrightarrow> tcp_scans n s = None"
proof (induction n arbitrary: s)
  case (Suc n)
  show ?case
  proof (cases "tcp_scan_timer_list s")
    case (Some t)
    let ?m = "count_list (t_timers s) (TimeWait i)"
    have "?m \<noteq> 0" using Suc.prems(1) by (simp add: doomed_def count_list_0_iff)
    with scan_list_doomed[OF Some[unfolded tcp_scan_timer_list_def] Suc.prems(1) HOL.refl]
    have "?m < Suc n" "doomed (Suc n - ?m) i t" by simp_all
    then have "0 < n" "doomed n i t" using \<open>?m \<noteq> 0\<close> doomed_mono[of "Suc n - ?m" i t n] by simp_all
    with Suc.IH Some show ?thesis by simp
  qed simp
qed simp

lemma process_ack_kept:
  assumes "tcp_process_ack i cb s = Some t" "t_socks s i = Some k"
  shows "\<exists>k'. t_socks t i = Some k' \<and> sk_timewait k' = sk_timewait k \<and> sk_state k' = sk_state k \<and> t_timers t = t_timers s"
proof -
  let ?kept = "\<lambda>t. \<exists>k'. t_socks t i = Some k' \<and> sk_timewait k' = sk_timewait k \<and> sk_state k' = sk_state k \<and> t_timers t = t_timers s"
  have r: "sk_timewait (rcvr_dup_ack q) = sk_timewait q" "sk_state (rcvr_dup_ack q) = sk_state q" for q
    by (simp_all add: rcvr_dup_ack_def Let_def)
  have n: "t_timers t' = t_timers s" if "tcp_retransmit p s = Some t'" for p t'
    using pred_optionD[OF retransmit that] by (rule same_but_net_simps)
  obtain s1 where s1: "(if cb_ack cb = sk_snd_una k then tcp_dup_ack i k s else tcp_new_ack i (cb_ack cb) k s) = Some s1"
    "upd_sk i (tcp_update_window_safe cb) s1 = Some t" using assms by (auto simp: tcp_process_ack_def split: Option.bind_splits)
  have "?kept s1"
  proof (cases "cb_ack cb = sk_snd_una k")
    case True
    with s1(1) have "tcp_dup_ack i k s = Some s1" by simp
    then show ?thesis unfolding tcp_dup_ack_def Let_def
      by (auto simp: r dest: n split: cgt.splits list.splits Option.bind_splits if_splits)
  next
    case False
    obtain k' buf where p: "ack_pop (cb_ack cb) (sk_send_buf k) (k\<lparr>sk_rep_ack := 0\<rparr>) = (k', buf)" by fastforce
    have "sk_timewait k' = sk_timewait k" "sk_state k' = sk_state k" using ack_pop_core[OF p] by simp_all
    with False s1(1) show ?thesis unfolding tcp_new_ack_def p Let_def
      by (auto dest: n split: cgt.splits Option.bind_splits if_splits)
  qed
  moreover have "sk_timewait (tcp_update_window_safe cb q) = sk_timewait q" "sk_state (tcp_update_window_safe cb q) = sk_state q" for q
    by (simp_all add: tcp_update_window_safe_def tcp_update_window_def Let_def)
  ultimately show ?thesis using s1(2) by auto
qed

lemma rcv_fin_timewait:
  assumes "tcp_rcv_fin i s = Some t" "t_socks s i = Some k" "sk_state k = TCP_ESTABLISHED"
  shows "\<exists>k'. t_socks t i = Some k' \<and> sk_state k' = TCP_LAST_ACK \<and> sk_timewait k' = TCP_TIMEWAIT_TIMEOUT \<and> TimeWait i \<in> set (t_timers t)"
proof -
  from assms obtain s1 s2 where s: "tcp_set_state i TCP_LAST_ACK s = Some s1"
    "tcp_send_control_packet i (TCP_ACK OR TCP_FIN) s1 = Some s2" "tcp_set_timewait_timer i s2 = Some t"
    by (auto simp: tcp_rcv_fin_def split: Option.bind_splits)
  have "states t i = Some TCP_LAST_ACK"
    using states_set_state[OF s(1)] states_send_control[OF s(2)] states_timewait[OF s(3)] by simp
  moreover obtain k2 where "t_socks s2 i = Some k2"
    using s(3) by (cases "t_socks s2 i") (auto simp: tcp_set_timewait_timer_def)
  ultimately show ?thesis using s(3) by (auto simp: tcp_set_timewait_timer_def states_def split: if_splits)
qed

lemma rcv_ack_unhashed:
  assumes "tcp_rcv_ack i s = Some t" "t_socks s i = Some k" "sk_state k = TCP_LAST_ACK" "TimeWait i \<in> set (t_timers s)"
  shows "TimeWait i \<in> set (t_timers t) \<and> (\<forall>k'. t_socks t i = Some k' \<longrightarrow> sk_hash_link k' \<noteq> Linked \<and> sk_timewait k' = sk_timewait k)"
proof -
  let ?k = "k\<lparr>sk_state := TCP_CLOSED\<rparr>"
  from assms(1-3) obtain u where u: "(if sk_parent k = None then tcp_bind_unhash i (put_sk i ?k s) else Some (put_sk i ?k s)) = Some u"
    "tcp_unhash i u = Some t" by (auto simp: tcp_rcv_ack_def tcp_set_state_def split: Option.bind_splits)
  have b: "TimeWait i \<in> set (t_timers y)" if "tcp_bind_unhash i x = Some y" "TimeWait i \<in> set (t_timers x)" for x y
    using that by (auto simp: tcp_bind_unhash_def free_tcp_sock_def tcp_unset_retrans_timer_def upd_sk_def Let_def
        split: if_splits Option.bind_splits)
  have h: "TimeWait i \<in> set (t_timers y)" if "tcp_unhash i x = Some y" "TimeWait i \<in> set (t_timers x)" for x y
    using that by (auto simp: tcp_unhash_def free_tcp_sock_def tcp_unset_retrans_timer_def upd_sk_def Let_def
        split: if_splits Option.bind_splits)
  have l: "sk_hash_link y = Stale \<and> sk_timewait y = sk_timewait x"
    if "tcp_unhash i u = Some t" "t_socks u i = Some x" "t_socks t i = Some y" for x y
    using that by (auto simp: tcp_unhash_def free_tcp_sock_def tcp_unset_retrans_timer_def upd_sk_def Let_def
        split: if_splits Option.bind_splits)
  from unhash_stale[OF u(2)] obtain ku where ku: "t_socks u i = Some ku" by blast
  have "sk_timewait ku = sk_timewait k \<and> TimeWait i \<in> set (t_timers u)"
    using u(1) ku assms(4) bind_unhash_link[of i "put_sk i ?k s" u ?k ku] b by (auto split: if_splits)
  with l[OF u(2) ku] h[OF u(2)] show ?thesis by auto
qed

lemma process_fin_eq:
  assumes "cb_flags cb = TCP_FIN" "t_socks s i = Some k"
  shows "tcp_process (Some i) cb p s = map_option (Pair RxIdle) (tcp_rcv_fin i (put_sk i (k\<lparr>sk_rcv_nxt := cb_seq_end cb\<rparr>) s))"
  unfolding tcp_process_def assms(1) Let_def by (simp add: tcp_flag_defs assms(2))

lemma process_ack_eq:
  assumes "cb_flags cb = TCP_ACK" "t_socks s i = Some k"
  shows "tcp_process (Some i) cb p s = tcp_process_ack i cb (put_sk i (k\<lparr>sk_rcv_nxt := cb_seq_end cb\<rparr>) s) \<bind>
    (\<lambda>s. t_socks s i \<bind> (\<lambda>_. map_option (Pair RxIdle) (tcp_rcv_ack i s)))"
  unfolding tcp_process_def assms(1) Let_def by (simp add: tcp_flag_defs assms(2))

text \<open>Neither segment is refused by a socket that was accepted.\<close>

lemma rcv_fin_explicit:
  assumes "t_socks s i = Some k" "sk_state k = TCP_ESTABLISHED" "TimeWait i \<notin> set (t_timers s)"
  shows "\<exists>n k'. tcp_rcv_fin i s = Some ((put_sk i k' s)\<lparr>t_net := n, t_timers := t_timers s @ [TimeWait i]\<rparr>) \<and>
    core k' = core (k\<lparr>sk_ref_cnt := sk_ref_cnt k + 1\<rparr>) \<and> sk_state k' = TCP_LAST_ACK \<and> sk_parent k' = sk_parent k \<and>
    sk_snd_una k' = sk_snd_una k \<and> sk_cgt k' = sk_cgt k \<and> sk_rep_ack k' = sk_rep_ack k"
proof -
  let ?k = "k\<lparr>sk_state := TCP_LAST_ACK\<rparr>" and ?f = "TCP_ACK OR TCP_FIN"
  have sk: "t_socks (put_sk i ?k s) i = Some ?k" by simp
  have f: "?f AND (TCP_SYN OR TCP_FIN) \<noteq> 0" by (simp add: tcp_flag_defs)
  obtain n where n: "tcp_send_control_packet i ?f (put_sk i ?k s) = Some ((put_sk i (?k\<lparr>sk_snd_nxt := sk_snd_nxt ?k + 1,
      sk_send_buf := sk_send_buf ?k @ [sent_buffer (ctl_seg (put_sk i ?k s) ?k ?f) (sk_snd_nxt ?k + 1)],
      sk_inflight := sk_inflight ?k + 1\<rparr>) (put_sk i ?k s))\<lparr>t_net := n\<rparr>)"
    using tcp_send_control_total[OF sk, of ?f] f by (auto simp: if_P)
  let ?k1 = "?k\<lparr>sk_snd_nxt := sk_snd_nxt ?k + 1, sk_send_buf := sk_send_buf ?k @ [sent_buffer (ctl_seg (put_sk i ?k s) ?k ?f) (sk_snd_nxt ?k + 1)],
      sk_inflight := sk_inflight ?k + 1, sk_timewait := TCP_TIMEWAIT_TIMEOUT, sk_ref_cnt := sk_ref_cnt k + 1\<rparr>"
  have "tcp_rcv_fin i s = Some ((put_sk i ?k1 s)\<lparr>t_net := n, t_timers := t_timers s @ [TimeWait i]\<rparr>)"
    unfolding tcp_rcv_fin_def assms(1,2) bind.bind_lunit tcp_state.case tcp_set_state_def upd_sk_Some[OF assms(1)] n tcp_set_timewait_timer_def
    using assms(3) by (simp add: upd_sk_def put_sk_def)
  then show ?thesis by (intro exI[of _ n] exI[of _ ?k1]) simp
qed

lemma process_first_dup_ack:
  assumes "t_socks s i = Some k" "cb_ack cb = sk_snd_una k" "sk_cgt k = OPEN" "sk_rep_ack k = 0"
  shows "\<exists>k'. tcp_process_ack i cb s = Some (put_sk i k' s) \<and> core k' = core k \<and> sk_state k' = sk_state k \<and> sk_parent k' = sk_parent k"
proof (intro exI conjI)
  let ?k = "tcp_update_window_safe cb (k\<lparr>sk_rep_ack := 1\<rparr>)"
  show "tcp_process_ack i cb s = Some (put_sk i ?k s)"
    using assms by (simp add: tcp_process_ack_def tcp_dup_ack_def Let_def)
  have "same_ident (k\<lparr>sk_rep_ack := 1\<rparr>) ?k" by (rule update_window_safe_simps(1))
  then show "core ?k = core k" "sk_state ?k = sk_state k" "sk_parent ?k = sk_parent k" by (simp_all add: same_ident_def)
qed

lemma rcv_last_ack:
  assumes "t_socks s i = Some k" "sk_state k = TCP_LAST_ACK" "sk_parent k = Some p" "sk_hash_link k = Linked" "2 \<le> sk_ref_cnt k"
  shows "\<exists>t. tcp_rcv_ack i s = Some t"
  using assms by (simp add: tcp_rcv_ack_def tcp_set_state_def tcp_unhash_def Let_def free_kept)

lemma passive_close_total:
  assumes k: "t_socks s i = Some k" "sk_state k = TCP_ESTABLISHED" "TimeWait i \<notin> set (t_timers s)"
    "sk_parent k = Some b" "sk_hash_link k = Linked" "2 \<le> sk_ref_cnt k" "sk_cgt k = OPEN" "sk_rep_ack k = 0"
    and cb: "cb_flags f = TCP_FIN" "cb_flags a = TCP_ACK" "cb_ack a = sk_snd_una k"
  shows "\<exists>s1 t. tcp_process (Some i) f p s = Some (RxIdle, s1) \<and> tcp_process (Some i) a q s1 = Some (RxIdle, t)"
proof -
  define k0 s0 where d: "k0 = k\<lparr>sk_rcv_nxt := cb_seq_end f\<rparr>" "s0 = put_sk i k0 s"
  have k0: "t_socks s0 i = Some k0" "sk_state k0 = TCP_ESTABLISHED" "TimeWait i \<notin> set (t_timers s0)" "core k0 = core k"
    "sk_parent k0 = Some b" "sk_cgt k0 = OPEN" "sk_rep_ack k0 = 0" "sk_snd_una k0 = sk_snd_una k"
    using k by (simp_all add: d)
  obtain k1 s1 where s1: "tcp_rcv_fin i s0 = Some s1" "t_socks s1 i = Some k1" "core k1 = core (k0\<lparr>sk_ref_cnt := sk_ref_cnt k0 + 1\<rparr>)"
    "sk_state k1 = TCP_LAST_ACK" "sk_parent k1 = Some b" "sk_snd_una k1 = sk_snd_una k" "sk_cgt k1 = OPEN" "sk_rep_ack k1 = 0"
    using rcv_fin_explicit[OF k0(1-3)] k0(5-) by fastforce
  have f: "tcp_process (Some i) f p s = Some (RxIdle, s1)" unfolding process_fin_eq[OF cb(1) k(1)] using s1(1) by (simp add: d)
  define k2 s2 where d2: "k2 = k1\<lparr>sk_rcv_nxt := cb_seq_end a\<rparr>" "s2 = put_sk i k2 s1"
  have k2: "t_socks s2 i = Some k2" "cb_ack a = sk_snd_una k2" "sk_cgt k2 = OPEN" "sk_rep_ack k2 = 0" "core k2 = core k1"
    "sk_state k2 = TCP_LAST_ACK" "sk_parent k2 = Some b" using s1 cb(3) by (simp_all add: d2)
  obtain k3 where k3: "tcp_process_ack i a s2 = Some (put_sk i k3 s2)" "core k3 = core k2" "sk_state k3 = TCP_LAST_ACK" "sk_parent k3 = Some b"
    using process_first_dup_ack[OF k2(1-4)] k2(6,7) by auto
  have "sk_hash_link k3 = Linked" "2 \<le> sk_ref_cnt k3" using k3(2) k2(5) s1(3) k0(4) k(5,6) by simp_all
  moreover have "t_socks (put_sk i k3 s2) i = Some k3" by simp
  ultimately obtain t where t: "tcp_rcv_ack i (put_sk i k3 s2) = Some t" using rcv_last_ack k3(3,4) by blast
  have "tcp_process (Some i) a q s1 = Some (RxIdle, t)"
    unfolding process_ack_eq[OF cb(2) s1(2)] using k3(1) t by (simp add: d2)
  with f show ?thesis by blast
qed

definition closing_tcp :: tcp where
  "closing_tcp = established_tcp\<lparr>t_socks := [0 \<mapsto> established\<lparr>sk_hash_link := Linked, sk_ref_cnt := 3, sk_parent := Some 7\<rparr>], t_timers := [Retrans 0]\<rparr>"



section \<open>Sending again\<close>

text \<open>What \<open>n\<close> passes of the timer thread do with one packet.\<close>

fun ticks :: "nat \<Rightarrow> send_buffer \<Rightarrow> tick list \<times> send_buffer" where
  "ticks 0 b = ([], b)"
| "ticks (Suc n) b = (let (a, b) = buf_tick b; (as, b) = ticks n b in (a # as, b))"

lemma ticks_add: "ticks (m + n) b = (let (as, b) = ticks m b; (bs, b) = ticks n b in (as @ bs, b))"
  by (induction m arbitrary: b) (simp_all add: split_beta Let_def)

lemma ticks_run:
  assumes "sb_timeout b = int (Suc m) * TCP_TIMER_SCAN_INTERVAL" "buf_tick (b\<lparr>sb_timeout := TCP_TIMER_SCAN_INTERVAL\<rparr>) = (a, b')"
  shows "ticks (Suc m) b = (replicate m Running @ [a], b')"
  using assms
proof (induction m arbitrary: b)
  case 0
  then have "b\<lparr>sb_timeout := TCP_TIMER_SCAN_INTERVAL\<rparr> = b" by simp
  with 0 show ?case by simp
next
  case (Suc m)
  let ?b = "b\<lparr>sb_timeout := int (Suc m) * TCP_TIMER_SCAN_INTERVAL\<rparr>"
  have "buf_tick b = (Running, ?b)"
    using Suc.prems(1) by (simp add: buf_tick_def TCP_TIMER_SCAN_INTERVAL_def Let_def algebra_simps)
  moreover have "ticks (Suc m) ?b = (replicate m Running @ [a], b')" by (rule Suc.IH) (use Suc.prems(2) in simp_all)
  ultimately show ?case by (simp only: ticks.simps(2)[of "Suc m"]) (simp del: ticks.simps)
qed

definition fresh_buffer :: "send_buffer \<Rightarrow> bool" where
  "fresh_buffer b \<longleftrightarrow> sb_times b = 1 \<and> sb_timeout b = TCP_RETRANS_INTERVAL_INITIAL \<and> 34 \<le> length (sb_packet b)"

definition schedule :: "tick list" where
  "schedule = replicate 19 Running @ [Resend] @ replicate 39 Running @ [Resend] @ replicate 79 Running @ [GaveUp]"

lemma ticks_cycle: "fresh_buffer b \<Longrightarrow> ticks 140 b = (schedule, b)"
proof -
  assume f: "fresh_buffer b"
  let ?b1 = "b\<lparr>sb_times := 2, sb_timeout := 400000\<rparr>" and ?b2 = "b\<lparr>sb_times := 3, sb_timeout := 800000\<rparr>"
  have same: "b\<lparr>sb_times := 1, sb_timeout := 200000\<rparr> = b"
    using f by (cases b) (simp add: fresh_buffer_def TCP_RETRANS_INTERVAL_INITIAL_def)
  note d = f[unfolded fresh_buffer_def] buf_tick_def Let_def TCP_TIMER_SCAN_INTERVAL_def TCP_RETRANS_INTERVAL_INITIAL_def
  have "ticks (Suc 19) b = (replicate 19 Running @ [Resend], ?b1)" by (rule ticks_run) (simp_all add: d)
  moreover have "ticks (Suc 39) ?b1 = (replicate 39 Running @ [Resend], ?b2)" by (rule ticks_run) (simp_all add: d)
  moreover have "ticks (Suc 79) ?b2 = (replicate 79 Running @ [GaveUp], b)"
    by (rule ticks_run) (simp_all add: d same)
  moreover have "ticks 140 b = ticks (Suc 19 + (Suc 39 + Suc 79)) b" by simp
  ultimately show ?thesis by (simp only: ticks_add Let_def prod.case schedule_def append_assoc)
qed

text \<open>A pass over the queue of a socket.\<close>

lemma scan_bufs_ticks:
  assumes "\<forall>b\<in>set bs. 34 \<le> length (sb_packet b)"
  shows "\<exists>k' n. scan_bufs bs k s = Some (map (snd \<circ> buf_tick) bs, k', s\<lparr>t_net := n\<rparr>) \<and> sk_state k' = sk_state k"
  using assms
proof (induction bs arbitrary: k s)
  case Nil
  have "s = s\<lparr>t_net := t_net s\<rparr>" by simp
  then show ?case by (metis list.map(1) scan_bufs.simps(1))
next
  case (Cons b bs)
  have e: "sk_state (enter_loss q) = sk_state q" for q by (simp add: enter_loss_def Let_def)
  obtain a b' where b: "buf_tick b = (a, b')" by (cases "buf_tick b")
  show ?case
  proof (cases a)
    case Running
    from Cons.IH[of k s] Cons.prems obtain k' n where "scan_bufs bs k s = Some (map (snd \<circ> buf_tick) bs, k', s\<lparr>t_net := n\<rparr>)" "sk_state k' = sk_state k" by auto
    then show ?thesis using b Running by auto
  next
    case GaveUp
    from Cons.IH[of "enter_loss k" s] Cons.prems obtain k' n where "scan_bufs bs (enter_loss k) s = Some (map (snd \<circ> buf_tick) bs, k', s\<lparr>t_net := n\<rparr>)"
      "sk_state k' = sk_state (enter_loss k)" by auto
    then show ?thesis using b GaveUp e by auto
  next
    case Resend
    obtain m where m: "tcp_retransmit (sb_packet b) s = Some (s\<lparr>t_net := m\<rparr>)" using retransmit_total Cons.prems by force
    from Cons.IH[of "enter_loss k" "s\<lparr>t_net := m\<rparr>"] Cons.prems obtain k' n where
      "scan_bufs bs (enter_loss k) (s\<lparr>t_net := m\<rparr>) = Some (map (snd \<circ> buf_tick) bs, k', s\<lparr>t_net := n\<rparr>)" "sk_state k' = sk_state (enter_loss k)" by auto
    then show ?thesis using b Resend m e by auto
  qed
qed

lemma buf_tick_packet: "sb_packet (snd (buf_tick b)) = sb_packet b"
  by (simp add: buf_tick_def Let_def)

lemma scans_ticks:
  assumes "t_timers s = [Retrans i]" "t_socks s i = Some k" "\<forall>b\<in>set (sk_send_buf k). 34 \<le> length (sb_packet b)"
  shows "\<exists>t k'. tcp_scans n s = Some t \<and> t_timers t = [Retrans i] \<and> t_socks t i = Some k' \<and> sk_state k' = sk_state k \<and>
    sk_send_buf k' = map (snd \<circ> ticks n) (sk_send_buf k)"
  using assms
proof (induction n arbitrary: s k)
  case 0
  have "snd \<circ> ticks 0 = id" by (simp add: fun_eq_iff)
  with 0 show ?case by simp
next
  case (Suc n)
  obtain k1 m where 1: "scan_bufs (sk_send_buf k) k s = Some (map (snd \<circ> buf_tick) (sk_send_buf k), k1, s\<lparr>t_net := m\<rparr>)" "sk_state k1 = sk_state k"
    using scan_bufs_ticks[OF Suc.prems(3)] by blast
  let ?k = "k1\<lparr>sk_send_buf := map (snd \<circ> buf_tick) (sk_send_buf k)\<rparr>" and ?t = "put_sk i (k1\<lparr>sk_send_buf := map (snd \<circ> buf_tick) (sk_send_buf k)\<rparr>) (s\<lparr>t_net := m\<rparr>)"
  have sc: "tcp_scan_timer_list s = Some ?t"
    unfolding tcp_scan_timer_list_def Suc.prems(1) using Suc.prems(2) 1(1) by (simp add: scan_retrans_def)
  have "t_timers ?t = [Retrans i]" "t_socks ?t i = Some ?k" "\<forall>b\<in>set (sk_send_buf ?k). 34 \<le> length (sb_packet b)"
    using Suc.prems by (simp_all add: buf_tick_packet)
  from Suc.IH[OF this] obtain t k' where t: "tcp_scans n ?t = Some t" "t_timers t = [Retrans i]" "t_socks t i = Some k'"
    "sk_state k' = sk_state ?k" "sk_send_buf k' = map (snd \<circ> ticks n) (sk_send_buf ?k)" by blast
  have "(snd \<circ> ticks n) \<circ> (snd \<circ> buf_tick) = snd \<circ> ticks (Suc n)" by (simp add: fun_eq_iff split_beta Let_def)
  with t sc 1(2) show ?case by (simp add: comp_assoc)
qed



end
