(* ===== verification/Tcp_Handshake.thy ===== *)
theory Tcp_Handshake
  imports Tcp_Close
begin

text \<open>
  Two stacks of prj14 open a connection: the SYN \<open>tcp_sock_connect\<close> sends, the child a listening
  socket creates for it and its SYN-ACK, the wake-up of the client, its acknowledgement, and the
  server's acceptance. Each message is the segment its sender built, received from the wire under
  any Ethernet header, through the checksum, the decoding and the lookup of the receiver.
\<close>

section \<open>Receiving a control segment\<close>

text \<open>The Ethernet header is the one the last hop wrote.\<close>

definition readdressed :: "ether_header \<Rightarrow> bytes \<Rightarrow> bytes" where
  "readdressed eh p = ether_enc eh @ drop 14 p"

definition ctl_cb :: "tcp_sock \<Rightarrow> u8 \<Rightarrow> tcp_cb" where
  "ctl_cb k flags = \<lparr> cb_saddr = sk_sip k, cb_daddr = sk_dip k, cb_sport = sk_sport k, cb_dport = sk_dport k,
     cb_seq = sk_snd_nxt k, cb_seq_end = sk_snd_nxt k + (if flags AND (TCP_SYN OR TCP_FIN) \<noteq> 0 then 1 else 0),
     cb_ack = sk_rcv_nxt k, cb_rwnd = ucast (sk_rcv_wnd k), cb_flags = flags, cb_payload = 54, cb_pl_len = 0 \<rparr>"

lemma ctl_cb_simps [simp]:
  "cb_flags (ctl_cb k f) = f" "cb_saddr (ctl_cb k f) = sk_sip k" "cb_daddr (ctl_cb k f) = sk_dip k" "cb_ack (ctl_cb k f) = sk_rcv_nxt k"
  "cb_sport (ctl_cb k f) = sk_sport k" "cb_dport (ctl_cb k f) = sk_dport k"
  by (simp_all add: ctl_cb_def)

lemma receive_control:
  "handle_tcp_packet (readdressed eh (ctl_seg s k flags)) ETHER_HDR_SIZE 34 t = do {
     tsk \<leftarrow> tcp_sock_lookup (ctl_cb k flags) t;
     tcp_process tsk (ctl_cb k flags) (readdressed eh (ctl_seg s k flags)) t }"
proof -
  let ?h = "seg_hdr (sk_sport k) (sk_dport k) (sk_snd_nxt k) (sk_rcv_nxt k) flags (sk_rcv_wnd k)"
  have e: "readdressed eh (ctl_seg s k flags) = segment eh (draw s) (sk_sip k) (sk_dip k) ?h []"
    by (simp add: readdressed_def ctl_seg_def segment_def Let_def frame_def)
  have "length ([] :: bytes) \<le> 65495" by simp
  from segment_reads[OF this, of eh "draw s" "sk_sip k" "sk_dip k" "sk_sport k" "sk_dport k" "sk_snd_nxt k" "sk_rcv_nxt k" flags "sk_rcv_wnd k"]
  show ?thesis unfolding e by (auto simp: handle_tcp_packet_def ctl_cb_def Let_def)
qed

lemma then_bind: "(m :: 'a option) \<bind> f = Some x \<Longrightarrow> m \<bind> (\<lambda>s. f s \<bind> g) = g x"
  by (cases m) simp_all

section \<open>One acknowledgement in the open state\<close>

lemma process_ack_open:
  assumes "t_socks s i = Some k" "sk_cgt k = OPEN" "sk_rep_ack k = 0"
  shows "\<exists>k'. tcp_process_ack i cb s = Some (put_sk i k' s) \<and> same_ident k k'"
proof -
  have u: "same_ident q (tcp_update_window_safe cb q)" for q by simp
  show ?thesis
  proof (cases "cb_ack cb = sk_snd_una k")
    case True
    have r: "same_ident k (k\<lparr>sk_rep_ack := 1\<rparr>)" by (simp add: same_ident_def)
    have "tcp_process_ack i cb s = Some (put_sk i (tcp_update_window_safe cb (k\<lparr>sk_rep_ack := 1\<rparr>)) s)"
      using assms True by (simp add: tcp_process_ack_def tcp_dup_ack_def Let_def)
    then show ?thesis using same_ident_trans[OF r u] by blast
  next
    case False
    obtain k1 buf where p: "ack_pop (cb_ack cb) (sk_send_buf k) (k\<lparr>sk_rep_ack := 0\<rparr>) = (k1, buf)" by fastforce
    from ack_pop_spec[OF p, of "[]"] have k1: "sk_cgt k1 = OPEN" "same_ident (k\<lparr>sk_rep_ack := 0\<rparr>) k1" using assms(2) by simp_all
    have "tcp_process_ack i cb s = Some (put_sk i (tcp_update_window_safe cb k1) s)"
      using assms False k1(1) by (simp add: tcp_process_ack_def tcp_new_ack_def p)
    moreover have "same_ident k k1" using k1(2) assms(3) by (simp add: same_ident_def)
    ultimately show ?thesis using same_ident_trans[OF _ u] by blast
  qed
qed

section \<open>Looking up\<close>

lemma find_sock_cong:
  "(\<And>j. j \<in> set is \<Longrightarrow> map_option P (t_socks s j) = map_option P (t_socks t j)) \<Longrightarrow> find_sock P is s = find_sock P is t"
proof (induction "is")
  case (Cons j js)
  have "map_option P (t_socks s j) = map_option P (t_socks t j)" using Cons.prems by simp
  then show ?case using Cons by (cases "t_socks s j"; cases "t_socks t j") auto
qed simp

text \<open>The tuple of a connection, seen from the receiver of \<open>k\<close>'s segments.\<close>

abbreviation lookup_peer :: "tcp_sock \<Rightarrow> tcp \<Rightarrow> addr option option" where
  "lookup_peer k s \<equiv> tcp_sock_lookup_established (sk_dip k) (sk_sip k) (sk_dport k) (sk_sport k) s"

lemma lookup_control:
  "tcp_sock_lookup (ctl_cb k f) s = do {
     r \<leftarrow> lookup_peer k s;
     (case r of Some i \<Rightarrow> Some (Some i) | None \<Rightarrow> tcp_sock_lookup_listen (sk_dport k) s) }"
  by (simp add: tcp_sock_lookup_def Let_def)

section \<open>The server's side of the SYN\<close>

text \<open>The child before it sends its answer, and the listening socket.\<close>

definition syn_child :: "addr \<Rightarrow> tcp_sock \<Rightarrow> tcp_sock \<Rightarrow> u32 \<Rightarrow> tcp_sock" where
  "syn_child l lk k iss = counted_sock\<lparr>sk_queue := OnListen l, sk_sip := sk_dip k, sk_dip := sk_sip k, sk_dport := sk_sport k,
     sk_sport := sk_dport k, sk_parent := Some l, sk_iss := iss, sk_snd_una := sk_snd_una lk, sk_rcv_nxt := sk_snd_nxt k + 1,
     sk_snd_nxt := sk_iss lk, sk_rcv_wnd := sk_rcv_wnd lk, sk_state := TCP_SYN_RECV\<rparr>"

lemma syn_child_simps [simp]:
  "sk_sip (syn_child l lk k iss) = sk_dip k" "sk_dip (syn_child l lk k iss) = sk_sip k" "sk_sport (syn_child l lk k iss) = sk_dport k"
  "sk_dport (syn_child l lk k iss) = sk_sport k" "sk_parent (syn_child l lk k iss) = Some l" "sk_rcv_nxt (syn_child l lk k iss) = sk_snd_nxt k + 1"
  "sk_snd_nxt (syn_child l lk k iss) = sk_iss lk" "sk_state (syn_child l lk k iss) = TCP_SYN_RECV" "sk_cgt (syn_child l lk k iss) = OPEN"
  "sk_rep_ack (syn_child l lk k iss) = 0" "sk_hash_link (syn_child l lk k iss) = Zeroed" "sk_queue (syn_child l lk k iss) = OnListen l"
  "sk_ref_cnt (syn_child l lk k iss) = 1" "sk_accept_queue (syn_child l lk k iss) = []"
  by (simp_all add: syn_child_def counted_sock_def fresh_sock_def)

lemma syn_child_rcv [simp]: "syn_child l (lk\<lparr>sk_rcv_nxt := r\<rparr>) k iss = syn_child l lk k iss" "sk_iss (syn_child l lk k iss) = iss"
  by (simp_all add: syn_child_def)

definition syn_bucket :: "tcp_sock \<Rightarrow> nat" where
  "syn_bucket k = tcp_hash_function (sk_dip k) (sk_sip k) (sk_dport k) (sk_sport k)"

text \<open>The state with the child in the table, on which the answer is sent.\<close>

definition syn_state :: "addr \<Rightarrow> tcp_sock \<Rightarrow> tcp_sock \<Rightarrow> tcp \<Rightarrow> tcp" where
  "syn_state l lk k v = (let c = t_next v; lk = lk\<lparr>sk_rcv_nxt := sk_snd_nxt k + 1\<rparr>;
     ch = syn_child l lk k (fst (tcp_new_iss v)) in
     put_sk c (ch\<lparr>sk_hash_link := Linked, sk_ref_cnt := 2\<rparr>) (put_sk l (lk\<lparr>sk_listen_queue := sk_listen_queue lk @ [c]\<rparr>)
       (v\<lparr>t_next := Suc c, t_timers := t_timers v @ [Retrans c], t_net := t_net (snd (tcp_new_iss v)),
         t_est := (t_est v)(syn_bucket k := c # t_est v (syn_bucket k))\<rparr>)))"

lemma rcv_syn_listen_eq:
  assumes ok: "store_ok D v" and l: "t_socks v l = Some lk" and look: "lookup_peer k v = Some None"
  shows "tcp_rcv_syn_listen l (ctl_cb k TCP_SYN) (put_sk l (lk\<lparr>sk_rcv_nxt := sk_snd_nxt k + 1\<rparr>) v) =
    tcp_send_control_packet (t_next v) (TCP_SYN OR TCP_ACK) (syn_state l lk k v)"
proof -
  let ?c = "t_next v" and ?lk = "lk\<lparr>sk_rcv_nxt := sk_snd_nxt k + 1\<rparr>"
  let ?v = "put_sk l ?lk v" and ?n = "t_net (snd (tcp_new_iss v))"
  let ?ch = "syn_child l ?lk k (fst (tcp_new_iss v))" and ?lkq = "?lk\<lparr>sk_listen_queue := sk_listen_queue lk @ [?c]\<rparr>"
  have lc: "l \<noteq> ?c" using store_okD(1)[OF ok l] by simp
  have fresh: "t_socks v ?c = None" using store_okD(1)[OF ok, of ?c] by (cases "t_socks v ?c") auto
  have "Retrans ?c \<notin> set (t_timers v)" using ok fresh by (auto simp: store_ok_def named_def)
  then have al: "alloc_tcp_sock ?v = Some (?c, put_sk ?c counted_sock (?v\<lparr>t_next := Suc ?c, t_timers := t_timers v @ [Retrans ?c]\<rparr>))"
    using alloc_eq[of ?v] by simp
  define w1 where "w1 = put_sk ?c counted_sock (?v\<lparr>t_next := Suc ?c, t_timers := t_timers v @ [Retrans ?c]\<rparr>)"
  define w2 where "w2 = put_sk l ?lkq w1"
  define w3 where "w3 = put_sk ?c ?ch (w2\<lparr>t_net := ?n\<rparr>)"
  have q: "t_socks w1 l = Some ?lk" "t_socks w2 l = Some ?lkq" "t_socks (w2\<lparr>t_net := ?n\<rparr>) ?c = Some counted_sock"
    "t_net w2 = t_net v" "t_est w3 = t_est v"
    using lc by (simp_all add: w1_def w2_def w3_def)
  have iss: "tcp_new_iss w2 = (fst (tcp_new_iss v), w2\<lparr>t_net := ?n\<rparr>)" using q(4) by (simp add: tcp_new_iss_def case_prod_beta)
  have child: "do { s \<leftarrow> upd_sk ?c (\<lambda>ck. ck\<lparr>sk_queue := OnListen l, sk_sip := cb_daddr (ctl_cb k TCP_SYN), sk_dip := cb_saddr (ctl_cb k TCP_SYN),
       sk_dport := cb_sport (ctl_cb k TCP_SYN), sk_sport := cb_dport (ctl_cb k TCP_SYN), sk_parent := Some l, sk_iss := fst (tcp_new_iss v),
       sk_snd_una := sk_snd_una ?lkq, sk_rcv_nxt := sk_rcv_nxt ?lkq, sk_snd_nxt := sk_iss ?lkq,
       sk_rcv_wnd := sk_rcv_wnd ?lkq\<rparr>) (w2\<lparr>t_net := ?n\<rparr>); tcp_set_state ?c TCP_SYN_RECV s } = Some w3"
    unfolding upd_sk_Some[OF q(3)] by (simp add: tcp_set_state_def w3_def syn_child_def)
  have "find_sock (same_tuple (sk_dip k) (sk_sip k) (sk_dport k) (sk_sport k)) (t_est v (syn_bucket k)) w3 =
      find_sock (same_tuple (sk_dip k) (sk_sip k) (sk_dport k) (sk_sport k)) (t_est v (syn_bucket k)) v"
  proof (rule find_sock_cong)
    fix j assume "j \<in> set (t_est v (syn_bucket k))"
    then have "j \<noteq> ?c" using bucket_dom(1)[OF ok, of "syn_bucket k"] fresh by auto
    then show "map_option (same_tuple (sk_dip k) (sk_sip k) (sk_dport k) (sk_sport k)) (t_socks w3 j) =
        map_option (same_tuple (sk_dip k) (sk_sip k) (sk_dport k) (sk_sport k)) (t_socks v j)"
      using l by (simp add: w3_def w2_def w1_def same_tuple_def)
  qed
  also have "\<dots> = Some None" using look by (simp add: tcp_sock_lookup_established_def syn_bucket_def)
  finally have h: "tcp_hash ?c w3 = Some (0, syn_state l lk k v)"
    unfolding tcp_hash_def using lc
    by (simp add: w3_def syn_bucket_def[symmetric] q(5)) (simp add: syn_state_def w3_def w2_def w1_def put_sk_def Let_def fun_upd_twist)
  show ?thesis
    unfolding tcp_rcv_syn_listen_def al bind.bind_lunit prod.case w1_def[symmetric] upd_sk_Some[OF q(1)]
    by (simp add: w2_def[symmetric] q iss then_bind[OF child[simplified]] h)
qed

section \<open>The client's SYN\<close>

text \<open>The socket \<open>tcp_sock_connect\<close> has filled in when it sends the SYN.\<close>

definition syn_sock :: "iface \<Rightarrow> u32 \<Rightarrow> u16 \<Rightarrow> u16 \<Rightarrow> u32 \<Rightarrow> tcp_sock" where
  "syn_sock f nip nport p iss = counted_sock\<lparr>sk_dip := htonl nip, sk_dport := htons nport, sk_sip := if_ip f, sk_sport := p,
     sk_bind_link := Linked, sk_iss := iss, sk_snd_nxt := iss, sk_state := TCP_SYN_SENT, sk_hash_link := Linked, sk_ref_cnt := 3\<rparr>"

lemma syn_sock_simps [simp]:
  "sk_sip (syn_sock f nip nport p iss) = if_ip f" "sk_dip (syn_sock f nip nport p iss) = htonl nip"
  "sk_sport (syn_sock f nip nport p iss) = p" "sk_dport (syn_sock f nip nport p iss) = htons nport"
  "sk_state (syn_sock f nip nport p iss) = TCP_SYN_SENT" "sk_cgt (syn_sock f nip nport p iss) = OPEN"
  "sk_rep_ack (syn_sock f nip nport p iss) = 0" "sk_send_buf (syn_sock f nip nport p iss) = []"
  "sk_wait_connect (syn_sock f nip nport p iss) = wait_init"
  by (simp_all add: syn_sock_def counted_sock_def fresh_sock_def)

lemma port_in_use_cong:
  assumes "\<And>h. t_bind s h = t_bind t h" "\<And>h j. j \<in> set (t_bind t h) \<Longrightarrow> map_option sk_sport (t_socks s j) = map_option sk_sport (t_socks t j)"
  shows "tcp_port_in_use p s = tcp_port_in_use p t"
proof -
  have "map_option (\<lambda>k. sk_sport k = p) (t_socks s j) = map_option (\<lambda>k. sk_sport k = p) (t_socks t j)"
    if "j \<in> set (t_bind t h)" for h j
    using assms(2)[OF that] by (cases "t_socks s j"; cases "t_socks t j") auto
  then have "find_sock (\<lambda>k. sk_sport k = p) (t_bind t h) s = find_sock (\<lambda>k. sk_sport k = p) (t_bind t h) t" for h
    by (rule find_sock_cong)
  with assms(1) show ?thesis by (simp add: tcp_port_in_use_def)
qed

lemma get_port_cong: "(\<And>q. tcp_port_in_use q s = tcp_port_in_use q t) \<Longrightarrow> get_port_from p s = get_port_from p t"
proof (induction p s rule: get_port_from.induct)
  case (1 p s)
  show ?case
  proof (cases "p < PORT_MAX")
    case True
    obtain r where r: "tcp_port_in_use p s = r" by simp
    show ?thesis
      unfolding get_port_from.simps[of p s] get_port_from.simps[of p t] 1(2)[symmetric] r
      using 1(1)[OF True _ _ 1(2)] r True by (cases r) auto
  qed (simp add: get_port_from.simps[of p])
qed

lemma connect_sends_syn:
  assumes ok: "store_ok D c" and f: "n_ifaces (t_net c) = f # fs" and p: "tcp_get_port c = Some p" "p \<noteq> 0"
    and none: "tcp_sock_lookup_established (if_ip f) (htonl nip) p (htons nport) c = Some None"
  shows "\<exists>c0 s. alloc_tcp_sock c = Some (t_next c, c0) \<and> t_socks s (t_next c) = Some (syn_sock f nip nport p (fst (tcp_new_iss c))) \<and>
    tcp_sock_lookup_established (if_ip f) (htonl nip) p (htons nport) s = Some (Some (t_next c)) \<and>
    tcp_sock_connect (t_next c) nip nport c0 = (do {
      s \<leftarrow> tcp_send_control_packet (t_next c) TCP_SYN s;
      k \<leftarrow> t_socks s (t_next c);
      (case sleep_on_enter (sk_wait_connect k) of
         (Waiting, w) \<Rightarrow> Some (CnSleep (t_next c), put_sk (t_next c) (k\<lparr>sk_wait_connect := w\<rparr>) s)
       | (Returned _, w) \<Rightarrow> Some (CnWoken (t_next c), put_sk (t_next c) (k\<lparr>sk_wait_connect := w\<rparr>) s)) })"
proof -
  let ?i = "t_next c" and ?C = "c\<lparr>t_next := Suc (t_next c), t_timers := t_timers c @ [Retrans (t_next c)]\<rparr>"
  let ?iss = "fst (tcp_new_iss c)" and ?n = "t_net (snd (tcp_new_iss c))" and ?h = "tcp_hash_function (if_ip f) (htonl nip) p (htons nport)"
  let ?a = "counted_sock\<lparr>sk_dip := htonl nip, sk_dport := htons nport, sk_sip := if_ip f\<rparr>"
  let ?b = "?a\<lparr>sk_sport := p, sk_bind_link := Linked, sk_ref_cnt := 2\<rparr>"
  let ?d = "?b\<lparr>sk_iss := ?iss, sk_snd_nxt := ?iss, sk_state := TCP_SYN_SENT\<rparr>"
  have fresh: "t_socks c ?i = None" using store_okD(1)[OF ok, of ?i] by (cases "t_socks c ?i") auto
  have other: "j \<noteq> ?i" if "j \<in> set (t_bind c h) \<or> j \<in> set (t_est c h)" for j h using bucket_dom[OF ok, of h] that fresh by auto
  have "Retrans ?i \<notin> set (t_timers c)" using ok fresh by (auto simp: store_ok_def named_def)
  then have al: "alloc_tcp_sock c = Some (?i, put_sk ?i counted_sock ?C)" by (rule alloc_eq)
  define sa where "sa = put_sk ?i ?a ?C"
  define sb where "sb = put_sk ?i ?b (?C\<lparr>t_bind := (t_bind c)(tcp_hash_function 0 0 p 0 := ?i # t_bind c (tcp_hash_function 0 0 p 0))\<rparr>)"
  define sd where "sd = put_sk ?i ?d (sb\<lparr>t_net := ?n\<rparr>)"
  define se where "se = put_sk ?i (syn_sock f nip nport p ?iss) (sd\<lparr>t_est := (t_est c)(?h := ?i # t_est c ?h)\<rparr>)"
  have cs: "sk_bind_link counted_sock = Zeroed" "sk_hash_link counted_sock = Zeroed" by (simp_all add: counted_sock_def)
  have "tcp_port_in_use q sa = tcp_port_in_use q c" for q
    by (rule port_in_use_cong) (use other in \<open>auto simp: sa_def\<close>)
  from get_port_cong[of sa c, OF this] p have gp: "tcp_get_port sa = Some p" by (simp add: tcp_get_port_def)
  have port: "tcp_sock_set_sport ?i 0 sa = Some (0, sb)"
    unfolding tcp_sock_set_sport_def using gp p(2) cs
    by (simp add: sa_def sb_def tcp_bind_hash_def Let_def)
  have "find_sock (same_tuple (if_ip f) (htonl nip) p (htons nport)) (t_est c ?h) sd =
      find_sock (same_tuple (if_ip f) (htonl nip) p (htons nport)) (t_est c ?h) c"
    by (rule find_sock_cong) (use other in \<open>auto simp: sd_def sb_def\<close>)
  also have "\<dots> = Some None" using none by (simp add: tcp_sock_lookup_established_def)
  finally have fs: "find_sock (same_tuple (if_ip f) (htonl nip) p (htons nport)) (t_est c ?h) sd = Some None" .
  have "t_est sd = t_est c" "t_socks sd ?i = Some ?d" by (simp_all add: sd_def sb_def)
  with fs have hash: "tcp_hash ?i sd = Some (0, se)"
    unfolding tcp_hash_def using cs by (simp add: se_def syn_sock_def Let_def)
  have iss: "tcp_new_iss sb = (?iss, sb\<lparr>t_net := ?n\<rparr>)" by (simp add: tcp_new_iss_def case_prod_beta sb_def)
  have sb: "t_socks (sb\<lparr>t_net := ?n\<rparr>) ?i = Some ?b" by (simp add: sb_def)
  have con: "tcp_sock_connect ?i nip nport (put_sk ?i counted_sock ?C) = (do {
      s \<leftarrow> tcp_send_control_packet ?i TCP_SYN se;
      k \<leftarrow> t_socks s ?i;
      (case sleep_on_enter (sk_wait_connect k) of
         (Waiting, w) \<Rightarrow> Some (CnSleep ?i, put_sk ?i (k\<lparr>sk_wait_connect := w\<rparr>) s)
       | (Returned _, w) \<Rightarrow> Some (CnWoken ?i, put_sk ?i (k\<lparr>sk_wait_connect := w\<rparr>) s)) })"
    unfolding tcp_sock_connect_def using f port
    by (simp add: sa_def[symmetric] iss upd_sk_Some[OF sb] tcp_set_state_def sd_def[symmetric] hash)
  have "tcp_sock_lookup_established (if_ip f) (htonl nip) p (htons nport) se = Some (Some ?i)"
    by (simp add: tcp_sock_lookup_established_def se_def same_tuple_def)
  with al con show ?thesis by (intro exI[of _ "put_sk ?i counted_sock ?C"] exI[of _ se]) (simp add: se_def)
qed

section \<open>The four messages\<close>

text \<open>The packet a socket queued last for retransmission.\<close>

definition last_queued :: "addr \<Rightarrow> tcp \<Rightarrow> bytes option" where
  "last_queued i s = do { k \<leftarrow> t_socks s i; if sk_send_buf k = [] then None else Some (sb_packet (last (sk_send_buf k))) }"

text \<open>A socket after it sent a segment that takes a sequence number.\<close>

definition sent_one :: "bytes \<Rightarrow> tcp_sock \<Rightarrow> tcp_sock" where
  "sent_one q k = k\<lparr>sk_snd_nxt := sk_snd_nxt k + 1, sk_send_buf := sk_send_buf k @ [sent_buffer q (sk_snd_nxt k + 1)],
     sk_inflight := sk_inflight k + 1\<rparr>"

lemma sent_one_simps [simp]:
  "sk_sip (sent_one q k) = sk_sip k" "sk_dip (sent_one q k) = sk_dip k" "sk_sport (sent_one q k) = sk_sport k" "sk_dport (sent_one q k) = sk_dport k"
  "sk_state (sent_one q k) = sk_state k" "sk_cgt (sent_one q k) = sk_cgt k" "sk_rep_ack (sent_one q k) = sk_rep_ack k"
  "sk_snd_nxt (sent_one q k) = sk_snd_nxt k + 1" "sk_rcv_nxt (sent_one q k) = sk_rcv_nxt k" "sk_queue (sent_one q k) = sk_queue k"
  "sk_parent (sent_one q k) = sk_parent k" "sk_wait_connect (sent_one q k) = sk_wait_connect k" "sb_packet (sent_buffer q n) = q"
  "sk_send_buf (sent_one q k) = sk_send_buf k @ [sent_buffer q (sk_snd_nxt k + 1)]"
  by (simp_all add: sent_one_def sent_buffer_def)

lemma send_syn_total:
  assumes "t_socks s i = Some k" "f = TCP_SYN \<or> f = TCP_SYN OR TCP_ACK"
  shows "\<exists>n. tcp_send_control_packet i f s = Some ((put_sk i (sent_one (ctl_seg s k f) k) s)\<lparr>t_net := n\<rparr>)"
proof -
  have "f AND (TCP_SYN OR TCP_FIN) \<noteq> 0" using assms(2) by (auto simp: tcp_flag_defs)
  with tcp_send_control_total[OF assms(1), of f] show ?thesis by (auto simp: sent_one_def if_P)
qed

lemma process_syn_eq:
  assumes "t_socks s l = Some k" "sk_state k = TCP_LISTEN" "cb_flags cb = TCP_SYN"
  shows "tcp_process (Some l) cb p s = map_option (Pair RxIdle) (tcp_rcv_syn_listen l cb (put_sk l (k\<lparr>sk_rcv_nxt := cb_seq_end cb\<rparr>) s))"
  unfolding tcp_process_def assms(3) Let_def by (simp add: tcp_flag_defs assms(1,2))

lemma process_syn_ack:
  assumes "t_socks s i = Some k" "sk_state k = TCP_SYN_SENT" "sk_cgt k = OPEN" "sk_rep_ack k = 0" "cb_flags cb = TCP_SYN OR TCP_ACK"
  shows "\<exists>k'. tcp_process (Some i) cb p s = Some (RxIdle, put_sk i (k'\<lparr>sk_wait_connect := wake (sk_wait_connect k')\<rparr>) s) \<and>
    same_ident (k\<lparr>sk_rcv_nxt := cb_seq_end cb\<rparr>) k'"
proof -
  let ?k = "k\<lparr>sk_rcv_nxt := cb_seq_end cb\<rparr>"
  have "t_socks (put_sk i ?k s) i = Some ?k" "sk_cgt ?k = OPEN" "sk_rep_ack ?k = 0" using assms by simp_all
  from process_ack_open[OF this, of cb] obtain k' where k': "tcp_process_ack i cb (put_sk i ?k s) = Some (put_sk i k' s)" "same_ident ?k k'" by auto
  have "sk_state k' = TCP_SYN_SENT" using k'(2) assms(2) by (simp add: same_ident_def)
  then have "tcp_process (Some i) cb p s = Some (RxIdle, put_sk i (k'\<lparr>sk_wait_connect := wake (sk_wait_connect k')\<rparr>) s)"
    unfolding tcp_process_def assms(5) Let_def by (simp add: tcp_flag_defs assms(1) k'(1) wake_connect_def)
  with k'(2) show ?thesis by blast
qed

lemma rcv_ack_accepts:
  assumes "t_socks s j = Some k" "t_socks s l = Some lk" "j \<noteq> l" "sk_state k = TCP_SYN_RECV" "sk_queue k = OnListen l" "sk_parent k = Some l"
  shows "tcp_rcv_ack j s = Some (put_sk j (k\<lparr>sk_queue := OnAccept l, sk_state := TCP_ESTABLISHED\<rparr>)
    (put_sk l (lk\<lparr>sk_listen_queue := remove1 j (sk_listen_queue lk), sk_accept_queue := sk_accept_queue lk @ [j],
       sk_accept_backlog := sk_accept_backlog lk + 1, sk_wait_accept := wake (sk_wait_accept lk)\<rparr>) s))"
  using assms unfolding tcp_rcv_ack_def tcp_sock_accept_enqueue_def leave_queue_def
  by (simp add: wake_accept_def tcp_set_state_def put_sk_def fun_upd_twist)

lemma process_handshake_ack:
  assumes "t_socks s j = Some k" "t_socks s l = Some lk" "j \<noteq> l" "sk_state k = TCP_SYN_RECV" "sk_queue k = OnListen l" "sk_parent k = Some l"
    "sk_cgt k = OPEN" "sk_rep_ack k = 0" "cb_flags cb = TCP_ACK"
  shows "\<exists>k' lk' . tcp_process (Some j) cb p s = Some (RxIdle, put_sk j (k'\<lparr>sk_queue := OnAccept l, sk_state := TCP_ESTABLISHED\<rparr>) (put_sk l lk' s)) \<and>
    same_ident (k\<lparr>sk_rcv_nxt := cb_seq_end cb\<rparr>) k' \<and> sk_state lk' = sk_state lk \<and> sk_accept_queue lk' = sk_accept_queue lk @ [j] \<and>
    sk_wait_accept lk' = wake (sk_wait_accept lk)"
proof -
  let ?k = "k\<lparr>sk_rcv_nxt := cb_seq_end cb\<rparr>"
  have "t_socks (put_sk j ?k s) j = Some ?k" "sk_cgt ?k = OPEN" "sk_rep_ack ?k = 0" using assms by simp_all
  from process_ack_open[OF this, of cb] obtain k' where k': "tcp_process_ack j cb (put_sk j ?k s) = Some (put_sk j k' s)" "same_ident ?k k'" by auto
  let ?lk = "lk\<lparr>sk_listen_queue := remove1 j (sk_listen_queue lk), sk_accept_queue := sk_accept_queue lk @ [j],
       sk_accept_backlog := sk_accept_backlog lk + 1, sk_wait_accept := wake (sk_wait_accept lk)\<rparr>"
  have "t_socks (put_sk j k' s) j = Some k'" "t_socks (put_sk j k' s) l = Some lk" "sk_state k' = TCP_SYN_RECV"
    "sk_queue k' = OnListen l" "sk_parent k' = Some l" using k'(2) assms by (simp_all add: same_ident_def)
  note this(1,2) assms(3) this(3-)
  from rcv_ack_accepts[OF this]
  have "tcp_rcv_ack j (put_sk j k' s) = Some (put_sk j (k'\<lparr>sk_queue := OnAccept l, sk_state := TCP_ESTABLISHED\<rparr>) (put_sk l ?lk s))"
    using assms(3) by (simp add: put_sk_def fun_upd_twist)
  then have "tcp_process (Some j) cb p s = Some (RxIdle, put_sk j (k'\<lparr>sk_queue := OnAccept l, sk_state := TCP_ESTABLISHED\<rparr>) (put_sk l ?lk s))"
    unfolding process_ack_eq[OF assms(9,1)] by (simp add: k'(1))
  with k'(2) show ?thesis by (intro exI[of _ k'] exI[of _ ?lk]) simp
qed

section \<open>Opening a connection\<close>

lemma lookup_est_cong:
  assumes "t_est s = t_est t" "\<And>j. map_option (same_tuple a b x y) (t_socks s j) = map_option (same_tuple a b x y) (t_socks t j)"
  shows "tcp_sock_lookup_established a b x y s = tcp_sock_lookup_established a b x y t"
  unfolding tcp_sock_lookup_established_def assms(1) by (rule find_sock_cong) (rule assms(2))

text \<open>The client's call up to its sleep.\<close>

lemma client_opens:
  assumes ok: "store_ok D c" and f: "n_ifaces (t_net c) = f # fs" and p: "tcp_get_port c = Some p" "p \<noteq> 0"
    and none: "tcp_sock_lookup_established (if_ip f) (htonl nip) p (htons nport) c = Some None"
  shows "\<exists>c0 s c1 k1. let i = t_next c; k = syn_sock f nip nport p (fst (tcp_new_iss c)); q = ctl_seg s k TCP_SYN in
    alloc_tcp_sock c = Some (i, c0) \<and> tcp_sock_connect i nip nport c0 = Some (CnSleep i, c1) \<and> last_queued i c1 = Some q \<and>
    t_socks c1 i = Some k1 \<and> sk_state k1 = TCP_SYN_SENT \<and> sk_snd_nxt k1 = sk_snd_nxt k + 1 \<and>
    same_tuple (sk_sip k) (sk_dip k) (sk_sport k) (sk_dport k) k1 \<and> sk_cgt k1 = OPEN \<and> sk_rep_ack k1 = 0 \<and>
    tcp_sock_lookup_established (sk_sip k) (sk_dip k) (sk_sport k) (sk_dport k) c1 = Some (Some i)"
proof -
  let ?i = "t_next c" and ?k = "syn_sock f nip nport p (fst (tcp_new_iss c))"
  from connect_sends_syn[OF assms] obtain c0 s where s: "alloc_tcp_sock c = Some (?i, c0)" "t_socks s ?i = Some ?k"
    "tcp_sock_lookup_established (if_ip f) (htonl nip) p (htons nport) s = Some (Some ?i)"
    "tcp_sock_connect ?i nip nport c0 = (do {
      s \<leftarrow> tcp_send_control_packet ?i TCP_SYN s;
      k \<leftarrow> t_socks s ?i;
      (case sleep_on_enter (sk_wait_connect k) of
         (Waiting, w) \<Rightarrow> Some (CnSleep ?i, put_sk ?i (k\<lparr>sk_wait_connect := w\<rparr>) s)
       | (Returned _, w) \<Rightarrow> Some (CnWoken ?i, put_sk ?i (k\<lparr>sk_wait_connect := w\<rparr>) s)) })" by (elim exE conjE)
  let ?q = "ctl_seg s ?k TCP_SYN"
  obtain n where n: "tcp_send_control_packet ?i TCP_SYN s = Some ((put_sk ?i (sent_one ?q ?k) s)\<lparr>t_net := n\<rparr>)"
    using send_syn_total[OF s(2)] by blast
  let ?k1 = "(sent_one ?q ?k)\<lparr>sk_wait_connect := wait_init\<lparr>sw_sleep := True\<rparr>\<rparr>"
  define c1 where "c1 = put_sk ?i ?k1 ((put_sk ?i (sent_one ?q ?k) s)\<lparr>t_net := n\<rparr>)"
  have c1: "t_socks c1 ?i = Some ?k1" "t_est c1 = t_est s" by (simp_all add: c1_def)
  have "sleep_on_enter wait_init = (Waiting, wait_init\<lparr>sw_sleep := True\<rparr>)" by (simp add: sleep_on_enter_def wait_init_def)
  then have con: "tcp_sock_connect ?i nip nport c0 = Some (CnSleep ?i, c1)" unfolding s(4) n by (simp add: c1_def)
  have "map_option (same_tuple (if_ip f) (htonl nip) p (htons nport)) (t_socks c1 j) =
      map_option (same_tuple (if_ip f) (htonl nip) p (htons nport)) (t_socks s j)" for j
    using s(2) by (simp add: c1_def same_tuple_def)
  from lookup_est_cong[OF c1(2) this] s(3)
  have look: "tcp_sock_lookup_established (sk_sip ?k) (sk_dip ?k) (sk_sport ?k) (sk_dport ?k) c1 = Some (Some ?i)" by simp
  have "last_queued ?i c1 = Some ?q" by (simp add: last_queued_def c1)
  then show ?thesis
    unfolding Let_def using s(1) con c1(1) look by (intro exI[of _ c0] exI[of _ s] exI[of _ c1] exI[of _ ?k1]) (simp add: same_tuple_def)
qed

text \<open>The server receives the SYN.\<close>

lemma server_answers:
  assumes ok: "store_ok D v" and l: "t_socks v l = Some lk" "sk_state lk = TCP_LISTEN"
    and look: "lookup_peer k v = Some None" "tcp_sock_lookup_listen (sk_dport k) v = Some (Some l)"
  shows "\<exists>w v1 ch lk1. let j = t_next v; q = ctl_seg w ch (TCP_SYN OR TCP_ACK) in
    handle_tcp_packet (readdressed e (ctl_seg s k TCP_SYN)) ETHER_HDR_SIZE 34 v = Some (RxIdle, v1) \<and> last_queued j v1 = Some q \<and>
    t_socks v1 j = Some (sent_one q ch) \<and> t_socks v1 l = Some lk1 \<and> sk_state lk1 = TCP_LISTEN \<and> sk_accept_queue lk1 = sk_accept_queue lk \<and>
    j \<noteq> l \<and> (\<exists>iss. ch = syn_child l lk k iss\<lparr>sk_hash_link := Linked, sk_ref_cnt := 2\<rparr>) \<and>
    tcp_sock_lookup_established (sk_dip k) (sk_sip k) (sk_dport k) (sk_sport k) v1 = Some (Some j)"
proof -
  let ?j = "t_next v" and ?w = "syn_state l lk k v" and ?lk = "lk\<lparr>sk_rcv_nxt := sk_snd_nxt k + 1\<rparr>"
  let ?ch = "(syn_child l ?lk k (fst (tcp_new_iss v)))\<lparr>sk_hash_link := Linked, sk_ref_cnt := 2\<rparr>"
  let ?q = "ctl_seg ?w ?ch (TCP_SYN OR TCP_ACK)"
  have lj: "?j \<noteq> l" using store_okD(1)[OF ok l(1)] by simp
  have e: "cb_seq_end (ctl_cb k TCP_SYN) = sk_snd_nxt k + 1" by (simp add: ctl_cb_def tcp_flag_defs)
  have w: "t_socks ?w ?j = Some ?ch" "t_socks ?w l = Some (?lk\<lparr>sk_listen_queue := sk_listen_queue lk @ [?j]\<rparr>)"
    "t_est ?w (syn_bucket k) = ?j # t_est v (syn_bucket k)" using lj by (simp_all add: syn_state_def Let_def)
  obtain n where n: "tcp_send_control_packet ?j (TCP_SYN OR TCP_ACK) ?w = Some ((put_sk ?j (sent_one ?q ?ch) ?w)\<lparr>t_net := n\<rparr>)"
    using send_syn_total[OF w(1)] by blast
  define v1 where "v1 = (put_sk ?j (sent_one ?q ?ch) ?w)\<lparr>t_net := n\<rparr>"
  have "tcp_process (Some l) (ctl_cb k TCP_SYN) (readdressed e (ctl_seg s k TCP_SYN)) v = Some (RxIdle, v1)"
    unfolding process_syn_eq[OF l ctl_cb_simps(1)] e rcv_syn_listen_eq[OF ok l(1) look(1)] n by (simp add: v1_def)
  then have r: "handle_tcp_packet (readdressed e (ctl_seg s k TCP_SYN)) ETHER_HDR_SIZE 34 v = Some (RxIdle, v1)"
    unfolding receive_control lookup_control using look by simp
  have "tcp_sock_lookup_established (sk_dip k) (sk_sip k) (sk_dport k) (sk_sport k) v1 = Some (Some ?j)"
    using w(3) by (simp add: tcp_sock_lookup_established_def v1_def syn_bucket_def[symmetric] same_tuple_def)
  moreover have "\<exists>iss. ?ch = syn_child l lk k iss\<lparr>sk_hash_link := Linked, sk_ref_cnt := 2\<rparr>"
    by auto
  moreover have "last_queued ?j v1 = Some ?q" "t_socks v1 ?j = Some (sent_one ?q ?ch)"
    "t_socks v1 l = Some (?lk\<lparr>sk_listen_queue := sk_listen_queue lk @ [?j]\<rparr>)"
    using w lj by (simp_all add: v1_def last_queued_def)
  ultimately show ?thesis
    unfolding Let_def using r lj l(2)
    by (intro exI[of _ ?w] exI[of _ v1] exI[of _ ?ch] exI[of _ "?lk\<lparr>sk_listen_queue := sk_listen_queue lk @ [?j]\<rparr>"]) simp
qed

text \<open>The client wakes up, is established and acknowledges.\<close>

lemma client_finishes:
  assumes k: "t_socks c i = Some k" "sk_state k = TCP_SYN_SENT" "sk_cgt k = OPEN" "sk_rep_ack k = 0"
    and look: "lookup_peer ch c = Some (Some i)"
  shows "\<exists>c2 c3 s a c4. handle_tcp_packet (readdressed e (ctl_seg w ch (TCP_SYN OR TCP_ACK))) ETHER_HDR_SIZE 34 c = Some (RxIdle, c2) \<and>
    connect_resume (CnSleep i) c2 = Some (CnWoken i, c3) \<and> tcp_set_state i TCP_ESTABLISHED c3 = Some s \<and> t_socks s i = Some a \<and>
    connect_resume (CnWoken i) c3 = Some (CnDone 0, c4) \<and> t_socks c4 i = Some a \<and> sk_state a = TCP_ESTABLISHED \<and>
    same_tuple (sk_sip k) (sk_dip k) (sk_sport k) (sk_dport k) a \<and> sk_snd_nxt a = sk_snd_nxt k \<and> sk_rcv_nxt a = sk_snd_nxt ch + 1"
proof -
  let ?cb = "ctl_cb ch (TCP_SYN OR TCP_ACK)"
  obtain k2 where k2: "tcp_process (Some i) ?cb (readdressed e (ctl_seg w ch (TCP_SYN OR TCP_ACK))) c =
      Some (RxIdle, put_sk i (k2\<lparr>sk_wait_connect := wake (sk_wait_connect k2)\<rparr>) c)" "same_ident (k\<lparr>sk_rcv_nxt := cb_seq_end ?cb\<rparr>) k2"
    using process_syn_ack[OF k ctl_cb_simps(1)] by blast
  have e: "cb_seq_end ?cb = sk_snd_nxt ch + 1" by (simp add: ctl_cb_def tcp_flag_defs)
  define c2 where "c2 = put_sk i (k2\<lparr>sk_wait_connect := wake (sk_wait_connect k2)\<rparr>) c"
  have h: "handle_tcp_packet (readdressed e (ctl_seg w ch (TCP_SYN OR TCP_ACK))) ETHER_HDR_SIZE 34 c = Some (RxIdle, c2)"
    unfolding receive_control lookup_control using look k2(1) by (simp add: c2_def)
  define k3 where "k3 = k2\<lparr>sk_wait_connect := snd (sleep_on_resume (wake (sk_wait_connect k2)))\<rparr>"
  have r: "connect_resume (CnSleep i) c2 = Some (CnWoken i, put_sk i k3 c)" by (simp add: c2_def k3_def)
  let ?a = "k3\<lparr>sk_state := TCP_ESTABLISHED\<rparr>"
  have st: "tcp_set_state i TCP_ESTABLISHED (put_sk i k3 c) = Some (put_sk i ?a c)" by (simp add: tcp_set_state_def)
  have "t_socks (put_sk i ?a c) i = Some ?a" "\<not> TCP_ACK AND (TCP_SYN OR TCP_FIN) \<noteq> 0" by (simp_all add: tcp_flag_defs)
  with tcp_send_control_total[of "put_sk i ?a c" i ?a TCP_ACK] obtain n
    where "tcp_send_control_packet i TCP_ACK (put_sk i ?a c) = Some ((put_sk i ?a c)\<lparr>t_net := n\<rparr>)" by (auto simp: if_P)
  then have f: "connect_resume (CnWoken i) (put_sk i k3 c) = Some (CnDone 0, (put_sk i ?a c)\<lparr>t_net := n\<rparr>)"
    by (simp add: connect_finish_def st)
  have "same_tuple (sk_sip k) (sk_dip k) (sk_sport k) (sk_dport k) ?a" "sk_snd_nxt ?a = sk_snd_nxt k" "sk_rcv_nxt ?a = sk_snd_nxt ch + 1"
    using k2(2) e by (simp_all add: same_tuple_def same_ident_def k3_def)
  with h r st f show ?thesis
    by (intro exI[of _ c2] exI[of _ "put_sk i k3 c"] exI[of _ "put_sk i ?a c"] exI[of _ ?a] exI[of _ "(put_sk i ?a c)\<lparr>t_net := n\<rparr>"]) simp
qed

text \<open>The server accepts.\<close>

lemma server_accepts:
  assumes k: "t_socks v j = Some k" "t_socks v l = Some lk" "j \<noteq> l" "sk_state k = TCP_SYN_RECV" "sk_queue k = OnListen l" "sk_parent k = Some l"
    "sk_cgt k = OPEN" "sk_rep_ack k = 0" and look: "lookup_peer a v = Some (Some j)"
  shows "\<exists>v2 b lk2. handle_tcp_packet (readdressed e (ctl_seg s a TCP_ACK)) ETHER_HDR_SIZE 34 v = Some (RxIdle, v2) \<and>
    t_socks v2 j = Some b \<and> sk_state b = TCP_ESTABLISHED \<and> same_tuple (sk_sip k) (sk_dip k) (sk_sport k) (sk_dport k) b \<and>
    sk_snd_nxt b = sk_snd_nxt k \<and> sk_rcv_nxt b = sk_snd_nxt a \<and>
    t_socks v2 l = Some lk2 \<and> sk_state lk2 = sk_state lk \<and> sk_accept_queue lk2 = sk_accept_queue lk @ [j]"
proof -
  let ?cb = "ctl_cb a TCP_ACK"
  obtain k' lk' where p: "tcp_process (Some j) ?cb (readdressed e (ctl_seg s a TCP_ACK)) v =
      Some (RxIdle, put_sk j (k'\<lparr>sk_queue := OnAccept l, sk_state := TCP_ESTABLISHED\<rparr>) (put_sk l lk' v))"
    "same_ident (k\<lparr>sk_rcv_nxt := cb_seq_end ?cb\<rparr>) k'" "sk_state lk' = sk_state lk" "sk_accept_queue lk' = sk_accept_queue lk @ [j]"
    using process_handshake_ack[OF k ctl_cb_simps(1)] by blast
  have e: "cb_seq_end ?cb = sk_snd_nxt a" by (simp add: ctl_cb_def tcp_flag_defs)
  let ?b = "k'\<lparr>sk_queue := OnAccept l, sk_state := TCP_ESTABLISHED\<rparr>" and ?v = "put_sk j (k'\<lparr>sk_queue := OnAccept l, sk_state := TCP_ESTABLISHED\<rparr>) (put_sk l lk' v)"
  have "handle_tcp_packet (readdressed e (ctl_seg s a TCP_ACK)) ETHER_HDR_SIZE 34 v = Some (RxIdle, ?v)"
    unfolding receive_control lookup_control using look p(1) by simp
  moreover have "same_tuple (sk_sip k) (sk_dip k) (sk_sport k) (sk_dport k) ?b" "sk_snd_nxt ?b = sk_snd_nxt k" "sk_rcv_nxt ?b = sk_snd_nxt a"
    using p(2) e by (simp_all add: same_tuple_def same_ident_def)
  ultimately show ?thesis using p(3,4) k(3) by (intro exI[of _ ?v] exI[of _ ?b] exI[of _ lk']) simp
qed

text \<open>The run of two stacks \<open>c\<close> (client) and \<open>v\<close> (server): the application of \<open>c\<close> allocates a socket and connects,
  each segment is the one its sender handed to the IP layer, and reaches the other side in order.\<close>

definition open_connection :: "ether_header \<Rightarrow> ether_header \<Rightarrow> ether_header \<Rightarrow> u32 \<Rightarrow> u16 \<Rightarrow> tcp \<Rightarrow> tcp \<Rightarrow> (cn_pc \<times> tcp \<times> tcp) option" where
  "open_connection e1 e2 e3 nip nport c v = do {
     let j = t_next v;
     (i, c) \<leftarrow> alloc_tcp_sock c;
     (pc, c) \<leftarrow> tcp_sock_connect i nip nport c;
     syn \<leftarrow> last_queued i c;
     (_, v) \<leftarrow> handle_tcp_packet (readdressed e1 syn) ETHER_HDR_SIZE 34 v;
     syn_ack \<leftarrow> last_queued j v;
     (_, c) \<leftarrow> handle_tcp_packet (readdressed e2 syn_ack) ETHER_HDR_SIZE 34 c;
     (pc, c) \<leftarrow> connect_resume pc c;
     s \<leftarrow> tcp_set_state i TCP_ESTABLISHED c;
     k \<leftarrow> t_socks s i;
     (pc, c) \<leftarrow> connect_resume pc c;
     (_, v) \<leftarrow> handle_tcp_packet (readdressed e3 (ctl_seg s k TCP_ACK)) ETHER_HDR_SIZE 34 v;
     Some (pc, c, v) }"

text \<open>The two ends of one connection.\<close>

definition peers :: "tcp_sock \<Rightarrow> tcp_sock \<Rightarrow> bool" where
  "peers a b \<longleftrightarrow> sk_state a = TCP_ESTABLISHED \<and> sk_state b = TCP_ESTABLISHED \<and>
     same_tuple (sk_dip a) (sk_sip a) (sk_dport a) (sk_sport a) b \<and> sk_snd_nxt a = sk_rcv_nxt b \<and> sk_snd_nxt b = sk_rcv_nxt a"


text \<open>A fresh client, and a server with one socket listening on port 80.\<close>

definition listening_tcp :: tcp where
  "listening_tcp = put_sk 0 (counted_sock\<lparr>sk_sport := 80, sk_state := TCP_LISTEN, sk_hash_link := Linked, sk_ref_cnt := 2\<rparr>)
     (empty_tcp\<lparr>t_next := 1, t_timers := [Retrans 0], t_lis := (\<lambda>_. [])(tcp_hash_function 0 0 80 0 := [0])\<rparr>)"

lemma listening_tcp_ok: "store_ok {} listening_tcp"
  by (auto simp: store_ok_def counted_def named_def listening_tcp_def empty_tcp_def refs_def counted_sock_def fresh_sock_def)


end
