(* ===== verification/Mac_Switch.thy ===== *)
theory Mac_Switch
  imports Arp_Cache Hash
begin

text \<open>
  The learning switch of prj05 (\<open>mac.c\<close>, \<open>packet.c\<close>, \<open>handle_packet\<close> in \<open>main.c\<close>) and the hub of
  prj04 (\<open>main.c\<close>). The MAC table is an array of buckets selected by \<open>hash8\<close> of the address. Each
  definition runs under the table's mutex in the code. A pointer to an interface is the interface
  itself; two pointers are equal when the indices are.
\<close>

section \<open>State\<close>

record mac_port_entry =
  me_mac :: mac_addr
  me_iface :: iface
  me_visited :: int

type_synonym mac_port_map = "nat \<Rightarrow> mac_port_entry list"

record switch =
  sw_ifaces :: "iface list"
  sw_table :: mac_port_map
  sw_now :: int
  sw_out :: "(iface \<times> bytes) list"

definition MAC_PORT_TIMEOUT :: int where "MAC_PORT_TIMEOUT = 30"

definition mac_index :: "mac_addr \<Rightarrow> nat" where
  "mac_index m = unat (hash8 (mac_bytes m))"

section \<open>The table\<close>

definition init_mac_port_table :: "switch \<Rightarrow> switch" where
  "init_mac_port_table s = s\<lparr>sw_table := (\<lambda>_. [])\<rparr>"

text \<open>All entries of all buckets are freed.\<close>

definition destory_mac_port_table :: "switch \<Rightarrow> switch" where
  "destory_mac_port_table s = s\<lparr>sw_table := (\<lambda>i. if i < HASH_8BITS then [] else sw_table s i)\<rparr>"

definition has_mac :: "mac_addr \<Rightarrow> mac_port_entry \<Rightarrow> bool" where
  "has_mac m e \<longleftrightarrow> me_mac e = m"

definition touch :: "int \<Rightarrow> mac_port_entry \<Rightarrow> mac_port_entry" where
  "touch now e = e\<lparr>me_visited := now\<rparr>"

text \<open>A hit refreshes the entry.\<close>

definition lookup_port :: "mac_addr \<Rightarrow> switch \<Rightarrow> iface option \<times> switch" where
  "lookup_port m s =
     (let i = mac_index m; b = sw_table s i in
      case List.find (has_mac m) b of
        Some e \<Rightarrow> (Some (me_iface e), s\<lparr>sw_table := (sw_table s)(i := upd_first (has_mac m) (touch (sw_now s)) b)\<rparr>)
      | None \<Rightarrow> (None, s))"

text \<open>A known address is only refreshed, whatever interface it is seen on.\<close>

definition insert_mac_port :: "mac_addr \<Rightarrow> iface \<Rightarrow> switch \<Rightarrow> switch" where
  "insert_mac_port m ifc s =
     (let i = mac_index m; b = sw_table s i in
      case List.find (has_mac m) b of
        Some e \<Rightarrow> s\<lparr>sw_table := (sw_table s)(i := upd_first (has_mac m) (touch (sw_now s)) b)\<rparr>
      | None \<Rightarrow> s\<lparr>sw_table := (sw_table s)(i := b @ [\<lparr> me_mac = m, me_iface = ifc, me_visited = sw_now s \<rparr>])\<rparr>)"

text \<open>\<open>now - entry->visited > MAC_PORT_TIMEOUT\<close> deletes the entry; the count the function returns is
  always zero.\<close>

definition sweep_aged_mac_port_entry :: "switch \<Rightarrow> int \<times> switch" where
  "sweep_aged_mac_port_entry s =
     (0, s\<lparr>sw_table := (\<lambda>i. if i < HASH_8BITS
        then filter (\<lambda>e. \<not> sw_now s - me_visited e > MAC_PORT_TIMEOUT) (sw_table s i) else sw_table s i)\<rparr>)"

section \<open>Frames\<close>

definition switch_send :: "iface \<Rightarrow> bytes \<Rightarrow> switch \<Rightarrow> switch option" where
  "switch_send ifc p s = do {
     eh \<leftarrow> get_ether p 0;
     Some (s\<lparr>sw_out := sw_out s @ [(ifc, p)]\<rparr>) }"

fun switch_flood :: "iface \<Rightarrow> bytes \<Rightarrow> iface list \<Rightarrow> switch \<Rightarrow> switch option" where
  "switch_flood in_ifc p [] s = Some s"
| "switch_flood in_ifc p (ifc # rest) s =
     (if if_index ifc \<noteq> if_index in_ifc then do { s \<leftarrow> switch_send ifc p s; switch_flood in_ifc p rest s }
      else switch_flood in_ifc p rest s)"

definition switch_broadcast :: "iface \<Rightarrow> bytes \<Rightarrow> switch \<Rightarrow> switch option" where
  "switch_broadcast in_ifc p s = switch_flood in_ifc p (sw_ifaces s) s"

definition switch_handle_packet :: "iface \<Rightarrow> bytes \<Rightarrow> switch \<Rightarrow> switch option" where
  "switch_handle_packet ifc p s = do {
     eh \<leftarrow> get_ether p 0;
     let s = insert_mac_port (ether_shost eh) ifc s;
     let (dest, s) = lookup_port (ether_dhost eh) s;
     (case dest of Some d \<Rightarrow> switch_send d p s | None \<Rightarrow> switch_broadcast ifc p s) }"

text \<open>The hub of prj04.\<close>

definition hub_broadcast :: "iface \<Rightarrow> bytes \<Rightarrow> switch \<Rightarrow> switch option" where
  "hub_broadcast ifc p s = switch_flood ifc p (sw_ifaces s) s"

definition hub_handle_packet :: "iface \<Rightarrow> bytes \<Rightarrow> switch \<Rightarrow> switch option" where
  "hub_handle_packet ifc p s = hub_broadcast ifc p s"

section \<open>The table as a function\<close>

definition port_of :: "switch \<Rightarrow> mac_addr \<Rightarrow> iface option" where
  "port_of s m = map_option me_iface (List.find (has_mac m) (sw_table s (mac_index m)))"

lemma fst_lookup_port: "fst (lookup_port m s) = port_of s m"
  by (simp add: lookup_port_def port_of_def Let_def split: option.splits)

lemma find_touch: "map_option me_iface (List.find (has_mac m) (upd_first (has_mac m') (touch now) b)) =
    map_option me_iface (List.find (has_mac m) b)"
  by (induction b) (auto simp: has_mac_def touch_def)

lemma lookup_port_keeps: "port_of (snd (lookup_port m s)) = port_of s"
  by (rule ext) (auto simp: lookup_port_def port_of_def find_touch Let_def split: option.splits)

lemma insert_mac_port_port_of:
  "port_of (insert_mac_port m ifc s) m' = (if m' = m \<and> port_of s m = None then Some ifc else port_of s m')"
proof (cases "List.find (has_mac m) (sw_table s (mac_index m))")
  case None
  have "List.find (has_mac m') (b @ [e]) = (case List.find (has_mac m') b of None \<Rightarrow> if has_mac m' e then Some e else None | Some x \<Rightarrow> Some x)"
    for b e by (simp add: find_append split: option.split)
  with None show ?thesis
    by (auto simp: insert_mac_port_def port_of_def Let_def has_mac_def split: option.splits)
next
  case (Some e)
  then show ?thesis by (auto simp: insert_mac_port_def port_of_def Let_def find_touch)
qed

interpretation mac_table: sticky_table "\<lambda>_. True" port_of "\<lambda>s m ifc. Some (insert_mac_port m ifc s)"
  by unfold_locales (auto simp: insert_mac_port_port_of)

lemma insert_mac_port_frame [simp]:
  "sw_ifaces (insert_mac_port m ifc s) = sw_ifaces s" "sw_out (insert_mac_port m ifc s) = sw_out s"
  "sw_now (insert_mac_port m ifc s) = sw_now s"
  by (simp_all add: insert_mac_port_def Let_def split: option.splits)

lemma lookup_port_frame [simp]:
  "sw_ifaces (snd (lookup_port m s)) = sw_ifaces s" "sw_out (snd (lookup_port m s)) = sw_out s"
  by (simp_all add: lookup_port_def Let_def split: option.splits)

lemma switch_flood_eq: "14 \<le> length p \<Longrightarrow> switch_flood in_ifc p ifs s =
    Some (s\<lparr>sw_out := sw_out s @ map (\<lambda>i. (i, p)) (filter (\<lambda>i. if_index i \<noteq> if_index in_ifc) ifs)\<rparr>)"
proof (induction ifs arbitrary: s)
  case (Cons i ifs)
  moreover obtain eh where "get_ether p 0 = Some eh" using Cons.prems get_ether_Some_iff by blast
  ultimately show ?case by (simp add: switch_send_def)
qed simp

section \<open>Properties\<close>

text \<open>After any sequence of frames the table holds, for every address, the port of the first
  frame that came from it.\<close>

theorem mac_table_keeps_first_port:
  "\<exists>t. learn_all (\<lambda>s m ifc. Some (insert_mac_port m ifc s)) s kvs = Some t \<and>
    port_of t m = (case port_of s m of None \<Rightarrow> map_of kvs m | Some ifc \<Rightarrow> Some ifc)"
  using mac_table.learn_all_history[of s kvs m] by blast

text \<open>Property C14. A frame to an address with a known port leaves on that port alone; any other frame
  leaves on every port but the one it came in on. The source address is known afterwards.\<close>

theorem switch_forwards:
  assumes "get_ether p 0 = Some eh"
  shows "\<exists>t. switch_handle_packet ifc p s = Some t \<and>
    sw_out t = sw_out s @ (case (if ether_dhost eh = ether_shost eh \<and> port_of s (ether_dhost eh) = None
        then Some ifc else port_of s (ether_dhost eh)) of
      Some d \<Rightarrow> [(d, p)] | None \<Rightarrow> map (\<lambda>i. (i, p)) (filter (\<lambda>i. if_index i \<noteq> if_index ifc) (sw_ifaces s))) \<and>
    port_of t (ether_shost eh) \<noteq> None"
proof -
  let ?s1 = "insert_mac_port (ether_shost eh) ifc s"
  let ?s2 = "snd (lookup_port (ether_dhost eh) ?s1)"
  have len: "14 \<le> length p" using assms get_ether_Some_iff by blast
  have dest: "fst (lookup_port (ether_dhost eh) ?s1) = (if ether_dhost eh = ether_shost eh \<and> port_of s (ether_dhost eh) = None
      then Some ifc else port_of s (ether_dhost eh))"
    by (auto simp: fst_lookup_port insert_mac_port_port_of)
  have src: "port_of ?s2 (ether_shost eh) \<noteq> None" by (simp add: lookup_port_keeps insert_mac_port_port_of)
  have po: "port_of (x\<lparr>sw_out := l\<rparr>) = port_of x" for x l by (rule ext) (simp add: port_of_def)
  have h: "switch_handle_packet ifc p s = (case fst (lookup_port (ether_dhost eh) ?s1) of
      Some d \<Rightarrow> switch_send d p ?s2 | None \<Rightarrow> switch_broadcast ifc p ?s2)"
    by (simp add: switch_handle_packet_def assms Let_def case_prod_beta)
  show ?thesis
    unfolding dest[symmetric]
  proof (cases "fst (lookup_port (ether_dhost eh) ?s1)")
    case None
    with h len src show "\<exists>t. switch_handle_packet ifc p s = Some t \<and>
      sw_out t = sw_out s @ (case fst (lookup_port (ether_dhost eh) ?s1) of Some d \<Rightarrow> [(d, p)]
        | None \<Rightarrow> map (\<lambda>i. (i, p)) (filter (\<lambda>i. if_index i \<noteq> if_index ifc) (sw_ifaces s))) \<and>
      port_of t (ether_shost eh) \<noteq> None" by (simp add: switch_broadcast_def switch_flood_eq po)
  next
    case (Some d)
    with h assms src show "\<exists>t. switch_handle_packet ifc p s = Some t \<and>
      sw_out t = sw_out s @ (case fst (lookup_port (ether_dhost eh) ?s1) of Some d \<Rightarrow> [(d, p)]
        | None \<Rightarrow> map (\<lambda>i. (i, p)) (filter (\<lambda>i. if_index i \<noteq> if_index ifc) (sw_ifaces s))) \<and>
      port_of t (ether_shost eh) \<noteq> None" by (simp add: switch_send_def po)
  qed
qed

definition port_a :: iface where "port_a = sample_iface\<lparr>if_index := 1\<rparr>"
definition port_b :: iface where "port_b = sample_iface\<lparr>if_index := 2\<rparr>"

definition empty_switch :: switch where
  "empty_switch = \<lparr> sw_ifaces = [port_a, port_b], sw_table = (\<lambda>_. []), sw_now = 0, sw_out = [] \<rparr>"

definition sample_eth :: ether_header where
  "sample_eth = \<lparr> ether_dhost = Mac 1 1 1 1 1 1, ether_shost = Mac 2 2 2 2 2 2, ether_type = 8 \<rparr>"

lemma get_sample_eth: "get_ether (ether_enc sample_eth @ rest) 0 = Some sample_eth"
  by (rule ether.get_at_front)

theorem switch_forwards_witness:
  "\<exists>t. switch_handle_packet port_a (ether_enc sample_eth @ [7]) empty_switch = Some t \<and>
     sw_out t = [(port_b, ether_enc sample_eth @ [7])]"
  using switch_forwards[OF get_sample_eth, of port_a "[7]" empty_switch]
  by (auto simp: sample_eth_def empty_switch_def port_of_def port_a_def port_b_def)

text \<open>Addresses are in one entry of their bucket at most, however the table was used.\<close>

definition table_wf :: "switch \<Rightarrow> bool" where
  "table_wf s \<longleftrightarrow> (\<forall>i. distinct (map me_mac (sw_table s i)))"

lemma map_touch: "map me_mac (upd_first (has_mac m) (touch now) b) = map me_mac b"
  by (rule map_upd_first) (simp add: touch_def)

lemma table_wf_insert: "table_wf s \<Longrightarrow> table_wf (insert_mac_port m ifc s)"
  by (auto simp: table_wf_def insert_mac_port_def Let_def map_touch find_None_iff has_mac_def split: option.splits)

lemma table_wf_lookup: "table_wf s \<Longrightarrow> table_wf (snd (lookup_port m s))"
  by (auto simp: table_wf_def lookup_port_def Let_def map_touch split: option.splits)

lemma find_filter_distinct: "distinct (map me_mac b) \<Longrightarrow>
    List.find (has_mac m) (filter P b) = (case List.find (has_mac m) b of None \<Rightarrow> None | Some e \<Rightarrow> if P e then Some e else None)"
proof (induction b)
  case (Cons e b)
  show ?case
  proof (cases "has_mac m e")
    case True
    then have "\<forall>x\<in>set b. \<not> has_mac m x" using Cons.prems by (force simp: has_mac_def image_iff)
    then have "List.find (has_mac m) (filter P b) = None" by (simp add: find_None_iff)
    with True show ?thesis by simp
  next
    case False
    with Cons show ?thesis by simp
  qed
qed simp

text \<open>A sweep forgets exactly the addresses not seen for more than 30 seconds.\<close>

theorem sweep_forgets_aged:
  assumes "table_wf s"
  shows "port_of (snd (sweep_aged_mac_port_entry s)) m =
      (case List.find (has_mac m) (sw_table s (mac_index m)) of
         None \<Rightarrow> None | Some e \<Rightarrow> if sw_now s - me_visited e > 30 then None else Some (me_iface e)) \<and>
    table_wf (snd (sweep_aged_mac_port_entry s))"
proof -
  have i: "mac_index m < HASH_8BITS" using unsigned_less[of "hash8 (mac_bytes m)", where 'a=nat] by (simp add: mac_index_def)
  have d: "distinct (map me_mac (sw_table s i))" for i using assms by (simp add: table_wf_def)
  have "table_wf (snd (sweep_aged_mac_port_entry s))"
    using d by (simp add: table_wf_def sweep_aged_mac_port_entry_def distinct_map_filter)
  then show ?thesis using i d
    by (auto simp: sweep_aged_mac_port_entry_def port_of_def find_filter_distinct MAC_PORT_TIMEOUT_def split: option.splits)
qed

theorem sweep_forgets_aged_witness:
  "port_of (snd (sweep_aged_mac_port_entry (insert_mac_port (Mac 1 1 1 1 1 1) port_a empty_switch\<lparr>sw_now := 31\<rparr>)))
     (Mac 1 1 1 1 1 1) = None"
proof -
  have "table_wf (insert_mac_port (Mac 1 1 1 1 1 1) port_a empty_switch\<lparr>sw_now := 31\<rparr>)"
    using table_wf_insert[of empty_switch] by (simp add: table_wf_def empty_switch_def)
  from sweep_forgets_aged[OF this, of "Mac 1 1 1 1 1 1"] show ?thesis
    by (simp add: insert_mac_port_def empty_switch_def Let_def has_mac_def)
qed

text \<open>The switch never notices that a station moved: an address the table knows keeps its port although
  frames from it arrive on another one, and each of these frames refreshes the stale entry.\<close>

theorem moved_station_keeps_stale_port:
  assumes "port_of s m = Some old"
  shows "port_of (insert_mac_port m new s) m = Some old \<and>
    (\<exists>e. List.find (has_mac m) (sw_table (insert_mac_port m new s) (mac_index m)) = Some e \<and> me_visited e = sw_now s)"
proof -
  obtain e where e: "List.find (has_mac m) (sw_table s (mac_index m)) = Some e" "me_iface e = old"
    using assms by (auto simp: port_of_def)
  have "List.find (has_mac m) (upd_first (has_mac m) (touch now) b) = Some (touch now x)" if "List.find (has_mac m) b = Some x" for b x now
    using that by (induction b) (simp_all add: has_mac_def touch_def split: if_splits)
  note f = this[OF e(1), of "sw_now s"]
  have i: "insert_mac_port m new s = s\<lparr>sw_table := (sw_table s)(mac_index m :=
      upd_first (has_mac m) (touch (sw_now s)) (sw_table s (mac_index m)))\<rparr>"
    unfolding insert_mac_port_def Let_def e(1) by simp
  have "port_of (insert_mac_port m new s) m = Some old" using assms by (simp add: insert_mac_port_port_of)
  moreover have "List.find (has_mac m) (sw_table (insert_mac_port m new s) (mac_index m)) = Some (touch (sw_now s) e)"
    unfolding i using f by simp
  ultimately show ?thesis by (simp add: touch_def)
qed

end
