(* ===== verification/Stp.thy ===== *)
theory Stp
  imports Arp_Cache
begin

text \<open>
  The spanning tree protocol of prj06 (\<open>stp.c\<close>, \<open>stp_timer.c\<close>, \<open>stp_proto.h\<close>, \<open>handle_packet\<close> in
  \<open>main.c\<close>). Ports are a list indexed from zero, a pointer to a port is its index. The configuration
  a port remembers is its priority vector; a smaller vector is the better one. Signed costs that
  leave the range of \<open>int\<close> are undefined.
\<close>

section \<open>Data\<close>

record stp_port =
  sp_id :: int
  sp_iface :: iface
  sp_path_cost :: int
  sp_root :: u64
  sp_switch :: u64
  sp_dport :: int
  sp_cost :: int

record stp_config =
  cf_msg_type :: u8
  cf_root :: u64
  cf_cost :: u32
  cf_switch :: u64
  cf_port :: u16

record stp_timer =
  tm_active :: bool
  tm_time :: int
  tm_timeout :: int

record stp =
  st_id :: u64
  st_root :: u64
  st_cost :: int
  st_root_port :: "nat option"
  st_hello :: stp_timer
  st_ports :: "stp_port list"
  st_out :: "(iface \<times> bytes) list"

definition STP_BRIDGE_PRIORITY :: u64 where "STP_BRIDGE_PRIORITY = 32768"
definition STP_PORT_PRIORITY :: int where "STP_PORT_PRIORITY = 128"
definition STP_MAX_AGE :: u16 where "STP_MAX_AGE = 5120"
definition STP_HELLO_TIME :: u16 where "STP_HELLO_TIME = 512"
definition STP_FWD_DELAY :: u16 where "STP_FWD_DELAY = 3840"
definition STP_MAX_PORTS :: nat where "STP_MAX_PORTS = 32"
definition STP_TYPE_CONFIG :: u8 where "STP_TYPE_CONFIG = 0"
definition eth_stp_addr :: bytes where "eth_stp_addr = [0x01, 0x80, 0xC2, 0x00, 0x00, 0x01]"
definition LLC_HDR_SIZE :: nat where "LLC_HDR_SIZE = 3"

section \<open>Wire format\<close>

definition htonll :: "u64 \<Rightarrow> u64" where
  "htonll x = push_bit 32 (ucast (htonl (ucast x))) OR ucast (htonl (ucast (drop_bit 32 x)))"

text \<open>Storing and loading a 64-bit integer on the little-endian machine.\<close>

definition le64_enc :: "u64 \<Rightarrow> bytes" where
  "le64_enc x = le32_enc (ucast x) @ le32_enc (ucast (drop_bit 32 x))"

definition le64_at :: "bytes \<Rightarrow> nat \<Rightarrow> u64" where
  "le64_at b i = push_bit 32 (ucast (u32_at b (i + 4))) OR ucast (u32_at b i)"

text \<open>The packed structure \<open>stp_config\<close> as \<open>stp_port_send_config\<close> fills it.\<close>

definition config_bytes :: "stp_config \<Rightarrow> bytes" where
  "config_bytes c = le16_enc (htons 0) @ [0, cf_msg_type c, 0] @ le64_enc (htonll (cf_root c)) @
     le32_enc (htonl (cf_cost c)) @ le64_enc (htonll (cf_switch c)) @ le16_enc (htons (cf_port c)) @
     le16_enc (htons 0) @ le16_enc (htons STP_MAX_AGE) @ le16_enc (htons STP_HELLO_TIME) @
     le16_enc (htons STP_FWD_DELAY)"

text \<open>The fields read through the pointer in \<open>config_to_port\<close>, in host order.\<close>

definition read_config :: "bytes \<Rightarrow> nat \<Rightarrow> stp_config option" where
  "read_config p off = do {
     b \<leftarrow> ld_bytes p off 27;
     Some \<lparr> cf_msg_type = b ! 3, cf_root = htonll (le64_at b 5), cf_cost = htonl (u32_at b 13),
       cf_switch = htonll (le64_at b 17), cf_port = htons (u16_at b 25) \<rparr> }"

section \<open>Ports\<close>

definition stp_is_root_switch :: "stp \<Rightarrow> bool" where
  "stp_is_root_switch st \<longleftrightarrow> st_root st = st_id st"

definition stp_port_is_designated :: "u64 \<Rightarrow> stp_port \<Rightarrow> bool" where
  "stp_port_is_designated sid p \<longleftrightarrow> sp_switch p = sid \<and> sp_dport p = sp_id p"

datatype role = ROOT | DESIGNATED | ALTERNATE

definition stp_port_state :: "stp \<Rightarrow> stp_port \<Rightarrow> role" where
  "stp_port_state st p =
     (case st_root_port st of
        Some r \<Rightarrow> if sp_id p = sp_id (st_ports st ! r) then ROOT
          else if stp_port_is_designated (st_id st) p then DESIGNATED else ALTERNATE
      | None \<Rightarrow> if stp_port_is_designated (st_id st) p then DESIGNATED else ALTERNATE)"

definition stp_port_send_packet :: "stp_port \<Rightarrow> bytes \<Rightarrow> stp \<Rightarrow> stp" where
  "stp_port_send_packet p msg st =
     (let pkt_len = ETHER_HDR_SIZE + LLC_HDR_SIZE + length msg;
          pkt = eth_stp_addr @ mac_bytes (if_mac (sp_iface p)) @ le16_enc (htons (of_nat (pkt_len - ETHER_HDR_SIZE)))
            @ [0x42, 0x42, 3] @ msg
      in st\<lparr>st_out := st_out st @ [(sp_iface p, pkt)]\<rparr>)"

definition port_config :: "stp \<Rightarrow> stp_port \<Rightarrow> stp_config" where
  "port_config st p = \<lparr> cf_msg_type = STP_TYPE_CONFIG, cf_root = st_root st, cf_cost = of_int (st_cost st),
     cf_switch = st_id st, cf_port = of_int (sp_id p) \<rparr>"

definition stp_port_send_config :: "stp_port \<Rightarrow> stp \<Rightarrow> stp" where
  "stp_port_send_config p st =
     (if \<not> stp_is_root_switch st \<and> st_root_port st = None then st
      else stp_port_send_packet p (config_bytes (port_config st p)) st)"

definition stp_send_config :: "stp \<Rightarrow> stp" where
  "stp_send_config st = foldl (\<lambda>s p. if stp_port_is_designated (st_id s) p then stp_port_send_config p s else s)
     st (st_ports st)"

section \<open>Timers\<close>

definition stp_start_timer :: "stp_timer \<Rightarrow> int \<Rightarrow> stp_timer" where
  "stp_start_timer t now = t\<lparr>tm_active := True, tm_time := now\<rparr>"

definition stp_stop_timer :: "stp_timer \<Rightarrow> stp_timer" where
  "stp_stop_timer t = t\<lparr>tm_active := False\<rparr>"

definition stp_check_timer :: "stp_timer \<Rightarrow> int \<Rightarrow> bool \<times> stp_timer" where
  "stp_check_timer t now =
     (if tm_active t \<and> now \<ge> tm_time t + tm_timeout t then (True, t\<lparr>tm_active := False\<rparr>) else (False, t))"

definition stp_handle_hello_timeout :: "int \<Rightarrow> stp \<Rightarrow> stp" where
  "stp_handle_hello_timeout now st =
     (let st = stp_send_config st in st\<lparr>st_hello := stp_start_timer (st_hello st) now\<rparr>)"

text \<open>The list holds the hello timer alone.\<close>

definition stp_timer_run_once :: "int \<Rightarrow> stp \<Rightarrow> stp" where
  "stp_timer_run_once now st =
     (let (fired, t) = stp_check_timer (st_hello st) now; st = st\<lparr>st_hello := t\<rparr>
      in if fired then stp_handle_hello_timeout now st else st)"

section \<open>Configurations\<close>

definition config_to_port :: "stp_config \<Rightarrow> stp_port \<Rightarrow> stp_port" where
  "config_to_port c p = p\<lparr>sp_root := cf_root c, sp_cost := sint (cf_cost c), sp_switch := cf_switch c,
     sp_dport := uint (cf_port c)\<rparr>"

definition port_cmp :: "stp_port \<Rightarrow> stp_port \<Rightarrow> bool" where
  "port_cmp p1 p2 =
     (if sp_root p1 \<noteq> sp_root p2 then sp_root p1 > sp_root p2
      else if sp_cost p1 \<noteq> sp_cost p2 then sp_cost p1 > sp_cost p2
      else if sp_switch p1 \<noteq> sp_switch p2 then sp_switch p1 > sp_switch p2
      else sp_dport p1 \<ge> sp_dport p2)"

text \<open>The loop that keeps the best port seen, among those that satisfy a condition.\<close>

fun best_port :: "(stp_port \<Rightarrow> bool) \<Rightarrow> nat \<Rightarrow> stp_port list \<Rightarrow> (nat \<times> stp_port) option \<Rightarrow> (nat \<times> stp_port) option" where
  "best_port P i [] best = best"
| "best_port P i (p # ps) best =
     best_port P (Suc i) ps
       (if P p \<and> (case best of None \<Rightarrow> True | Some (_, q) \<Rightarrow> port_cmp q p) then Some (i, p) else best)"

definition stp_handle_config_packet :: "nat \<Rightarrow> stp_config \<Rightarrow> stp \<Rightarrow> stp option" where
  "stp_handle_config_packet i c st =
     (let p = st_ports st ! i in
      if length (st_ports st) \<le> i then None
      else if \<not> port_cmp p (config_to_port c p) then Some (stp_port_send_config p st)
      else
        let is_root = stp_is_root_switch st;
            ports = (st_ports st)[i := config_to_port c p];
            maxp = best_port (\<lambda>_. True) 0 ports None;
            rootp = best_port (\<lambda>q. \<not> stp_port_is_designated (st_id st) q) 0 ports None
        in do {
          st \<leftarrow> (case rootp of
                  Some (r, q) \<Rightarrow>
                    if sp_cost q + sp_path_cost q < 2 ^ 31
                    then Some (st\<lparr>st_root_port := Some r, st_root := sp_root q, st_cost := sp_cost q + sp_path_cost q,
                      st_hello := (if is_root then stp_stop_timer (st_hello st) else st_hello st)\<rparr>)
                    else None
                | None \<Rightarrow> Some (st\<lparr>st_root_port := None, st_root := st_id st, st_cost := 0\<rparr>));
          (m, mp) \<leftarrow> maxp;
          let ports = (if Some m \<noteq> map_option fst rootp \<and> \<not> stp_port_is_designated (st_id st) mp
            then ports[m := mp\<lparr>sp_switch := st_id st, sp_dport := sp_id p\<rparr>] else ports);
          let ports = map (\<lambda>q. if stp_port_is_designated (st_id st) q
            then q\<lparr>sp_root := st_root st, sp_cost := st_cost st\<rparr> else q) ports;
          Some (stp_send_config (st\<lparr>st_ports := ports\<rparr>)) })"

definition stp_port_handle_packet :: "nat \<Rightarrow> bytes \<Rightarrow> stp \<Rightarrow> stp option" where
  "stp_port_handle_packet i packet st = do {
     h \<leftarrow> ld_bytes packet (ETHER_HDR_SIZE + LLC_HDR_SIZE) 4;
     if h ! 3 = STP_TYPE_CONFIG then do {
       c \<leftarrow> read_config packet (ETHER_HDR_SIZE + LLC_HDR_SIZE);
       stp_handle_config_packet i c st }
     else Some st }"

text \<open>\<open>memcmp\<close> over \<open>sizeof (*eth_stp_addr)\<close>, which is one byte.\<close>

definition stp_handle_packet :: "nat \<Rightarrow> bytes \<Rightarrow> stp \<Rightarrow> stp option" where
  "stp_handle_packet i packet st = do {
     d \<leftarrow> ld_bytes packet 0 1;
     if d \<noteq> take 1 eth_stp_addr then Some st else stp_port_handle_packet i packet st }"

section \<open>Start\<close>

definition mac_number :: "mac_addr \<Rightarrow> u64" where
  "mac_number m = foldl (\<lambda>a b. push_bit 8 a + ucast b) 0 (mac_bytes m)"

definition stp_port_init :: "u64 \<Rightarrow> nat \<Rightarrow> iface \<Rightarrow> stp_port" where
  "stp_port_init sid n ifc =
     (let pid = STP_PORT_PRIORITY * 256 + int (n + 1)
      in \<lparr> sp_id = pid, sp_iface = ifc, sp_path_cost = 1, sp_root = sid, sp_switch = sid, sp_dport = pid, sp_cost = 0 \<rparr>)"

definition stp_init :: "iface list \<Rightarrow> int \<Rightarrow> stp option" where
  "stp_init ifs now =
     (case ifs of
        [] \<Rightarrow> None
      | f # _ \<Rightarrow>
          let sid = mac_number (if_mac f) OR push_bit 48 STP_BRIDGE_PRIORITY in
          if length ifs > STP_MAX_PORTS then None
          else Some \<lparr> st_id = sid, st_root = sid, st_cost = 0, st_root_port = None,
            st_hello = stp_start_timer \<lparr> tm_active = False, tm_time = 0, tm_timeout = uint STP_HELLO_TIME \<rparr> now,
            st_ports = map (\<lambda>(n, ifc). stp_port_init sid n ifc) (enumerate 0 ifs), st_out = [] \<rparr>)"


section \<open>Priority vectors\<close>

datatype prio = Prio (pr_root: u64) (pr_cost: int) (pr_switch: u64) (pr_port: int)

instantiation prio :: linorder
begin

definition less_prio :: "prio \<Rightarrow> prio \<Rightarrow> bool" where
  "less_prio a b \<longleftrightarrow> pr_root a < pr_root b \<or> pr_root a = pr_root b \<and> (pr_cost a < pr_cost b \<or>
     pr_cost a = pr_cost b \<and> (pr_switch a < pr_switch b \<or> pr_switch a = pr_switch b \<and> pr_port a < pr_port b))"

definition less_eq_prio :: "prio \<Rightarrow> prio \<Rightarrow> bool" where
  "less_eq_prio a b \<longleftrightarrow> a < b \<or> a = (b :: prio)"

instance
proof
  fix x y :: prio
  show "x \<le> y \<or> y \<le> x" by (cases x; cases y) (auto simp: less_prio_def less_eq_prio_def)
qed (auto simp: less_prio_def less_eq_prio_def)

end

definition port_prio :: "stp_port \<Rightarrow> prio" where
  "port_prio p = Prio (sp_root p) (sp_cost p) (sp_switch p) (sp_dport p)"

lemma port_cmp_prio: "port_cmp p q \<longleftrightarrow> port_prio q \<le> port_prio p"
  by (auto simp: port_cmp_def port_prio_def less_eq_prio_def less_prio_def)

text \<open>The port the loop settles on: a best one among those that qualify.\<close>

lemma best_port_spec:
  assumes "best_port P n ps best = Some (i, p)"
  shows "(best = Some (i, p) \<or> n \<le> i \<and> i < n + length ps \<and> p = ps ! (i - n) \<and> P p) \<and>
    (\<forall>q\<in>set ps. P q \<longrightarrow> port_prio p \<le> port_prio q) \<and> (\<forall>j q. best = Some (j, q) \<longrightarrow> port_prio p \<le> port_prio q)"
  using assms
proof (induction ps arbitrary: n best)
  case Nil
  then show ?case by auto
next
  case (Cons x ps)
  let ?b = "if P x \<and> (case best of None \<Rightarrow> True | Some (_, q) \<Rightarrow> port_cmp q x) then Some (n, x) else best"
  have r: "best_port P (Suc n) ps ?b = Some (i, p)" using Cons.prems by simp
  note h = Cons.IH[OF r]
  have b: "port_prio p \<le> port_prio q" if "?b = Some (j, q)" for j q using h that by blast
  have x: "port_prio p \<le> port_prio x" if "P x"
  proof (cases best)
    case None
    with that b[of n x] show ?thesis by simp
  next
    case (Some jq)
    obtain j q where jq: "jq = (j, q)" by (cases jq)
    show ?thesis
    proof (cases "port_cmp q x")
      case True
      with that Some jq b[of n x] show ?thesis by simp
    next
      case False
      then have "port_prio q < port_prio x" by (simp add: port_cmp_prio not_le)
      moreover have "port_prio p \<le> port_prio q" using False Some jq b[of j q] by simp
      ultimately show ?thesis by simp
    qed
  qed
  have old: "port_prio p \<le> port_prio q" if "best = Some (j, q)" for j q
  proof (cases "P x \<and> port_cmp q x")
    case True
    then have "port_prio x \<le> port_prio q" by (simp add: port_cmp_prio)
    moreover have "port_prio p \<le> port_prio x" using True x by blast
    ultimately show ?thesis by simp
  next
    case False
    with that b[of j q] show ?thesis by auto
  qed
  have "best = Some (i, p) \<or> n \<le> i \<and> i < n + length (x # ps) \<and> p = (x # ps) ! (i - n) \<and> P p"
    using h by (auto simp: nth_Cons' Suc_diff_Suc split: if_splits)
  then show ?case using h x old by auto
qed

text \<open>If the best of all ports qualifies, it is also the best of those that qualify, the same one.\<close>

lemma best_port_agree:
  assumes "best_port (\<lambda>_. True) n ps ba = Some (i, p)" "Q p"
    and "\<And>j q. ba = Some (j, q) \<Longrightarrow> Q q \<Longrightarrow> bq = ba"
    and "\<And>j q. bq = Some (j, q) \<Longrightarrow> \<exists>j' q'. ba = Some (j', q') \<and> port_prio q' \<le> port_prio q"
  shows "best_port Q n ps bq = Some (i, p)"
  using assms
proof (induction ps arbitrary: n ba bq)
  case Nil
  then show ?case by simp
next
  case (Cons x ps)
  let ?a = "if (case ba of None \<Rightarrow> True | Some (_, q) \<Rightarrow> port_cmp q x) then Some (n, x) else ba"
  let ?q = "if Q x \<and> (case bq of None \<Rightarrow> True | Some (_, q) \<Rightarrow> port_cmp q x) then Some (n, x) else bq"
  have "best_port Q (Suc n) ps ?q = Some (i, p)"
  proof (rule Cons.IH[of _ ?a])
    show "best_port (\<lambda>_. True) (Suc n) ps ?a = Some (i, p)" using Cons.prems(1) by simp
    show "Q p" by (rule Cons.prems(2))
    show "?q = ?a" if "?a = Some (j, q)" "Q q" for j q
    proof (cases bq)
      case None
      then show ?thesis using that Cons.prems(3)[of j q] by (auto split: if_splits)
    next
      case (Some jq)
      obtain j1 q1 where q1: "jq = (j1, q1)" by (cases jq)
      obtain j2 q2 where q2: "ba = Some (j2, q2)" "port_prio q2 \<le> port_prio q1" using Cons.prems(4) Some q1 by blast
      show ?thesis
      proof (cases "port_cmp q2 x")
        case True
        then have "port_cmp q1 x" using q2(2) by (auto simp: port_cmp_prio)
        with True that q2 Some q1 show ?thesis by auto
      next
        case False
        with that q2 have "Q q2" by simp
        with Cons.prems(3) q2 have "bq = ba" by blast
        with False q2 show ?thesis by simp
      qed
    qed
    show "\<exists>j' q'. ?a = Some (j', q') \<and> port_prio q' \<le> port_prio q" if "?q = Some (j, q)" for j q
    proof (cases "?q = Some (n, x)")
      case True
      with that have "q = x" by simp
      then show ?thesis by (cases ba) (auto simp: port_cmp_prio)
    next
      case False
      with that have "bq = Some (j, q)" by (auto split: if_splits)
      with Cons.prems(4) obtain j' q' where "ba = Some (j', q')" "port_prio q' \<le> port_prio q" by blast
      then show ?thesis by (auto simp: port_cmp_prio)
    qed
  qed
  then show ?case by simp
qed


section \<open>Handling a configuration\<close>

text \<open>What \<open>stp_send_config\<close> does to the state: it only sends.\<close>

lemma send_config_frame [simp]:
  "st_ports (stp_port_send_config p st) = st_ports st" "st_id (stp_port_send_config p st) = st_id st"
  "st_root (stp_port_send_config p st) = st_root st" "st_cost (stp_port_send_config p st) = st_cost st"
  "st_root_port (stp_port_send_config p st) = st_root_port st" "st_hello (stp_port_send_config p st) = st_hello st"
  by (simp_all add: stp_port_send_config_def stp_port_send_packet_def Let_def)

definition only_sent :: "stp \<Rightarrow> stp \<Rightarrow> bool" where
  "only_sent s t \<longleftrightarrow> st_ports t = st_ports s \<and> st_id t = st_id s \<and> st_root t = st_root s \<and> st_cost t = st_cost s \<and>
     st_root_port t = st_root_port s"

lemma stp_send_config_only: "only_sent st (stp_send_config st)"
proof -
  have "only_sent s (foldl (\<lambda>s p. if stp_port_is_designated (st_id s) p then stp_port_send_config p s else s) s ps)" for s ps
    by (induction ps arbitrary: s) (auto simp: only_sent_def)
  then show ?thesis by (simp add: stp_send_config_def)
qed

text \<open>The result of accepting a configuration, without the branch that makes the best port designated:
  the best port of all is designated already or it is the root port.\<close>

definition elected :: "stp \<Rightarrow> stp_port list \<Rightarrow> stp \<Rightarrow> bool" where
  "elected st ports t \<longleftrightarrow> st_id t = st_id st \<and>
     (case best_port (\<lambda>q. \<not> stp_port_is_designated (st_id st) q) 0 ports None of
        Some (r, q) \<Rightarrow> st_root_port t = Some r \<and> st_root t = sp_root q \<and> st_cost t = sp_cost q + sp_path_cost q
      | None \<Rightarrow> st_root_port t = None \<and> st_root t = st_id st \<and> st_cost t = 0) \<and>
     st_ports t = map (\<lambda>q. if stp_port_is_designated (st_id st) q
       then q\<lparr>sp_root := st_root t, sp_cost := st_cost t\<rparr> else q) ports"

lemma handle_config_elects:
  assumes "stp_handle_config_packet i c st = Some t" "port_cmp (st_ports st ! i) (config_to_port c (st_ports st ! i))"
  shows "elected st ((st_ports st)[i := config_to_port c (st_ports st ! i)]) t \<and> i < length (st_ports st)"
proof -
  let ?p = "st_ports st ! i"
  define ports where "ports = (st_ports st)[i := config_to_port c ?p]"
  let ?D = "stp_port_is_designated (st_id st)"
  define rootp where "rootp = best_port (\<lambda>q. \<not> ?D q) 0 ports None"
  have il: "i < length (st_ports st)" using assms(1) by (auto simp: stp_handle_config_packet_def Let_def split: if_splits)
  then have "\<not> length (st_ports st) \<le> i" by simp
  note h = assms(1)[unfolded stp_handle_config_packet_def Let_def if_not_P[OF this]]
  have "\<not> \<not> port_cmp ?p (config_to_port c ?p)" using assms(2) by simp
  note h = h[unfolded if_not_P[OF this], folded ports_def, folded rootp_def]
  from h obtain s1 where s1: "(case rootp of
      Some (r, q) \<Rightarrow> if sp_cost q + sp_path_cost q < 2 ^ 31
          then Some (st\<lparr>st_root_port := Some r, st_root := sp_root q, st_cost := sp_cost q + sp_path_cost q,
            st_hello := (if stp_is_root_switch st then stp_stop_timer (st_hello st) else st_hello st)\<rparr>) else None
    | None \<Rightarrow> Some (st\<lparr>st_root_port := None, st_root := st_id st, st_cost := 0\<rparr>)) = Some s1"
    by (rule opt_bindE)
  note h = h[unfolded s1 bind.bind_lunit]
  have s1id: "st_id s1 = st_id st" using s1 by (auto split: option.splits if_splits)
  from h obtain m mp where mp: "best_port (\<lambda>_. True) 0 ports None = Some (m, mp)"
    by (cases "best_port (\<lambda>_. True) 0 ports None") auto
  note h = h[unfolded mp bind.bind_lunit prod.case]
  have dead: "\<not> (Some m \<noteq> map_option fst rootp \<and> \<not> ?D mp)"
  proof
    assume a: "Some m \<noteq> map_option fst rootp \<and> \<not> ?D mp"
    have "rootp = Some (m, mp)" unfolding rootp_def by (rule best_port_agree[OF mp]) (use a in simp_all)
    with a show False by simp
  qed
  have t: "t = stp_send_config (s1\<lparr>st_ports := map (\<lambda>q. if ?D q then q\<lparr>sp_root := st_root s1, sp_cost := st_cost s1\<rparr> else q) ports\<rparr>)"
    using h[unfolded s1id, unfolded if_not_P[OF dead]] by simp
  then have o: "st_id t = st_id st" "st_root t = st_root s1" "st_cost t = st_cost s1" "st_root_port t = st_root_port s1"
    "st_ports t = map (\<lambda>q. if ?D q then q\<lparr>sp_root := st_root s1, sp_cost := st_cost s1\<rparr> else q) ports"
    using stp_send_config_only[of "s1\<lparr>st_ports := map (\<lambda>q. if ?D q then q\<lparr>sp_root := st_root s1, sp_cost := st_cost s1\<rparr> else q) ports\<rparr>"] s1id
    by (simp_all add: only_sent_def)
  have "(case rootp of Some (r, q) \<Rightarrow> st_root_port s1 = Some r \<and> st_root s1 = sp_root q \<and> st_cost s1 = sp_cost q + sp_path_cost q
      | None \<Rightarrow> st_root_port s1 = None \<and> st_root s1 = st_id st \<and> st_cost s1 = 0)"
    using s1 by (auto split: option.splits if_splits)
  then show ?thesis unfolding elected_def ports_def[symmetric] rootp_def[symmetric]
    using o il by (cases rootp) (auto split: prod.splits)
qed


section \<open>Properties\<close>

text \<open>Property C13. A configuration a port accepts elects the root: the root port carries the smallest
  priority vector of all ports that are not designated, the root and the cost are what it offers, and
  every designated port advertises them. With no such port the switch is the root itself.\<close>

theorem accepted_config_elects_root:
  assumes "stp_handle_config_packet i c st = Some t" "port_cmp (st_ports st ! i) (config_to_port c (st_ports st ! i))"
  shows "let ports = (st_ports st)[i := config_to_port c (st_ports st ! i)];
             D = stp_port_is_designated (st_id st)
    in (case st_root_port t of
          Some r \<Rightarrow> r < length ports \<and> \<not> D (ports ! r) \<and>
            (\<forall>q\<in>set ports. \<not> D q \<longrightarrow> port_prio (ports ! r) \<le> port_prio q) \<and>
            st_root t = sp_root (ports ! r) \<and> st_cost t = sp_cost (ports ! r) + sp_path_cost (ports ! r)
        | None \<Rightarrow> (\<forall>q\<in>set ports. D q) \<and> st_root t = st_id t \<and> st_cost t = 0) \<and>
       st_ports t = map (\<lambda>q. if D q then q\<lparr>sp_root := st_root t, sp_cost := st_cost t\<rparr> else q) ports"
proof -
  let ?ports = "(st_ports st)[i := config_to_port c (st_ports st ! i)]"
  let ?D = "stp_port_is_designated (st_id st)"
  have e: "elected st ?ports t" using handle_config_elects[OF assms] by simp
  have none: "\<forall>q\<in>set ps. \<not> P q" if "best_port P n ps None = None" for P n ps
  proof -
    have some: "best_port P n ps (Some x) \<noteq> None" for n ps x by (induction ps arbitrary: n x) auto
    from that show ?thesis
      by (induction ps arbitrary: n) (auto simp: some split: if_splits)
  qed
  show ?thesis
  proof (cases "best_port (\<lambda>q. \<not> ?D q) 0 ?ports None")
    case None
    with e none[OF None] show ?thesis by (simp add: elected_def Let_def)
  next
    case (Some rq)
    obtain r q where rq: "rq = (r, q)" by (cases rq)
    with best_port_spec[of "\<lambda>q. \<not> ?D q" 0 ?ports None r q] Some e show ?thesis
      by (auto simp: elected_def Let_def)
  qed
qed

definition sample_switch :: stp where
  "sample_switch = \<lparr> st_id = 9, st_root = 9, st_cost = 0, st_root_port = None,
     st_hello = \<lparr> tm_active = True, tm_time = 0, tm_timeout = 512 \<rparr>,
     st_ports = [stp_port_init 9 0 sample_iface, stp_port_init 9 1 sample_iface], st_out = [] \<rparr>"

definition root_offer :: "u64 \<Rightarrow> stp_config" where
  "root_offer r = \<lparr> cf_msg_type = 0, cf_root = r, cf_cost = 0, cf_switch = r, cf_port = 32769 \<rparr>"

theorem accepted_config_elects_root_witness:
  "\<exists>t. stp_handle_config_packet 0 (root_offer 5) sample_switch = Some t \<and> st_root t = 5 \<and> st_cost t = 1 \<and>
     st_root_port t = Some 0"
proof -
  have c: "port_cmp (st_ports sample_switch ! 0) (config_to_port (root_offer 5) (st_ports sample_switch ! 0))"
    by (simp add: sample_switch_def stp_port_init_def Let_def port_cmp_def config_to_port_def root_offer_def)
  have "stp_handle_config_packet 0 (root_offer 5) sample_switch \<noteq> None"
    using c by (simp add: stp_handle_config_packet_def sample_switch_def stp_port_init_def Let_def config_to_port_def
        root_offer_def stp_port_is_designated_def port_cmp_def)
  then obtain t where t: "stp_handle_config_packet 0 (root_offer 5) sample_switch = Some t" by blast
  from accepted_config_elects_root[OF t c] show ?thesis
    using t by (auto simp: sample_switch_def stp_port_init_def Let_def config_to_port_def root_offer_def
        stp_port_is_designated_def less_Suc_eq split: option.splits)
qed

text \<open>A run of configurations, each on the port it came in on.\<close>

fun stp_run :: "(nat \<times> stp_config) list \<Rightarrow> stp \<Rightarrow> stp option" where
  "stp_run [] st = Some st"
| "stp_run ((i, c) # cs) st = do { st \<leftarrow> stp_handle_config_packet i c st; stp_run cs st }"

lemma handle_config_keeps_lost:
  assumes "stp_handle_config_packet i c st = Some t" "cf_switch c \<noteq> st_id st" "j < length (st_ports st)"
    "\<not> stp_port_is_designated (st_id st) (st_ports st ! j)"
  shows "st_id t = st_id st \<and> length (st_ports t) = length (st_ports st) \<and>
    \<not> stp_port_is_designated (st_id t) (st_ports t ! j)"
proof (cases "port_cmp (st_ports st ! i) (config_to_port c (st_ports st ! i))")
  case True
  let ?ports = "(st_ports st)[i := config_to_port c (st_ports st ! i)]"
  have e: "elected st ?ports t" using handle_config_elects[OF assms(1) True] by simp
  have "\<not> stp_port_is_designated (st_id st) (?ports ! j)"
    using assms(2-4) by (cases "j = i") (auto simp: stp_port_is_designated_def config_to_port_def)
  then show ?thesis using e assms(3) by (simp add: elected_def)
next
  case False
  with assms have "t = stp_port_send_config (st_ports st ! i) st"
    by (simp add: stp_handle_config_packet_def Let_def split: if_splits)
  with assms show ?thesis by simp
qed

text \<open>A port that lost its designated role never gets it back, whatever configurations of
  other switches arrive: the branch of the code meant for it is dead, because the best of all ports
  is designated or the root port.\<close>

theorem lost_port_never_designated_again:
  assumes "stp_run cs st = Some t" "\<forall>(i, c)\<in>set cs. cf_switch c \<noteq> st_id st" "j < length (st_ports st)"
    "\<not> stp_port_is_designated (st_id st) (st_ports st ! j)"
  shows "\<not> stp_port_is_designated (st_id t) (st_ports t ! j)"
proof -
  have "st_id t = st_id st \<and> \<not> stp_port_is_designated (st_id t) (st_ports t ! j)"
    using assms
  proof (induction cs arbitrary: st)
    case (Cons ic cs)
    obtain i c where ic: "ic = (i, c)" by (cases ic)
    from Cons.prems(1) ic obtain s1 where s1: "stp_handle_config_packet i c st = Some s1" "stp_run cs s1 = Some t"
      by (auto split: Option.bind_splits)
    have "cf_switch c \<noteq> st_id st" using Cons.prems(2) ic by simp
    note k = handle_config_keeps_lost[OF s1(1) this Cons.prems(3,4)]
    then have hyps: "\<forall>(i, c)\<in>set cs. cf_switch c \<noteq> st_id s1" "j < length (st_ports s1)"
      "\<not> stp_port_is_designated (st_id s1) (st_ports s1 ! j)" using Cons.prems(2,3) by auto
    have "st_id t = st_id s1" "\<not> stp_port_is_designated (st_id t) (st_ports t ! j)"
      using Cons.IH[OF s1(2) hyps] by auto
    with k show ?case by metis
  qed simp
  then show ?thesis ..
qed

definition lost_switch :: stp where
  "lost_switch = sample_switch\<lparr>st_ports := [(stp_port_init 9 0 sample_iface)\<lparr>sp_root := 5, sp_switch := 5\<rparr>,
     stp_port_init 9 1 sample_iface], st_root := 5, st_cost := 1, st_root_port := Some 0\<rparr>"

theorem lost_port_never_designated_again_witness:
  "\<exists>t. stp_run [(1, root_offer 3)] lost_switch = Some t \<and> \<not> stp_port_is_designated (st_id t) (st_ports t ! 0)"
proof -
  have "stp_run [(1, root_offer 3)] lost_switch \<noteq> None"
    by (simp add: stp_handle_config_packet_def lost_switch_def sample_switch_def stp_port_init_def Let_def config_to_port_def
        root_offer_def stp_port_is_designated_def port_cmp_def)
  then obtain t where t: "stp_run [(1, root_offer 3)] lost_switch = Some t" by blast
  have "\<forall>(i, c)\<in>set [(1 :: nat, root_offer 3)]. cf_switch c \<noteq> st_id lost_switch" "0 < length (st_ports lost_switch)"
    "\<not> stp_port_is_designated (st_id lost_switch) (st_ports lost_switch ! 0)"
    by (simp_all add: lost_switch_def sample_switch_def root_offer_def stp_port_is_designated_def)
  from lost_port_never_designated_again[OF t this] t show ?thesis by blast
qed


section \<open>The wire format of configurations\<close>

lemma htonll_htonll [simp]: "htonll (htonll x) = x"
proof -
  have hi: "drop_bit 32 (push_bit 32 (ucast (a :: u32)) OR ucast (b :: u32) :: u64) = ucast a"
    and lo: "ucast (push_bit 32 (ucast (a :: u32)) OR ucast (b :: u32) :: u64) = b" for a b
    by (rule bit_word_eqI; auto simp: bit_simps dest: bit_imp_le_length)+
  have id: "push_bit 32 (ucast (ucast (drop_bit 32 x) :: u32)) OR ucast (ucast x :: u32) = x"
    by (rule bit_word_eqI) (auto simp: bit_simps)
  have u: "ucast (ucast w :: u64) = (w :: u32)" for w by (rule bit_word_eqI) (auto simp: bit_simps)
  show ?thesis unfolding htonll_def hi lo u htonl_htonl by (rule id)
qed

lemma le64_at_enc: "n = length us \<Longrightarrow> le64_at (us @ le64_enc x @ vs) n = x"
proof -
  assume n: "n = length us"
  have "u32_at (us @ le32_enc w @ vs) n = w" for w vs
    using n by (simp add: u32_at_def le32_enc_def nth_append codec_simps)
  moreover have "u32_at (us @ le64_enc x @ vs) (n + 4) = ucast (drop_bit 32 x)"
    using n by (simp add: u32_at_def le64_enc_def le32_enc_def nth_append codec_simps)
  moreover have "push_bit 32 (ucast (ucast (drop_bit 32 x) :: u32)) OR ucast (ucast x :: u32) = x"
    by (rule bit_word_eqI) (auto simp: bit_simps)
  ultimately show ?thesis by (simp add: le64_at_def le64_enc_def)
qed

lemma length_config_parts [simp]: "length (le64_enc x) = 8" "length (le16_enc w) = 2" "length (le32_enc v) = 4"
  by (simp_all add: le64_enc_def le32_enc_def le16_enc_def)

lemma length_config_bytes [simp]: "length (config_bytes c) = 35"
  by (simp add: config_bytes_def)

lemma read_config_bytes: "n = length us \<Longrightarrow> read_config (us @ config_bytes c) n = Some c"
proof -
  assume n: "n = length us"
  let ?b = "take 27 (config_bytes c)"
  have b: "?b = le16_enc (htons 0) @ [0, cf_msg_type c, 0] @ le64_enc (htonll (cf_root c)) @
     le32_enc (htonl (cf_cost c)) @ le64_enc (htonll (cf_switch c)) @ le16_enc (htons (cf_port c))"
    by (simp add: config_bytes_def)
  have "?b ! 3 = cf_msg_type c" unfolding b by (simp add: le16_enc_def)
  moreover have "le64_at ?b 5 = htonll (cf_root c)"
    unfolding b using le64_at_enc[of 5 "le16_enc (htons 0) @ [0, cf_msg_type c, 0]"] by simp
  moreover have "u32_at ?b 13 = htonl (cf_cost c)"
    unfolding b by (simp add: u32_at_def le32_enc_def nth_append codec_simps)
  moreover have "le64_at ?b 17 = htonll (cf_switch c)"
    unfolding b using le64_at_enc[of 17 "le16_enc (htons 0) @ [0, cf_msg_type c, 0] @ le64_enc (htonll (cf_root c)) @ le32_enc (htonl (cf_cost c))"]
    by simp
  moreover have "u16_at ?b 25 = htons (cf_port c)"
    unfolding b by (simp add: u16_at_def le16_enc_def nth_append codec_simps)
  ultimately show ?thesis using n by (simp add: read_config_def ld_bytes_def)
qed

text \<open>The configuration frame a port sends is read back by its neighbour as the vector the
  sender advertises: root, cost, switch and port survive the wire, whatever the byte order.\<close>

theorem stp_config_roundtrip:
  assumes "stp_is_root_switch st \<or> st_root_port st \<noteq> None" "st_cost st \<in> {- (2 ^ 31) ..< 2 ^ 31}" "sp_id p \<in> {0 ..< 65536}"
  shows "\<exists>frame c. st_out (stp_port_send_config p st) = st_out st @ [(sp_iface p, frame)] \<and>
    stp_handle_packet i frame nb = stp_handle_config_packet i c nb \<and>
    config_to_port c q = q\<lparr>sp_root := st_root st, sp_cost := st_cost st, sp_switch := st_id st, sp_dport := sp_id p\<rparr>"
proof -
  define c where "c = port_config st p"
  define us where "us = eth_stp_addr @ mac_bytes (if_mac (sp_iface p)) @ le16_enc (htons 38) @ [0x42, 0x42, 3 :: u8]"
  obtain m1 m2 m3 m4 m5 m6 where m: "if_mac (sp_iface p) = Mac m1 m2 m3 m4 m5 m6" by (cases "if_mac (sp_iface p)")
  have us: "length us = ETHER_HDR_SIZE + LLC_HDR_SIZE"
    by (simp add: us_def eth_stp_addr_def m hdr_sizes LLC_HDR_SIZE_def)
  have out: "st_out (stp_port_send_config p st) = st_out st @ [(sp_iface p, us @ config_bytes c)]"
    using assms(1) by (auto simp: stp_port_send_config_def stp_port_send_packet_def Let_def us_def c_def hdr_sizes LLC_HDR_SIZE_def)
  have d: "ld_bytes (us @ config_bytes c) 0 1 = Some (take 1 eth_stp_addr)"
    by (simp add: ld_bytes_def us_def eth_stp_addr_def)
  have "take 4 (config_bytes c) ! 3 = STP_TYPE_CONFIG"
    by (simp add: config_bytes_def le16_enc_def c_def port_config_def)
  then have h: "\<exists>h. ld_bytes (us @ config_bytes c) (ETHER_HDR_SIZE + LLC_HDR_SIZE) 4 = Some h \<and> h ! 3 = STP_TYPE_CONFIG"
    using us by (simp add: ld_bytes_def)
  have rd: "stp_handle_packet i (us @ config_bytes c) nb = stp_handle_config_packet i c nb"
    using h d read_config_bytes[OF us[symmetric], of c] by (auto simp: stp_handle_packet_def stp_port_handle_packet_def)
  have "sint (of_int (st_cost st) :: u32) = st_cost st"
    using assms(2) by (transfer) (simp add: signed_take_bit_int_eq_self)
  moreover have "uint (of_int (sp_id p) :: u16) = sp_id p"
    using assms(3) by transfer (simp add: take_bit_int_eq_self)
  ultimately have "config_to_port c q = q\<lparr>sp_root := st_root st, sp_cost := st_cost st, sp_switch := st_id st, sp_dport := sp_id p\<rparr>"
    by (simp add: config_to_port_def c_def port_config_def)
  with out rd show ?thesis by blast
qed

theorem stp_config_roundtrip_witness:
  "\<exists>frame c. st_out (stp_port_send_config (stp_port_init 9 1 sample_iface) sample_switch) = [(sample_iface, frame)] \<and>
    stp_handle_packet 0 frame lost_switch = stp_handle_config_packet 0 c lost_switch \<and>
    sp_dport (config_to_port c (stp_port_init 9 0 sample_iface)) = 32770"
proof -
  have "stp_is_root_switch sample_switch \<or> st_root_port sample_switch \<noteq> None" "st_cost sample_switch \<in> {- (2 ^ 31) ..< 2 ^ 31}"
    "sp_id (stp_port_init 9 1 sample_iface) \<in> {0 ..< 65536}"
    by (simp_all add: sample_switch_def stp_is_root_switch_def stp_port_init_def STP_PORT_PRIORITY_def)
  from stp_config_roundtrip[OF this, of 0 lost_switch "stp_port_init 9 0 sample_iface"]
  obtain frame c where fc: "st_out (stp_port_send_config (stp_port_init 9 1 sample_iface) sample_switch) =
      st_out sample_switch @ [(sp_iface (stp_port_init 9 1 sample_iface), frame)]"
    "stp_handle_packet 0 frame lost_switch = stp_handle_config_packet 0 c lost_switch"
    "sp_dport (config_to_port c (stp_port_init 9 0 sample_iface)) = sp_id (stp_port_init 9 1 sample_iface)" by force
  have "st_out sample_switch = []" "sp_iface (stp_port_init 9 1 sample_iface) = sample_iface"
    "sp_id (stp_port_init 9 1 sample_iface) = 32770"
    by (simp_all add: sample_switch_def stp_port_init_def STP_PORT_PRIORITY_def)
  with fc show ?thesis by auto
qed

end
