(* ===== verification/Nat_Box.thy ===== *)
theory Nat_Box
  imports Tcp_Out Hash
begin

text \<open>
  The address translator of prj10 (\<open>nat.c\<close>, \<open>include/nat.h\<close>, \<open>tcp_seq_end\<close> in \<open>include/tcp.h\<close>,
  \<open>handle_ip_packet\<close> in \<open>ip.c\<close>). The forwarding lookup, \<open>ip_send_packet\<close> and \<open>icmp_send_packet\<close> are in
  the binary \<open>libipstack.a\<close>: the first is the parameter \<open>lpm\<close> (the interface of the route it returns,
  \<open>None\<close> for a null pointer), calls of the others are recorded as output. The mutex is a field,
  because one path leaves it locked; locking it again never returns, which is \<open>None\<close> like every
  other undefined or endless run. Memory from \<open>malloc\<close> holds arbitrary values, drawn from
  \<open>nt_junk\<close>.
\<close>

section \<open>State\<close>

datatype packet_dir = DIR_IN | DIR_OUT | DIR_INVALID

record nat_connection =
  internal_fin :: u8
  external_fin :: u8
  internal_seq_end :: u32
  external_seq_end :: u32
  internal_ack :: u32
  external_ack :: u32

record nat_mapping =
  remote_ip :: u32
  remote_port :: u16
  internal_ip :: u32
  internal_port :: u16
  external_ip :: u32
  external_port :: u16
  update_time :: int
  conn :: nat_connection

record dnat_rule =
  ru_external_ip :: u32
  ru_external_port :: u16
  ru_internal_ip :: u32
  ru_internal_port :: u16

datatype nat_action = NatSend bytes | NatIcmp bytes u8 u8

record nat_table =
  nt_mappings :: "nat \<Rightarrow> nat_mapping list"
  nt_internal :: "iface option"
  nt_external :: "iface option"
  nt_assigned :: "u16 \<Rightarrow> u8"
  nt_rules :: "dnat_rule list"
  nt_locked :: bool
  nt_now :: int
  nt_junk :: "nat \<Rightarrow> nat_connection"
  nt_allocs :: nat
  nt_out :: "nat_action list"

definition NAT_PORT_MIN :: nat where "NAT_PORT_MIN = 12345"
definition NAT_PORT_MAX :: nat where "NAT_PORT_MAX = 23456"
definition TCP_ESTABLISHED_TIMEOUT :: int where "TCP_ESTABLISHED_TIMEOUT = 60"
definition ICMP_DEST_UNREACH :: u8 where "ICMP_DEST_UNREACH = 3"
definition ICMP_HOST_UNREACH :: u8 where "ICMP_HOST_UNREACH = 1"

definition nat_lock :: "nat_table \<Rightarrow> nat_table option" where
  "nat_lock s = (if nt_locked s then None else Some (s\<lparr>nt_locked := True\<rparr>))"

definition nat_unlock :: "nat_table \<Rightarrow> nat_table" where
  "nat_unlock s = s\<lparr>nt_locked := False\<rparr>"

definition nat_emit :: "nat_action \<Rightarrow> nat_table \<Rightarrow> nat_table" where
  "nat_emit a s = s\<lparr>nt_out := nt_out s @ [a]\<rparr>"

section \<open>Packets\<close>

text \<open>\<open>longest_prefix_match (..)->iface->ip\<close> follows a null pointer when there is no route.\<close>

definition get_packet_direction :: "(u32 \<Rightarrow> iface option) \<Rightarrow> bytes \<Rightarrow> nat_table \<Rightarrow> packet_dir option" where
  "get_packet_direction lpm p s = do {
     ih \<leftarrow> get_ip p ETHER_HDR_SIZE;
     let da = ntohl (daddr ih);
     let sa = ntohl (saddr ih);
     d_out \<leftarrow> map_option if_ip (lpm da);
     s_out \<leftarrow> map_option if_ip (lpm sa);
     int_ip \<leftarrow> map_option if_ip (nt_internal s);
     ext_ip \<leftarrow> map_option if_ip (nt_external s);
     Some (if d_out = ext_ip \<and> s_out = int_ip then DIR_OUT
           else if s_out = ext_ip \<and> da = ext_ip then DIR_IN else DIR_INVALID) }"

definition remote2hash :: "u32 \<Rightarrow> u16 \<Rightarrow> nat" where
  "remote2hash a port = unat (hash8 (le32_enc a @ le16_enc port))"

definition tcp_seq_end :: "iphdr \<Rightarrow> tcphdr \<Rightarrow> u32" where
  "tcp_seq_end ih th =
     ntohl (th_seq th) + to_u32 (int (unat (ntohs (tot_len ih))) - int (ip_hdr_size ih) - int (tcp_hdr_size th))
     + (if th_flags th AND (TCP_SYN OR TCP_FIN) \<noteq> 0 then 1 else 0)"

text \<open>The statistics one packet of a connection leaves.\<close>

definition note_segment :: "packet_dir \<Rightarrow> iphdr \<Rightarrow> tcphdr \<Rightarrow> nat_connection \<Rightarrow> nat_connection" where
  "note_segment dir ih th c =
     (let fin = (if th_flags th AND TCP_FIN \<noteq> 0 then 1 else 0); ack = (th_flags th AND TCP_ACK \<noteq> 0)
      in if dir = DIR_IN then c\<lparr>external_fin := fin, external_seq_end := tcp_seq_end ih th,
           external_ack := (if ack then th_ack th else external_ack c)\<rparr>
         else c\<lparr>internal_fin := fin, internal_seq_end := tcp_seq_end ih th,
           internal_ack := (if ack then th_ack th else internal_ack c)\<rparr>)"

text \<open>Inbound packets get a new destination, outbound ones a new source.\<close>

definition nat_rewrite :: "packet_dir \<Rightarrow> bytes \<Rightarrow> nat \<Rightarrow> u32 \<Rightarrow> u16 \<Rightarrow> bytes option" where
  "nat_rewrite dir p off a port = do {
     ih \<leftarrow> get_ip p ETHER_HDR_SIZE;
     p \<leftarrow> put_ip p ETHER_HDR_SIZE (if dir = DIR_IN then ih\<lparr>daddr := htonl a\<rparr> else ih\<lparr>saddr := htonl a\<rparr>);
     th \<leftarrow> get_tcp p off;
     put_tcp p off (if dir = DIR_IN then th\<lparr>th_dport := htons port\<rparr> else th\<lparr>th_sport := htons port\<rparr>) }"

text \<open>Both checksums, then \<open>ip_send_packet\<close>.\<close>

definition nat_finish :: "bytes \<Rightarrow> nat \<Rightarrow> nat_table \<Rightarrow> nat_table option" where
  "nat_finish p off s = do {
     p \<leftarrow> tcp_seal p ETHER_HDR_SIZE off;
     ck \<leftarrow> ip_checksum p ETHER_HDR_SIZE;
     ih \<leftarrow> get_ip p ETHER_HDR_SIZE;
     p \<leftarrow> put_ip p ETHER_HDR_SIZE (ih\<lparr>ip_cksum := ck\<rparr>);
     Some (nat_emit (NatSend p) s) }"

section \<open>Translation\<close>

definition flow_matches :: "packet_dir \<Rightarrow> u32 \<Rightarrow> u16 \<Rightarrow> u32 \<Rightarrow> u16 \<Rightarrow> nat_mapping \<Rightarrow> bool" where
  "flow_matches dir ra rp la lp e \<longleftrightarrow> ra = remote_ip e \<and> rp = remote_port e \<and>
     (if dir = DIR_IN then la = external_ip e \<and> lp = external_port e
      else la = internal_ip e \<and> lp = internal_port e)"

text \<open>A packet of a known connection.\<close>

definition translate_known :: "packet_dir \<Rightarrow> bytes \<Rightarrow> nat \<Rightarrow> nat \<Rightarrow> (nat_mapping \<Rightarrow> bool) \<Rightarrow> nat_mapping \<Rightarrow> nat_table \<Rightarrow> nat_table option" where
  "translate_known dir p off i match e s = do {
     p \<leftarrow> (if dir = DIR_IN then nat_rewrite dir p off (internal_ip e) (internal_port e)
          else nat_rewrite dir p off (external_ip e) (external_port e));
     ih \<leftarrow> get_ip p ETHER_HDR_SIZE;
     th \<leftarrow> get_tcp p off;
     let upd = (\<lambda>e. e\<lparr>conn := note_segment dir ih th (conn e), update_time := nt_now s\<rparr>);
     let s = s\<lparr>nt_mappings := (nt_mappings s)(i := upd_first match upd (nt_mappings s i))\<rparr>;
     nat_finish p off (nat_unlock s) }"

text \<open>Adding a mapping; the other direction's statistics stay uninitialised.\<close>

definition add_mapping :: "packet_dir \<Rightarrow> nat \<Rightarrow> iphdr \<Rightarrow> tcphdr \<Rightarrow> nat_mapping \<Rightarrow> nat_table \<Rightarrow> nat_table" where
  "add_mapping dir i ih th m s =
     s\<lparr>nt_mappings := (nt_mappings s)(i := nt_mappings s i @
         [m\<lparr>conn := note_segment dir ih th (nt_junk s (nt_allocs s)), update_time := nt_now s\<rparr>]),
       nt_allocs := nt_allocs s + 1\<rparr>"

definition find_free_port :: "nat_table \<Rightarrow> u16 option" where
  "find_free_port s = List.find (\<lambda>pid. nt_assigned s pid = 0) (map of_nat [NAT_PORT_MIN..<Suc NAT_PORT_MAX])"

text \<open>The end of the function: the error, with the mutex still held.\<close>

definition no_available_port :: "bytes \<Rightarrow> nat_table \<Rightarrow> nat_table option" where
  "no_available_port p s = Some (nat_emit (NatIcmp p ICMP_DEST_UNREACH ICMP_HOST_UNREACH) s)"

definition translate_new_out :: "bytes \<Rightarrow> nat \<Rightarrow> nat \<Rightarrow> iphdr \<Rightarrow> tcphdr \<Rightarrow> nat_table \<Rightarrow> nat_table option" where
  "translate_new_out p off i ih th s =
     (case find_free_port s of
        Some pid \<Rightarrow> do {
          ext \<leftarrow> nt_external s;
          let m = \<lparr> remote_ip = ntohl (daddr ih), remote_port = ntohs (th_dport th),
            internal_ip = ntohl (saddr ih), internal_port = ntohs (th_sport th),
            external_ip = if_ip ext, external_port = pid, update_time = 0, conn = nt_junk s (nt_allocs s) \<rparr>;
          p \<leftarrow> nat_rewrite DIR_OUT p off (if_ip ext) pid;
          nat_finish p off (nat_unlock (add_mapping DIR_OUT i ih th m s)) }
      | None \<Rightarrow> no_available_port p s)"

definition translate_new_in :: "bytes \<Rightarrow> nat \<Rightarrow> nat \<Rightarrow> iphdr \<Rightarrow> tcphdr \<Rightarrow> nat_table \<Rightarrow> nat_table option" where
  "translate_new_in p off i ih th s =
     (case List.find (\<lambda>r. ntohl (daddr ih) = ru_external_ip r \<and> ntohs (th_dport th) = ru_external_port r) (nt_rules s) of
        Some r \<Rightarrow> do {
          let m = \<lparr> remote_ip = ntohl (saddr ih), remote_port = ntohs (th_sport th),
            internal_ip = ru_internal_ip r, internal_port = ru_internal_port r,
            external_ip = ru_external_ip r, external_port = ru_external_port r, update_time = 0,
            conn = nt_junk s (nt_allocs s) \<rparr>;
          p \<leftarrow> nat_rewrite DIR_IN p off (ru_internal_ip r) (ru_internal_port r);
          nat_finish p off (nat_unlock (add_mapping DIR_IN i ih th m s)) }
      | None \<Rightarrow> no_available_port p s)"

definition do_translation :: "bytes \<Rightarrow> packet_dir \<Rightarrow> nat_table \<Rightarrow> nat_table option" where
  "do_translation p dir s = do {
     ih \<leftarrow> get_ip p ETHER_HDR_SIZE;
     let da = ntohl (daddr ih);
     let sa = ntohl (saddr ih);
     let off = ETHER_HDR_SIZE + ip_hdr_size ih;
     th \<leftarrow> get_tcp p off;
     let sp = ntohs (th_sport th);
     let dp = ntohs (th_dport th);
     let ra = (if dir = DIR_IN then sa else da);
     let rp = (if dir = DIR_IN then sp else dp);
     let i = remote2hash ra rp;
     let match = (if dir = DIR_IN then flow_matches dir ra rp da dp else flow_matches dir ra rp sa sp);
     s \<leftarrow> nat_lock s;
     (case List.find match (nt_mappings s i) of
        Some e \<Rightarrow> translate_known dir p off i match e s
      | None \<Rightarrow>
          if th_flags th AND TCP_SYN = 0
          then Some (nat_unlock (nat_emit (NatIcmp p ICMP_DEST_UNREACH ICMP_HOST_UNREACH) s))
          else if dir = DIR_OUT then translate_new_out p off i ih th s
          else translate_new_in p off i ih th s) }"

definition nat_translate_packet :: "(u32 \<Rightarrow> iface option) \<Rightarrow> bytes \<Rightarrow> nat_table \<Rightarrow> nat_table option" where
  "nat_translate_packet lpm p s = do {
     dir \<leftarrow> get_packet_direction lpm p s;
     if dir = DIR_INVALID then Some (nat_emit (NatIcmp p ICMP_DEST_UNREACH ICMP_HOST_UNREACH) s)
     else do {
       ih \<leftarrow> get_ip p ETHER_HDR_SIZE;
       if protocol ih \<noteq> IPPROTO_TCP then Some s else do_translation p dir s } }"

text \<open>\<open>handle_ip_packet\<close>: an echo request to the box itself is answered.\<close>

definition nat_handle_ip_packet :: "(u32 \<Rightarrow> iface option) \<Rightarrow> iface \<Rightarrow> bytes \<Rightarrow> nat_table \<Rightarrow> nat_table option" where
  "nat_handle_ip_packet lpm ifc p s = do {
     ih \<leftarrow> get_ip p ETHER_HDR_SIZE;
     if ntohl (daddr ih) = if_ip ifc \<and> protocol ih = 1 then do {
       t \<leftarrow> ld_bytes p (ETHER_HDR_SIZE + ip_hdr_size ih) 1;
       Some (if hd t = 8 then nat_emit (NatIcmp p 0 0) s else s) }
     else nat_translate_packet lpm p s }"

section \<open>Finished flows\<close>

definition is_flow_finished :: "nat_connection \<Rightarrow> bool" where
  "is_flow_finished c \<longleftrightarrow> internal_fin c \<noteq> 0 \<and> external_fin c \<noteq> 0 \<and>
     internal_ack c \<ge> external_seq_end c \<and> external_ack c \<ge> internal_seq_end c"

definition flow_over :: "int \<Rightarrow> nat_mapping \<Rightarrow> bool" where
  "flow_over now e \<longleftrightarrow> now - update_time e \<ge> TCP_ESTABLISHED_TIMEOUT \<or> is_flow_finished (conn e)"

text \<open>One round of \<open>nat_timeout\<close>.\<close>

definition nat_timeout_round :: "nat_table \<Rightarrow> nat_table option" where
  "nat_timeout_round s = do {
     s \<leftarrow> nat_lock s;
     let over = flow_over (nt_now s);
     let gone = concat (map (\<lambda>i. filter over (nt_mappings s i)) [0..<HASH_8BITS]);
     Some (nat_unlock (s\<lparr>
       nt_assigned := foldl (\<lambda>f e. f(external_port e := 0)) (nt_assigned s) gone,
       nt_mappings := (\<lambda>i. if i < HASH_8BITS then filter (\<lambda>e. \<not> over e) (nt_mappings s i) else nt_mappings s i)\<rparr>)) }"

definition nat_exit :: "nat_table \<Rightarrow> nat_table option" where
  "nat_exit s = do {
     s \<leftarrow> nat_lock s;
     Some (nat_unlock (s\<lparr>nt_mappings := (\<lambda>i. if i < HASH_8BITS then [] else nt_mappings s i)\<rparr>)) }"

section \<open>Segments through the translator\<close>

definition seg_ok :: "iphdr \<Rightarrow> bytes \<Rightarrow> bool" where
  "seg_ok ih d \<longleftrightarrow> ihl ih = 5 \<and> ntohs (tot_len ih) = of_nat (40 + length d) \<and> length d \<le> 65495"

definition new_ip :: "packet_dir \<Rightarrow> u32 \<Rightarrow> iphdr \<Rightarrow> iphdr" where
  "new_ip dir a ih = (if dir = DIR_IN then ih\<lparr>daddr := htonl a\<rparr> else ih\<lparr>saddr := htonl a\<rparr>)"

definition new_tcp :: "packet_dir \<Rightarrow> u16 \<Rightarrow> tcphdr \<Rightarrow> tcphdr" where
  "new_tcp dir port th = (if dir = DIR_IN then th\<lparr>th_dport := htons port\<rparr> else th\<lparr>th_sport := htons port\<rparr>)"

definition ip_sealed :: "iphdr \<Rightarrow> iphdr" where
  "ip_sealed ih = ih\<lparr>ip_cksum := checksum (iphdr_enc (ih\<lparr>ip_cksum := 0\<rparr>)) 0\<rparr>"

text \<open>The segment that leaves the box.\<close>

definition translated :: "packet_dir \<Rightarrow> u32 \<Rightarrow> u16 \<Rightarrow> ether_header \<Rightarrow> iphdr \<Rightarrow> tcphdr \<Rightarrow> bytes \<Rightarrow> bytes" where
  "translated dir a port eh ih th d =
     (let ih = new_ip dir a ih; th = new_tcp dir port th
      in frame eh (ip_sealed ih) (tcp_enc (sealed ih th d) @ d))"

lemma new_simps [simp]:
  "ihl (new_ip dir a ih) = ihl ih" "tot_len (new_ip dir a ih) = tot_len ih" "protocol (new_ip dir a ih) = protocol ih"
  "ip_hdr_size (new_ip dir a ih) = ip_hdr_size ih"
  "th_flags (new_tcp dir port th) = th_flags th" "th_seq (new_tcp dir port th) = th_seq th"
  "th_ack (new_tcp dir port th) = th_ack th" "th_off (new_tcp dir port th) = th_off th"
  "seg_ok (new_ip dir a ih) d = seg_ok ih d"
  by (simp_all add: new_ip_def new_tcp_def ip_hdr_size_def seg_ok_def)

lemma note_segment_new [simp]: "note_segment dir (new_ip dir' a ih) (new_tcp dir' port th) = note_segment dir ih th"
  by (rule ext) (simp add: note_segment_def Let_def tcp_seq_end_def tcp_hdr_size_def)

lemma nat_rewrite_frame:
  "nat_rewrite dir (frame eh ih (tcp_enc th @ d)) 34 a port =
     Some (frame eh (new_ip dir a ih) (tcp_enc (new_tcp dir port th) @ d))"
  by (simp add: nat_rewrite_def new_ip_def new_tcp_def)

lemma nat_finish_frame:
  assumes "seg_ok ih d"
  shows "nat_finish (frame eh ih (tcp_enc th @ d)) 34 s =
    Some (nat_emit (NatSend (frame eh (ip_sealed ih) (tcp_enc (sealed ih th d) @ d))) s)"
  using assms by (simp add: nat_finish_def seg_ok_def tcp_seal_frame ip_checksum_frame ip_sealed_def)

lemma lock_frame [simp]:
  "nt_out (nat_unlock s) = nt_out s" "nt_mappings (nat_unlock s) = nt_mappings s" "nt_now (nat_unlock s) = nt_now s"
  "nt_external (nat_unlock s) = nt_external s" "nt_assigned (nat_unlock s) = nt_assigned s" "nt_rules (nat_unlock s) = nt_rules s"
  "\<not> nt_locked (nat_unlock s)" "nt_mappings (nat_emit a s) = nt_mappings s" "nt_out (nat_emit a s) = nt_out s @ [a]"
  "nt_external (nat_emit a s) = nt_external s" "nt_assigned (nat_emit a s) = nt_assigned s" "nt_rules (nat_emit a s) = nt_rules s"
  "nt_locked (nat_emit a s) = nt_locked s" "nt_now (nat_emit a s) = nt_now s"
  by (simp_all add: nat_unlock_def nat_emit_def)

lemma add_mapping_frame [simp]:
  "nt_out (add_mapping dir i ih th m s) = nt_out s" "nt_external (add_mapping dir i ih th m s) = nt_external s"
  "nt_assigned (add_mapping dir i ih th m s) = nt_assigned s" "nt_rules (add_mapping dir i ih th m s) = nt_rules s"
  by (simp_all add: add_mapping_def)

text \<open>The remote end of a packet and its end on this side, in host order.\<close>

definition remote_end :: "packet_dir \<Rightarrow> iphdr \<Rightarrow> tcphdr \<Rightarrow> u32 \<times> u16" where
  "remote_end dir ih th = (if dir = DIR_IN then (ntohl (saddr ih), ntohs (th_sport th))
     else (ntohl (daddr ih), ntohs (th_dport th)))"

definition near_end :: "packet_dir \<Rightarrow> iphdr \<Rightarrow> tcphdr \<Rightarrow> u32 \<times> u16" where
  "near_end dir ih th = (if dir = DIR_IN then (ntohl (daddr ih), ntohs (th_dport th))
     else (ntohl (saddr ih), ntohs (th_sport th)))"

definition flow_of :: "packet_dir \<Rightarrow> iphdr \<Rightarrow> tcphdr \<Rightarrow> nat_mapping \<Rightarrow> bool" where
  "flow_of dir ih th = (let (ra, rp) = remote_end dir ih th; (la, lp) = near_end dir ih th in flow_matches dir ra rp la lp)"

definition bucket_of :: "packet_dir \<Rightarrow> iphdr \<Rightarrow> tcphdr \<Rightarrow> nat" where
  "bucket_of dir ih th = (let (ra, rp) = remote_end dir ih th in remote2hash ra rp)"

lemmas flow_defs = remote_end_def near_end_def flow_of_def bucket_of_def flow_matches_def

text \<open>What a segment does, by the first mapping of its bucket that matches.\<close>

lemma do_translation_frame:
  assumes "seg_ok ih d" "\<not> nt_locked s"
  shows "do_translation (frame eh ih (tcp_enc th @ d)) dir s =
    (let p = frame eh ih (tcp_enc th @ d); i = bucket_of dir ih th; s = s\<lparr>nt_locked := True\<rparr> in
     case List.find (flow_of dir ih th) (nt_mappings s i) of
        Some e \<Rightarrow> translate_known dir p 34 i (flow_of dir ih th) e s
      | None \<Rightarrow>
          if th_flags th AND TCP_SYN = 0
          then Some (nat_unlock (nat_emit (NatIcmp p ICMP_DEST_UNREACH ICMP_HOST_UNREACH) s))
          else if dir = DIR_OUT then translate_new_out p 34 i ih th s
          else translate_new_in p 34 i ih th s)"
proof -
  have "ETHER_HDR_SIZE + ip_hdr_size ih = 34" using assms(1) by (simp add: seg_ok_def ip_hdr_size_def hdr_sizes)
  moreover have "(if dir = DIR_IN then flow_matches dir ra rp da dp else flow_matches dir ra rp sa sp) = flow_matches dir ra rp (if dir = DIR_IN then da else sa) (if dir = DIR_IN then dp else sp)"
    for ra rp da dp sa sp by simp
  ultimately show ?thesis using assms(2)
    by (simp add: do_translation_def nat_lock_def Let_def flow_of_def bucket_of_def remote_end_def near_end_def split: option.split)
qed

lemma translate_known_frame:
  assumes "seg_ok ih d"
  shows "translate_known dir (frame eh ih (tcp_enc th @ d)) 34 i match e s =
    (let (a, port) = (if dir = DIR_IN then (internal_ip e, internal_port e) else (external_ip e, external_port e));
         upd = (\<lambda>e. e\<lparr>conn := note_segment dir ih th (conn e), update_time := nt_now s\<rparr>)
     in Some (nat_emit (NatSend (translated dir a port eh ih th d))
          (nat_unlock (s\<lparr>nt_mappings := (nt_mappings s)(i := upd_first match upd (nt_mappings s i))\<rparr>))))"
  using assms
  by (cases "dir = DIR_IN") (simp_all add: translate_known_def nat_rewrite_frame nat_finish_frame translated_def Let_def)

definition new_mapping :: "iface \<Rightarrow> u16 \<Rightarrow> iphdr \<Rightarrow> tcphdr \<Rightarrow> nat_table \<Rightarrow> nat_mapping" where
  "new_mapping ext pid ih th s = \<lparr> remote_ip = ntohl (daddr ih), remote_port = ntohs (th_dport th),
     internal_ip = ntohl (saddr ih), internal_port = ntohs (th_sport th), external_ip = if_ip ext,
     external_port = pid, update_time = 0, conn = nt_junk s (nt_allocs s) \<rparr>"

lemma translate_new_out_frame:
  assumes "seg_ok ih d" "find_free_port s = Some pid" "nt_external s = Some ext"
  shows "translate_new_out (frame eh ih (tcp_enc th @ d)) 34 i ih th s =
    Some (nat_emit (NatSend (translated DIR_OUT (if_ip ext) pid eh ih th d))
      (nat_unlock (add_mapping DIR_OUT i ih th (new_mapping ext pid ih th s) s)))"
  using assms
  by (simp add: translate_new_out_def nat_rewrite_frame nat_finish_frame translated_def Let_def new_mapping_def)

lemma net_order_inj: "htonl x = htonl y \<longleftrightarrow> x = y" "htons u = htons v \<longleftrightarrow> u = v"
  by (metis htonl_htonl, metis htons_htons)

lemma find_flow_snoc: "\<forall>e\<in>set b. \<not> P e \<Longrightarrow> P m \<Longrightarrow> List.find P (b @ [m]) = Some m"
  by (induction b) auto

text \<open>A connection request from inside: the mapping it leaves and the segment that goes out.\<close>

lemma outbound_syn:
  assumes "seg_ok ih d" "\<not> nt_locked s" "nt_external s = Some ext" "find_free_port s = Some pid"
    "th_flags th AND TCP_SYN \<noteq> 0" "\<forall>e\<in>set (nt_mappings s (bucket_of DIR_OUT ih th)). \<not> flow_of DIR_OUT ih th e"
  defines "i \<equiv> bucket_of DIR_OUT ih th"
  defines "m \<equiv> (new_mapping ext pid ih th s)\<lparr>conn := note_segment DIR_OUT ih th (nt_junk s (nt_allocs s)), update_time := nt_now s\<rparr>"
  shows "\<exists>t. do_translation (frame eh ih (tcp_enc th @ d)) DIR_OUT s = Some t \<and>
    nt_out t = nt_out s @ [NatSend (translated DIR_OUT (if_ip ext) pid eh ih th d)] \<and>
    nt_mappings t = (nt_mappings s)(i := nt_mappings s i @ [m]) \<and>
    \<not> nt_locked t \<and> nt_external t = nt_external s \<and> nt_assigned t = nt_assigned s"
proof -
  let ?s = "s\<lparr>nt_locked := True\<rparr>"
  have f: "List.find (flow_of DIR_OUT ih th) (nt_mappings s i) = None" using assms(6) by (auto simp: i_def find_None_iff)
  have free: "find_free_port ?s = Some pid" using assms(4) by (simp add: find_free_port_def)
  have h: "do_translation (frame eh ih (tcp_enc th @ d)) DIR_OUT s =
      Some (nat_emit (NatSend (translated DIR_OUT (if_ip ext) pid eh ih th d))
        (nat_unlock (add_mapping DIR_OUT i ih th (new_mapping ext pid ih th ?s) ?s)))"
    unfolding do_translation_frame[OF assms(1,2)] using f assms(5) translate_new_out_frame[OF assms(1) free] assms(3)
    by (simp add: Let_def i_def)
  show ?thesis unfolding h by (simp add: add_mapping_def m_def new_mapping_def)
qed

text \<open>A segment from outside whose first matching mapping is known.\<close>

lemma inbound_known:
  assumes "seg_ok ih d" "\<not> nt_locked s" "List.find (flow_of DIR_IN ih th) (nt_mappings s (bucket_of DIR_IN ih th)) = Some m"
  shows "\<exists>t. do_translation (frame eh ih (tcp_enc th @ d)) DIR_IN s = Some t \<and>
    nt_out t = nt_out s @ [NatSend (translated DIR_IN (internal_ip m) (internal_port m) eh ih th d)] \<and> \<not> nt_locked t"
  unfolding do_translation_frame[OF assms(1,2)] using assms(3) translate_known_frame[OF assms(1)]
  by (simp add: Let_def)

text \<open>The pool of ports: with nothing marked the lowest port is the free one.\<close>

lemma find_free_port_unmarked:
  assumes "nt_assigned s = (\<lambda>_. 0)"
  shows "find_free_port s = Some 12345"
proof -
  have "[NAT_PORT_MIN..<Suc NAT_PORT_MAX] = NAT_PORT_MIN # [Suc NAT_PORT_MIN..<Suc NAT_PORT_MAX]"
    by (rule upt_conv_Cons) (simp add: NAT_PORT_MIN_def NAT_PORT_MAX_def)
  then show ?thesis using assms by (simp add: find_free_port_def NAT_PORT_MIN_def)
qed

section \<open>Properties\<close>


text \<open>Concrete segments.\<close>

definition sample_ih :: "u32 \<Rightarrow> u32 \<Rightarrow> iphdr" where
  "sample_ih sa da = zero_iph\<lparr>ihl := 5, version := 4, protocol := IPPROTO_TCP, tot_len := htons 40, saddr := htonl sa, daddr := htonl da\<rparr>"

definition sample_th :: "u16 \<Rightarrow> u16 \<Rightarrow> u8 \<Rightarrow> tcphdr" where
  "sample_th sp dp fl = \<lparr> th_sport = htons sp, th_dport = htons dp, th_seq = 0, th_ack = 0, th_x2 = 0, th_off = 5,
     th_flags = fl, th_rwnd = 0, th_cksum = 0, th_urp = 0 \<rparr>"

lemma sample_seg [simp]:
  "seg_ok (sample_ih sa da) []" "saddr (sample_ih sa da) = htonl sa" "daddr (sample_ih sa da) = htonl da"
  "th_sport (sample_th sp dp fl) = htons sp" "th_dport (sample_th sp dp fl) = htons dp" "th_flags (sample_th sp dp fl) = fl"
  by (simp_all add: seg_ok_def sample_ih_def sample_th_def)

definition fresh_nat :: nat_table where
  "fresh_nat = \<lparr> nt_mappings = (\<lambda>_. []), nt_internal = None, nt_external = Some (sample_iface\<lparr>if_ip := 0x9FE2272B\<rparr>),
     nt_assigned = (\<lambda>_. 0), nt_rules = [], nt_locked = False, nt_now = 0,
     nt_junk = (\<lambda>_. \<lparr> internal_fin = 0, external_fin = 0, internal_seq_end = 0, external_seq_end = 0,
       internal_ack = 0, external_ack = 0 \<rparr>), nt_allocs = 0, nt_out = [] \<rparr>"

lemma fresh_nat_simps [simp]:
  "\<not> nt_locked fresh_nat" "nt_external fresh_nat = Some (sample_iface\<lparr>if_ip := 0x9FE2272B\<rparr>)" "nt_mappings fresh_nat i = []"
  "nt_assigned fresh_nat = (\<lambda>_. 0)" "nt_rules fresh_nat = []" "nt_out fresh_nat = []" "find_free_port fresh_nat = Some 12345"
  by (simp_all add: fresh_nat_def) (rule find_free_port_unmarked, simp add: fresh_nat_def)


text \<open>The steps of the box: a packet, a round of the timeout thread, the passage of time.\<close>

inductive nat_step :: "(u32 \<Rightarrow> iface option) \<Rightarrow> nat_table \<Rightarrow> nat_table \<Rightarrow> bool" for lpm where
  Packet: "nat_handle_ip_packet lpm ifc p s = Some t \<Longrightarrow> nat_step lpm s t"
| Timeout: "nat_timeout_round s = Some t \<Longrightarrow> nat_step lpm s t"
| Clock: "now \<ge> nt_now s \<Longrightarrow> nat_step lpm s (s\<lparr>nt_now := now\<rparr>)"

definition pool_untouched :: "nat_table \<Rightarrow> bool" where
  "pool_untouched s \<longleftrightarrow> nt_assigned s = (\<lambda>_. 0) \<and>
     (\<forall>i. external_port ` set (nt_mappings s i) \<subseteq> insert (of_nat NAT_PORT_MIN) (ru_external_port ` set (nt_rules s)))"

lemma nat_lock_Some: "nat_lock s = Some t \<Longrightarrow> t = s\<lparr>nt_locked := True\<rparr>"
  by (simp add: nat_lock_def split: if_splits)

lemma nat_finish_Some: "nat_finish p off s = Some t \<Longrightarrow> \<exists>q. t = nat_emit (NatSend q) s"
  by (auto simp: nat_finish_def elim!: opt_bindE)

lemma pool_untouched_frame [simp]:
  "pool_untouched (nat_emit a s) = pool_untouched s" "pool_untouched (nat_unlock s) = pool_untouched s"
  "pool_untouched (s\<lparr>nt_locked := b\<rparr>) = pool_untouched s" "pool_untouched (s\<lparr>nt_now := n\<rparr>) = pool_untouched s"
  by (simp_all add: pool_untouched_def nat_emit_def nat_unlock_def)

lemma ports_upd_first:
  "external_port ` set (upd_first match (\<lambda>e. e\<lparr>conn := c e, update_time := n\<rparr>) b) = external_port ` set b"
proof -
  have "map external_port (upd_first match (\<lambda>e. e\<lparr>conn := c e, update_time := n\<rparr>) b) = map external_port b"
    by (rule map_upd_first) simp
  then have "set (map external_port (upd_first match (\<lambda>e. e\<lparr>conn := c e, update_time := n\<rparr>) b)) = set (map external_port b)"
    by (rule arg_cong)
  then show ?thesis by simp
qed

lemma pool_untouched_mapping:
  "pool_untouched s \<Longrightarrow> external_port ` set b \<subseteq> external_port ` set (nt_mappings s i) \<Longrightarrow>
     pool_untouched (s\<lparr>nt_mappings := (nt_mappings s)(i := b)\<rparr>)"
  by (simp add: pool_untouched_def) (meson order_trans)

lemma pool_untouched_known:
  assumes "pool_untouched s" "translate_known dir p off i match e s = Some t"
  shows "pool_untouched t"
proof -
  note h = assms(2)[unfolded translate_known_def Let_def]
  from h obtain p1 where p1: "(if dir = DIR_IN then nat_rewrite dir p off (internal_ip e) (internal_port e)
      else nat_rewrite dir p off (external_ip e) (external_port e)) = Some p1" by (rule opt_bindE)
  note h = h[unfolded p1 bind.bind_lunit]
  from h obtain ih where ih: "get_ip p1 ETHER_HDR_SIZE = Some ih" by (rule opt_bindE)
  note h = h[unfolded ih bind.bind_lunit]
  from h obtain th where th: "get_tcp p1 off = Some th" by (rule opt_bindE)
  note h = h[unfolded th bind.bind_lunit]
  from nat_finish_Some[OF h] pool_untouched_mapping[OF assms(1)] show ?thesis by (auto simp: ports_upd_first)
qed

lemma pool_untouched_add:
  "pool_untouched s \<Longrightarrow> external_port m = of_nat NAT_PORT_MIN \<or> external_port m \<in> ru_external_port ` set (nt_rules s) \<Longrightarrow>
     pool_untouched (add_mapping dir i ih th m s)"
  by (auto simp: pool_untouched_def add_mapping_def)

lemma pool_untouched_new_out:
  assumes "pool_untouched s" "translate_new_out p off i ih th s = Some t"
  shows "pool_untouched t"
proof -
  have "find_free_port s = Some 12345" using assms(1) by (intro find_free_port_unmarked) (simp add: pool_untouched_def)
  with assms(2) obtain m q where "t = nat_emit (NatSend q) (nat_unlock (add_mapping DIR_OUT i ih th m s))" "external_port m = 12345"
    unfolding translate_new_out_def Let_def
    by (fastforce elim!: opt_bindE dest!: nat_finish_Some)
  then show ?thesis using assms(1) by (simp add: pool_untouched_add NAT_PORT_MIN_def)
qed

lemma pool_untouched_new_in:
  assumes "pool_untouched s" "translate_new_in p off i ih th s = Some t"
  shows "pool_untouched t"
proof (cases "List.find (\<lambda>r. ntohl (daddr ih) = ru_external_ip r \<and> ntohs (th_dport th) = ru_external_port r) (nt_rules s)")
  case None
  with assms show ?thesis by (auto simp: translate_new_in_def no_available_port_def)
next
  case (Some r)
  then have r: "r \<in> set (nt_rules s)" by (auto simp: find_Some_iff)
  from Some assms(2) obtain m q where "t = nat_emit (NatSend q) (nat_unlock (add_mapping DIR_IN i ih th m s))" "external_port m = ru_external_port r"
    unfolding translate_new_in_def Let_def by (auto elim!: opt_bindE dest!: nat_finish_Some)
  then show ?thesis using assms(1) r by (simp add: pool_untouched_add)
qed

lemma pool_untouched_translation:
  assumes "pool_untouched s" "do_translation p dir s = Some t"
  shows "pool_untouched t"
proof -
  note h = assms(2)[unfolded do_translation_def Let_def]
  from h obtain ih where ih: "get_ip p ETHER_HDR_SIZE = Some ih" by (rule opt_bindE)
  note h = h[unfolded ih bind.bind_lunit]
  from h obtain th where th: "get_tcp p (ETHER_HDR_SIZE + ip_hdr_size ih) = Some th" by (rule opt_bindE)
  note h = h[unfolded th bind.bind_lunit]
  from h obtain s1 where s1: "nat_lock s = Some s1" by (rule opt_bindE)
  note h = h[unfolded s1 bind.bind_lunit]
  have p1: "pool_untouched s1" using assms(1) nat_lock_Some[OF s1] by simp
  show ?thesis
    using h by (simp split: option.splits if_splits)
      (use p1 in \<open>auto intro: pool_untouched_known[OF p1] pool_untouched_new_out[OF p1] pool_untouched_new_in[OF p1]\<close>)
qed

lemma pool_untouched_timeout:
  assumes "pool_untouched s" "nat_timeout_round s = Some t"
  shows "pool_untouched t"
proof -
  have z: "foldl (\<lambda>f e. f(external_port e := 0)) (\<lambda>_. 0 :: u8) es = (\<lambda>_. 0)" for es :: "nat_mapping list"
    by (induction es) (simp_all add: fun_upd_idem)
  note h = assms(2)[unfolded nat_timeout_round_def]
  from h obtain s1 where s1: "nat_lock s = Some s1" by (rule opt_bindE)
  note h = h[unfolded s1 bind.bind_lunit Let_def]
  have p1: "pool_untouched s1" using assms(1) nat_lock_Some[OF s1] by simp
  have "external_port ` set (filter P b) \<subseteq> external_port ` set b" for P and b :: "nat_mapping list" by auto
  then have "external_port ` set (filter P (nt_mappings s1 i)) \<subseteq> insert (of_nat NAT_PORT_MIN) (ru_external_port ` set (nt_rules s1))" for P i
    using p1 unfolding pool_untouched_def by (meson order_trans)
  moreover have "nt_assigned s1 = (\<lambda>_. 0)" using p1 by (simp add: pool_untouched_def)
  ultimately have "pool_untouched (s1\<lparr>nt_assigned := foldl (\<lambda>f e. f(external_port e := 0)) (nt_assigned s1) es,
      nt_mappings := (\<lambda>i. if i < HASH_8BITS then filter P (nt_mappings s1 i) else nt_mappings s1 i)\<rparr>)" for P and es :: "nat_mapping list"
    using p1 unfolding pool_untouched_def by (simp add: z)
  with h show ?thesis by auto
qed

text \<open>The port pool is never drawn down: the code reads \<open>assigned_ports\<close> and clears it but
  never marks a port, so in every reachable state each mapping made for a connection from inside has
  the one port \<open>NAT_PORT_MIN\<close>; other ports come from the configured rules only.\<close>

theorem nat_pool_never_drawn:
  assumes "(nat_step lpm)\<^sup>*\<^sup>* s t" "nt_assigned s = (\<lambda>_. 0)" "nt_mappings s = (\<lambda>_. [])"
  shows "nt_assigned t = (\<lambda>_. 0) \<and>
    (\<forall>i. \<forall>e\<in>set (nt_mappings t i). external_port e = of_nat NAT_PORT_MIN \<or> external_port e \<in> ru_external_port ` set (nt_rules t))"
proof -
  have "pool_untouched t" using assms(1)
  proof (induction rule: rtranclp_induct)
    case base
    with assms show ?case by (simp add: pool_untouched_def)
  next
    case (step y z)
    from step(2) show ?case
    proof cases
      case (Packet ifc p)
      note h = Packet[unfolded nat_handle_ip_packet_def]
      from h obtain ih where ih: "get_ip p ETHER_HDR_SIZE = Some ih" by (rule opt_bindE)
      note h = h[unfolded ih bind.bind_lunit]
      have tr: "pool_untouched z" if "nat_translate_packet lpm p y = Some z"
        using that step(3) unfolding nat_translate_packet_def
        by (elim opt_bindE) (auto split: if_splits elim!: opt_bindE dest: pool_untouched_translation)
      show ?thesis
      proof (cases "ntohl (daddr ih) = if_ip ifc \<and> protocol ih = 1")
        case True
        with h step(3) show ?thesis by (auto elim!: opt_bindE)
      next
        case False
        with h tr show ?thesis by (simp only: if_False)
      qed
    qed (use step(3) in \<open>auto intro: pool_untouched_timeout\<close>)
  qed
  then show ?thesis by (auto simp: pool_untouched_def)
qed

definition two_sided :: "u32 \<Rightarrow> iface option" where
  "two_sided a = Some (sample_iface\<lparr>if_ip := if a < 16 then 7 else 0x9FE2272B\<rparr>)"

definition two_sided_nat :: nat_table where
  "two_sided_nat = fresh_nat\<lparr>nt_internal := Some (sample_iface\<lparr>if_ip := 7\<rparr>)\<rparr>"

theorem nat_pool_never_drawn_witness:
  "\<exists>t. nat_handle_ip_packet two_sided sample_iface (frame zero_eth (sample_ih 10 20) (tcp_enc (sample_th 1111 80 2) @ [])) two_sided_nat = Some t \<and>
     nt_assigned t = (\<lambda>_. 0)"
proof -
  let ?p = "frame zero_eth (sample_ih 10 20) (tcp_enc (sample_th 1111 80 2) @ [])"
  have "find_free_port two_sided_nat = Some 12345" by (rule find_free_port_unmarked) (simp add: two_sided_nat_def)
  then obtain t where t: "do_translation ?p DIR_OUT two_sided_nat = Some t"
    using outbound_syn[of "sample_ih 10 20" "[]" two_sided_nat _ 12345 "sample_th 1111 80 2" zero_eth]
    by (auto simp: two_sided_nat_def TCP_SYN_def fresh_nat_def)
  have "protocol (sample_ih 10 20) = IPPROTO_TCP" by (simp add: sample_ih_def)
  then have h: "nat_handle_ip_packet two_sided sample_iface ?p two_sided_nat = Some t" using t
    by (simp add: nat_handle_ip_packet_def nat_translate_packet_def get_packet_direction_def two_sided_def two_sided_nat_def
        IPPROTO_TCP_def)
  then have "nat_step two_sided two_sided_nat t" by (rule Packet)
  then have "(nat_step two_sided)\<^sup>*\<^sup>* two_sided_nat t" by blast
  from nat_pool_never_drawn[OF this] h show ?thesis by (auto simp: two_sided_nat_def fresh_nat_def)
qed

text \<open>Two hosts that connect to the same remote end share one external port: both requests leave
  with the same source address and port, and whatever the peer answers to the second host is delivered
  to the first.\<close>

theorem nat_hosts_collide:
  assumes "\<not> nt_locked s" "nt_external s = Some ext" "nt_assigned s = (\<lambda>_. 0)"
    and "seg_ok ih1 d1" "th_flags th1 AND TCP_SYN \<noteq> 0" "seg_ok ih2 d2" "th_flags th2 AND TCP_SYN \<noteq> 0"
    and "daddr ih1 = daddr ih2" "th_dport th1 = th_dport th2" "saddr ih1 \<noteq> saddr ih2 \<or> th_sport th1 \<noteq> th_sport th2"
    and "nt_mappings s (bucket_of DIR_OUT ih1 th1) = []"
    and "seg_ok rih rd" "saddr rih = daddr ih2" "th_sport rth = th_dport th2" "daddr rih = htonl (if_ip ext)" "th_dport rth = htons 12345"
  shows "\<exists>s1 s2 s3 oih1 oth1 oih2 oth2 iih ith.
    do_translation (frame eh1 ih1 (tcp_enc th1 @ d1)) DIR_OUT s = Some s1 \<and> nt_out s1 = nt_out s @ [NatSend (frame eh1 oih1 (tcp_enc oth1 @ d1))] \<and>
    do_translation (frame eh2 ih2 (tcp_enc th2 @ d2)) DIR_OUT s1 = Some s2 \<and> nt_out s2 = nt_out s1 @ [NatSend (frame eh2 oih2 (tcp_enc oth2 @ d2))] \<and>
    saddr oih1 = saddr oih2 \<and> th_sport oth1 = th_sport oth2 \<and>
    do_translation (frame reh rih (tcp_enc rth @ rd)) DIR_IN s2 = Some s3 \<and> nt_out s3 = nt_out s2 @ [NatSend (frame reh iih (tcp_enc ith @ rd))] \<and>
    daddr iih = saddr ih1 \<and> th_dport ith = th_sport th1"
proof -
  let ?i = "bucket_of DIR_OUT ih1 th1"
  define m1 where "m1 = (new_mapping ext 12345 ih1 th1 s)\<lparr>conn := note_segment DIR_OUT ih1 th1 (nt_junk s (nt_allocs s)), update_time := nt_now s\<rparr>"
  have "\<forall>e\<in>set (nt_mappings s ?i). \<not> flow_of DIR_OUT ih1 th1 e" using assms(11) by simp
  from outbound_syn[OF assms(4,1,2) find_free_port_unmarked[OF assms(3)] assms(5) this, of eh1]
  obtain s1 where s1: "do_translation (frame eh1 ih1 (tcp_enc th1 @ d1)) DIR_OUT s = Some s1"
    "nt_out s1 = nt_out s @ [NatSend (translated DIR_OUT (if_ip ext) 12345 eh1 ih1 th1 d1)]"
    "nt_mappings s1 ?i = [m1]" "\<not> nt_locked s1" "nt_external s1 = Some ext" "nt_assigned s1 = (\<lambda>_. 0)"
    using assms(2,3,11) by (auto simp: m1_def)
  have i2: "bucket_of DIR_OUT ih2 th2 = ?i" using assms(8,9) by (simp add: bucket_of_def remote_end_def)
  have "\<not> flow_of DIR_OUT ih2 th2 m1"
    using assms(10) by (auto simp: flow_defs m1_def new_mapping_def net_order_inj)
  then have "\<forall>e\<in>set (nt_mappings s1 (bucket_of DIR_OUT ih2 th2)). \<not> flow_of DIR_OUT ih2 th2 e"
    unfolding i2 s1(3) by simp
  from outbound_syn[OF assms(6) s1(4,5) find_free_port_unmarked[OF s1(6)] assms(7) this, of eh2]
  obtain s2 m2 where s2: "do_translation (frame eh2 ih2 (tcp_enc th2 @ d2)) DIR_OUT s1 = Some s2"
    "nt_out s2 = nt_out s1 @ [NatSend (translated DIR_OUT (if_ip ext) 12345 eh2 ih2 th2 d2)]"
    "nt_mappings s2 ?i = [m1, m2]" "\<not> nt_locked s2"
    unfolding i2 using s1(3) by fastforce
  have "bucket_of DIR_IN rih rth = ?i" using assms(8,9,13,14) by (simp add: bucket_of_def remote_end_def)
  moreover have "flow_of DIR_IN rih rth m1" using assms(8,9,13-) by (simp add: flow_defs m1_def new_mapping_def)
  ultimately have f: "List.find (flow_of DIR_IN rih rth) (nt_mappings s2 (bucket_of DIR_IN rih rth)) = Some m1"
    by (simp add: s2(3))
  obtain s3 where s3: "do_translation (frame reh rih (tcp_enc rth @ rd)) DIR_IN s2 = Some s3"
    "nt_out s3 = nt_out s2 @ [NatSend (translated DIR_IN (internal_ip m1) (internal_port m1) reh rih rth rd)]"
    using inbound_known[OF assms(12) s2(4) f, of reh] by blast
  have m: "internal_ip m1 = ntohl (saddr ih1)" "internal_port m1 = ntohs (th_sport th1)" by (simp_all add: m1_def new_mapping_def)
  have o: "\<exists>oih oth. translated dir a port eh ih th d = frame eh oih (tcp_enc oth @ d) \<and>
      saddr oih = saddr (new_ip dir a ih) \<and> daddr oih = daddr (new_ip dir a ih) \<and>
      th_sport oth = th_sport (new_tcp dir port th) \<and> th_dport oth = th_dport (new_tcp dir port th)" for dir a port eh ih th d
    by (rule exI[of _ "ip_sealed (new_ip dir a ih)"], rule exI[of _ "sealed (new_ip dir a ih) (new_tcp dir port th) d"])
      (simp add: translated_def Let_def, simp add: ip_sealed_def sealed_def)
  obtain oih1 oth1 where o1: "translated DIR_OUT (if_ip ext) 12345 eh1 ih1 th1 d1 = frame eh1 oih1 (tcp_enc oth1 @ d1)"
    "saddr oih1 = htonl (if_ip ext)" "th_sport oth1 = htons 12345"
    using o[of DIR_OUT "if_ip ext" 12345 eh1 ih1 th1 d1] by (auto simp: new_ip_def new_tcp_def)
  obtain oih2 oth2 where o2: "translated DIR_OUT (if_ip ext) 12345 eh2 ih2 th2 d2 = frame eh2 oih2 (tcp_enc oth2 @ d2)"
    "saddr oih2 = htonl (if_ip ext)" "th_sport oth2 = htons 12345"
    using o[of DIR_OUT "if_ip ext" 12345 eh2 ih2 th2 d2] by (auto simp: new_ip_def new_tcp_def)
  obtain iih ith where o3: "translated DIR_IN (internal_ip m1) (internal_port m1) reh rih rth rd = frame reh iih (tcp_enc ith @ rd)"
    "daddr iih = saddr ih1" "th_dport ith = th_sport th1"
    using o[of DIR_IN "internal_ip m1" "internal_port m1" reh rih rth rd] by (auto simp: new_ip_def new_tcp_def m)
  have "saddr oih1 = saddr oih2" "th_sport oth1 = th_sport oth2" using o1 o2 by simp_all
  with s1(1) s1(2)[unfolded o1(1)] s2(1) s2(2)[unfolded o2(1)] s3(1) s3(2)[unfolded o3(1)] o3(2,3)
  show ?thesis by (intro exI conjI)
qed

theorem nat_hosts_collide_witness:
  "\<exists>s1 s2 s3 iih ith. do_translation (frame zero_eth (sample_ih 10 20) (tcp_enc (sample_th 1111 80 2) @ [])) DIR_OUT fresh_nat = Some s1 \<and>
    do_translation (frame zero_eth (sample_ih 11 20) (tcp_enc (sample_th 2222 80 2) @ [])) DIR_OUT s1 = Some s2 \<and>
    do_translation (frame zero_eth (sample_ih 20 0x9FE2272B) (tcp_enc (sample_th 80 12345 18) @ [])) DIR_IN s2 = Some s3 \<and>
    nt_out s3 = nt_out s2 @ [NatSend (frame zero_eth iih (tcp_enc ith))] \<and> daddr iih = htonl 10"
proof -
  have "saddr (sample_ih 10 20) \<noteq> saddr (sample_ih 11 20) \<or> th_sport (sample_th 1111 80 2) \<noteq> th_sport (sample_th 2222 80 2)"
    by (simp add: net_order_inj)
  note c = nat_hosts_collide[OF fresh_nat_simps(1,2,4) sample_seg(1) _ sample_seg(1) _ _ _ this fresh_nat_simps(3) sample_seg(1),
      of 20 "0x9FE2272B" "sample_th 80 12345 18" zero_eth zero_eth zero_eth]
  have f: "th_flags (sample_th a b 2) AND TCP_SYN \<noteq> 0" for a b by (simp add: TCP_SYN_def)
  note c = c[OF f f]
  have "daddr (sample_ih 10 20) = daddr (sample_ih 11 20)" "th_dport (sample_th 1111 80 2) = th_dport (sample_th 2222 80 2)"
    "saddr (sample_ih 20 0x9FE2272B) = daddr (sample_ih 11 20)" "th_sport (sample_th 80 12345 18) = th_dport (sample_th 2222 80 2)"
    "daddr (sample_ih 20 0x9FE2272B) = htonl (if_ip (sample_iface\<lparr>if_ip := 0x9FE2272B\<rparr>))" "th_dport (sample_th 80 12345 18) = htons 12345"
    by simp_all
  from c[OF this] show ?thesis unfolding append_Nil2 sample_seg(2) by blast
qed

text \<open>A connection request from outside that no rule admits leaves the mutex locked, so the box
  translates nothing any more: neither packets nor the timeout thread get past the lock.\<close>

theorem nat_unmatched_request_deadlocks:
  assumes "\<not> nt_locked s" "seg_ok ih d" "th_flags th AND TCP_SYN \<noteq> 0"
    and "\<forall>e\<in>set (nt_mappings s (bucket_of DIR_IN ih th)). \<not> flow_of DIR_IN ih th e"
    and "\<forall>r\<in>set (nt_rules s). \<not> (ntohl (daddr ih) = ru_external_ip r \<and> ntohs (th_dport th) = ru_external_port r)"
  shows "\<exists>t. do_translation (frame eh ih (tcp_enc th @ d)) DIR_IN s = Some t \<and>
    nt_out t = nt_out s @ [NatIcmp (frame eh ih (tcp_enc th @ d)) 3 1] \<and>
    do_translation p dir t = None \<and> nat_timeout_round t = None \<and> nat_exit t = None"
proof -
  let ?t = "nat_emit (NatIcmp (frame eh ih (tcp_enc th @ d)) 3 1) (s\<lparr>nt_locked := True\<rparr>)"
  have f: "List.find (flow_of DIR_IN ih th) (nt_mappings s (bucket_of DIR_IN ih th)) = None" using assms(4) by (auto simp: find_None_iff)
  have r: "List.find (\<lambda>r. ntohl (daddr ih) = ru_external_ip r \<and> ntohs (th_dport th) = ru_external_port r) (nt_rules s) = None"
    using assms(5) by (auto simp: find_None_iff)
  have t: "do_translation (frame eh ih (tcp_enc th @ d)) DIR_IN s = Some ?t"
    unfolding do_translation_frame[OF assms(2,1)] using f r assms(3)
    by (simp add: Let_def translate_new_in_def no_available_port_def ICMP_DEST_UNREACH_def ICMP_HOST_UNREACH_def)
  have l: "nat_lock ?t = None" by (simp add: nat_lock_def)
  have "do_translation p dir ?t = None"
    by (cases "get_ip p ETHER_HDR_SIZE") (auto simp: do_translation_def l Let_def split: Option.bind_split)
  with t l show ?thesis by (auto simp: nat_timeout_round_def nat_exit_def)
qed

theorem nat_unmatched_request_deadlocks_witness:
  "\<exists>t. do_translation (frame zero_eth (sample_ih 20 30) (tcp_enc (sample_th 80 99 2) @ [])) DIR_IN fresh_nat = Some t \<and>
     nat_timeout_round t = None"
  using nat_unmatched_request_deadlocks[of fresh_nat "sample_ih 20 30" "[]" "sample_th 80 99 2" zero_eth]
  by (auto simp: TCP_SYN_def)

text \<open>A connection that both ends close is not noticed: the flag of an end holds for its latest
  packet only, so the acknowledgement that follows its FIN clears it again, and the flow is not
  finished for the sweep whatever was acknowledged. Such flows go by the timeout of 60 seconds.\<close>

theorem nat_last_ack_hides_fin:
  assumes "th_flags th AND TCP_FIN = 0" "now - update_time e < 60"
  shows "\<not> flow_over now (e\<lparr>conn := note_segment dir ih th c\<rparr>)"
  using assms by (simp add: flow_over_def is_flow_finished_def note_segment_def Let_def TCP_ESTABLISHED_TIMEOUT_def)

theorem nat_last_ack_hides_fin_witness:
  "\<not> flow_over 5 ((new_mapping sample_iface 12345 (sample_ih 10 20) (sample_th 1111 80 2) fresh_nat)\<lparr>conn :=
     note_segment DIR_OUT (sample_ih 10 20) (sample_th 1111 80 16) (nt_junk fresh_nat 0)\<rparr>)"
  by (rule nat_last_ack_hides_fin) (simp_all add: TCP_FIN_def new_mapping_def)

end
