(* ===== verification/Nat_Config.thy ===== *)
theory Nat_Config
  imports Nat_Box "HOL-Library.Char_ord"
begin

text \<open>
  Starting the translator of prj10 (\<open>if_name_to_iface\<close>, \<open>parse_config\<close>, \<open>nat_init\<close> in \<open>nat.c\<close>). The file
  is the string of its characters with the end-of-file flag of its stream; \<open>fgets\<close> and the conversions
  of \<open>sscanf\<close> are modelled as far as the parser uses them. A local buffer the parser has not written
  yet is \<open>None\<close>; reading it is undefined, like a word that does not fit its buffer and a number out
  of the range of its type. Read errors do not occur. The buffers keep their contents from line to
  line, as they do in the code.
\<close>

section \<open>The library functions\<close>

record cfile =
  cf_rest :: string
  cf_eof :: bool

abbreviation newline :: char where "newline \<equiv> CHR 0x0A"

definition is_space :: "char \<Rightarrow> bool" where
  "is_space c \<longleftrightarrow> c = CHR '' '' \<or> (9 \<le> (of_char c :: nat) \<and> (of_char c :: nat) \<le> 13)"

definition is_digit :: "char \<Rightarrow> bool" where
  "is_digit c \<longleftrightarrow> 48 \<le> (of_char c :: nat) \<and> (of_char c :: nat) \<le> 57"

text \<open>\<open>fgets\<close> with a buffer of \<open>n + 1\<close> characters: what it reads, the string in the buffer afterwards,
  and the file. At the end of the file it reads nothing and leaves the buffer alone.\<close>

fun line_of :: "nat \<Rightarrow> string \<Rightarrow> string" where
  "line_of (Suc n) (c # cs) = (if c = newline then [c] else c # line_of n cs)"
| "line_of _ _ = []"

definition fgets :: "nat \<Rightarrow> string \<Rightarrow> cfile \<Rightarrow> string \<times> cfile" where
  "fgets n buf f = (let l = line_of n (cf_rest f) in
     (if l = [] then buf else takeWhile (\<lambda>c. c \<noteq> CHR 0x00) l,
      \<lparr> cf_rest = drop (length l) (cf_rest f),
        cf_eof = (cf_eof f \<or> length l < n \<and> (l = [] \<or> last l \<noteq> newline)) \<rparr>))"

text \<open>The conversions \<open>%s\<close>, one after the other into buffers of the given sizes.\<close>

definition scan_word :: "string \<Rightarrow> (string \<times> string) option" where
  "scan_word cs = (let cs = dropWhile is_space cs; w = takeWhile (\<lambda>c. \<not> is_space c) cs in
     if w = [] then None else Some (w, dropWhile (\<lambda>c. \<not> is_space c) cs))"

fun scan_words :: "string \<Rightarrow> (nat \<times> string option) list \<Rightarrow> string option list option" where
  "scan_words cs [] = Some []"
| "scan_words cs ((n, b) # bs) =
     (case scan_word cs of
        None \<Rightarrow> Some (b # map snd bs)
      | Some (w, cs) \<Rightarrow> if length w < n then map_option (\<lambda>bs. Some w # bs) (scan_words cs bs) else None)"

text \<open>\<open>%u\<close> and \<open>%hu\<close>, for a type with values below \<open>m\<close>; the inner \<open>None\<close> is a matching failure.\<close>

definition digits_value :: "string \<Rightarrow> nat" where
  "digits_value ds = foldl (\<lambda>v c. 10 * v + (of_char c - 48)) 0 ds"

definition scan_unsigned :: "nat \<Rightarrow> string \<Rightarrow> (nat \<times> string) option option" where
  "scan_unsigned m cs =
     (let cs = dropWhile is_space cs;
          neg = (cs \<noteq> [] \<and> hd cs = CHR ''-'');
          cs = (if cs \<noteq> [] \<and> (hd cs = CHR ''-'' \<or> hd cs = CHR ''+'') then tl cs else cs);
          ds = takeWhile is_digit cs;
          v = digits_value ds
      in if ds = [] then Some None
         else if v < m \<and> (neg \<longrightarrow> v = 0) then Some (Some (v, dropWhile is_digit cs)) else None)"

text \<open>\<open>"%u.%u.%u.%u"\<close>: the conversion stops at the first piece that does not match.\<close>

fun scan_octets :: "string \<Rightarrow> u32 option list \<Rightarrow> u32 option list option" where
  "scan_octets cs [] = Some []"
| "scan_octets cs (x # xs) = do {
     r \<leftarrow> scan_unsigned (2 ^ 32) cs;
     (case r of
        None \<Rightarrow> Some (x # xs)
      | Some (v, cs) \<Rightarrow>
          if cs \<noteq> [] \<and> hd cs = CHR ''.'' then do { xs \<leftarrow> scan_octets (tl cs) xs; Some (Some (of_nat v) # xs) }
          else Some (Some (of_nat v) # xs)) }"

section \<open>The parser\<close>

record parser =
  ps_type :: "string option"
  ps_name :: "string option"
  ps_exter :: "string option"
  ps_inter :: "string option"
  ps_octets :: "u32 option list"
  ps_port :: "u16 option"

definition fresh_parser :: parser where
  "fresh_parser = \<lparr> ps_type = None, ps_name = None, ps_exter = None, ps_inter = None,
     ps_octets = [None, None, None, None], ps_port = None \<rparr>"

definition if_name_to_iface :: "iface list \<Rightarrow> string \<Rightarrow> iface option" where
  "if_name_to_iface ifs nm = List.find (\<lambda>ifc. if_name ifc = nm) ifs"

text \<open>A line of the first part.\<close>

definition iface_line :: "iface list \<Rightarrow> string \<Rightarrow> parser \<Rightarrow> nat_table \<Rightarrow> (parser \<times> nat_table) option" where
  "iface_line ifs line b s = do {
     bufs \<leftarrow> scan_words line [(128, ps_type b), (128, ps_name b)];
     ty \<leftarrow> bufs ! 0;
     let b = b\<lparr>ps_type := Some (take 14 ty), ps_name := bufs ! 1\<rparr>;
     if take 14 ty = ''internal-iface'' then do {
       nm \<leftarrow> ps_name b;
       Some (b, s\<lparr>nt_internal := if_name_to_iface ifs nm\<rparr>) }
     else if take 14 ty = ''external-iface'' then do {
       nm \<leftarrow> ps_name b;
       Some (b, s\<lparr>nt_external := if_name_to_iface ifs nm\<rparr>) }
     else Some (b, s) }"

text \<open>An address and a port, \<open>"%[^:]:%hu"\<close> and the octets of the part before the colon.\<close>

definition scan_endpoint :: "string \<Rightarrow> parser \<Rightarrow> parser option" where
  "scan_endpoint cs b =
     (let w = takeWhile (\<lambda>c. c \<noteq> CHR '':'') cs; rest = dropWhile (\<lambda>c. c \<noteq> CHR '':'') cs in
      if w = [] then Some b
      else if 128 \<le> length w then None
      else if rest = [] then Some (b\<lparr>ps_name := Some w\<rparr>)
      else do {
        r \<leftarrow> scan_unsigned (2 ^ 16) (tl rest);
        Some (b\<lparr>ps_name := Some w, ps_port := (case r of None \<Rightarrow> ps_port b | Some (v, _) \<Rightarrow> Some (of_nat v))\<rparr>) })"

definition read_endpoint :: "string \<Rightarrow> parser \<Rightarrow> (u32 \<times> u16 \<times> parser) option" where
  "read_endpoint cs b = do {
     b \<leftarrow> scan_endpoint cs b;
     nm \<leftarrow> ps_name b;
     os \<leftarrow> scan_octets nm (ps_octets b);
     let b = b\<lparr>ps_octets := os\<rparr>;
     ip4 \<leftarrow> os ! 0;
     ip3 \<leftarrow> os ! 1;
     ip2 \<leftarrow> os ! 2;
     ip1 \<leftarrow> os ! 3;
     port \<leftarrow> ps_port b;
     Some (push_bit 24 ip4 OR push_bit 16 ip3 OR push_bit 8 ip2 OR ip1, port, b) }"

text \<open>A line of the second part.\<close>

definition rule_line :: "string \<Rightarrow> parser \<Rightarrow> nat_table \<Rightarrow> (parser \<times> nat_table) option" where
  "rule_line line b s = do {
     bufs \<leftarrow> scan_words line [(128, ps_type b), (64, ps_exter b), (128, ps_name b), (64, ps_inter b)];
     ty \<leftarrow> bufs ! 0;
     let b = b\<lparr>ps_type := Some (take 10 ty), ps_exter := bufs ! 1, ps_name := bufs ! 2, ps_inter := bufs ! 3\<rparr>;
     if take 10 ty = ''dnat-rules'' then do {
       exter \<leftarrow> ps_exter b;
       inter \<leftarrow> ps_inter b;
       (eip, eport, b) \<leftarrow> read_endpoint exter b;
       (iip, iport, b) \<leftarrow> read_endpoint inter b;
       Some (b, s\<lparr>nt_rules := nt_rules s @ [\<lparr> ru_external_ip = eip, ru_external_port = eport,
         ru_internal_ip = iip, ru_internal_port = iport \<rparr>]\<rparr>) }
     else Some (b, s) }"

text \<open>The two loops read lines until an empty one or the end of the file.\<close>

function line_loop :: "(string \<Rightarrow> parser \<Rightarrow> nat_table \<Rightarrow> (parser \<times> nat_table) option) \<Rightarrow>
    cfile \<Rightarrow> parser \<Rightarrow> nat_table \<Rightarrow> (cfile \<times> parser \<times> nat_table) option" where
  "line_loop step f b s =
     (if cf_eof f then Some (f, b, s)
      else if line_of 255 (cf_rest f) = [] \<or> hd (line_of 255 (cf_rest f)) = newline
      then Some (snd (fgets 255 [newline] f), b, s)
      else do {
        (b', s') \<leftarrow> step (fst (fgets 255 [newline] f)) b s;
        line_loop step (snd (fgets 255 [newline] f)) b' s' })"
  by pat_completeness auto
termination
proof (relation "measure (\<lambda>(step, f, b, s). length (cf_rest f))")
  fix step b s b' s' and f :: cfile
  assume n: "\<not> (line_of 255 (cf_rest f) = [] \<or> hd (line_of 255 (cf_rest f)) = newline)"
  then have "cf_rest f \<noteq> []" by (cases "cf_rest f") auto
  then show "((step, snd (fgets 255 [newline] f), b', s'), (step, f, b, s)) \<in> measure (\<lambda>(step, f, b, s). length (cf_rest f))"
    using n by (simp add: fgets_def Let_def)
qed simp

declare line_loop.simps [simp del]

definition parse_config :: "iface list \<Rightarrow> string option \<Rightarrow> nat_table \<Rightarrow> nat_table option" where
  "parse_config ifs file s = do {
     cs \<leftarrow> file;
     (f, b, s) \<leftarrow> line_loop (iface_line ifs) \<lparr> cf_rest = cs, cf_eof = False \<rparr> fresh_parser s;
     (f, b, s) \<leftarrow> line_loop rule_line f b s;
     Some s }"

definition nat_init :: "iface list \<Rightarrow> string option \<Rightarrow> nat_table \<Rightarrow> nat_table option" where
  "nat_init ifs file s = do {
     let s = s\<lparr>nt_mappings := (\<lambda>_. []), nt_internal := None, nt_external := None, nt_assigned := (\<lambda>_. 0), nt_rules := []\<rparr>;
     s \<leftarrow> parse_config ifs file s;
     Some (s\<lparr>nt_locked := False\<rparr>) }"

section \<open>Writing a configuration\<close>

function decimal :: "nat \<Rightarrow> string" where
  "decimal n = (if n < 10 then [char_of (48 + n)] else decimal (n div 10) @ [char_of (48 + n mod 10)])"
  by pat_completeness auto
termination by (relation "measure id") auto

declare decimal.simps [simp del]

definition address_text :: "u32 \<Rightarrow> string" where
  "address_text a = decimal (unat (drop_bit 24 a)) @ ''.'' @ decimal (unat (drop_bit 16 a AND 0xFF)) @ ''.'' @
     decimal (unat (drop_bit 8 a AND 0xFF)) @ ''.'' @ decimal (unat (a AND 0xFF))"

definition endpoint_text :: "u32 \<Rightarrow> u16 \<Rightarrow> string" where
  "endpoint_text a p = address_text a @ '':'' @ decimal (unat p)"

definition rule_text :: "dnat_rule \<Rightarrow> string" where
  "rule_text r = ''dnat-rules: '' @ endpoint_text (ru_external_ip r) (ru_external_port r) @ '' -> '' @
     endpoint_text (ru_internal_ip r) (ru_internal_port r) @ [newline]"

definition config_text :: "string \<Rightarrow> string \<Rightarrow> dnat_rule list \<Rightarrow> string" where
  "config_text inn out rules = ''internal-iface: '' @ inn @ [newline] @ ''external-iface: '' @ out @ [newline] @ [newline] @
     concat (map rule_text rules)"

lemma decimal_digits: "c \<in> set (decimal n) \<Longrightarrow> is_digit c"
proof (induction n rule: decimal.induct)
  case (1 n)
  from 1(2) show ?case
    using 1(1) by (subst (asm) decimal.simps) (auto simp: is_digit_def split: if_splits)
qed

lemma decimal_value [simp]: "digits_value (decimal n) = n"
proof (induction n rule: decimal.induct)
  case (1 n)
  show ?case
  proof (cases "n < 10")
    case True
    then show ?thesis by (subst decimal.simps) (simp add: digits_value_def)
  next
    case False
    with 1 show ?thesis by (subst decimal.simps) (simp add: digits_value_def)
  qed
qed

lemma decimal_nonempty [simp]: "decimal n \<noteq> []"
  by (subst decimal.simps) simp

lemma decimal_short: "n < 10 ^ k \<Longrightarrow> 0 < k \<Longrightarrow> length (decimal n) \<le> k"
proof (induction k arbitrary: n)
  case (Suc k)
  show ?case
  proof (cases "n < 10")
    case True
    then show ?thesis by (subst decimal.simps) simp
  next
    case False
    then have "0 < k" using Suc.prems by (cases k) auto
    moreover have "n div 10 < 10 ^ k" using Suc.prems(1) by auto
    ultimately show ?thesis using Suc.IH False by (subst decimal.simps) simp
  qed
qed simp

section \<open>Reading it back\<close>

lemma digit_not [simp]: "is_digit c \<Longrightarrow> \<not> is_space c" "is_digit c \<Longrightarrow> c \<noteq> CHR ''-'' \<and> c \<noteq> CHR ''+'' \<and> c \<noteq> CHR ''.'' \<and>
    c \<noteq> CHR '':'' \<and> c \<noteq> newline \<and> c \<noteq> CHR 0x00"
  by (auto simp: is_digit_def is_space_def)

lemma scan_unsigned_decimal:
  assumes "n < m" "rest = [] \<or> \<not> is_digit (hd rest)"
  shows "scan_unsigned m (decimal n @ rest) = Some (Some (n, rest))"
proof -
  obtain c cs where c: "decimal n = c # cs" using decimal_nonempty[of n] by (cases "decimal n") auto
  have d: "is_digit c" using decimal_digits[of c n] c by simp
  have all: "\<forall>x\<in>set (c # cs). is_digit x" using decimal_digits[of _ n] c by metis
  have t: "takeWhile is_digit rest = []" "dropWhile is_digit rest = rest"
    using assms(2) by (cases rest; simp)+
  have v: "digits_value (c # cs) = n" using decimal_value[of n] c by simp
  have "takeWhile is_digit (c # cs @ rest) = c # cs" "dropWhile is_digit (c # cs @ rest) = rest"
    using all t by (simp_all add: takeWhile_append2 dropWhile_append2)
  with d v assms(1) show ?thesis by (simp add: scan_unsigned_def c Let_def)
qed

lemma join_octets: "push_bit 24 (drop_bit 24 a) OR push_bit 16 (drop_bit 16 a AND 0xFF) OR
    push_bit 8 (drop_bit 8 a AND 0xFF) OR (a AND 0xFF) = (a :: u32)"
proof (rule bit_word_eqI)
  have m: "(0xFF :: u32) = mask 8" by (simp add: mask_eq_exp_minus_1)
  fix n assume "n < LENGTH(32)"
  then show "bit (push_bit 24 (drop_bit 24 a) OR push_bit 16 (drop_bit 16 a AND 0xFF) OR
    push_bit 8 (drop_bit 8 a AND 0xFF) OR (a AND 0xFF)) n = bit a n"
    unfolding m by (cases "n < 8"; cases "n < 16"; cases "n < 24") (simp_all add: bit_simps, arith+)
qed

lemma octet_bounds: "unat (drop_bit 24 (a :: u32)) < 256" "unat (x AND 0xFF :: u32) < 256"
proof -
  have "unat a < 2 ^ 32" using unsigned_less[of a] by simp
  then have "unat a div 2 ^ 24 < 256" by (simp add: div_less_iff_less_mult)
  then show "unat (drop_bit 24 (a :: u32)) < 256" by (simp only: unat_drop_bit_eq) (simp add: drop_bit_eq_div)
  have "x AND 0xFF \<le> 0xFF" by (rule word_and_le1)
  then show "unat (x AND 0xFF :: u32) < 256" by (simp add: word_le_nat_alt)
qed

lemma scan_octets_address:
  "scan_octets (address_text a) [x1, x2, x3, x4] = Some [Some (drop_bit 24 a), Some (drop_bit 16 a AND 0xFF),
     Some (drop_bit 8 a AND 0xFF), Some (a AND 0xFF)]"
proof -
  have d: "scan_unsigned 4294967296 (decimal (unat w) @ rest) = Some (Some (unat w, rest))"
    if "rest = [] \<or> \<not> is_digit (hd rest)" for w :: u32 and rest
    using that unsigned_less[of w] by (intro scan_unsigned_decimal) simp_all
  have p: "\<not> is_digit (CHR ''.'')" by (simp add: is_digit_def)
  show ?thesis using d[of "[]"] by (simp add: address_text_def d p)
qed

lemma address_chars: "c \<in> set (address_text a) \<Longrightarrow> is_digit c \<or> c = CHR ''.''"
  using decimal_digits by (auto simp: address_text_def)

lemma endpoint_chars: "c \<in> set (endpoint_text a p) \<Longrightarrow> is_digit c \<or> c = CHR ''.'' \<or> c = CHR '':''"
  using decimal_digits address_chars by (auto simp: endpoint_text_def)

lemma endpoint_chars_plain: "c \<in> set (endpoint_text a p) \<Longrightarrow> \<not> is_space c \<and> c \<noteq> newline \<and> c \<noteq> CHR 0x00"
  using endpoint_chars[of c a p] by (auto simp: is_space_def is_digit_def)

lemma length_address: "length (address_text a) \<le> 15" "address_text a \<noteq> []"
proof -
  have d: "length (decimal (unat w)) \<le> 3" if "unat (w :: u32) < 256" for w
    using decimal_short[of "unat w" 3] that by simp
  show "length (address_text a) \<le> 15"
    using d[OF octet_bounds(1)[of a]] d[OF octet_bounds(2)[of "drop_bit 16 a"]]
      d[OF octet_bounds(2)[of "drop_bit 8 a"]] d[OF octet_bounds(2)[of a]] by (simp add: address_text_def)
  show "address_text a \<noteq> []" by (simp add: address_text_def)
qed

lemma length_endpoint: "length (endpoint_text a p) \<le> 21" "endpoint_text a p \<noteq> []"
proof -
  have "(unat p :: nat) < 2 ^ LENGTH(16)" by (rule unsigned_less)
  then have "unat p < 10 ^ 5" by simp
  then have "length (decimal (unat p)) \<le> 5" using decimal_short[of "unat p" 5] by simp
  then show "length (endpoint_text a p) \<le> 21" using length_address(1)[of a] by (simp add: endpoint_text_def)
qed (simp add: endpoint_text_def)

definition parser_ok :: "parser \<Rightarrow> bool" where
  "parser_ok b \<longleftrightarrow> length (ps_octets b) = 4"

lemma read_endpoint_text:
  assumes "parser_ok b"
  shows "\<exists>b'. read_endpoint (endpoint_text a p) b = Some (a, p, b') \<and> parser_ok b'"
proof -
  have "\<forall>c\<in>set (address_text a). c \<noteq> CHR '':''" using address_chars[of _ a] by (force simp: is_digit_def)
  then have w: "takeWhile (\<lambda>c. c \<noteq> CHR '':'') (endpoint_text a p) = address_text a"
    "dropWhile (\<lambda>c. c \<noteq> CHR '':'') (endpoint_text a p) = CHR '':'' # decimal (unat p)"
    by (simp_all add: endpoint_text_def takeWhile_append2 dropWhile_append2)
  have v: "scan_unsigned 65536 (decimal (unat p)) = Some (Some (unat p, []))"
    using scan_unsigned_decimal[of "unat p" 65536 "[]"] unsigned_less[of p] by simp
  obtain x1 x2 x3 x4 where o: "ps_octets b = [x1, x2, x3, x4]"
    using assms by (auto simp: parser_ok_def length_Suc_conv numeral_eq_Suc)
  have l: "\<not> 128 \<le> length (address_text a)" "address_text a \<noteq> []" using length_address[of a] by simp_all
  have "scan_endpoint (endpoint_text a p) b = Some (b\<lparr>ps_name := Some (address_text a), ps_port := Some p\<rparr>)"
    by (simp add: scan_endpoint_def Let_def w v l)
  then have "read_endpoint (endpoint_text a p) b = Some (a, p, b\<lparr>ps_name := Some (address_text a), ps_port := Some p,
    ps_octets := [Some (drop_bit 24 a), Some (drop_bit 16 a AND 0xFF), Some (drop_bit 8 a AND 0xFF), Some (a AND 0xFF)]\<rparr>)"
    using join_octets[of a] by (simp del: scan_octets.simps add: read_endpoint_def o scan_octets_address Let_def)
  then show ?thesis by (simp add: parser_ok_def)
qed

lemma scan_word_next [simp]:
  "w \<noteq> [] \<Longrightarrow> \<forall>c\<in>set w. \<not> is_space c \<Longrightarrow> is_space d \<Longrightarrow> scan_word (w @ d # cs) = Some (w, d # cs)"
  by (cases w) (simp_all add: scan_word_def takeWhile_append2 dropWhile_append2)

lemma scan_word_skip [simp]: "is_space c \<Longrightarrow> scan_word (c # cs) = scan_word cs"
  by (simp add: scan_word_def)

lemma is_space_simps [simp]: "is_space newline" "is_space (CHR '' '')"
  by (simp_all add: is_space_def)

lemma rule_line_text:
  assumes "parser_ok b"
  shows "\<exists>b'. rule_line (rule_text r) b s = Some (b', s\<lparr>nt_rules := nt_rules s @ [r]\<rparr>) \<and> parser_ok b'"
proof -
  let ?e = "endpoint_text (ru_external_ip r) (ru_external_port r)" and ?i = "endpoint_text (ru_internal_ip r) (ru_internal_port r)"
  have plain: "\<forall>c\<in>set ?e. \<not> is_space c" "\<forall>c\<in>set ?i. \<not> is_space c" "\<forall>c\<in>set ''dnat-rules:''. \<not> is_space c" "\<forall>c\<in>set ''->''. \<not> is_space c"
    using endpoint_chars_plain by (auto simp: is_space_def)
  have len: "length ?e < 64" "length ?i < 64" "?e \<noteq> []" "?i \<noteq> []"
    using length_endpoint[of "ru_external_ip r" "ru_external_port r"] length_endpoint[of "ru_internal_ip r" "ru_internal_port r"] by simp_all
  have t: "rule_text r = ''dnat-rules:'' @ CHR '' '' # ?e @ CHR '' '' # ''->'' @ CHR '' '' # ?i @ newline # []"
    by (simp add: rule_text_def)
  have words: "scan_words (rule_text r) [(128, x1), (64, x2), (128, x3), (64, x4)] =
      Some [Some ''dnat-rules:'', Some ?e, Some ''->'', Some ?i]" for x1 x2 x3 x4
    unfolding t scan_words.simps scan_word_skip[OF is_space_simps(2)]
      scan_word_next[OF _ plain(3) is_space_simps(2), simplified] by (simp add: plain len del: append.simps)
  let ?b = "b\<lparr>ps_type := Some ''dnat-rules'', ps_exter := Some ?e, ps_name := Some ''->'', ps_inter := Some ?i\<rparr>"
  have "parser_ok ?b" using assms by (simp add: parser_ok_def)
  from read_endpoint_text[OF this] obtain b1 where b1: "read_endpoint ?e ?b = Some (ru_external_ip r, ru_external_port r, b1)"
    "parser_ok b1" by blast
  from read_endpoint_text[OF b1(2)] obtain b2 where b2: "read_endpoint ?i b1 = Some (ru_internal_ip r, ru_internal_port r, b2)"
    "parser_ok b2" by blast
  show ?thesis
    using b1 b2 by (simp del: scan_words.simps add: rule_line_def words Let_def)
qed

lemma iface_line_text:
  assumes "nm \<noteq> []" "\<forall>c\<in>set nm. \<not> is_space c" "length nm < 128"
  shows "iface_line ifs (''internal-iface: '' @ nm @ [newline]) b s =
      Some (b\<lparr>ps_type := Some ''internal-iface'', ps_name := Some nm\<rparr>, s\<lparr>nt_internal := if_name_to_iface ifs nm\<rparr>)"
    and "iface_line ifs (''external-iface: '' @ nm @ [newline]) b s =
      Some (b\<lparr>ps_type := Some ''external-iface'', ps_name := Some nm\<rparr>, s\<lparr>nt_external := if_name_to_iface ifs nm\<rparr>)"
proof -
  have n: "scan_word (CHR '' '' # nm @ [newline]) = Some (nm, [newline])" using assms by simp
  have w: "scan_words (''internal-iface: '' @ nm @ [newline]) [(128, x), (128, y)] = Some [Some ''internal-iface:'', Some nm]"
    "scan_words (''external-iface: '' @ nm @ [newline]) [(128, x), (128, y)] = Some [Some ''external-iface:'', Some nm]" for x y
    using scan_word_next[of "''internal-iface:''" "CHR '' ''" "nm @ [newline]"]
      scan_word_next[of "''external-iface:''" "CHR '' ''" "nm @ [newline]"] assms(3) by (simp_all add: is_space_def n)
  show "iface_line ifs (''internal-iface: '' @ nm @ [newline]) b s =
      Some (b\<lparr>ps_type := Some ''internal-iface'', ps_name := Some nm\<rparr>, s\<lparr>nt_internal := if_name_to_iface ifs nm\<rparr>)"
    "iface_line ifs (''external-iface: '' @ nm @ [newline]) b s =
      Some (b\<lparr>ps_type := Some ''external-iface'', ps_name := Some nm\<rparr>, s\<lparr>nt_external := if_name_to_iface ifs nm\<rparr>)"
    unfolding iface_line_def w by (simp_all add: Let_def)
qed

text \<open>What the loops do with a line, an empty line and the end of the file.\<close>

lemma line_of_line: "newline \<notin> set l \<Longrightarrow> length l < n \<Longrightarrow> line_of n (l @ newline # cs) = l @ [newline]"
proof (induction l arbitrary: n)
  case Nil
  then show ?case by (cases n) auto
next
  case (Cons c l)
  then show ?case by (cases n) auto
qed

lemma line_loop_line:
  assumes "l \<noteq> []" "newline \<notin> set l" "CHR 0x00 \<notin> set l" "length l < 255" "step (l @ [newline]) b s = Some (b', s')"
  shows "line_loop step \<lparr> cf_rest = l @ newline # cs, cf_eof = False \<rparr> b s =
    line_loop step \<lparr> cf_rest = cs, cf_eof = False \<rparr> b' s'"
proof -
  have "takeWhile (\<lambda>c. c \<noteq> CHR 0x00) (l @ [newline]) = l @ [newline]" using assms(3) by (auto simp: takeWhile_eq_all_conv)
  moreover have "hd (l @ [newline]) \<noteq> newline" using assms(1,2) by (cases l) auto
  ultimately show ?thesis using assms(1,4,5)
    by (subst line_loop.simps) (simp add: fgets_def line_of_line[OF assms(2,4)] Let_def)
qed

lemma line_loop_blank:
  "line_loop step \<lparr> cf_rest = newline # cs, cf_eof = False \<rparr> b s = Some (\<lparr> cf_rest = cs, cf_eof = False \<rparr>, b, s)"
  using line_of_line[of "[]" 255 cs] by (subst line_loop.simps) (simp add: fgets_def Let_def)

lemma line_loop_end:
  "line_loop step \<lparr> cf_rest = [], cf_eof = False \<rparr> b s = Some (\<lparr> cf_rest = [], cf_eof = True \<rparr>, b, s)"
  by (subst line_loop.simps) (simp add: fgets_def Let_def)

lemma rule_text_line: "\<exists>l. rule_text r = l @ [newline] \<and> l \<noteq> [] \<and> newline \<notin> set l \<and> CHR 0x00 \<notin> set l \<and> length l < 255"
proof (intro exI conjI)
  let ?e = "endpoint_text (ru_external_ip r) (ru_external_port r)" and ?i = "endpoint_text (ru_internal_ip r) (ru_internal_port r)"
  show "rule_text r = (''dnat-rules: '' @ ?e @ '' -> '' @ ?i) @ [newline]" by (simp add: rule_text_def)
  show "length (''dnat-rules: '' @ ?e @ '' -> '' @ ?i) < 255"
    using length_endpoint(1)[of "ru_external_ip r" "ru_external_port r"] length_endpoint(1)[of "ru_internal_ip r" "ru_internal_port r"]
    by simp
qed (use endpoint_chars_plain in auto)

lemma rules_read:
  assumes "parser_ok b"
  shows "\<exists>f b'. line_loop rule_line \<lparr> cf_rest = concat (map rule_text rules), cf_eof = False \<rparr> b s =
    Some (f, b', s\<lparr>nt_rules := nt_rules s @ rules\<rparr>)"
  using assms
proof (induction rules arbitrary: b s)
  case (Cons r rules)
  obtain b' where b': "rule_line (rule_text r) b s = Some (b', s\<lparr>nt_rules := nt_rules s @ [r]\<rparr>)" "parser_ok b'"
    using rule_line_text[OF Cons.prems] by blast
  obtain l where l: "rule_text r = l @ [newline]" "l \<noteq> []" "newline \<notin> set l" "CHR 0x00 \<notin> set l" "length l < 255"
    using rule_text_line by blast
  from Cons.IH[OF b'(2), of "s\<lparr>nt_rules := nt_rules s @ [r]\<rparr>"] show ?case
    using line_loop_line[where step = rule_line, OF l(2-5), of b s b' "s\<lparr>nt_rules := nt_rules s @ [r]\<rparr>" "concat (map rule_text rules)"] b'(1) l(1)
    by simp
qed (simp add: line_loop_end)

definition name_ok :: "string \<Rightarrow> bool" where
  "name_ok nm \<longleftrightarrow> nm \<noteq> [] \<and> list_all (\<lambda>c. \<not> is_space c \<and> c \<noteq> CHR 0x00) nm \<and> length nm < 16"

lemma name_okD:
  assumes "name_ok nm"
  shows "nm \<noteq> []" "\<forall>c\<in>set nm. \<not> is_space c" "length nm < 16" "newline \<notin> set nm" "CHR 0x00 \<notin> set nm"
proof -
  have a: "\<And>c. c \<in> set nm \<Longrightarrow> \<not> is_space c \<and> c \<noteq> CHR 0x00" and n: "nm \<noteq> []" "length nm < 16"
    using assms by (simp_all add: name_ok_def list_all_iff)
  from a[of newline] show "newline \<notin> set nm" using is_space_simps(1) by argo
  from a[of "CHR 0x00"] show "CHR 0x00 \<notin> set nm" by argo
  from a show "\<forall>c\<in>set nm. \<not> is_space c" by blast
qed (use assms in \<open>simp_all add: name_ok_def\<close>)

lemma parse_config_text:
  assumes "name_ok inn" "name_ok out"
  shows "parse_config ifs (Some (config_text inn out rules)) s =
    Some (s\<lparr>nt_internal := if_name_to_iface ifs inn, nt_external := if_name_to_iface ifs out, nt_rules := nt_rules s @ rules\<rparr>)"
proof -
  note n = name_okD[OF assms(1)] name_okD[OF assms(2)]
  let ?b1 = "fresh_parser\<lparr>ps_type := Some ''internal-iface'', ps_name := Some inn\<rparr>"
  let ?s1 = "s\<lparr>nt_internal := if_name_to_iface ifs inn\<rparr>"
  let ?b2 = "?b1\<lparr>ps_type := Some ''external-iface'', ps_name := Some out\<rparr>"
  let ?s2 = "?s1\<lparr>nt_external := if_name_to_iface ifs out\<rparr>"
  have "parser_ok ?b2" by (simp add: parser_ok_def fresh_parser_def)
  from rules_read[OF this, of rules ?s2] obtain f b' where rules: "line_loop rule_line
      \<lparr> cf_rest = concat (map rule_text rules), cf_eof = False \<rparr> ?b2 ?s2 = Some (f, b', ?s2\<lparr>nt_rules := nt_rules ?s2 @ rules\<rparr>)" by blast
  define l1 l2 where l: "l1 = ''internal-iface: '' @ inn" "l2 = ''external-iface: '' @ out"
  have k: "l1 \<noteq> []" "newline \<notin> set l1" "CHR 0x00 \<notin> set l1" "length l1 < 255"
    "l2 \<noteq> []" "newline \<notin> set l2" "CHR 0x00 \<notin> set l2" "length l2 < 255"
    using n by (simp_all add: l)
  have i: "iface_line ifs (l1 @ [newline]) fresh_parser s = Some (?b1, ?s1)" "iface_line ifs (l2 @ [newline]) ?b1 ?s1 = Some (?b2, ?s2)"
    using iface_line_text(1)[of inn ifs fresh_parser s] iface_line_text(2)[of out ifs ?b1 ?s1] n by (simp_all add: l)
  have "config_text inn out rules = l1 @ newline # l2 @ newline # newline # concat (map rule_text rules)"
    by (simp add: config_text_def l)
  then have "line_loop (iface_line ifs) \<lparr> cf_rest = config_text inn out rules, cf_eof = False \<rparr> fresh_parser s =
      line_loop (iface_line ifs) \<lparr> cf_rest = l2 @ newline # newline # concat (map rule_text rules), cf_eof = False \<rparr> ?b1 ?s1"
    by (simp only: line_loop_line[where step = "iface_line ifs" and b = fresh_parser and s = s, OF k(1-4) i(1)])
  also have "\<dots> = line_loop (iface_line ifs) \<lparr> cf_rest = newline # concat (map rule_text rules), cf_eof = False \<rparr> ?b2 ?s2"
    by (rule line_loop_line[where step = "iface_line ifs", OF k(5-8) i(2)])
  also have "\<dots> = Some (\<lparr> cf_rest = concat (map rule_text rules), cf_eof = False \<rparr>, ?b2, ?s2)" by (rule line_loop_blank)
  finally show ?thesis using rules by (simp add: parse_config_def)
qed

section \<open>Properties\<close>

text \<open>Property C21. Every configuration is read back as it was written: the two interfaces by name, and all
  rules, with every address and every port, in order.\<close>

theorem config_roundtrip:
  assumes "name_ok inn" "name_ok out"
  shows "\<exists>t. nat_init ifs (Some (config_text inn out rules)) s = Some t \<and> nt_rules t = rules \<and>
    nt_internal t = if_name_to_iface ifs inn \<and> nt_external t = if_name_to_iface ifs out \<and> \<not> nt_locked t"
  by (simp add: nat_init_def parse_config_text[OF assms] Let_def)

theorem config_roundtrip_witness:
  "\<exists>t. nat_init [sample_iface\<lparr>if_name := ''n1-eth0''\<rparr>] (Some (config_text ''n1-eth0'' ''n1-eth1''
      [\<lparr> ru_external_ip = 0x9FE2272B, ru_external_port = 8000, ru_internal_ip = 0x0A150001, ru_internal_port = 80 \<rparr>])) fresh_nat = Some t \<and>
    nt_rules t = [\<lparr> ru_external_ip = 0x9FE2272B, ru_external_port = 8000, ru_internal_ip = 0x0A150001, ru_internal_port = 80 \<rparr>] \<and>
    nt_internal t = Some (sample_iface\<lparr>if_name := ''n1-eth0''\<rparr>) \<and> nt_external t = None \<and> \<not> nt_locked t"
proof -
  have n: "name_ok ''n1-eth0''" "name_ok ''n1-eth1''" by (simp_all add: name_ok_def is_space_def)
  have f: "if_name_to_iface [sample_iface\<lparr>if_name := ''n1-eth0''\<rparr>] ''n1-eth0'' = Some (sample_iface\<lparr>if_name := ''n1-eth0''\<rparr>)"
    "if_name_to_iface [sample_iface\<lparr>if_name := ''n1-eth0''\<rparr>] ''n1-eth1'' = None" by (simp_all add: if_name_to_iface_def)
  show ?thesis using config_roundtrip[OF n, of "[sample_iface\<lparr>if_name := ''n1-eth0''\<rparr>]"] unfolding f by blast
qed

text \<open>A configuration that names an interface the machine does not have is accepted, and the first
  packet to be translated makes the program follow the missing interface.\<close>

theorem unknown_iface_crashes:
  assumes "name_ok inn" "name_ok out" "if_name_to_iface ifs inn = None \<or> if_name_to_iface ifs out = None"
  shows "\<exists>t. nat_init ifs (Some (config_text inn out rules)) s = Some t \<and> nat_translate_packet lpm p t = None"
proof -
  obtain t where t: "nat_init ifs (Some (config_text inn out rules)) s = Some t"
    "nt_internal t = if_name_to_iface ifs inn" "nt_external t = if_name_to_iface ifs out"
    by (simp add: nat_init_def parse_config_text[OF assms(1,2)] Let_def)
  with assms(3) have "get_packet_direction lpm p t = None" by (auto simp: get_packet_direction_def Let_def bind_eq_None_conv)
  with t(1) show ?thesis by (simp add: nat_translate_packet_def)
qed

theorem unknown_iface_crashes_witness:
  "\<exists>t. nat_init [sample_iface\<lparr>if_name := ''n1-eth0''\<rparr>] (Some (config_text ''n1-eth0'' ''n1-eth1'' [])) fresh_nat = Some t \<and>
    nat_translate_packet (\<lambda>_. Some sample_iface) (replicate 60 0) t = None"
  by (rule unknown_iface_crashes) (simp_all add: name_ok_def is_space_def if_name_to_iface_def)

end
