(* ===== verification/Checksum_Variants.thy ===== *)
theory Checksum_Variants
  imports Checksum
begin

text \<open>
  The two other \<open>checksum\<close> functions of the repository, compared with the one of the stack:
  \<open>prj07/include/checksum.h\<close> adds a last odd byte first and folds twice, \<open>prj08/include/checksum.h\<close>
  folds twice before it adds the last odd byte.
\<close>

text \<open>The words of a buffer of even length, as the pointer of the loops walks over them.\<close>

fun sum_words :: "bytes \<Rightarrow> u32 \<Rightarrow> u32" where
  "sum_words (a # b # rest) s = sum_words rest (s + ucast (le16_dec a b))"
| "sum_words _ s = s"

definition fold_twice :: "u32 \<Rightarrow> u32" where
  "fold_twice s = (let s = drop_bit 16 s + (s AND 0xFFFF) in s + drop_bit 16 s)"

definition checksum07 :: "bytes \<Rightarrow> u32 \<Rightarrow> u16" where
  "checksum07 buf s =
     (let (buf, s) = (if odd (length buf) then (butlast buf, s + ucast (last buf)) else (buf, s))
      in NOT (ucast (fold_twice (sum_words buf s))))"

definition checksum08 :: "bytes \<Rightarrow> u32 \<Rightarrow> u16" where
  "checksum08 buf s =
     (let s = fold_twice (sum_words buf s)
      in NOT (ucast (if odd (length buf) then s + ucast (last buf) else s)))"

lemma sum_words_add: "sum_words b (s + t) = sum_words b s + t"
  by (induction b s rule: sum_words.induct) (simp_all add: ac_simps)

lemma checksum_words_split:
  "checksum_words b s = sum_words (if odd (length b) then butlast b else b) (if odd (length b) then s + ucast (last b) else s)"
proof (induction b s rule: checksum_words.induct)
  case (1 a b rest s)
  then show ?case
    by (cases rest) (auto simp: sum_words_add[symmetric] ac_simps)
qed simp_all

text \<open>Two folds are enough: after the first the sum is below twice \<open>2 ^ 16\<close>.\<close>

lemma fold_twice_fold: "ucast (fold_twice s) = (ucast (checksum_fold s) :: u16)"
proof -
  define f where "f = drop_bit 16 s + (s AND 0xFFFF)"
  have uf: "unat f = unat s div 65536 + unat s mod 65536" by (simp add: f_def unat_fold_step)
  have low: "unat (ucast w :: u16) = unat w mod 65536" for w :: u32
    by (simp only: unsigned_ucast_eq) (simp add: take_bit_eq_mod)
  have us: "unat s < 65536 * 65536" using unsigned_less[of s] by simp
  then have h: "unat s div 65536 \<le> 65535" using div_le_mono[of "unat s" "65536 * 65536 - 1" 65536] by simp
  have m: "unat s mod 65536 \<le> 65535" by simp
  have t: "fold_twice s = f + drop_bit 16 f" by (simp add: fold_twice_def f_def Let_def)
  have "unat (fold_twice s) = (unat f + unat f div 65536) mod 2 ^ 32"
    unfolding t by (simp add: unat_word_ariths unat_high_half)
  also have "\<dots> = unat f + unat f div 65536" using uf h m by simp
  finally have ft: "unat (fold_twice s) = unat f + unat f div 65536" .
  have "unat (checksum_fold s) mod 65536 = (unat f + unat f div 65536) mod 65536"
  proof (cases "unat s < 65536")
    case True
    then show ?thesis using uf by (simp add: checksum_fold.simps[of s] drop_bit_16_eq_0)
  next
    case False
    then have s: "checksum_fold s = checksum_fold f" by (simp add: checksum_fold.simps[of s] drop_bit_16_eq_0 f_def)
    show ?thesis
    proof (cases "unat f < 65536")
      case True
      then show ?thesis by (simp add: s checksum_fold.simps[of f] drop_bit_16_eq_0)
    next
      case False
      define g where "g = drop_bit 16 f + (f AND 0xFFFF)"
      have "unat f \<le> 131070" using uf h m by simp
      then have q: "unat f div 65536 = 1" "unat f mod 65536 = unat f - 65536" using False by (simp_all add: mod_if div_if)
      have "unat g = unat f - 65535" using q False by (simp add: g_def unat_fold_step)
      moreover have "unat f - 65535 < 65536" using \<open>unat f \<le> 131070\<close> False by linarith
      ultimately have "unat (checksum_fold f) = unat f - 65535"
        using False by (simp add: checksum_fold.simps[of f] checksum_fold.simps[of g] drop_bit_16_eq_0 flip: g_def)
      moreover have "(unat f + 1) mod 65536 = unat f - 65535" using False \<open>unat f \<le> 131070\<close> by (simp add: mod_if)
      ultimately show ?thesis using \<open>unat f - 65535 < 65536\<close> by (simp add: s q)
    qed
  qed
  then show ?thesis by (intro word_unat_eq_iff[THEN iffD2]) (simp only: low ft)
qed

section \<open>Properties\<close>

text \<open>The checksum of prj07, which folds exactly twice, is the checksum of the stack, which
  folds until nothing is left to fold, on every buffer and every initial sum; the one of prj08
  agrees on buffers of even length.\<close>

theorem checksums_agree:
  "checksum07 b s = checksum b s \<and> (odd (length b) \<or> checksum08 b s = checksum b s)"
  by (auto simp: checksum07_def checksum08_def checksum_def Let_def fold_twice_fold checksum_words_split)

text \<open>On a buffer of odd length the checksum of prj08 can lose the carry of the last byte,
  because it adds the byte after folding: the one's complement sum of \<open>FF FF 01\<close> is 1.\<close>

theorem checksum08_loses_carry: "checksum08 [0xFF, 0xFF, 1] 0 = 0xFFFF \<and> checksum [0xFF, 0xFF, 1] 0 = 0xFFFE"
  by (simp add: checksum08_def checksum_def fold_twice_def le16_dec_def be16_dec_def checksum_fold.simps)

theorem checksums_agree_witness: "checksum08 [1, 2] 0 = checksum [1, 2] 0"
  using checksums_agree[of "[1, 2]" 0] by simp

end
