(* ===== verification/Mospf_Proto.thy ===== *)
theory Mospf_Proto
  imports Headers Checksum_Variants
begin

text \<open>
  The mOSPF messages of prj08 (\<open>mospf_proto.c\<close>, \<open>include/mospf_proto.h\<close>): the packed structures as
  header codecs, the functions that fill them, and the checksum over the message.
\<close>

definition MOSPF_VERSION :: u8 where "MOSPF_VERSION = 2"
definition MOSPF_ALLSPFRouters :: u32 where "MOSPF_ALLSPFRouters = 0xE0000005"
definition MOSPF_TYPE_HELLO :: u8 where "MOSPF_TYPE_HELLO = 1"
definition MOSPF_TYPE_LSU :: u8 where "MOSPF_TYPE_LSU = 4"
definition MOSPF_DEFAULT_HELLOINT :: u16 where "MOSPF_DEFAULT_HELLOINT = 5"
definition MOSPF_DATABASE_TIMEOUT :: int where "MOSPF_DATABASE_TIMEOUT = 40"
definition MOSPF_MAX_LSU_TTL :: u8 where "MOSPF_MAX_LSU_TTL = 255"
definition IPPROTO_MOSPF :: u8 where "IPPROTO_MOSPF = 90"

definition MOSPF_HDR_SIZE :: nat where "MOSPF_HDR_SIZE = 16"
definition MOSPF_HELLO_SIZE :: nat where "MOSPF_HELLO_SIZE = 8"
definition MOSPF_LSU_SIZE :: nat where "MOSPF_LSU_SIZE = 8"
definition MOSPF_LSA_SIZE :: nat where "MOSPF_LSA_SIZE = 12"

lemmas mospf_sizes = MOSPF_HDR_SIZE_def MOSPF_HELLO_SIZE_def MOSPF_LSU_SIZE_def MOSPF_LSA_SIZE_def

section \<open>Structures\<close>

record mospf_hdr =
  mo_version :: u8
  mo_type :: u8
  mo_len :: u16
  mo_rid :: u32
  mo_aid :: u32
  mo_cksum :: u16
  mo_padding :: u16

record mospf_hello =
  he_mask :: u32
  he_helloint :: u16
  he_padding :: u16

record mospf_lsu =
  lu_seq :: u16
  lu_ttl :: u8
  lu_unused :: u8
  lu_nadv :: u32

record mospf_lsa =
  la_network :: u32
  la_mask :: u32
  la_rid :: u32

definition mohdr_dec :: "bytes \<Rightarrow> mospf_hdr" where
  "mohdr_dec b = \<lparr> mo_version = b ! 0, mo_type = b ! 1, mo_len = u16_at b 2, mo_rid = u32_at b 4,
     mo_aid = u32_at b 8, mo_cksum = u16_at b 12, mo_padding = u16_at b 14 \<rparr>"

definition mohdr_enc :: "mospf_hdr \<Rightarrow> bytes" where
  "mohdr_enc h = [mo_version h, mo_type h] @ le16_enc (mo_len h) @ le32_enc (mo_rid h) @ le32_enc (mo_aid h)
     @ le16_enc (mo_cksum h) @ le16_enc (mo_padding h)"

definition hello_dec :: "bytes \<Rightarrow> mospf_hello" where
  "hello_dec b = \<lparr> he_mask = u32_at b 0, he_helloint = u16_at b 4, he_padding = u16_at b 6 \<rparr>"

definition hello_enc :: "mospf_hello \<Rightarrow> bytes" where
  "hello_enc h = le32_enc (he_mask h) @ le16_enc (he_helloint h) @ le16_enc (he_padding h)"

definition lsu_dec :: "bytes \<Rightarrow> mospf_lsu" where
  "lsu_dec b = \<lparr> lu_seq = u16_at b 0, lu_ttl = b ! 2, lu_unused = b ! 3, lu_nadv = u32_at b 4 \<rparr>"

definition lsu_enc :: "mospf_lsu \<Rightarrow> bytes" where
  "lsu_enc h = le16_enc (lu_seq h) @ [lu_ttl h, lu_unused h] @ le32_enc (lu_nadv h)"

definition lsa_dec :: "bytes \<Rightarrow> mospf_lsa" where
  "lsa_dec b = \<lparr> la_network = u32_at b 0, la_mask = u32_at b 4, la_rid = u32_at b 8 \<rparr>"

definition lsa_enc :: "mospf_lsa \<Rightarrow> bytes" where
  "lsa_enc h = le32_enc (la_network h) @ le32_enc (la_mask h) @ le32_enc (la_rid h)"

lemmas mospf_wire = mohdr_dec_def mohdr_enc_def hello_dec_def hello_enc_def lsu_dec_def lsu_enc_def lsa_dec_def lsa_enc_def

lemma length_mospf_enc [simp]:
  "length (mohdr_enc h) = 16" "length (hello_enc he) = 8" "length (lsu_enc lu) = 8" "length (lsa_enc la) = 12"
  by (simp_all add: mospf_wire le16_enc_def le32_enc_def)

lemma mospf_dec_enc:
  "mohdr_dec (mohdr_enc h) = h" "hello_dec (hello_enc he) = he" "lsu_dec (lsu_enc lu) = lu" "lsa_dec (lsa_enc la) = la"
  by (cases h, simp add: mospf_wire u16_at_def u32_at_def le16_enc_def le32_enc_def codec_simps)
    (cases he; cases lu; cases la; simp add: mospf_wire u16_at_def u32_at_def le16_enc_def le32_enc_def codec_simps)+

lemma upt_16: "[0..<16] = [0,1,2,3,4,5,6,7,8,9,10,11,12,13,14,15]" and upt_12: "[0..<12] = [0,1,2,3,4,5,6,7,8,9,10,11]"
  by code_simp+

lemma mohdr_enc_dec: "length b = 16 \<Longrightarrow> mohdr_enc (mohdr_dec b) = b"
  by (subst (2) list_expand[of b 16]) (simp_all add: mospf_wire codec_simps upt_16 numeral_2_eq_2 numeral_3_eq_3)

lemma hello_enc_dec: "length b = 8 \<Longrightarrow> hello_enc (hello_dec b) = b"
  by (subst (2) list_expand[of b 8]) (simp_all add: mospf_wire codec_simps upt_8 numeral_2_eq_2 numeral_3_eq_3)

lemma lsu_enc_dec: "length b = 8 \<Longrightarrow> lsu_enc (lsu_dec b) = b"
  by (subst (2) list_expand[of b 8]) (simp_all add: mospf_wire codec_simps upt_8 numeral_2_eq_2 numeral_3_eq_3)

lemma lsa_enc_dec: "length b = 12 \<Longrightarrow> lsa_enc (lsa_dec b) = b"
  by (subst (2) list_expand[of b 12]) (simp_all add: mospf_wire codec_simps upt_12 numeral_2_eq_2 numeral_3_eq_3)

definition get_mohdr :: "bytes \<Rightarrow> nat \<Rightarrow> mospf_hdr option" where
  "get_mohdr p off = map_option mohdr_dec (ld_bytes p off MOSPF_HDR_SIZE)"

definition put_mohdr :: "bytes \<Rightarrow> nat \<Rightarrow> mospf_hdr \<Rightarrow> bytes option" where
  "put_mohdr p off h = st_bytes p off (mohdr_enc h)"

definition get_hello :: "bytes \<Rightarrow> nat \<Rightarrow> mospf_hello option" where
  "get_hello p off = map_option hello_dec (ld_bytes p off MOSPF_HELLO_SIZE)"

definition put_hello :: "bytes \<Rightarrow> nat \<Rightarrow> mospf_hello \<Rightarrow> bytes option" where
  "put_hello p off h = st_bytes p off (hello_enc h)"

definition get_lsu :: "bytes \<Rightarrow> nat \<Rightarrow> mospf_lsu option" where
  "get_lsu p off = map_option lsu_dec (ld_bytes p off MOSPF_LSU_SIZE)"

definition put_lsu :: "bytes \<Rightarrow> nat \<Rightarrow> mospf_lsu \<Rightarrow> bytes option" where
  "put_lsu p off h = st_bytes p off (lsu_enc h)"

definition get_lsa :: "bytes \<Rightarrow> nat \<Rightarrow> mospf_lsa option" where
  "get_lsa p off = map_option lsa_dec (ld_bytes p off MOSPF_LSA_SIZE)"

definition put_lsa :: "bytes \<Rightarrow> nat \<Rightarrow> mospf_lsa \<Rightarrow> bytes option" where
  "put_lsa p off h = st_bytes p off (lsa_enc h)"

interpretation mohdr: hdr_codec mohdr_dec mohdr_enc MOSPF_HDR_SIZE get_mohdr put_mohdr
  by unfold_locales (auto simp: mospf_dec_enc mohdr_enc_dec mospf_sizes get_mohdr_def put_mohdr_def)

interpretation hello: hdr_codec hello_dec hello_enc MOSPF_HELLO_SIZE get_hello put_hello
  by unfold_locales (auto simp: mospf_dec_enc hello_enc_dec mospf_sizes get_hello_def put_hello_def)

interpretation lsu: hdr_codec lsu_dec lsu_enc MOSPF_LSU_SIZE get_lsu put_lsu
  by unfold_locales (auto simp: mospf_dec_enc lsu_enc_dec mospf_sizes get_lsu_def put_lsu_def)

interpretation lsa: hdr_codec lsa_dec lsa_enc MOSPF_LSA_SIZE get_lsa put_lsa
  by unfold_locales (auto simp: mospf_dec_enc lsa_enc_dec mospf_sizes get_lsa_def put_lsa_def)

section \<open>Filling the structures\<close>

text \<open>The checksum field keeps what the memory held.\<close>

definition mospf_init_hdr :: "bytes \<Rightarrow> nat \<Rightarrow> u8 \<Rightarrow> u16 \<Rightarrow> u32 \<Rightarrow> u32 \<Rightarrow> bytes option" where
  "mospf_init_hdr p off type len rid aid = do {
     h \<leftarrow> get_mohdr p off;
     put_mohdr p off (h\<lparr>mo_version := MOSPF_VERSION, mo_type := type, mo_len := htons len, mo_rid := htonl rid,
       mo_aid := htonl aid, mo_padding := 0\<rparr>) }"

definition mospf_init_hello :: "bytes \<Rightarrow> nat \<Rightarrow> u32 \<Rightarrow> bytes option" where
  "mospf_init_hello p off msk =
     put_hello p off \<lparr> he_mask = htonl msk, he_helloint = htons MOSPF_DEFAULT_HELLOINT, he_padding = 0 \<rparr>"

definition mospf_init_lsu :: "bytes \<Rightarrow> nat \<Rightarrow> u16 \<Rightarrow> u32 \<Rightarrow> bytes option" where
  "mospf_init_lsu p off sequence_num nadv =
     put_lsu p off \<lparr> lu_seq = htons sequence_num, lu_ttl = MOSPF_MAX_LSU_TTL, lu_unused = 0, lu_nadv = htonl nadv \<rparr>"

definition mospf_checksum :: "bytes \<Rightarrow> nat \<Rightarrow> u16 option" where
  "mospf_checksum p off = do {
     h \<leftarrow> get_mohdr p off;
     p0 \<leftarrow> put_mohdr p off (h\<lparr>mo_cksum := 0\<rparr>);
     b \<leftarrow> ld_bytes p0 off (unat (ntohs (mo_len h)));
     Some (checksum08 b 0) }"

text \<open>\<open>mhdr->checksum = mospf_checksum (mhdr)\<close>.\<close>

definition mospf_seal :: "bytes \<Rightarrow> nat \<Rightarrow> bytes option" where
  "mospf_seal p off = do {
     ck \<leftarrow> mospf_checksum p off;
     h \<leftarrow> get_mohdr p off;
     put_mohdr p off (h\<lparr>mo_cksum := ck\<rparr>) }"

section \<open>Messages in a packet\<close>

lemma mospf_init_hdr_at:
  "off = length us \<Longrightarrow> mospf_init_hdr (us @ mohdr_enc m @ x) off type len rid aid =
     Some (us @ mohdr_enc (m\<lparr>mo_version := MOSPF_VERSION, mo_type := type, mo_len := htons len, mo_rid := htonl rid,
       mo_aid := htonl aid, mo_padding := 0\<rparr>) @ x)"
  by (simp add: mospf_init_hdr_def mohdr.get_append mohdr.put_append)

text \<open>The checksum over header and body.\<close>

definition mo_ck :: "mospf_hdr \<Rightarrow> bytes \<Rightarrow> u16" where
  "mo_ck h x = checksum08 (mohdr_enc (h\<lparr>mo_cksum := 0\<rparr>) @ x) 0"

lemma mo_ck_own [simp]: "mo_ck (h\<lparr>mo_cksum := c\<rparr>) x = mo_ck h x"
  by (simp add: mo_ck_def)

lemma mospf_checksum_at:
  assumes "off = length us" "ntohs (mo_len h) = of_nat (16 + length x)" "length x < 65520"
  shows "mospf_checksum (us @ mohdr_enc h @ x) off = Some (mo_ck h x)"
proof -
  have "unat (ntohs (mo_len h)) = 16 + length x"
    unfolding assms(2) by (simp only: unsigned_of_nat) (use assms(3) in \<open>simp add: take_bit_nat_eq_self\<close>)
  then show ?thesis using assms(1)
    by (simp add: mospf_checksum_def mohdr.get_append mohdr.put_append ld_bytes_def mo_ck_def)
qed

lemma mospf_seal_at:
  assumes "off = length us" "ntohs (mo_len h) = of_nat (16 + length x)" "length x < 65520"
  shows "mospf_seal (us @ mohdr_enc h @ x) off = Some (us @ mohdr_enc (h\<lparr>mo_cksum := mo_ck h x\<rparr>) @ x)"
  unfolding mospf_seal_def mospf_checksum_at[OF assms] bind.bind_lunit
  using assms(1) by (simp add: mohdr.get_append mohdr.put_append)

text \<open>The header of a message the router sends, in a block that held \<open>m\<close>.\<close>

definition mo_header :: "mospf_hdr \<Rightarrow> u8 \<Rightarrow> u32 \<Rightarrow> bytes \<Rightarrow> mospf_hdr" where
  "mo_header m type rid x =
     (let h = m\<lparr>mo_version := MOSPF_VERSION, mo_type := type, mo_len := htons (of_nat (16 + length x)), mo_rid := htonl rid,
        mo_aid := htonl 0, mo_padding := 0\<rparr> in h\<lparr>mo_cksum := mo_ck h x\<rparr>)"

lemma mo_header_simps [simp]:
  "mo_version (mo_header m type rid x) = MOSPF_VERSION" "mo_type (mo_header m type rid x) = type"
  "mo_len (mo_header m type rid x) = htons (of_nat (16 + length x))" "mo_rid (mo_header m type rid x) = htonl rid"
  "mo_aid (mo_header m type rid x) = htonl 0" "mo_ck (mo_header m type rid x) x = mo_cksum (mo_header m type rid x)"
  by (simp_all add: mo_header_def Let_def)

end
