(* ===== verification/Mospf_Daemon.thy ===== *)
theory Mospf_Daemon
  imports Mospf_Proto Arp_Cache
begin

text \<open>
  The mOSPF daemon of prj08 (\<open>mospf_daemon.c\<close>, \<open>mospf_nbr.h\<close>, \<open>mospf_database.h\<close>, \<open>handle_ip_packet\<close> in
  \<open>ip.c\<close>): neighbours learnt from Hello messages, link state updates and the database of what other
  routers advertise. Every thread body is one round between lock and unlock. An interface is named
  by its position in the list, a database entry by its address, so that an entry can be freed while
  a pointer to it remains. \<open>ip_send_packet\<close>, \<open>ip_forward_packet\<close> and \<open>icmp_send_packet\<close> belong to the
  binary \<open>libipstack.a\<close>: their calls are recorded as output. Memory from \<open>malloc\<close> holds arbitrary
  bytes. The headers of IP have even length, on which both checksum functions agree, so the
  definitions of the stack's IP header are used.
\<close>

section \<open>State\<close>

record mospf_nbr =
  nb_id :: u32
  nb_ip :: u32
  nb_mask :: u32
  nb_alive :: u8

record mospf_if =
  mi_if :: iface
  mi_helloint :: int
  mi_num_nbr :: int
  mi_nbrs :: "mospf_nbr list"

record db_entry =
  de_rid :: u32
  de_seq :: u16
  de_nadv :: int
  de_alive :: int
  de_map :: int
  de_array :: "mospf_lsa list"

record mtx_map =
  sl_entry :: nat
  sl_valid :: bool
  sl_dist :: int
  sl_gw :: u32
  sl_iface :: nat

record net_info =
  ni_network :: u32
  ni_mask :: u32
  ni_value :: int

datatype mospf_out = OutFrame iface bytes | OutIp bytes | OutForward u32 bytes | OutIcmp bytes u8 u8

record mospf =
  ms_ifs :: "mospf_if list"
  ms_area_id :: u32
  ms_router_id :: u32
  ms_sequence_num :: u16
  ms_db :: "(nat \<times> db_entry) list"
  ms_next :: nat
  ms_path :: "nat \<Rightarrow> nat \<Rightarrow> net_info"
  ms_record :: "mtx_map list"
  ms_sup :: nat
  ms_start :: nat
  ms_rtable :: rtable
  ms_out :: "mospf_out list"
  ms_rnd :: "nat \<Rightarrow> u16"
  ms_junk :: "nat \<Rightarrow> u8"
  ms_pos :: nat

definition MAX_NODES :: nat where "MAX_NODES = 10"
definition NODE_ADD :: int where "NODE_ADD = 10"
definition NODE_DELETE :: int where "NODE_DELETE = - 10"

definition mo_emit :: "mospf_out \<Rightarrow> mospf \<Rightarrow> mospf" where
  "mo_emit a s = s\<lparr>ms_out := ms_out s @ [a]\<rparr>"

definition mo_malloc :: "nat \<Rightarrow> mospf \<Rightarrow> bytes \<times> mospf" where
  "mo_malloc n s = (map (\<lambda>k. ms_junk s (ms_pos s + k)) [0..<n], s\<lparr>ms_pos := ms_pos s + n\<rparr>)"

definition mo_rand :: "mospf \<Rightarrow> u16 \<times> mospf" where
  "mo_rand s = (ms_rnd s (ms_pos s), s\<lparr>ms_pos := ms_pos s + 1\<rparr>)"

section \<open>Start\<close>

definition init_mospf_db :: "mospf \<Rightarrow> mospf" where
  "init_mospf_db s = s\<lparr>ms_db := [], ms_record := map (\<lambda>r. r\<lparr>sl_valid := False\<rparr>) (ms_record s),
     ms_start := ms_start s + length (ms_rtable s)\<rparr>"

text \<open>The neighbour counters stay as \<open>bzero\<close> left them.\<close>

definition mospf_init :: "mospf \<Rightarrow> mospf option" where
  "mospf_init s =
     (case ms_ifs s of
        [] \<Rightarrow> None
      | f # _ \<Rightarrow> Some (init_mospf_db (s\<lparr>ms_area_id := 0, ms_router_id := if_ip (mi_if f), ms_sequence_num := 0,
          ms_ifs := map (\<lambda>f. f\<lparr>mi_helloint := uint MOSPF_DEFAULT_HELLOINT, mi_nbrs := []\<rparr>) (ms_ifs s)\<rparr>)))"

section \<open>Hello messages\<close>

text \<open>What both senders do with a packet whose body is written: the mOSPF header and its checksum, the IP
  header and its checksum.\<close>

definition mospf_wrap :: "u8 \<Rightarrow> u32 \<Rightarrow> u16 \<Rightarrow> u32 \<Rightarrow> u32 \<Rightarrow> bytes \<Rightarrow> bytes option" where
  "mospf_wrap type rid r sip dip p = do {
     let mo = ETHER_HDR_SIZE + IP_BASE_HDR_SIZE;
     p \<leftarrow> mospf_init_hdr p mo type (of_nat (length p - mo)) rid 0;
     p \<leftarrow> mospf_seal p mo;
     p \<leftarrow> ip_init_hdr r p ETHER_HDR_SIZE sip dip (of_nat (length p - ETHER_HDR_SIZE)) IPPROTO_MOSPF;
     ck \<leftarrow> ip_checksum p ETHER_HDR_SIZE;
     ih \<leftarrow> get_ip p ETHER_HDR_SIZE;
     put_ip p ETHER_HDR_SIZE (ih\<lparr>ip_cksum := ck\<rparr>) }"

text \<open>Bytes 1, 3 and 4 of the destination address are never written.\<close>

definition send_hello :: "mospf_if \<Rightarrow> mospf \<Rightarrow> mospf option" where
  "send_hello f s = do {
     let len = ETHER_HDR_SIZE + IP_BASE_HDR_SIZE + MOSPF_HDR_SIZE + MOSPF_HELLO_SIZE;
     let mo = ETHER_HDR_SIZE + IP_BASE_HDR_SIZE;
     let (p, s) = mo_malloc len s;
     p \<leftarrow> mospf_init_hello p (mo + MOSPF_HDR_SIZE) (if_mask (mi_if f));
     let (r, s) = mo_rand s;
     p \<leftarrow> mospf_wrap MOSPF_TYPE_HELLO (ms_router_id s) r (if_ip (mi_if f)) MOSPF_ALLSPFRouters p;
     p \<leftarrow> st_bytes p 0 [0x01];
     p \<leftarrow> st_bytes p 2 [0x5e];
     p \<leftarrow> st_bytes p 5 [0x05];
     p \<leftarrow> st_bytes p 6 (mac_bytes (if_mac (mi_if f)));
     p \<leftarrow> st_bytes p 12 (le16_enc (htons 0x0800));
     Some (mo_emit (OutFrame (mi_if f) p) s) }"

fun send_hellos :: "mospf_if list \<Rightarrow> mospf \<Rightarrow> mospf option" where
  "send_hellos [] s = Some s"
| "send_hellos (f # fs) s = do { s \<leftarrow> send_hello f s; send_hellos fs s }"

definition sending_mospf_hello :: "mospf \<Rightarrow> mospf option" where
  "sending_mospf_hello s = send_hellos (ms_ifs s) s"

text \<open>\<open>alive\<close> is an unsigned byte: it is not positive only when it is zero.\<close>

definition age_nbr :: "mospf_nbr \<Rightarrow> mospf_nbr" where
  "age_nbr n = n\<lparr>nb_alive := nb_alive n - 3\<rparr>"

definition check_nbrs :: "mospf_if \<Rightarrow> mospf_if" where
  "check_nbrs f =
     (let aged = map age_nbr (mi_nbrs f); keep = filter (\<lambda>n. \<not> unat (nb_alive n) \<le> 0) aged
      in f\<lparr>mi_nbrs := keep, mi_num_nbr := mi_num_nbr f - int (length (filter (\<lambda>n. unat (nb_alive n) \<le> 0) aged))\<rparr>)"

definition checking_nbr :: "mospf \<Rightarrow> mospf" where
  "checking_nbr s = s\<lparr>ms_ifs := map check_nbrs (ms_ifs s)\<rparr>"

definition handle_mospf_hello :: "nat \<Rightarrow> bytes \<Rightarrow> mospf \<Rightarrow> mospf option" where
  "handle_mospf_hello k p s = do {
     let mo = ETHER_HDR_SIZE + IP_BASE_HDR_SIZE;
     mh \<leftarrow> get_mohdr p mo;
     let srid = ntohl (mo_rid mh);
     if length (ms_ifs s) \<le> k then None else do {
       let f = ms_ifs s ! k;
       let alive = (of_int (3 * mi_helloint f) :: u8);
       if \<exists>n\<in>set (mi_nbrs f). nb_id n = srid
       then Some (s\<lparr>ms_ifs := (ms_ifs s)[k := f\<lparr>mi_nbrs :=
         upd_first (\<lambda>n. nb_id n = srid) (\<lambda>n. n\<lparr>nb_alive := alive\<rparr>) (mi_nbrs f)\<rparr>]\<rparr>)
       else do {
         ih \<leftarrow> get_ip p ETHER_HDR_SIZE;
         he \<leftarrow> get_hello p (mo + MOSPF_HDR_SIZE);
         let n = \<lparr> nb_id = srid, nb_ip = ntohl (saddr ih), nb_mask = ntohl (he_mask he), nb_alive = alive \<rparr>;
         Some (s\<lparr>ms_ifs := (ms_ifs s)[k := f\<lparr>mi_nbrs := mi_nbrs f @ [n], mi_num_nbr := mi_num_nbr f + 1\<rparr>]\<rparr>) } } }"

section \<open>Link state updates\<close>

text \<open>What the router advertises: its neighbours, or the bare network of an interface without any.\<close>

definition adverts_of :: "mospf_if \<Rightarrow> mospf_lsa list" where
  "adverts_of f =
     (if mi_num_nbr f = 0
      then [\<lparr> la_network = htonl (if_ip (mi_if f) AND if_mask (mi_if f)), la_mask = htonl (if_mask (mi_if f)), la_rid = htonl 0 \<rparr>]
      else map (\<lambda>n. \<lparr> la_network = htonl (nb_ip n AND nb_mask n), la_mask = htonl (nb_mask n), la_rid = htonl (nb_id n) \<rparr>) (mi_nbrs f))"

definition count_adverts :: "mospf_if list \<Rightarrow> u32" where
  "count_adverts fs = foldl (\<lambda>a f. a + to_u32 (mi_num_nbr f) + (if mi_num_nbr f = 0 then 1 else 0)) 0 fs"

definition send_lsu :: "bytes \<Rightarrow> u32 \<Rightarrow> mospf_if \<Rightarrow> mospf_nbr \<Rightarrow> mospf \<Rightarrow> mospf option" where
  "send_lsu lsas nadv f n s = do {
     let mo = ETHER_HDR_SIZE + IP_BASE_HDR_SIZE;
     let lu = mo + MOSPF_HDR_SIZE;
     let len = lu + MOSPF_LSU_SIZE + length lsas;
     let (p, s) = mo_malloc len s;
     p \<leftarrow> st_bytes p (lu + MOSPF_LSU_SIZE) lsas;
     p \<leftarrow> mospf_init_lsu p lu (ms_sequence_num s) nadv;
     let (r, s) = mo_rand s;
     p \<leftarrow> mospf_wrap MOSPF_TYPE_LSU (ms_router_id s) r (if_ip (mi_if f)) (nb_ip n) p;
     Some (mo_emit (OutIp p) s) }"

fun send_lsus :: "bytes \<Rightarrow> u32 \<Rightarrow> (mospf_if \<times> mospf_nbr) list \<Rightarrow> mospf \<Rightarrow> mospf option" where
  "send_lsus lsas nadv [] s = Some s"
| "send_lsus lsas nadv ((f, n) # rest) s = do { s \<leftarrow> send_lsu lsas nadv f n s; send_lsus lsas nadv rest s }"

text \<open>The interfaces with a neighbour, each with every neighbour.\<close>

definition lsu_targets :: "mospf_if list \<Rightarrow> (mospf_if \<times> mospf_nbr) list" where
  "lsu_targets fs = concat (map (\<lambda>f. if mi_num_nbr f \<noteq> 0 then map (Pair f) (mi_nbrs f) else []) fs)"

definition sending_mospf_lsu :: "mospf \<Rightarrow> mospf option" where
  "sending_mospf_lsu s = do {
     let nadv = count_adverts (ms_ifs s);
     let (buf, s) = mo_malloc (unat (of_nat MOSPF_LSA_SIZE * nadv)) s;
     lsas \<leftarrow> st_bytes buf 0 (concat (map lsa_enc (concat (map adverts_of (ms_ifs s)))));
     s \<leftarrow> send_lsus lsas nadv (lsu_targets (ms_ifs s)) s;
     Some (s\<lparr>ms_sequence_num := ms_sequence_num s + 1\<rparr>) }"

text \<open>The loop that copies the advertisements, in host order.\<close>

fun read_lsas :: "bytes \<Rightarrow> nat \<Rightarrow> nat \<Rightarrow> mospf_lsa list option" where
  "read_lsas p off 0 = Some []"
| "read_lsas p off (Suc n) = do {
     a \<leftarrow> get_lsa p off;
     as \<leftarrow> read_lsas p (off + MOSPF_LSA_SIZE) n;
     Some (\<lparr> la_network = ntohl (la_network a), la_mask = ntohl (la_mask a), la_rid = ntohl (la_rid a) \<rparr> # as) }"

text \<open>The copies for the other interfaces: the source address is written into the packet itself.\<close>

fun flood_nbrs :: "bytes \<Rightarrow> mospf_nbr list \<Rightarrow> mospf \<Rightarrow> mospf option" where
  "flood_nbrs p [] s = Some s"
| "flood_nbrs p (n # ns) s = do {
     ih \<leftarrow> get_ip p ETHER_HDR_SIZE;
     c \<leftarrow> put_ip p ETHER_HDR_SIZE (ih\<lparr>daddr := htonl (nb_ip n)\<rparr>);
     ck \<leftarrow> ip_checksum c ETHER_HDR_SIZE;
     ih \<leftarrow> get_ip c ETHER_HDR_SIZE;
     c \<leftarrow> put_ip c ETHER_HDR_SIZE (ih\<lparr>ip_cksum := ck\<rparr>);
     flood_nbrs p ns (mo_emit (OutIp c) s) }"

fun flood_ifs :: "iface \<Rightarrow> bytes \<Rightarrow> mospf_if list \<Rightarrow> mospf \<Rightarrow> mospf option" where
  "flood_ifs in_ifc p [] s = Some s"
| "flood_ifs in_ifc p (f # fs) s =
     (if if_index (mi_if f) = if_index in_ifc then flood_ifs in_ifc p fs s
      else do {
        ih \<leftarrow> get_ip p ETHER_HDR_SIZE;
        p \<leftarrow> put_ip p ETHER_HDR_SIZE (ih\<lparr>saddr := htonl (if_ip (mi_if f))\<rparr>);
        s \<leftarrow> (if mi_num_nbr f \<noteq> 0 then flood_nbrs p (mi_nbrs f) s else Some s);
        flood_ifs in_ifc p fs s })"

definition db_store :: "u32 \<Rightarrow> (db_entry \<Rightarrow> db_entry) \<Rightarrow> mospf \<Rightarrow> mospf" where
  "db_store rid f s =
     (if \<exists>(a, e)\<in>set (ms_db s). de_rid e = rid
      then s\<lparr>ms_db := upd_first (\<lambda>(a, e). de_rid e = rid) (map_prod id f) (ms_db s)\<rparr>
      else s\<lparr>ms_db := ms_db s @ [(ms_next s, f \<lparr> de_rid = rid, de_seq = 0, de_nadv = 0, de_alive = 0, de_map = NODE_ADD, de_array = [] \<rparr>)],
             ms_next := ms_next s + 1\<rparr>)"

text \<open>\<open>nadv\<close> is stored in an \<open>int\<close>: a negative one copies nothing. \<open>ttl\<close> is an unsigned byte.\<close>

definition handle_mospf_lsu :: "nat \<Rightarrow> bytes \<Rightarrow> mospf \<Rightarrow> mospf option" where
  "handle_mospf_lsu k p s = do {
     let mo = ETHER_HDR_SIZE + IP_BASE_HDR_SIZE;
     let lu = mo + MOSPF_HDR_SIZE;
     mh \<leftarrow> get_mohdr p mo;
     let rid = ntohl (mo_rid mh);
     if rid = ms_router_id s then Some s else do {
       l \<leftarrow> get_lsu p lu;
       if \<exists>e. List.find (\<lambda>(a, e). de_rid e = rid) (ms_db s) = Some e \<and> ntohs (lu_seq l) \<le> de_seq (snd e) then Some s
       else do {
         let nadv = sint (ntohl (lu_nadv l));
         lsas \<leftarrow> read_lsas p (lu + MOSPF_LSU_SIZE) (nat nadv);
         let s = db_store rid (\<lambda>e. e\<lparr>de_seq := ntohs (lu_seq l), de_nadv := nadv,
           de_alive := MOSPF_DATABASE_TIMEOUT, de_array := lsas\<rparr>) s;
         ih \<leftarrow> get_ip p ETHER_HDR_SIZE;
         p \<leftarrow> put_ip p ETHER_HDR_SIZE (ih\<lparr>ttl := ttl ih - 1\<rparr>);
         if int (unat (ttl ih - 1)) \<ge> 0 then do {
           if length (ms_ifs s) \<le> k then None else flood_ifs (mi_if (ms_ifs s ! k)) p (ms_ifs s) s }
         else Some s } } }"

text \<open>Expired entries are marked; every round that finds them expired marks them again.\<close>

definition age_db_entry :: "db_entry \<Rightarrow> db_entry" where
  "age_db_entry e = (let e = e\<lparr>de_alive := de_alive e - 5\<rparr>
     in if de_alive e \<le> 0 then e\<lparr>de_map := NODE_DELETE - de_map e\<rparr> else e)"

definition checking_database :: "mospf \<Rightarrow> mospf" where
  "checking_database s = s\<lparr>ms_db := map (map_prod id age_db_entry) (ms_db s)\<rparr>"

section \<open>Dispatch\<close>

definition handle_mospf_packet :: "nat \<Rightarrow> bytes \<Rightarrow> mospf \<Rightarrow> mospf option" where
  "handle_mospf_packet k p s = do {
     ih \<leftarrow> get_ip p ETHER_HDR_SIZE;
     let mo = ETHER_HDR_SIZE + ip_hdr_size ih;
     mh \<leftarrow> get_mohdr p mo;
     if mo_version mh \<noteq> MOSPF_VERSION then Some s
     else do {
       ck \<leftarrow> mospf_checksum p mo;
       if mo_cksum mh \<noteq> ck then Some s
       else if ntohl (mo_aid mh) \<noteq> ms_area_id s then Some s
       else if mo_type mh = MOSPF_TYPE_HELLO then handle_mospf_hello k p s
       else if mo_type mh = MOSPF_TYPE_LSU then handle_mospf_lsu k p s
       else Some s } }"

definition mospf_handle_ip_packet :: "nat \<Rightarrow> bytes \<Rightarrow> mospf \<Rightarrow> mospf option" where
  "mospf_handle_ip_packet k p s = do {
     ih \<leftarrow> get_ip p ETHER_HDR_SIZE;
     if length (ms_ifs s) \<le> k then None else do {
       let da = ntohl (daddr ih);
       if da = if_ip (mi_if (ms_ifs s ! k)) then
         (if protocol ih = 1 then do {
            t \<leftarrow> ld_bytes p (ETHER_HDR_SIZE + ip_hdr_size ih) 1;
            Some (if hd t = 8 then mo_emit (OutIcmp p 0 0) s else s) }
          else if protocol ih = IPPROTO_MOSPF then handle_mospf_packet k p s else Some s)
       else if daddr ih = htonl MOSPF_ALLSPFRouters then
         (if protocol ih = IPPROTO_MOSPF then handle_mospf_packet k p s else None)
       else Some (mo_emit (OutForward da p) s) } }"

section \<open>Messages on the wire\<close>

lemma message_cases:
  assumes "length p = 50 + n"
  obtains e ih mh x where "p = e @ iphdr_enc ih @ mohdr_enc mh @ x" "length e = 14" "length x = n"
proof
  have "drop 14 p = take 20 (drop 14 p) @ drop 34 p" "drop 34 p = take 16 (drop 34 p) @ drop 50 p"
    using append_take_drop_id[of 20 "drop 14 p"] append_take_drop_id[of 16 "drop 34 p"] by simp_all
  then have "p = take 14 p @ take 20 (drop 14 p) @ take 16 (drop 34 p) @ drop 50 p"
    using append_take_drop_id[of 14 p] by simp
  then show "p = take 14 p @ iphdr_enc (iphdr_dec (take 20 (drop 14 p))) @ mohdr_enc (mohdr_dec (take 16 (drop 34 p))) @ drop 50 p"
    using assms by (simp add: iphdr_enc_dec mohdr_enc_dec)
qed (use assms in simp_all)

lemma st_bytes_front: "off + length b \<le> length e \<Longrightarrow> st_bytes (e @ rest) off b = Some (blit off b e @ rest)"
  by (simp add: st_bytes_def blit_def)

text \<open>A message of the daemon: any Ethernet header, the IP header, the mOSPF header and its body.\<close>

definition message :: "bytes \<Rightarrow> iphdr \<Rightarrow> mospf_hdr \<Rightarrow> u8 \<Rightarrow> u32 \<Rightarrow> bytes \<Rightarrow> bytes" where
  "message e ih mh type rid x = e @ iphdr_enc ih @ mohdr_enc (mo_header mh type rid x) @ x"

lemma message_parts:
  assumes "length e = 14" "length x < 65520"
  shows "get_ip (message e ih mh type rid x) ETHER_HDR_SIZE = Some ih"
    "get_mohdr (message e ih mh type rid x) (ETHER_HDR_SIZE + IP_BASE_HDR_SIZE) = Some (mo_header mh type rid x)"
    "mospf_checksum (message e ih mh type rid x) (ETHER_HDR_SIZE + IP_BASE_HDR_SIZE) = Some (mo_cksum (mo_header mh type rid x))"
    "length (message e ih mh type rid x) = 50 + length x"
proof -
  let ?h = "mo_header mh type rid x"
  show "get_ip (message e ih mh type rid x) ETHER_HDR_SIZE = Some ih"
    using ip.get_append[of ETHER_HDR_SIZE e ih "mohdr_enc ?h @ x"] assms(1) by (simp add: message_def hdr_sizes)
  have o: "ETHER_HDR_SIZE + IP_BASE_HDR_SIZE = length (e @ iphdr_enc ih)" using assms(1) by (simp add: hdr_sizes)
  show "get_mohdr (message e ih mh type rid x) (ETHER_HDR_SIZE + IP_BASE_HDR_SIZE) = Some ?h"
    using mohdr.get_append[OF o, of ?h x] by (simp add: message_def)
  have "ntohs (mo_len ?h) = of_nat (16 + length x)" by simp
  from mospf_checksum_at[OF o this assms(2)]
  show "mospf_checksum (message e ih mh type rid x) (ETHER_HDR_SIZE + IP_BASE_HDR_SIZE) = Some (mo_cksum ?h)"
    by (simp add: message_def)
  show "length (message e ih mh type rid x) = 50 + length x" using assms(1) by (simp add: message_def)
qed

text \<open>The headers the senders write around a body.\<close>

lemma mospf_wrap_message:
  assumes "length p0 = 50" "length x < 65486"
  shows "\<exists>e ih mh. length e = 14 \<and> mospf_wrap type rid r sip dip (p0 @ x) = Some (message e ih mh type rid x) \<and>
    saddr ih = htonl sip \<and> daddr ih = htonl dip \<and> protocol ih = IPPROTO_MOSPF \<and> ihl ih = 5"
proof -
  have "length (p0 @ x) = 50 + length x" using assms(1) by simp
  then obtain e ih mh x0 where p: "p0 @ x = e @ iphdr_enc ih @ mohdr_enc mh @ x0" "length e = 14" "length x0 = length x"
    by (rule message_cases)
  have x0: "x0 = x" using arg_cong[OF p(1), of "drop 50"] assms(1) p(2) by simp
  have ln: "length (p0 @ x) - (ETHER_HDR_SIZE + IP_BASE_HDR_SIZE) = 16 + length x" using assms(1) by (simp add: hdr_sizes)
  have xl: "length x < 65520" using assms(2) by simp
  let ?h = "mh\<lparr>mo_version := MOSPF_VERSION, mo_type := type, mo_len := htons (of_nat (16 + length x)), mo_rid := htonl rid,
       mo_aid := htonl 0, mo_padding := 0\<rparr>"
  have o: "ETHER_HDR_SIZE + IP_BASE_HDR_SIZE = length (e @ iphdr_enc ih)" using p(2) by (simp add: hdr_sizes)
  have 1: "p0 @ x = (e @ iphdr_enc ih) @ mohdr_enc mh @ x" using p(1) x0 by simp
  note 2 = mospf_init_hdr_at[OF o, of mh x type "of_nat (16 + length x)" rid 0]
  have "ntohs (mo_len ?h) = of_nat (16 + length x)" by simp
  note 3 = mospf_seal_at[OF o this]
  have 4: "(e @ iphdr_enc ih) @ mohdr_enc (?h\<lparr>mo_cksum := mo_ck ?h x\<rparr>) @ x = e @ iphdr_enc ih @ mohdr_enc (mo_header mh type rid x) @ x"
    by (simp add: mo_header_def Let_def)
  have e: "ETHER_HDR_SIZE = length e" using p(2) by (simp add: hdr_sizes)
  define tlen where "tlen = (of_nat (length (e @ iphdr_enc ih @ mohdr_enc (mo_header mh type rid x) @ x) - ETHER_HDR_SIZE) :: u16)"
  let ?ih = "ip_header_of r ih sip dip tlen IPPROTO_MOSPF"
  note 5 = ip_init_hdr_on[of r e ih "mohdr_enc (mo_header mh type rid x) @ x" sip dip tlen IPPROTO_MOSPF, folded e]
  have "ihl ?ih = 5" by (simp add: ip_header_of_def Let_def)
  note 6 = ip_checksum_at[OF this, of e "mohdr_enc (mo_header mh type rid x) @ x", folded e]
  have 7: "?ih\<lparr>ip_cksum := checksum (iphdr_enc (?ih\<lparr>ip_cksum := 0\<rparr>)) 0\<rparr> = ?ih" by (simp add: ip_header_of_def Let_def)
  have 8: "put_ip (e @ iphdr_enc ?ih @ rest) ETHER_HDR_SIZE ?ih = Some (e @ iphdr_enc ?ih @ rest)" for rest
    using ip.put_append[OF e] .
  have "mospf_wrap type rid r sip dip (p0 @ x) = Some (message e ?ih mh type rid x)"
    unfolding mospf_wrap_def Let_def ln
    unfolding 1 2 bind.bind_lunit 3[OF xl] 4 tlen_def[symmetric] 5 6 ip.get_append[OF e] 7 8 message_def ..
  moreover have "saddr ?ih = htonl sip" "daddr ?ih = htonl dip" "protocol ?ih = IPPROTO_MOSPF" "ihl ?ih = 5"
    by (simp_all add: ip_header_of_def Let_def)
  ultimately show ?thesis using p(2) by blast
qed

lemma message_front:
  "off + length b \<le> length e \<Longrightarrow> st_bytes (message e ih mh type rid x) off b = Some (message (blit off b e) ih mh type rid x)"
  unfolding message_def by (rule st_bytes_front)

lemma mo_malloc_frame [simp]:
  "fst (mo_malloc n s) = map (\<lambda>k. ms_junk s (ms_pos s + k)) [0..<n]" "length (fst (mo_malloc n s)) = n"
  "ms_out (snd (mo_malloc n s)) = ms_out s" "ms_router_id (snd (mo_malloc n s)) = ms_router_id s"
  "ms_sequence_num (snd (mo_malloc n s)) = ms_sequence_num s" "ms_ifs (snd (mo_malloc n s)) = ms_ifs s"
  by (simp_all add: mo_malloc_def)

lemma mo_rand_frame [simp]:
  "ms_out (snd (mo_rand s)) = ms_out s" "ms_router_id (snd (mo_rand s)) = ms_router_id s"
  "ms_sequence_num (snd (mo_rand s)) = ms_sequence_num s" "ms_ifs (snd (mo_rand s)) = ms_ifs s"
  by (simp_all add: mo_rand_def)

text \<open>The Hello an interface sends.\<close>

lemma send_hello_message:
  "\<exists>e ih mh s'. length e = 14 \<and> saddr ih = htonl (if_ip (mi_if f)) \<and> daddr ih = htonl MOSPF_ALLSPFRouters \<and>
     protocol ih = IPPROTO_MOSPF \<and> ihl ih = 5 \<and> ms_out s' = ms_out s \<and>
     send_hello f s = Some (mo_emit (OutFrame (mi_if f) (message e ih mh MOSPF_TYPE_HELLO (ms_router_id s)
       (hello_enc \<lparr> he_mask = htonl (if_mask (mi_if f)), he_helloint = htons MOSPF_DEFAULT_HELLOINT, he_padding = 0 \<rparr>))) s')"
proof -
  let ?he = "\<lparr> he_mask = htonl (if_mask (mi_if f)), he_helloint = htons MOSPF_DEFAULT_HELLOINT, he_padding = 0 \<rparr>"
  obtain p s1 where m: "mo_malloc 58 s = (p, s1)" by (cases "mo_malloc 58 s")
  then have s1: "length p = 58" "ms_out s1 = ms_out s" "ms_router_id s1 = ms_router_id s"
    using mo_malloc_frame[of 58 s] by auto
  obtain r s2 where r: "mo_rand s1 = (r, s2)" by (cases "mo_rand s1")
  then have s2: "ms_out s2 = ms_out s" "ms_router_id s2 = ms_router_id s" using mo_rand_frame[of s1] s1 by auto
  have h: "mospf_init_hello p 50 (if_mask (mi_if f)) = Some (take 50 p @ hello_enc ?he)"
    using s1(1) by (simp add: mospf_init_hello_def put_hello_def st_bytes_def blit_def)
  obtain e ih mh where w: "length e = 14" "mospf_wrap MOSPF_TYPE_HELLO (ms_router_id s) r (if_ip (mi_if f)) MOSPF_ALLSPFRouters (take 50 p @ hello_enc ?he) =
      Some (message e ih mh MOSPF_TYPE_HELLO (ms_router_id s) (hello_enc ?he))"
    "saddr ih = htonl (if_ip (mi_if f))" "daddr ih = htonl MOSPF_ALLSPFRouters" "protocol ih = IPPROTO_MOSPF" "ihl ih = 5"
    using mospf_wrap_message[of "take 50 p" "hello_enc ?he" MOSPF_TYPE_HELLO "ms_router_id s" r "if_ip (mi_if f)" MOSPF_ALLSPFRouters] s1(1)
    by auto
  have mac: "length (mac_bytes m) = 6" for m by (cases m) simp
  let ?msg = "\<lambda>e. message e ih mh MOSPF_TYPE_HELLO (ms_router_id s) (hello_enc ?he)"
  define e' where "e' = blit 12 (le16_enc (htons 0x0800)) (blit 6 (mac_bytes (if_mac (mi_if f))) (blit 5 [0x05] (blit 2 [0x5e] (blit 0 [0x01] e))))"
  have l: "length (blit 0 [0x01] e) = 14" "length (blit 2 [0x5e] (blit 0 [0x01] e)) = 14"
    "length (blit 5 [0x05] (blit 2 [0x5e] (blit 0 [0x01] e))) = 14"
    "length (blit 6 (mac_bytes (if_mac (mi_if f))) (blit 5 [0x05] (blit 2 [0x5e] (blit 0 [0x01] e)))) = 14" "length e' = 14"
    using w(1) by (simp_all add: e'_def length_blit mac)
  have f1: "st_bytes (?msg e) 0 [0x01] = Some (?msg (blit 0 [0x01] e))" using w(1) by (intro message_front) simp
  have f2: "st_bytes (?msg (blit 0 [0x01] e)) 2 [0x5e] = Some (?msg (blit 2 [0x5e] (blit 0 [0x01] e)))" using l by (intro message_front) simp
  have f3: "st_bytes (?msg (blit 2 [0x5e] (blit 0 [0x01] e))) 5 [0x05] = Some (?msg (blit 5 [0x05] (blit 2 [0x5e] (blit 0 [0x01] e))))"
    using l by (intro message_front) simp
  have f4: "st_bytes (?msg (blit 5 [0x05] (blit 2 [0x5e] (blit 0 [0x01] e)))) 6 (mac_bytes (if_mac (mi_if f))) =
      Some (?msg (blit 6 (mac_bytes (if_mac (mi_if f))) (blit 5 [0x05] (blit 2 [0x5e] (blit 0 [0x01] e)))))"
    using l by (intro message_front) (simp add: mac)
  have f5: "st_bytes (?msg (blit 6 (mac_bytes (if_mac (mi_if f))) (blit 5 [0x05] (blit 2 [0x5e] (blit 0 [0x01] e))))) 12 (le16_enc (htons 0x0800)) = Some (?msg e')"
    unfolding e'_def using l by (intro message_front) simp
  have sz: "ETHER_HDR_SIZE + IP_BASE_HDR_SIZE + MOSPF_HDR_SIZE = 50" "50 + MOSPF_HELLO_SIZE = 58"
    by (simp_all add: hdr_sizes mospf_sizes)
  have "send_hello f s = Some (mo_emit (OutFrame (mi_if f) (?msg e')) s2)"
    unfolding send_hello_def Let_def sz m prod.case h bind.bind_lunit r s1(3) s2(2) w(2) f1 f2 f3 f4 f5 ..
  with w(3-) l(5) s2(1) show ?thesis by blast
qed

lemma message_hello:
  assumes "length e = 14"
  shows "get_hello (message e ih mh type rid (hello_enc he)) (ETHER_HDR_SIZE + IP_BASE_HDR_SIZE + MOSPF_HDR_SIZE) = Some he"
  using hello.get_append[of "ETHER_HDR_SIZE + IP_BASE_HDR_SIZE + MOSPF_HDR_SIZE" "e @ iphdr_enc ih @ mohdr_enc (mo_header mh type rid (hello_enc he))" he "[]"]
    assms by (simp add: message_def hdr_sizes mospf_sizes)

section \<open>Properties\<close>

text \<open>Property C28. A Hello is understood by the router at the other end: the message an interface sends
  passes the version, checksum and area checks, and afterwards its sender is a neighbour with a
  full lifetime; a new neighbour is recorded with the address and mask of the sending interface.\<close>

theorem hello_makes_neighbour:
  assumes "k < length (ms_ifs nb)" "ms_area_id nb = 0" "if_ip (mi_if (ms_ifs nb ! k)) \<noteq> MOSPF_ALLSPFRouters"
  shows "\<exists>p s' nb'. send_hello f s = Some s' \<and> ms_out s' = ms_out s @ [OutFrame (mi_if f) p] \<and>
    mospf_handle_ip_packet k p nb = Some nb' \<and>
    (\<exists>n\<in>set (mi_nbrs (ms_ifs nb' ! k)). nb_id n = ms_router_id s \<and> nb_alive n = of_int (3 * mi_helloint (ms_ifs nb ! k)) \<and>
       (ms_router_id s \<in> nb_id ` set (mi_nbrs (ms_ifs nb ! k)) \<or> nb_ip n = if_ip (mi_if f) \<and> nb_mask n = if_mask (mi_if f)))"
proof -
  let ?he = "\<lparr> he_mask = htonl (if_mask (mi_if f)), he_helloint = htons MOSPF_DEFAULT_HELLOINT, he_padding = 0 \<rparr>"
  obtain e ih mh s' where m: "length e = 14" "saddr ih = htonl (if_ip (mi_if f))" "daddr ih = htonl MOSPF_ALLSPFRouters"
    "protocol ih = IPPROTO_MOSPF" "ihl ih = 5" "ms_out s' = ms_out s"
    "send_hello f s = Some (mo_emit (OutFrame (mi_if f) (message e ih mh MOSPF_TYPE_HELLO (ms_router_id s) (hello_enc ?he))) s')"
    using send_hello_message[of f s] by blast
  define p where "p = message e ih mh MOSPF_TYPE_HELLO (ms_router_id s) (hello_enc ?he)"
  have xl: "length (hello_enc ?he) < 65520" by simp
  note parts = message_parts[OF m(1) xl, of ih mh MOSPF_TYPE_HELLO "ms_router_id s", folded p_def]
  note he = message_hello[OF m(1), of ih mh MOSPF_TYPE_HELLO "ms_router_id s" ?he, folded p_def]
  have mo: "ETHER_HDR_SIZE + ip_hdr_size ih = ETHER_HDR_SIZE + IP_BASE_HDR_SIZE" using m(5) by (simp add: ip_hdr_size_def hdr_sizes)
  have disp: "mospf_handle_ip_packet k p nb = handle_mospf_hello k p nb"
    using assms m(3,4) by (simp add: mospf_handle_ip_packet_def parts(1) Let_def handle_mospf_packet_def mo parts(2,3))
  define hf where "hf = ms_ifs nb ! k"
  define al where "al = (of_int (3 * mi_helloint hf) :: u8)"
  define n where "n = \<lparr> nb_id = ms_router_id s, nb_ip = if_ip (mi_if f), nb_mask = if_mask (mi_if f), nb_alive = al \<rparr>"
  have c: "(\<exists>n\<in>set (mi_nbrs hf). nb_id n = ms_router_id s) \<longleftrightarrow> ms_router_id s \<in> nb_id ` set (mi_nbrs hf)" by force
  have hh: "handle_mospf_hello k p nb = (if ms_router_id s \<in> nb_id ` set (mi_nbrs hf)
      then Some (nb\<lparr>ms_ifs := (ms_ifs nb)[k := hf\<lparr>mi_nbrs := upd_first (\<lambda>n. nb_id n = ms_router_id s) (\<lambda>n. n\<lparr>nb_alive := al\<rparr>) (mi_nbrs hf)\<rparr>]\<rparr>)
      else Some (nb\<lparr>ms_ifs := (ms_ifs nb)[k := hf\<lparr>mi_nbrs := mi_nbrs hf @ [n], mi_num_nbr := mi_num_nbr hf + 1\<rparr>]\<rparr>))"
    using assms(1) by (simp add: handle_mospf_hello_def parts(1,2) he Let_def c al_def n_def m(2) flip: hf_def)
  obtain s'' where sent: "send_hello f s = Some s''" "ms_out s'' = ms_out s @ [OutFrame (mi_if f) p]"
    using m(6,7) by (simp add: p_def mo_emit_def)
  show ?thesis
  proof (cases "ms_router_id s \<in> nb_id ` set (mi_nbrs hf)")
    case True
    have "\<exists>n\<in>set (upd_first P u xs). \<exists>y. n = u y \<and> P y" if "\<exists>x\<in>set xs. P x" for P u and xs :: "mospf_nbr list"
      using that by (induction xs) auto
    from this[of "mi_nbrs hf" "\<lambda>n. nb_id n = ms_router_id s" "\<lambda>n. n\<lparr>nb_alive := al\<rparr>"] True c
    obtain q y where "q \<in> set (upd_first (\<lambda>n. nb_id n = ms_router_id s) (\<lambda>n. n\<lparr>nb_alive := al\<rparr>) (mi_nbrs hf))"
      "q = y\<lparr>nb_alive := al\<rparr>" "nb_id y = ms_router_id s" by blast
    then have q: "q \<in> set (upd_first (\<lambda>n. nb_id n = ms_router_id s) (\<lambda>n. n\<lparr>nb_alive := al\<rparr>) (mi_nbrs hf))"
      "nb_id q = ms_router_id s" "nb_alive q = al" by simp_all
    define nb' where "nb' = nb\<lparr>ms_ifs := (ms_ifs nb)[k := hf\<lparr>mi_nbrs := upd_first (\<lambda>n. nb_id n = ms_router_id s) (\<lambda>n. n\<lparr>nb_alive := al\<rparr>) (mi_nbrs hf)\<rparr>]\<rparr>"
    have "mospf_handle_ip_packet k p nb = Some nb'" unfolding disp hh nb'_def by (rule if_P[OF True])
    moreover have "q \<in> set (mi_nbrs (ms_ifs nb' ! k))" using q(1) assms(1) by (simp add: nb'_def)
    ultimately show ?thesis using sent q(2,3) True unfolding hf_def[symmetric] al_def[symmetric] by blast
  next
    case False
    define nb' where "nb' = nb\<lparr>ms_ifs := (ms_ifs nb)[k := hf\<lparr>mi_nbrs := mi_nbrs hf @ [n], mi_num_nbr := mi_num_nbr hf + 1\<rparr>]\<rparr>"
    have "mospf_handle_ip_packet k p nb = Some nb'" unfolding disp hh nb'_def by (rule if_not_P[OF False])
    moreover have "n \<in> set (mi_nbrs (ms_ifs nb' ! k))" using assms(1) by (simp add: nb'_def)
    moreover have "nb_id n = ms_router_id s" "nb_alive n = al" "nb_ip n = if_ip (mi_if f)" "nb_mask n = if_mask (mi_if f)" by (simp_all add: n_def)
    ultimately show ?thesis using sent unfolding hf_def[symmetric] al_def[symmetric] by blast
  qed
qed

definition quiet_if :: "u32 \<Rightarrow> mospf_if" where
  "quiet_if a = \<lparr> mi_if = sample_iface\<lparr>if_ip := a, if_mask := 0xFFFFFF00\<rparr>, mi_helloint = 5, mi_num_nbr = 0, mi_nbrs = [] \<rparr>"

definition quiet_router :: "u32 \<Rightarrow> mospf" where
  "quiet_router a = \<lparr> ms_ifs = [quiet_if a], ms_area_id = 0, ms_router_id = a, ms_sequence_num = 0, ms_db = [], ms_next = 0,
     ms_path = (\<lambda>_ _. \<lparr> ni_network = 0, ni_mask = 0, ni_value = 0 \<rparr>), ms_record = [], ms_sup = 0, ms_start = 0, ms_rtable = [],
     ms_out = [], ms_rnd = (\<lambda>_. 0), ms_junk = (\<lambda>_. 7), ms_pos = 0 \<rparr>"

theorem hello_makes_neighbour_witness:
  "\<exists>p s' nb'. send_hello (quiet_if 10) (quiet_router 10) = Some s' \<and> ms_out s' = [OutFrame (mi_if (quiet_if 10)) p] \<and>
    mospf_handle_ip_packet 0 p (quiet_router 11) = Some nb' \<and> nb_id ` set (mi_nbrs (ms_ifs nb' ! 0)) \<noteq> {}"
proof -
  have "0 < length (ms_ifs (quiet_router 11))" "ms_area_id (quiet_router 11) = 0"
    "if_ip (mi_if (ms_ifs (quiet_router 11) ! 0)) \<noteq> MOSPF_ALLSPFRouters"
    by (simp_all add: quiet_router_def quiet_if_def MOSPF_ALLSPFRouters_def)
  from hello_makes_neighbour[OF this, of "quiet_if 10" "quiet_router 10"]
  obtain p s' nb' n where "send_hello (quiet_if 10) (quiet_router 10) = Some s'"
    "ms_out s' = ms_out (quiet_router 10) @ [OutFrame (mi_if (quiet_if 10)) p]" "mospf_handle_ip_packet 0 p (quiet_router 11) = Some nb'"
    "n \<in> set (mi_nbrs (ms_ifs nb' ! 0))" by blast
  moreover have "ms_out (quiet_router 10) = []" by (simp add: quiet_router_def)
  ultimately show ?thesis by auto
qed

text \<open>The invariant of the neighbour tables, and the steps that change them.\<close>

definition nbrs_ok :: "mospf_if \<Rightarrow> bool" where
  "nbrs_ok f \<longleftrightarrow> mi_helloint f = 5 \<and> mi_num_nbr f = int (length (mi_nbrs f)) \<and> distinct (map nb_id (mi_nbrs f)) \<and>
     (\<forall>n\<in>set (mi_nbrs f). nb_alive n \<in> {3, 6, 9, 12, 15})"

inductive nbr_step :: "mospf \<Rightarrow> mospf \<Rightarrow> bool" where
  Hello: "handle_mospf_hello k p s = Some t \<Longrightarrow> nbr_step s t"
| Age: "nbr_step s (checking_nbr s)"

lemma alive_le [simp]: "unat (a :: u8) \<le> 0 \<longleftrightarrow> a = 0"
  by (simp add: unsigned_eq_0_iff)

lemma nbrs_ok_age: "nbrs_ok f \<Longrightarrow> nbrs_ok (check_nbrs f)"
proof -
  assume ok: "nbrs_ok f"
  let ?aged = "map age_nbr (mi_nbrs f)"
  have ids: "map nb_id ?aged = map nb_id (mi_nbrs f)" by (simp add: age_nbr_def)
  have "length (filter (\<lambda>n. nb_alive n \<noteq> 0) ?aged) + length (filter (\<lambda>n. nb_alive n = 0) ?aged) = length ?aged"
    using sum_length_filter_compl[of "\<lambda>n. nb_alive n \<noteq> 0" ?aged] by simp
  then have n: "int (length (mi_nbrs f)) - int (length (filter (\<lambda>n. nb_alive n = 0) ?aged)) = int (length (filter (\<lambda>n. nb_alive n \<noteq> 0) ?aged))"
    by simp
  have d: "distinct (map nb_id (filter P ?aged))" for P
    by (rule distinct_map_filter) (use ok in \<open>simp only: ids nbrs_ok_def\<close>)
  have a: "\<forall>n\<in>set (filter (\<lambda>n. nb_alive n \<noteq> 0) ?aged). nb_alive n \<in> {3, 6, 9, 12, 15}"
    using ok by (auto simp: nbrs_ok_def age_nbr_def)
  have "check_nbrs f = f\<lparr>mi_nbrs := filter (\<lambda>n. nb_alive n \<noteq> 0) ?aged,
      mi_num_nbr := mi_num_nbr f - int (length (filter (\<lambda>n. nb_alive n = 0) ?aged))\<rparr>"
    unfolding check_nbrs_def Let_def alive_le ..
  then show ?thesis using ok n d a unfolding nbrs_ok_def by simp
qed

lemma nbrs_ok_hello:
  assumes "\<forall>f\<in>set (ms_ifs s). nbrs_ok f" "handle_mospf_hello k p s = Some t"
  shows "\<forall>f\<in>set (ms_ifs t). nbrs_ok f"
proof -
  note h = assms(2)[unfolded handle_mospf_hello_def Let_def]
  from h obtain mh where mh: "get_mohdr p (ETHER_HDR_SIZE + IP_BASE_HDR_SIZE) = Some mh" by (rule opt_bindE)
  note h = h[unfolded mh bind.bind_lunit]
  let ?f = "ms_ifs s ! k" and ?rid = "ntohl (mo_rid mh)"
  have k: "k < length (ms_ifs s)" using h by (auto split: if_splits)
  then have ok: "nbrs_ok ?f" using assms(1) by simp
  then have al: "(of_int (3 * mi_helloint ?f) :: u8) = 15" by (simp add: nbrs_ok_def)
  have sub: "set ((ms_ifs s)[k := g]) \<subseteq> insert g (set (ms_ifs s))" for g by (rule set_update_subset_insert)
  show ?thesis
  proof (cases "\<exists>n\<in>set (mi_nbrs ?f). nb_id n = ?rid")
    case True
    let ?g = "?f\<lparr>mi_nbrs := upd_first (\<lambda>n. nb_id n = ?rid) (\<lambda>n. n\<lparr>nb_alive := 15\<rparr>) (mi_nbrs ?f)\<rparr>"
    from h k True have t: "ms_ifs t = (ms_ifs s)[k := ?g]" unfolding al by auto
    have "map nb_id (mi_nbrs ?g) = map nb_id (mi_nbrs ?f)" by (simp add: map_upd_first)
    moreover have "\<forall>n\<in>set (mi_nbrs ?g). nb_alive n \<in> {3, 6, 9, 12, 15}"
      using ok set_upd_first[of "\<lambda>n. nb_id n = ?rid" "\<lambda>n. n\<lparr>nb_alive := 15\<rparr>" "mi_nbrs ?f"] by (auto simp: nbrs_ok_def)
    ultimately have "nbrs_ok ?g" using ok by (simp add: nbrs_ok_def)
    with t sub[of ?g] assms(1) show ?thesis by auto
  next
    case False
    then obtain m n where t: "ms_ifs t = (ms_ifs s)[k := ?f\<lparr>mi_nbrs := mi_nbrs ?f @ [\<lparr> nb_id = ?rid, nb_ip = m, nb_mask = n, nb_alive = 15 \<rparr>],
        mi_num_nbr := mi_num_nbr ?f + 1\<rparr>]"
      using h k unfolding al by (auto elim!: opt_bindE)
    have "nbrs_ok (?f\<lparr>mi_nbrs := mi_nbrs ?f @ [\<lparr> nb_id = ?rid, nb_ip = m, nb_mask = n, nb_alive = 15 \<rparr>], mi_num_nbr := mi_num_nbr ?f + 1\<rparr>)"
      using ok False by (auto simp: nbrs_ok_def)
    with t sub assms(1) show ?thesis by auto
  qed
qed

lemma nbr_steps_ok: "nbr_step\<^sup>*\<^sup>* s t \<Longrightarrow> \<forall>f\<in>set (ms_ifs s). nbrs_ok f \<Longrightarrow> \<forall>f\<in>set (ms_ifs t). nbrs_ok f"
proof (induction rule: rtranclp_induct)
  case (step y z)
  from step(2) show ?case
  proof cases
    case (Hello k p)
    with step nbrs_ok_hello show ?thesis by blast
  next
    case Age
    with step nbrs_ok_age show ?thesis by (auto simp: checking_nbr_def)
  qed
qed

definition lifetimes :: "u8 set \<Rightarrow> mospf_if \<Rightarrow> bool" where
  "lifetimes A f \<longleftrightarrow> (\<forall>n\<in>set (mi_nbrs f). nb_alive n \<in> A)"

lemma lifetimes_age: "lifetimes A f \<Longrightarrow> lifetimes ((\<lambda>a. a - 3) ` A - {0}) (check_nbrs f)"
  unfolding lifetimes_def check_nbrs_def Let_def alive_le by (auto simp: age_nbr_def)

lemma silent_five_rounds:
  assumes "nbrs_ok f"
  shows "mi_nbrs ((check_nbrs ^^ 5) f) = []"
proof -
  have "lifetimes {3, 6, 9, 12, 15} f" using assms by (simp add: nbrs_ok_def lifetimes_def)
  from lifetimes_age[OF this] have "lifetimes {3, 6, 9, 12} (check_nbrs f)" by (simp add: insert_Diff_if)
  from lifetimes_age[OF this] have "lifetimes {3, 6, 9} (check_nbrs (check_nbrs f))" by (simp add: insert_Diff_if)
  from lifetimes_age[OF this] have "lifetimes {3, 6} (check_nbrs (check_nbrs (check_nbrs f)))" by (simp add: insert_Diff_if)
  from lifetimes_age[OF this] have "lifetimes {3} (check_nbrs (check_nbrs (check_nbrs (check_nbrs f))))" by (simp add: insert_Diff_if)
  from lifetimes_age[OF this] have "lifetimes {} (check_nbrs (check_nbrs (check_nbrs (check_nbrs (check_nbrs f)))))" by simp
  then have "lifetimes {} ((check_nbrs ^^ 5) f)" by (simp add: numeral_eq_Suc)
  then show ?thesis by (simp add: lifetimes_def)
qed

text \<open>Property C27. The neighbour tables stay consistent, and a silent neighbour is forgotten: in every state
  reached by Hellos and ageing rounds the counter of an interface is the number of its neighbours,
  no identifier is listed twice and a lifetime is a positive multiple of three up to fifteen; five
  rounds without a Hello empty every table.\<close>

theorem neighbours_stay_consistent_and_expire:
  assumes "mospf_init s0 = Some s" "\<forall>f\<in>set (ms_ifs s0). mi_num_nbr f = 0" "nbr_step\<^sup>*\<^sup>* s t"
  shows "(\<forall>f\<in>set (ms_ifs t). mi_num_nbr f = int (length (mi_nbrs f)) \<and> distinct (map nb_id (mi_nbrs f))) \<and>
    (\<forall>f\<in>set (ms_ifs ((checking_nbr ^^ 5) t)). mi_nbrs f = [])"
proof -
  have "\<forall>f\<in>set (ms_ifs s). nbrs_ok f"
    using assms(1,2) by (auto simp: mospf_init_def init_mospf_db_def nbrs_ok_def MOSPF_DEFAULT_HELLOINT_def split: list.splits)
  from nbr_steps_ok[OF assms(3) this] have ok: "\<forall>f\<in>set (ms_ifs t). nbrs_ok f" .
  have "ms_ifs ((checking_nbr ^^ n) t) = map (check_nbrs ^^ n) (ms_ifs t)" for n
    by (induction n) (simp_all add: checking_nbr_def)
  with ok silent_five_rounds show ?thesis by (auto simp: nbrs_ok_def)
qed

theorem neighbours_stay_consistent_and_expire_witness:
  "\<exists>s t. mospf_init (quiet_router 10) = Some s \<and> nbr_step\<^sup>*\<^sup>* s t \<and> length (ms_ifs t) = 1 \<and> mi_nbrs (hd (ms_ifs ((checking_nbr ^^ 5) t))) = []"
proof -
  obtain s where s: "mospf_init (quiet_router 10) = Some s" "length (ms_ifs s) = 1"
    by (simp add: mospf_init_def quiet_router_def init_mospf_db_def)
  have st: "nbr_step\<^sup>*\<^sup>* s (checking_nbr s)" by (rule r_into_rtranclp) (rule Age)
  have z: "\<forall>f\<in>set (ms_ifs (quiet_router 10)). mi_num_nbr f = 0" by (simp add: quiet_router_def quiet_if_def)
  have l: "length (ms_ifs ((checking_nbr ^^ n) (checking_nbr s))) = 1" for n
    using s(2) by (induction n) (simp_all add: checking_nbr_def)
  then have "hd (ms_ifs ((checking_nbr ^^ 5) (checking_nbr s))) \<in> set (ms_ifs ((checking_nbr ^^ 5) (checking_nbr s)))"
    by (intro hd_in_set) (metis list.size(3) zero_neq_one)
  with neighbours_stay_consistent_and_expire[OF s(1) z st] l[of 0] s(1) st show ?thesis by (auto intro: exI[of _ "checking_nbr s"])
qed

section \<open>Link state updates end to end\<close>

definition lsa_host :: "mospf_lsa \<Rightarrow> mospf_lsa" where
  "lsa_host a = \<lparr> la_network = ntohl (la_network a), la_mask = ntohl (la_mask a), la_rid = ntohl (la_rid a) \<rparr>"

lemma read_lsas_at: "off = length us \<Longrightarrow> read_lsas (us @ concat (map lsa_enc as)) off (length as) = Some (map lsa_host as)"
proof (induction as arbitrary: us off)
  case (Cons a as)
  have "get_lsa (us @ lsa_enc a @ concat (map lsa_enc as)) off = Some a" by (rule lsa.get_append[OF Cons.prems])
  moreover have "read_lsas ((us @ lsa_enc a) @ concat (map lsa_enc as)) (off + MOSPF_LSA_SIZE) (length as) = Some (map lsa_host as)"
    by (rule Cons.IH) (simp add: Cons.prems mospf_sizes)
  ultimately show ?case by (simp add: lsa_host_def)
qed simp

lemma flood_nbrs_on:
  assumes "length e = 14" "ihl ih = 5"
  shows "\<exists>t. flood_nbrs (e @ iphdr_enc ih @ rest) ns s = Some t \<and> ms_db t = ms_db s \<and> ms_ifs t = ms_ifs s \<and>
    (\<exists>xs. ms_out t = ms_out s @ xs \<and> length xs = length ns)"
proof (induction ns arbitrary: s)
  case (Cons n ns)
  have e: "ETHER_HDR_SIZE = length e" using assms(1) by (simp add: hdr_sizes)
  let ?ih = "ih\<lparr>daddr := htonl (nb_ip n)\<rparr>"
  have "ihl ?ih = 5" using assms(2) by simp
  note ck = ip_checksum_at[OF this, of e rest, folded e]
  from Cons[of "mo_emit (OutIp (e @ iphdr_enc (?ih\<lparr>ip_cksum := checksum (iphdr_enc (?ih\<lparr>ip_cksum := 0\<rparr>)) 0\<rparr>) @ rest)) s"]
  obtain t xs where "flood_nbrs (e @ iphdr_enc ih @ rest) (n # ns) s = Some t" "ms_db t = ms_db s" "ms_ifs t = ms_ifs s"
    "ms_out t = (ms_out s @ [OutIp (e @ iphdr_enc (?ih\<lparr>ip_cksum := checksum (iphdr_enc (?ih\<lparr>ip_cksum := 0\<rparr>)) 0\<rparr>) @ rest)]) @ xs" "length xs = length ns"
    unfolding flood_nbrs.simps ip.get_append[OF e] ip.put_append[OF e] ck bind.bind_lunit by (auto simp: mo_emit_def)
  then show ?case by (intro exI[of _ t] conjI exI[of _ "OutIp (e @ iphdr_enc (?ih\<lparr>ip_cksum := checksum (iphdr_enc (?ih\<lparr>ip_cksum := 0\<rparr>)) 0\<rparr>) @ rest) # xs"]) simp_all
qed simp

definition flood_count :: "iface \<Rightarrow> mospf_if list \<Rightarrow> nat" where
  "flood_count i fs = sum_list (map (\<lambda>f. if if_index (mi_if f) = if_index i \<or> mi_num_nbr f = 0 then 0 else length (mi_nbrs f)) fs)"

lemma flood_ifs_on:
  assumes "length e = 14" "ihl ih = 5"
  shows "\<exists>t xs. flood_ifs i (e @ iphdr_enc ih @ rest) fs s = Some t \<and> ms_db t = ms_db s \<and> ms_out t = ms_out s @ xs \<and> length xs = flood_count i fs"
  using assms(2)
proof (induction fs arbitrary: s ih)
  case Nil
  then show ?case by (simp add: flood_count_def)
next
  case (Cons f fs)
  have e: "ETHER_HDR_SIZE = length e" using assms(1) by (simp add: hdr_sizes)
  show ?case
  proof (cases "if_index (mi_if f) = if_index i")
    case True
    with Cons.IH[OF Cons.prems, of s] show ?thesis by (simp add: flood_count_def)
  next
    case False
    let ?ih = "ih\<lparr>saddr := htonl (if_ip (mi_if f))\<rparr>"
    have hl: "ihl ?ih = 5" using Cons.prems by simp
    obtain s1 xs where s1: "(if mi_num_nbr f \<noteq> 0 then flood_nbrs (e @ iphdr_enc ?ih @ rest) (mi_nbrs f) s else Some s) = Some s1"
      "ms_db s1 = ms_db s" "ms_out s1 = ms_out s @ xs" "length xs = (if mi_num_nbr f = 0 then 0 else length (mi_nbrs f))"
      using flood_nbrs_on[OF assms(1) hl, of rest "mi_nbrs f" s] by (cases "mi_num_nbr f = 0") auto
    obtain t ys where t: "flood_ifs i (e @ iphdr_enc ?ih @ rest) fs s1 = Some t" "ms_db t = ms_db s1" "ms_out t = ms_out s1 @ ys" "length ys = flood_count i fs"
      using Cons.IH[OF hl, of s1] by blast
    have "flood_ifs i (e @ iphdr_enc ih @ rest) (f # fs) s = Some t"
      unfolding flood_ifs.simps if_not_P[OF False] ip.get_append[OF e] ip.put_append[OF e] bind.bind_lunit s1(1) by (rule t(1))
    then show ?thesis using s1(2-) t(2-) False by (intro exI[of _ t] exI[of _ "xs @ ys"]) (simp add: flood_count_def)
  qed
qed

lemma db_store_has: "\<exists>a e. (a, f e) \<in> set (ms_db (db_store rid f s)) \<and> de_rid e = rid"
proof (cases "\<exists>(a, e)\<in>set (ms_db s). de_rid e = rid")
  case True
  have "\<exists>x. h x \<in> set (upd_first P h xs) \<and> P x" if "\<exists>x\<in>set xs. P x" for P h and xs :: "(nat \<times> db_entry) list"
    using that by (induction xs) auto
  from this[OF True, of "map_prod id f"] obtain a e where "(a, f e) \<in> set (upd_first (\<lambda>(a, e). de_rid e = rid) (map_prod id f) (ms_db s))" "de_rid e = rid"
    by auto
  then show ?thesis using True by (auto simp: db_store_def)
next
  case False
  then show ?thesis
    by (intro exI[of _ "ms_next s"] exI[of _ "\<lparr> de_rid = rid, de_seq = 0, de_nadv = 0, de_alive = 0, de_map = NODE_ADD, de_array = [] \<rparr>"])
      (simp add: db_store_def)
qed

text \<open>What an accepted update does, whatever time to live its packet has.\<close>

lemma handle_lsu_accepted:
  assumes "length e = 14" "ihl ih = 5" "length as < 5000" "lu_nadv lu = htonl (of_nat (length as))"
    and "k < length (ms_ifs nb)" "ms_area_id nb = 0" "ms_router_id nb \<noteq> rid"
    and "\<forall>(a, d)\<in>set (ms_db nb). de_rid d = rid \<longrightarrow> de_seq d < ntohs (lu_seq lu)"
  shows "\<exists>nb' xs a d. handle_mospf_packet k (message e ih mh MOSPF_TYPE_LSU rid (lsu_enc lu @ concat (map lsa_enc as))) nb = Some nb' \<and>
    ms_out nb' = ms_out nb @ xs \<and> length xs = flood_count (mi_if (ms_ifs nb ! k)) (ms_ifs nb) \<and>
    (a, d) \<in> set (ms_db nb') \<and> de_rid d = rid \<and> de_seq d = ntohs (lu_seq lu) \<and> de_nadv d = int (length as) \<and>
    de_alive d = MOSPF_DATABASE_TIMEOUT \<and> de_array d = map lsa_host as"
proof -
  let ?body = "lsu_enc lu @ concat (map lsa_enc as)"
  define p where "p = message e ih mh MOSPF_TYPE_LSU rid ?body"
  have "length (concat (map lsa_enc as)) = 12 * length as" by (induction as) simp_all
  then have bl: "length ?body < 65520" using assms(3) by simp
  note parts = message_parts[OF assms(1) bl, of ih mh MOSPF_TYPE_LSU rid, folded p_def]
  have mo: "ETHER_HDR_SIZE + ip_hdr_size ih = ETHER_HDR_SIZE + IP_BASE_HDR_SIZE" using assms(2) by (simp add: ip_hdr_size_def hdr_sizes)
  have o: "ETHER_HDR_SIZE + IP_BASE_HDR_SIZE + MOSPF_HDR_SIZE = length (e @ iphdr_enc ih @ mohdr_enc (mo_header mh MOSPF_TYPE_LSU rid ?body))"
    using assms(1) by (simp add: hdr_sizes mospf_sizes)
  have lu: "get_lsu p (ETHER_HDR_SIZE + IP_BASE_HDR_SIZE + MOSPF_HDR_SIZE) = Some lu"
    using lsu.get_append[OF o, of lu "concat (map lsa_enc as)"] by (simp add: p_def message_def)
  have as: "read_lsas p (ETHER_HDR_SIZE + IP_BASE_HDR_SIZE + MOSPF_HDR_SIZE + MOSPF_LSU_SIZE) (length as) = Some (map lsa_host as)"
    using read_lsas_at[of "ETHER_HDR_SIZE + IP_BASE_HDR_SIZE + MOSPF_HDR_SIZE + MOSPF_LSU_SIZE"
        "e @ iphdr_enc ih @ mohdr_enc (mo_header mh MOSPF_TYPE_LSU rid ?body) @ lsu_enc lu" as] assms(1)
    by (simp add: p_def message_def hdr_sizes mospf_sizes)
  have nadv: "sint (ntohl (lu_nadv lu)) = int (length as)" unfolding assms(4) htonl_htonl
    by (transfer fixing: as) (use assms(3) in \<open>simp add: signed_take_bit_int_eq_self\<close>)
  have ne: "MOSPF_TYPE_LSU \<noteq> MOSPF_TYPE_HELLO" by (simp add: MOSPF_TYPE_LSU_def MOSPF_TYPE_HELLO_def)
  have old: "\<not> (\<exists>x. List.find (\<lambda>(a, e). de_rid e = rid) (ms_db nb) = Some x \<and> ntohs (lu_seq lu) \<le> de_seq (snd x))"
    using assms(8) by (fastforce simp: find_Some_iff in_set_conv_nth)
  define upd where "upd = (\<lambda>e :: db_entry. e\<lparr>de_seq := ntohs (lu_seq lu), de_nadv := int (length as), de_alive := MOSPF_DATABASE_TIMEOUT, de_array := map lsa_host as\<rparr>)"
  define nb1 where "nb1 = db_store rid upd nb"
  have nb1: "ms_ifs nb1 = ms_ifs nb" "ms_out nb1 = ms_out nb" by (simp_all add: nb1_def db_store_def)
  let ?ih = "ih\<lparr>ttl := ttl ih - 1\<rparr>"
  have e: "ETHER_HDR_SIZE = length e" using assms(1) by (simp add: hdr_sizes)
  let ?rest = "mohdr_enc (mo_header mh MOSPF_TYPE_LSU rid ?body) @ ?body"
  have put: "put_ip p ETHER_HDR_SIZE ?ih = Some (e @ iphdr_enc ?ih @ ?rest)"
    unfolding p_def message_def by (rule ip.put_append[OF e])
  have "ihl ?ih = 5" using assms(2) by simp
  from flood_ifs_on[OF assms(1) this] obtain t xs where t: "flood_ifs (mi_if (ms_ifs nb ! k)) (e @ iphdr_enc ?ih @ ?rest) (ms_ifs nb) nb1 = Some t"
    "ms_db t = ms_db nb1" "ms_out t = ms_out nb1 @ xs" "length xs = flood_count (mi_if (ms_ifs nb ! k)) (ms_ifs nb)" by blast
  have "handle_mospf_lsu k p nb = Some t"
    using assms(5,7) old t(1)
    by (simp add: handle_mospf_lsu_def Let_def parts(1,2) lu nadv as put nb1(1) upd_def[symmetric] nb1_def[symmetric]
        del: split_paired_Ex split_paired_All) blast
  then have "handle_mospf_packet k p nb = Some t"
    using assms(6) ne by (simp add: handle_mospf_packet_def parts Let_def mo)
  moreover obtain a d where d: "(a, upd d) \<in> set (ms_db nb1)" "de_rid d = rid" using db_store_has unfolding nb1_def by blast
  moreover have "de_rid (upd d) = rid" "de_seq (upd d) = ntohs (lu_seq lu)" "de_nadv (upd d) = int (length as)"
    "de_alive (upd d) = MOSPF_DATABASE_TIMEOUT" "de_array (upd d) = map lsa_host as" using d(2) by (simp_all add: upd_def)
  ultimately show ?thesis using t(2-) nb1(2) unfolding p_def by auto
qed

text \<open>Link state information crosses the wire intact: the update a router sends its neighbour,
  with its advertisements, is accepted when its sequence number is newer, and the neighbour's
  database then holds the sender's identifier, sequence number and advertisements in host order.\<close>

theorem lsu_is_stored:
  assumes "length as < 5000" "k < length (ms_ifs nb)" "ms_area_id nb = 0" "ms_router_id nb \<noteq> ms_router_id s"
    and "\<forall>(a, d)\<in>set (ms_db nb). de_rid d = ms_router_id s \<longrightarrow> de_seq d < ms_sequence_num s"
  shows "\<exists>p s' nb' a d. send_lsu (concat (map lsa_enc as)) (of_nat (length as)) f n s = Some s' \<and> ms_out s' = ms_out s @ [OutIp p] \<and>
    handle_mospf_packet k p nb = Some nb' \<and> (a, d) \<in> set (ms_db nb') \<and> de_rid d = ms_router_id s \<and>
    de_seq d = ms_sequence_num s \<and> de_nadv d = int (length as) \<and> de_array d = map lsa_host as"
proof -
  let ?lsas = "concat (map lsa_enc as)"
  have ll: "length ?lsas = 12 * length as" by (induction as) simp_all
  let ?lu = "\<lparr> lu_seq = htons (ms_sequence_num s), lu_ttl = MOSPF_MAX_LSU_TTL, lu_unused = 0, lu_nadv = htonl (of_nat (length as)) \<rparr>"
  obtain p0 s1 where m: "mo_malloc (58 + length ?lsas) s = (p0, s1)" by (cases "mo_malloc (58 + length ?lsas) s")
  then have s1: "length p0 = 58 + length ?lsas" "ms_out s1 = ms_out s" "ms_router_id s1 = ms_router_id s" "ms_sequence_num s1 = ms_sequence_num s"
    using mo_malloc_frame[of "58 + length ?lsas" s] by auto
  obtain r s2 where r: "mo_rand s1 = (r, s2)" by (cases "mo_rand s1")
  then have s2: "ms_out s2 = ms_out s" "ms_router_id s2 = ms_router_id s" using mo_rand_frame[of s1] s1 by auto
  have st: "st_bytes p0 58 ?lsas = Some (take 58 p0 @ ?lsas)" using s1(1) by (simp add: st_bytes_def blit_def)
  have lu: "mospf_init_lsu (take 58 p0 @ ?lsas) 50 (ms_sequence_num s) (of_nat (length as)) = Some (take 50 p0 @ lsu_enc ?lu @ ?lsas)"
    using s1(1) by (simp add: mospf_init_lsu_def put_lsu_def st_bytes_def blit_def)
  have "length (lsu_enc ?lu @ ?lsas) < 65486" using ll assms(1) by simp
  then obtain e ih mh where w: "length e = 14" "mospf_wrap MOSPF_TYPE_LSU (ms_router_id s) r (if_ip (mi_if f)) (nb_ip n) (take 50 p0 @ lsu_enc ?lu @ ?lsas) =
      Some (message e ih mh MOSPF_TYPE_LSU (ms_router_id s) (lsu_enc ?lu @ ?lsas))" "ihl ih = 5"
    using mospf_wrap_message[of "take 50 p0" "lsu_enc ?lu @ ?lsas" MOSPF_TYPE_LSU "ms_router_id s" r "if_ip (mi_if f)" "nb_ip n"] s1(1)
    by auto
  have sz: "ETHER_HDR_SIZE + IP_BASE_HDR_SIZE + MOSPF_HDR_SIZE = 50" "50 + MOSPF_LSU_SIZE = 58" by (simp_all add: hdr_sizes mospf_sizes)
  have "send_lsu ?lsas (of_nat (length as)) f n s = Some (mo_emit (OutIp (message e ih mh MOSPF_TYPE_LSU (ms_router_id s) (lsu_enc ?lu @ ?lsas))) s2)"
    unfolding send_lsu_def Let_def sz m prod.case st bind.bind_lunit s1(4) lu r s2(2) s1(3) w(2) ..
  moreover have "\<forall>(a, d)\<in>set (ms_db nb). de_rid d = ms_router_id s \<longrightarrow> de_seq d < ntohs (lu_seq ?lu)" using assms(5) by simp
  from handle_lsu_accepted[OF w(1,3) assms(1) _ assms(2-4) this, of mh] obtain nb' a d where
    "handle_mospf_packet k (message e ih mh MOSPF_TYPE_LSU (ms_router_id s) (lsu_enc ?lu @ ?lsas)) nb = Some nb'"
    "(a, d) \<in> set (ms_db nb')" "de_rid d = ms_router_id s" "de_seq d = ms_sequence_num s" "de_nadv d = int (length as)"
    "de_array d = map lsa_host as" by auto
  ultimately show ?thesis using s2(1) unfolding mo_emit_def
    by (intro exI[of _ "message e ih mh MOSPF_TYPE_LSU (ms_router_id s) (lsu_enc ?lu @ ?lsas)"] exI[of _ nb'] exI[of _ a] exI[of _ d] exI conjI) (assumption | simp)+
qed

theorem lsu_is_stored_witness:
  "\<exists>p s' nb' a d. send_lsu (concat (map lsa_enc [\<lparr> la_network = htonl 0x0A000100, la_mask = htonl 0xFFFFFF00, la_rid = htonl 3 \<rparr>])) 1 (quiet_if 10)
      \<lparr> nb_id = 11, nb_ip = 11, nb_mask = 0xFFFFFF00, nb_alive = 15 \<rparr> (quiet_router 10) = Some s' \<and> ms_out s' = [OutIp p] \<and>
    handle_mospf_packet 0 p (quiet_router 11) = Some nb' \<and> (a, d) \<in> set (ms_db nb') \<and> de_rid d = 10 \<and>
    de_array d = [\<lparr> la_network = 0x0A000100, la_mask = 0xFFFFFF00, la_rid = 3 \<rparr>]"
proof -
  have "0 < length (ms_ifs (quiet_router 11))" "ms_area_id (quiet_router 11) = 0" "ms_router_id (quiet_router 11) \<noteq> ms_router_id (quiet_router 10)"
    "\<forall>(a, d)\<in>set (ms_db (quiet_router 11)). de_rid d = ms_router_id (quiet_router 10) \<longrightarrow> de_seq d < ms_sequence_num (quiet_router 10)"
    by (simp_all add: quiet_router_def)
  from lsu_is_stored[OF _ this, of "[\<lparr> la_network = htonl 0x0A000100, la_mask = htonl 0xFFFFFF00, la_rid = htonl 3 \<rparr>]" "quiet_if 10"
      "\<lparr> nb_id = 11, nb_ip = 11, nb_mask = 0xFFFFFF00, nb_alive = 15 \<rparr>"]
  show ?thesis by (simp add: lsa_host_def quiet_router_def[of 10] del: concat.simps) (metis (no_types, lifting))
qed

text \<open>The time to live does not bound the flooding of updates: the byte is decremented and
  compared with zero as an unsigned value, so an update that arrives with time to live zero is sent
  on to every neighbour of every other interface like any other.\<close>

theorem lsu_flooded_whatever_ttl:
  assumes "length e = 14" "ihl ih = 5" "length as < 5000" "lu_nadv lu = htonl (of_nat (length as))"
    and "k < length (ms_ifs nb)" "ms_area_id nb = 0" "ms_router_id nb \<noteq> rid"
    and "\<forall>(a, d)\<in>set (ms_db nb). de_rid d = rid \<longrightarrow> de_seq d < ntohs (lu_seq lu)"
  shows "\<exists>nb' xs. handle_mospf_packet k (message e (ih\<lparr>ttl := t\<rparr>) mh MOSPF_TYPE_LSU rid (lsu_enc lu @ concat (map lsa_enc as))) nb = Some nb' \<and>
    ms_out nb' = ms_out nb @ xs \<and> length xs = flood_count (mi_if (ms_ifs nb ! k)) (ms_ifs nb)"
proof -
  have "ihl (ih\<lparr>ttl := t\<rparr>) = 5" using assms(2) by simp
  from handle_lsu_accepted[OF assms(1) this assms(3-), of mh] show ?thesis by blast
qed

definition two_ports :: mospf where
  "two_ports = (quiet_router 10)\<lparr>ms_ifs := [quiet_if 10, (quiet_if 20)\<lparr>mi_if := (mi_if (quiet_if 20))\<lparr>if_index := 9\<rparr>, mi_num_nbr := 1,
     mi_nbrs := [\<lparr> nb_id = 21, nb_ip = 21, nb_mask = 0xFFFFFF00, nb_alive = 15 \<rparr>]\<rparr>]\<rparr>"

theorem lsu_flooded_whatever_ttl_witness:
  "\<exists>nb' xs. handle_mospf_packet 0 (message (replicate 14 0) ((iphdr_dec (replicate 20 0))\<lparr>ihl := 5, ttl := 0\<rparr>) (mohdr_dec (replicate 16 0)) MOSPF_TYPE_LSU 33
      (lsu_enc \<lparr> lu_seq = htons 1, lu_ttl = 0, lu_unused = 0, lu_nadv = htonl 0 \<rparr>)) two_ports = Some nb' \<and>
    ms_out nb' = xs \<and> length xs = 1"
proof -
  have h: "0 < length (ms_ifs two_ports)" "ms_area_id two_ports = 0" "ms_router_id two_ports \<noteq> 33"
    "\<forall>(a, d)\<in>set (ms_db two_ports). de_rid d = 33 \<longrightarrow> de_seq d < ntohs (lu_seq \<lparr> lu_seq = htons 1, lu_ttl = 0, lu_unused = 0, lu_nadv = htonl 0 \<rparr>)"
    and c: "flood_count (mi_if (ms_ifs two_ports ! 0)) (ms_ifs two_ports) = 1" "ms_out two_ports = []"
    by (simp_all add: two_ports_def quiet_router_def quiet_if_def flood_count_def sample_iface_def)
  from lsu_flooded_whatever_ttl[of "replicate 14 0" "(iphdr_dec (replicate 20 0))\<lparr>ihl := 5\<rparr>" "[]" "\<lparr> lu_seq = htons 1, lu_ttl = 0, lu_unused = 0, lu_nadv = htonl 0 \<rparr>",
      OF _ _ _ _ h, of 0 "mohdr_dec (replicate 16 0)"]
  show ?thesis unfolding c by simp
qed

text \<open>The mark that would remove an expired entry is undone by the next ageing round: marking
  negates the slot number, so an entry that two rounds find expired is unmarked again, and the
  database keeps it unless the route computation runs in between.\<close>

theorem expired_entry_is_unmarked:
  assumes "(a, e) \<in> set (ms_db s)" "de_alive e \<le> 5"
  shows "\<exists>e'. (a, e') \<in> set (ms_db (checking_database (checking_database s))) \<and> de_alive e' \<le> - 5 \<and> de_map e' = de_map e"
proof -
  have "(a, age_db_entry (age_db_entry e)) \<in> set (ms_db (checking_database (checking_database s)))"
    using assms(1) by (force simp: checking_database_def)
  moreover have "de_alive (age_db_entry (age_db_entry e)) \<le> - 5" "de_map (age_db_entry (age_db_entry e)) = de_map e"
    using assms(2) by (simp_all add: age_db_entry_def Let_def)
  ultimately show ?thesis by blast
qed

theorem expired_entry_is_unmarked_witness:
  "\<exists>e'. (7, e') \<in> set (ms_db (checking_database (checking_database ((quiet_router 10)\<lparr>ms_db :=
     [(7, \<lparr> de_rid = 3, de_seq = 1, de_nadv = 0, de_alive = 5, de_map = 2, de_array = [] \<rparr>)]\<rparr>)))) \<and> de_map e' = 2"
proof -
  have "(7, \<lparr> de_rid = 3, de_seq = 1, de_nadv = 0, de_alive = 5, de_map = 2, de_array = [] \<rparr>) \<in> set (ms_db ((quiet_router 10)\<lparr>ms_db :=
     [(7, \<lparr> de_rid = 3, de_seq = 1, de_nadv = 0, de_alive = 5, de_map = 2, de_array = [] \<rparr>)]\<rparr>))" by simp
  from expired_entry_is_unmarked[OF this] show ?thesis by auto
qed

end
