(* ===== verification/Mospf_Routes.thy ===== *)
theory Mospf_Routes
  imports Mospf_Daemon
begin

text \<open>
  The routes of the mOSPF daemon (\<open>mospf_database.c\<close> of prj08): slots for the routers of the database,
  the adjacency matrix, and the search that fills the forwarding table, one round of
  \<open>setting_rt_list_thread\<close> after the other. Reading a slot or matrix row beyond \<open>MAX_NODES\<close> and
  following the pointer of a freed entry are undefined. \<open>new_rt_entry\<close> and \<open>add_rt_entry\<close> are those of
  \<open>rtable.c\<close>, whose text prj07 and prj14 share.
\<close>

section \<open>Slots and matrix\<close>

definition slot :: "nat \<Rightarrow> mospf \<Rightarrow> mtx_map option" where
  "slot i s = (if i < MAX_NODES \<and> i < length (ms_record s) then Some (ms_record s ! i) else None)"

definition put_slot :: "nat \<Rightarrow> mtx_map \<Rightarrow> mospf \<Rightarrow> mospf" where
  "put_slot i r s = s\<lparr>ms_record := (ms_record s)[i := r]\<rparr>"

definition entry_of :: "mtx_map \<Rightarrow> mospf \<Rightarrow> db_entry option" where
  "entry_of r s = map_of (ms_db s) (sl_entry r)"

text \<open>\<open>record[j].valid && record[j].dbEntry->rid == rid\<close>.\<close>

definition slot_is :: "u32 \<Rightarrow> nat \<Rightarrow> mospf \<Rightarrow> bool option" where
  "slot_is rid j s = do {
     r \<leftarrow> slot j s;
     if sl_valid r then do { e \<leftarrow> entry_of r s; Some (de_rid e = rid) } else Some False }"

definition init_matrix :: "mospf \<Rightarrow> mospf" where
  "init_matrix s = s\<lparr>
     ms_path := (\<lambda>i j. if i < MAX_NODES \<and> j < MAX_NODES then (ms_path s i j)\<lparr>ni_value := 0\<rparr> else ms_path s i j),
     ms_record := map (\<lambda>r. r\<lparr>sl_dist := 0\<rparr>) (ms_record s)\<rparr>"

definition put_path :: "nat \<Rightarrow> nat \<Rightarrow> net_info \<Rightarrow> mospf \<Rightarrow> mospf" where
  "put_path i j n s = s\<lparr>ms_path := (ms_path s)(i := (ms_path s i)(j := n))\<rparr>"

text \<open>The inner loop of \<open>edit_mtx\<close>: every column is set or cleared for one advertisement.\<close>

fun edit_cols :: "nat \<Rightarrow> mospf_lsa \<Rightarrow> nat list \<Rightarrow> mospf \<Rightarrow> mospf option" where
  "edit_cols line a [] s = Some s"
| "edit_cols line a (j # js) s = do {
     hit \<leftarrow> slot_is (la_rid a) j s;
     edit_cols line a js (put_path line j
       (if hit then \<lparr> ni_network = la_network a, ni_mask = la_mask a, ni_value = 1 \<rparr>
        else (ms_path s line j)\<lparr>ni_value := 0\<rparr>) s) }"

fun edit_rows :: "nat \<Rightarrow> mospf_lsa list \<Rightarrow> mospf \<Rightarrow> mospf option" where
  "edit_rows line [] s = Some s"
| "edit_rows line (a # as) s = do { s \<leftarrow> edit_cols line a [0..<ms_sup s] s; edit_rows line as s }"

definition edit_mtx :: "nat \<Rightarrow> mospf \<Rightarrow> mospf option" where
  "edit_mtx line s = do {
     r \<leftarrow> slot line s;
     e \<leftarrow> entry_of r s;
     if length (de_array e) = nat (de_nadv e) then edit_rows line (de_array e) s else None }"

fun first_free :: "mtx_map list \<Rightarrow> nat option" where
  "first_free [] = None"
| "first_free (r # rs) = (if \<not> sl_valid r then Some 0 else map_option Suc (first_free rs))"

text \<open>The loop over the database; the count is that of the entries that stay.\<close>

fun renew_db :: "(nat \<times> db_entry) list \<Rightarrow> nat \<Rightarrow> mospf \<Rightarrow> (nat \<times> mospf) option" where
  "renew_db [] cnt s = Some (cnt, s)"
| "renew_db ((a, e) # rest) cnt s =
     (if de_map e \<le> NODE_DELETE then do {
        let num_delete = nat (NODE_DELETE - de_map e);
        r \<leftarrow> slot num_delete s;
        renew_db rest cnt ((put_slot num_delete (r\<lparr>sl_valid := False\<rparr>) s)\<lparr>ms_db := filter (\<lambda>(b, _). b \<noteq> a) (ms_db s)\<rparr>) }
      else if de_map e = NODE_ADD then
        (case first_free (ms_record s) of
           Some i \<Rightarrow> do {
             r \<leftarrow> slot i s;
             renew_db rest (Suc cnt) ((put_slot i (r\<lparr>sl_valid := True, sl_entry := a\<rparr>) s)\<lparr>
               ms_db := map (\<lambda>(b, d). (b, if b = a then d\<lparr>de_map := int i\<rparr> else d)) (ms_db s), ms_sup := max (ms_sup s) i\<rparr>) }
         | None \<Rightarrow> renew_db rest (Suc cnt) s)
      else renew_db rest (Suc cnt) s)"

text \<open>\<open>while (count)\<close>: the next valid slot is edited, and nothing bounds the index but the array.\<close>

function edit_slots :: "nat \<Rightarrow> nat \<Rightarrow> mospf \<Rightarrow> (nat \<times> mospf) option" where
  "edit_slots cnt i s =
     (if cnt = 0 then Some (i, s)
      else if MAX_NODES \<le> i then None
      else do {
        r \<leftarrow> slot i s;
        if \<not> sl_valid r then edit_slots cnt (Suc i) s
        else do { s \<leftarrow> edit_mtx i s; edit_slots (cnt - 1) (Suc i) s } })"
  by pat_completeness auto
termination by (relation "measure (\<lambda>(cnt, i, s). MAX_NODES - i)") auto

declare edit_slots.simps [simp del]

definition renew_matrix :: "mospf \<Rightarrow> mospf option" where
  "renew_matrix s = do {
     (cnt, s) \<leftarrow> renew_db (ms_db s) 0 s;
     (i, s) \<leftarrow> edit_slots cnt 0 (init_matrix s);
     Some (s\<lparr>ms_sup := i\<rparr>) }"

section \<open>Routes\<close>

fun index_of :: "('a \<Rightarrow> bool) \<Rightarrow> 'a list \<Rightarrow> nat option" where
  "index_of P [] = None"
| "index_of P (x # xs) = (if P x then Some 0 else map_option Suc (index_of P xs))"

text \<open>A route of the initial table for the subnet.\<close>

definition chk_init :: "u32 \<Rightarrow> mospf \<Rightarrow> nat option" where
  "chk_init subnet s = index_of (\<lambda>e. subnet = (rt_mask e AND rt_dest e)) (take (ms_start s) (ms_rtable s))"

definition add_route :: "u32 \<Rightarrow> u32 \<Rightarrow> u32 \<Rightarrow> nat \<Rightarrow> mospf \<Rightarrow> mospf option" where
  "add_route dest msk gw k s =
     (if length (ms_ifs s) \<le> k then None else do {
        e \<leftarrow> new_rt_entry dest msk gw (mi_if (ms_ifs s ! k));
        Some (s\<lparr>ms_rtable := add_rt_entry e (ms_rtable s)\<rparr>) })"

text \<open>The first slot whose router satisfies the condition.\<close>

fun find_slot :: "(nat \<Rightarrow> bool option) \<Rightarrow> nat list \<Rightarrow> nat option option" where
  "find_slot P [] = Some None"
| "find_slot P (i # is) = do { hit \<leftarrow> P i; if hit then Some (Some i) else find_slot P is }"

text \<open>A neighbour whose router is in the database is at distance one.\<close>

definition reach_nbr :: "nat \<Rightarrow> mospf_nbr \<Rightarrow> bool \<times> mospf \<Rightarrow> (bool \<times> mospf) option" where
  "reach_nbr k n fs = (case fs of (farther, s) \<Rightarrow> do {
     hit \<leftarrow> find_slot (\<lambda>i. slot_is (nb_id n) i s) [0..<ms_sup s];
     (case hit of
        None \<Rightarrow> Some (farther, s)
      | Some i \<Rightarrow> do {
          r \<leftarrow> slot i s;
          let s = put_slot i (r\<lparr>sl_dist := 1, sl_gw := nb_ip n, sl_iface := k\<rparr>) s;
          (case chk_init (nb_ip n AND nb_mask n) s of
             Some t \<Rightarrow> Some (True, s\<lparr>ms_rtable := (ms_rtable s)[t := (ms_rtable s ! t)\<lparr>rt_gw := nb_ip n\<rparr>]\<rparr>)
           | None \<Rightarrow> do { s \<leftarrow> add_route (nb_ip n AND nb_mask n) (nb_mask n) (nb_ip n) k s; Some (True, s) }) }) })"

fun reach_nbrs :: "(nat \<times> mospf_nbr) list \<Rightarrow> bool \<times> mospf \<Rightarrow> (bool \<times> mospf) option" where
  "reach_nbrs [] fs = Some fs"
| "reach_nbrs ((k, n) # ns) fs = do { fs \<leftarrow> reach_nbr k n fs; reach_nbrs ns fs }"

definition all_nbrs :: "mospf \<Rightarrow> (nat \<times> mospf_nbr) list" where
  "all_nbrs s = concat (map (\<lambda>(k, f). map (Pair k) (mi_nbrs f)) (enumerate 0 (ms_ifs s)))"

text \<open>From slot \<open>i\<close>: the first adjacent slot not reached yet, and no other.\<close>

definition expand_slot :: "nat \<Rightarrow> int \<Rightarrow> bool \<times> mospf \<Rightarrow> (bool \<times> mospf) option" where
  "expand_slot i dist fs = (case fs of (farther, s) \<Rightarrow> do {
     r \<leftarrow> slot i s;
     hit \<leftarrow> find_slot (\<lambda>j. do { q \<leftarrow> slot j s; Some (ni_value (ms_path s i j) = 1 \<and> sl_dist q = 0) }) [0..<ms_sup s];
     (case hit of
        None \<Rightarrow> Some (farther, s)
      | Some j \<Rightarrow> do {
          q \<leftarrow> slot j s;
          let s = put_slot j (q\<lparr>sl_dist := dist + 1, sl_gw := sl_gw r, sl_iface := sl_iface r\<rparr>) s;
          let n = ms_path s i j;
          s \<leftarrow> add_route (ni_network n AND ni_mask n) (ni_mask n) (sl_gw r) (sl_iface r) s;
          Some (True, s) }) })"

text \<open>The networks a router advertises that are no router of the database.\<close>

fun add_hosts :: "nat \<Rightarrow> mospf_lsa list \<Rightarrow> mospf \<Rightarrow> mospf option" where
  "add_hosts i [] s = Some s"
| "add_hosts i (a # as) s =
     (if la_rid a = ms_router_id s then add_hosts i as s
      else do {
        hit \<leftarrow> find_slot (\<lambda>l. slot_is (la_rid a) l s) [0..<ms_sup s];
        r \<leftarrow> slot i s;
        s \<leftarrow> (if hit = None then add_route (la_mask a AND la_network a) (la_mask a) (sl_gw r) (sl_iface r) s else Some s);
        add_hosts i as s })"

fun level_slots :: "int \<Rightarrow> nat list \<Rightarrow> bool \<times> mospf \<Rightarrow> (bool \<times> mospf) option" where
  "level_slots dist [] fs = Some fs"
| "level_slots dist (i # is) fs = do {
     r \<leftarrow> slot i (snd fs);
     if sl_dist r = dist then do {
       (farther, s) \<leftarrow> expand_slot i dist fs;
       e \<leftarrow> entry_of r s;
       s \<leftarrow> (if length (de_array e) = nat (de_nadv e) then add_hosts i (de_array e) s else None);
       level_slots dist is (farther, s) }
     else level_slots dist is fs }"

section \<open>Every level reaches a new slot\<close>

definition unreached :: "mospf \<Rightarrow> nat" where
  "unreached s = length (filter (\<lambda>r. sl_dist r = 0) (ms_record s))"

lemma add_route_record: "add_route d m g k s = Some t \<Longrightarrow> ms_record t = ms_record s"
  by (auto simp: add_route_def split: if_splits elim!: opt_bindE)

lemma add_hosts_record: "add_hosts i as s = Some t \<Longrightarrow> ms_record t = ms_record s"
proof (induction as arbitrary: s)
  case (Cons a as)
  show ?case
  proof (cases "la_rid a = ms_router_id s")
    case True
    with Cons show ?thesis by simp
  next
    case False
    with Cons.prems show ?thesis
      by (auto elim!: opt_bindE split: if_splits dest!: Cons.IH add_route_record)
  qed
qed simp

lemma length_filter_update:
  "i < length rs \<Longrightarrow> P (rs ! i) \<Longrightarrow> \<not> P r \<Longrightarrow> length (filter P (rs[i := r])) < length (filter P rs)"
  by (induction rs arbitrary: i) (auto simp: nth_Cons split: nat.splits)

lemma find_slot_Some: "find_slot P is = Some (Some i) \<Longrightarrow> i \<in> set is \<and> P i = Some True"
  by (induction "is") (auto elim!: opt_bindE split: if_splits)

lemma slot_Some: "slot i s = Some r \<Longrightarrow> i < length (ms_record s) \<and> r = ms_record s ! i"
  by (simp add: slot_def split: if_splits)

lemma expand_slot_unreached:
  assumes "expand_slot i dist (f, s) = Some (f', t)" "0 < dist"
  shows "(f' = f \<and> ms_record t = ms_record s) \<or> (f' \<and> unreached t < unreached s)"
proof -
  note h = assms(1)[unfolded expand_slot_def prod.case]
  from h obtain r where r: "slot i s = Some r" by (rule opt_bindE)
  note h = h[unfolded r bind.bind_lunit]
  from h obtain hit where hit: "find_slot (\<lambda>j. do { q \<leftarrow> slot j s; Some (ni_value (ms_path s i j) = 1 \<and> sl_dist q = 0) }) [0..<ms_sup s] = Some hit"
    by (rule opt_bindE)
  note h = h[unfolded hit bind.bind_lunit]
  show ?thesis
  proof (cases hit)
    case None
    from h[unfolded None option.case] show ?thesis by simp
  next
    case (Some j)
    from find_slot_Some[OF hit[unfolded Some]]
    have "(do { q \<leftarrow> slot j s; Some (ni_value (ms_path s i j) = 1 \<and> sl_dist q = 0) }) = Some True" by (rule conjunct2)
    then obtain q where q: "slot j s = Some q" "sl_dist q = 0"
      by (cases "slot j s") auto
    define s1 where "s1 = put_slot j (q\<lparr>sl_dist := dist + 1, sl_gw := sl_gw r, sl_iface := sl_iface r\<rparr>) s"
    note h = h[unfolded Some option.case q(1) bind.bind_lunit Let_def, folded s1_def]
    let ?q = "q\<lparr>sl_dist := dist + 1, sl_gw := sl_gw r, sl_iface := sl_iface r\<rparr>"
    from h obtain t1 where t1: "add_route (ni_network (ms_path s1 i j) AND ni_mask (ms_path s1 i j))
        (ni_mask (ms_path s1 i j)) (sl_gw r) (sl_iface r) s1 = Some t1" by (rule opt_bindE)
    have "f' = True" "t = t1" using h[unfolded t1 bind.bind_lunit] by simp_all
    then have "ms_record t = (ms_record s)[j := ?q]" "f'" using add_route_record[OF t1] by (simp_all add: s1_def put_slot_def)
    moreover have "length (filter (\<lambda>r. sl_dist r = 0) ((ms_record s)[j := ?q])) < length (filter (\<lambda>r. sl_dist r = 0) (ms_record s))"
      by (rule length_filter_update) (use slot_Some[OF q(1)] q(2) assms(2) in simp_all)
    ultimately show ?thesis unfolding unreached_def by simp
  qed
qed

lemma level_slots_unreached:
  "level_slots dist is (f, s) = Some (f', t) \<Longrightarrow> 0 < dist \<Longrightarrow>
     unreached t \<le> unreached s \<and> (f' \<longrightarrow> f \<or> unreached t < unreached s)"
proof (induction "is" arbitrary: f s)
  case (Cons i "is")
  note h = Cons.prems(1)[unfolded level_slots.simps snd_conv]
  from h obtain r where r: "slot i s = Some r" by (rule opt_bindE)
  note h = h[unfolded r bind.bind_lunit]
  show ?case
  proof (cases "sl_dist r = dist")
    case False
    with h Cons.IH[OF _ Cons.prems(2)] show ?thesis by simp
  next
    case True
    note h = h[unfolded if_P[OF True]]
    from h obtain f1 s1 where s1: "expand_slot i dist (f, s) = Some (f1, s1)" by (rule opt_bindE) auto
    note h = h[unfolded s1 bind.bind_lunit prod.case]
    from h obtain e where e: "entry_of r s1 = Some e" by (rule opt_bindE)
    note h = h[unfolded e bind.bind_lunit]
    from h obtain s2 where s2: "add_hosts i (de_array e) s1 = Some s2" "level_slots dist is (f1, s2) = Some (f', t)"
      by (auto elim!: opt_bindE split: if_splits)
    have u: "unreached s2 = unreached s1" using add_hosts_record[OF s2(1)] by (simp add: unreached_def)
    from Cons.IH[OF s2(2) Cons.prems(2)] expand_slot_unreached[OF s1 Cons.prems(2)] show ?thesis
      unfolding u by (auto simp: unreached_def)
  qed
qed simp

text \<open>The loop \<open>while (farther)\<close>: it ends, because a level that goes on has reached a slot.\<close>

function levels :: "nat \<Rightarrow> mospf \<Rightarrow> mospf option" where
  "levels dist s = do {
     (farther, s) \<leftarrow> level_slots (int (Suc dist)) [0..<ms_sup s] (False, s);
     if farther then levels (Suc dist) s else Some s }"
  by pat_completeness auto
termination
  apply (relation "measure (\<lambda>(dist, s). unreached s)")
   apply simp
  using level_slots_unreached by fastforce

declare levels.simps [simp del]

definition calc_path :: "mospf \<Rightarrow> mospf option" where
  "calc_path s = do {
     let s = s\<lparr>ms_rtable := take (ms_start s) (ms_rtable s)\<rparr>;
     (farther, s) \<leftarrow> reach_nbrs (all_nbrs s) (False, s);
     if farther then levels 0 s else Some s }"

definition setting_rt_list :: "mospf \<Rightarrow> mospf option" where
  "setting_rt_list s = do { s \<leftarrow> renew_matrix s; calc_path s }"

section \<open>The row of a router\<close>

lemma slot_is_put_path [simp]: "slot_is rid j (put_path i k n s) = slot_is rid j s"
  by (simp add: slot_is_def slot_def entry_of_def put_path_def)

lemma edit_cols_frame: "edit_cols line a js s = Some t \<Longrightarrow> \<exists>p. t = s\<lparr>ms_path := p\<rparr>"
proof (induction js arbitrary: s)
  case Nil
  then show ?case by (intro exI[of _ "ms_path s"]) simp
next
  case (Cons j js)
  then show ?case by (fastforce simp: put_path_def elim!: opt_bindE)
qed

lemma slot_is_path [simp]: "slot_is rid j (s\<lparr>ms_path := p\<rparr>) = slot_is rid j s"
  by (simp add: slot_is_def slot_def entry_of_def)

lemma edit_cols_row:
  "edit_cols line a js s = Some t \<Longrightarrow> j \<in> set js \<Longrightarrow>
     slot_is (la_rid a) j s \<noteq> None \<and> ni_value (ms_path t line j) = (if slot_is (la_rid a) j s = Some True then 1 else 0)"
proof (induction js arbitrary: s)
  case (Cons k js)
  from Cons.prems(1) obtain hit where hit: "slot_is (la_rid a) k s = Some hit"
    "edit_cols line a js (put_path line k (if hit then \<lparr> ni_network = la_network a, ni_mask = la_mask a, ni_value = 1 \<rparr>
        else (ms_path s line k)\<lparr>ni_value := 0\<rparr>) s) = Some t"
    by (auto elim!: opt_bindE)
  have keep: "j \<notin> set js \<Longrightarrow> edit_cols line a js s = Some t \<Longrightarrow> ms_path t line j = ms_path s line j" for s
    by (induction js arbitrary: s) (auto simp: put_path_def elim!: opt_bindE split: if_splits)
  show ?case
  proof (cases "j \<in> set js")
    case True
    from Cons.IH[OF hit(2) True] show ?thesis by simp
  next
    case False
    then have "j = k" using Cons.prems(2) by simp
    with keep[OF False hit(2)] hit(1) show ?thesis by (cases hit) (simp_all add: put_path_def)
  qed
qed simp

lemma edit_rows_append: "edit_rows line (as @ bs) s = do { s \<leftarrow> edit_rows line as s; edit_rows line bs s }"
proof (induction as arbitrary: s)
  case (Cons a as)
  then show ?case by (cases "edit_cols line a [0..<ms_sup s] s") simp_all
qed simp

lemma edit_rows_frame: "edit_rows line as s = Some t \<Longrightarrow> \<exists>p. t = s\<lparr>ms_path := p\<rparr>"
proof (induction as arbitrary: s)
  case Nil
  then show ?case by (intro exI[of _ "ms_path s"]) simp
next
  case (Cons a as)
  then obtain u where u: "edit_cols line a [0..<ms_sup s] s = Some u" "edit_rows line as u = Some t" by (auto elim: opt_bindE)
  from edit_cols_frame[OF u(1)] Cons.IH[OF u(2)] show ?case by auto
qed

text \<open>The adjacency row of a router holds its last advertisement only: every advertisement
  rewrites the whole row, so a column is set exactly when its slot is the router named last. Links to
  the routers named before are lost.\<close>

theorem edit_mtx_keeps_last_advert:
  assumes "edit_mtx line s = Some t" "slot line s = Some r" "entry_of r s = Some e" "de_array e = as @ [a]" "j < ms_sup s"
  shows "ni_value (ms_path t line j) = (if slot_is (la_rid a) j s = Some True then 1 else 0)"
proof -
  from assms(1-4) have "edit_rows line (as @ [a]) s = Some t" by (simp add: edit_mtx_def split: if_splits)
  then obtain u where u: "edit_rows line as s = Some u" "edit_cols line a [0..<ms_sup u] u = Some t"
    unfolding edit_rows_append by (auto elim!: opt_bindE)
  from edit_rows_frame[OF u(1)] have "ms_sup u = ms_sup s" "slot_is (la_rid a) j u = slot_is (la_rid a) j s" by auto
  with edit_cols_row[OF u(2), of j] assms(5) show ?thesis by simp
qed

section \<open>Gateways\<close>

definition is_gateway :: "mospf \<Rightarrow> nat \<Rightarrow> u32 \<Rightarrow> bool" where
  "is_gateway s k g \<longleftrightarrow> k < length (ms_ifs s) \<and> g \<in> nb_ip ` set (mi_nbrs (ms_ifs s ! k))"

definition via_nbrs :: "mospf \<Rightarrow> bool" where
  "via_nbrs s \<longleftrightarrow> ms_start s \<le> length (ms_rtable s) \<and>
     (\<forall>r\<in>set (ms_record s). sl_dist r \<noteq> 0 \<longrightarrow> is_gateway s (sl_iface r) (sl_gw r)) \<and>
     (\<forall>e\<in>set (drop (ms_start s) (ms_rtable s)). \<exists>k. is_gateway s k (rt_gw e) \<and> rt_iface e = mi_if (ms_ifs s ! k))"

lemma is_gateway_frame [simp]:
  "is_gateway (s\<lparr>ms_record := x\<rparr>) = is_gateway s" "is_gateway (s\<lparr>ms_rtable := rt\<rparr>) = is_gateway s" "is_gateway (s\<lparr>ms_path := p\<rparr>) = is_gateway s"
  by (intro ext; simp add: is_gateway_def)+

lemma via_nbrs_slot:
  assumes "via_nbrs s" "sl_dist r \<noteq> 0 \<longrightarrow> is_gateway s (sl_iface r) (sl_gw r)"
  shows "via_nbrs (put_slot i r s)"
proof -
  have "set ((ms_record s)[i := r]) \<subseteq> insert r (set (ms_record s))" by (rule set_update_subset_insert)
  with assms show ?thesis by (auto simp: via_nbrs_def put_slot_def)
qed

lemma via_nbrs_route:
  assumes "via_nbrs s" "is_gateway s k g" "add_route d m g k s = Some t"
  shows "via_nbrs t \<and> ms_ifs t = ms_ifs s \<and> ms_record t = ms_record s"
proof -
  from assms(3) have "\<exists>e. rt_gw e = g \<and> rt_iface e = mi_if (ms_ifs s ! k) \<and> t = s\<lparr>ms_rtable := ms_rtable s @ [e]\<rparr>"
    by (intro exI[of _ "\<lparr> rt_dest = d, rt_mask = m, rt_gw = g, rt_flags = 0,
        rt_if_name = if_name (mi_if (ms_ifs s ! k)), rt_iface = mi_if (ms_ifs s ! k) \<rparr>"])
      (auto simp: add_route_def new_rt_entry_def add_rt_entry_def split: if_splits)
  then obtain e where e: "rt_gw e = g" "rt_iface e = mi_if (ms_ifs s ! k)" "t = s\<lparr>ms_rtable := ms_rtable s @ [e]\<rparr>" by blast
  show ?thesis using assms(1,2) e by (auto simp: via_nbrs_def)
qed


definition keeps_ifs :: "mospf \<Rightarrow> mospf \<Rightarrow> bool" where
  "keeps_ifs s t \<longleftrightarrow> via_nbrs t \<and> ms_ifs t = ms_ifs s"

lemma put_slot_ifs [simp]: "ms_ifs (put_slot i r s) = ms_ifs s" "ms_rtable (put_slot i r s) = ms_rtable s" "ms_start (put_slot i r s) = ms_start s"
  by (simp_all add: put_slot_def)

lemma is_gateway_put_slot [simp]: "is_gateway (put_slot i r s) = is_gateway s"
  by (simp add: put_slot_def)

lemma index_of_Some: "index_of P xs = Some i \<Longrightarrow> i < length xs"
  by (induction xs arbitrary: i) (auto split: if_splits)

lemma reach_nbr_via:
  assumes "via_nbrs s" "reach_nbr k n (f, s) = Some (f', t)" "k < length (ms_ifs s)" "n \<in> set (mi_nbrs (ms_ifs s ! k))"
  shows "keeps_ifs s t"
proof -
  have g: "is_gateway s k (nb_ip n)" using assms(3,4) by (simp add: is_gateway_def)
  note h = assms(2)[unfolded reach_nbr_def prod.case]
  from h obtain hit where hit: "find_slot (\<lambda>i. slot_is (nb_id n) i s) [0..<ms_sup s] = Some hit" by (rule opt_bindE)
  note h = h[unfolded hit bind.bind_lunit]
  show ?thesis
  proof (cases hit)
    case None
    from h[unfolded None option.case] assms(1) show ?thesis by (simp add: keeps_ifs_def)
  next
    case (Some i)
    note h = h[unfolded Some option.case]
    from h obtain r where r: "slot i s = Some r" by (rule opt_bindE)
    define s1 where "s1 = put_slot i (r\<lparr>sl_dist := 1, sl_gw := nb_ip n, sl_iface := k\<rparr>) s"
    note h = h[unfolded r bind.bind_lunit Let_def, folded s1_def]
    have v: "via_nbrs s1" unfolding s1_def by (rule via_nbrs_slot[OF assms(1)]) (simp add: g)
    have i1: "ms_ifs s1 = ms_ifs s" "is_gateway s1 = is_gateway s" by (simp_all add: s1_def)
    show ?thesis
    proof (cases "chk_init (nb_ip n AND nb_mask n) s1")
      case None
      note h = h[unfolded None option.case]
      from h obtain t1 where t1: "add_route (nb_ip n AND nb_mask n) (nb_mask n) (nb_ip n) k s1 = Some t1" by (rule opt_bindE)
      have "t = t1" using h[unfolded t1 bind.bind_lunit] by simp
      with via_nbrs_route[OF v _ t1] g i1 show ?thesis by (simp add: keeps_ifs_def)
    next
      case (Some j)
      from index_of_Some[OF Some[unfolded chk_init_def]] have j: "j < ms_start s1" by simp
      from h[unfolded Some option.case] have t: "t = s1\<lparr>ms_rtable := (ms_rtable s1)[j := (ms_rtable s1 ! j)\<lparr>rt_gw := nb_ip n\<rparr>]\<rparr>" by simp
      have "via_nbrs t" using v j unfolding t by (simp add: via_nbrs_def)
      with i1 show ?thesis by (simp add: keeps_ifs_def t)
    qed
  qed
qed

lemma reach_nbrs_via:
  "via_nbrs s \<Longrightarrow> reach_nbrs ns (f, s) = Some (f', t) \<Longrightarrow>
     \<forall>(k, n)\<in>set ns. k < length (ms_ifs s) \<and> n \<in> set (mi_nbrs (ms_ifs s ! k)) \<Longrightarrow> keeps_ifs s t"
proof (induction ns arbitrary: f s)
  case Nil
  then show ?case by (simp add: keeps_ifs_def)
next
  case (Cons kn ns)
  obtain k n where kn: "kn = (k, n)" by (cases kn)
  from Cons.prems(2)[unfolded kn reach_nbrs.simps] obtain f1 s1 where s1: "reach_nbr k n (f, s) = Some (f1, s1)" "reach_nbrs ns (f1, s1) = Some (f', t)"
    by (rule opt_bindE) (auto)
  have k1: "keeps_ifs s s1" using Cons.prems(3) kn by (intro reach_nbr_via[OF Cons.prems(1) s1(1)]) auto
  with Cons.IH[OF _ s1(2)] Cons.prems(3) show ?case by (simp add: keeps_ifs_def)
qed

lemma slot_gateway: "via_nbrs s \<Longrightarrow> slot i s = Some r \<Longrightarrow> sl_dist r \<noteq> 0 \<Longrightarrow> is_gateway s (sl_iface r) (sl_gw r)"
  using slot_Some[of i s r] by (auto simp: via_nbrs_def)

lemma expand_slot_via:
  assumes "via_nbrs s" "expand_slot i dist (f, s) = Some (f', t)" "slot i s = Some r" "sl_dist r = dist" "0 < dist"
  shows "keeps_ifs s t"
proof -
  have g: "is_gateway s (sl_iface r) (sl_gw r)" using slot_gateway[OF assms(1,3)] assms(4,5) by simp
  note h = assms(2)[unfolded expand_slot_def prod.case assms(3) bind.bind_lunit]
  from h obtain hit where hit: "find_slot (\<lambda>j. do { q \<leftarrow> slot j s; Some (ni_value (ms_path s i j) = 1 \<and> sl_dist q = 0) }) [0..<ms_sup s] = Some hit"
    by (rule opt_bindE)
  note h = h[unfolded hit bind.bind_lunit]
  show ?thesis
  proof (cases hit)
    case None
    from h[unfolded None option.case] assms(1) show ?thesis by (simp add: keeps_ifs_def)
  next
    case (Some j)
    note h = h[unfolded Some option.case]
    from h obtain q where q: "slot j s = Some q" by (rule opt_bindE)
    define s1 where "s1 = put_slot j (q\<lparr>sl_dist := dist + 1, sl_gw := sl_gw r, sl_iface := sl_iface r\<rparr>) s"
    note h = h[unfolded q bind.bind_lunit Let_def, folded s1_def]
    from h obtain t1 where t1: "add_route (ni_network (ms_path s1 i j) AND ni_mask (ms_path s1 i j))
        (ni_mask (ms_path s1 i j)) (sl_gw r) (sl_iface r) s1 = Some t1" by (rule opt_bindE)
    have v: "via_nbrs s1" unfolding s1_def by (rule via_nbrs_slot[OF assms(1)]) (simp add: g)
    have "t = t1" using h[unfolded t1 bind.bind_lunit] by simp
    with via_nbrs_route[OF v _ t1] g show ?thesis by (simp add: keeps_ifs_def s1_def)
  qed
qed

lemma add_hosts_via:
  "via_nbrs s \<Longrightarrow> add_hosts i as s = Some t \<Longrightarrow> slot i s = Some r \<Longrightarrow> sl_dist r \<noteq> 0 \<Longrightarrow> keeps_ifs s t"
proof (induction as arbitrary: s)
  case Nil
  then show ?case by (simp add: keeps_ifs_def)
next
  case (Cons a as)
  show ?case
  proof (cases "la_rid a = ms_router_id s")
    case True
    with Cons show ?thesis by simp
  next
    case False
    note h = Cons.prems(2)[unfolded add_hosts.simps if_not_P[OF False]]
    from h obtain hit where hit: "find_slot (\<lambda>l. slot_is (la_rid a) l s) [0..<ms_sup s] = Some hit" by (rule opt_bindE)
    note h = h[unfolded hit bind.bind_lunit Cons.prems(3)]
    from h obtain s1 where s1: "(if hit = None then add_route (la_mask a AND la_network a) (la_mask a) (sl_gw r) (sl_iface r) s else Some s) = Some s1"
      by (rule opt_bindE)
    note h = h[unfolded s1 bind.bind_lunit]
    have k: "keeps_ifs s s1 \<and> ms_record s1 = ms_record s"
    proof (cases "hit = None")
      case True
      then have "add_route (la_mask a AND la_network a) (la_mask a) (sl_gw r) (sl_iface r) s = Some s1" using s1 by simp
      from via_nbrs_route[OF Cons.prems(1) slot_gateway[OF Cons.prems(1,3,4)] this] show ?thesis by (simp add: keeps_ifs_def)
    next
      case False
      then have "s1 = s" using s1[unfolded if_not_P[OF False]] by simp
      with Cons.prems(1) show ?thesis by (simp add: keeps_ifs_def)
    qed
    then have "slot i s1 = slot i s" by (simp add: slot_def)
    then have "slot i s1 = Some r" using Cons.prems(3) by simp
    with Cons.IH[OF _ h _ Cons.prems(4)] k show ?thesis by (simp add: keeps_ifs_def)
  qed
qed

lemma expand_slot_self:
  assumes "expand_slot i dist (f, s) = Some (f', t)" "slot i s = Some r" "sl_dist r \<noteq> 0"
  shows "slot i t = Some r"
proof -
  note h = assms(1)[unfolded expand_slot_def prod.case assms(2) bind.bind_lunit]
  from h obtain hit where hit: "find_slot (\<lambda>j. do { q \<leftarrow> slot j s; Some (ni_value (ms_path s i j) = 1 \<and> sl_dist q = 0) }) [0..<ms_sup s] = Some hit"
    by (rule opt_bindE)
  note h = h[unfolded hit bind.bind_lunit]
  show ?thesis
  proof (cases hit)
    case None
    from h[unfolded None option.case] assms(2) show ?thesis by simp
  next
    case (Some j)
    note h = h[unfolded Some option.case]
    from h obtain q where q: "slot j s = Some q" by (rule opt_bindE)
    from find_slot_Some[OF hit[unfolded Some]] have "sl_dist q = 0" using q by simp
    then have ij: "i \<noteq> j" using assms(2,3) q by auto
    define s1 where "s1 = put_slot j (q\<lparr>sl_dist := dist + 1, sl_gw := sl_gw r, sl_iface := sl_iface r\<rparr>) s"
    note h = h[unfolded q bind.bind_lunit Let_def, folded s1_def]
    from h obtain t1 where t1: "add_route (ni_network (ms_path s1 i j) AND ni_mask (ms_path s1 i j))
        (ni_mask (ms_path s1 i j)) (sl_gw r) (sl_iface r) s1 = Some t1" by (rule opt_bindE)
    have "t = t1" using h[unfolded t1 bind.bind_lunit] by simp
    then have "ms_record t = ms_record s1" using add_route_record[OF t1] by simp
    with assms(2) ij show ?thesis by (simp add: slot_def s1_def put_slot_def split: if_splits)
  qed
qed

lemma level_slots_via:
  "via_nbrs s \<Longrightarrow> level_slots dist is (f, s) = Some (f', t) \<Longrightarrow> 0 < dist \<Longrightarrow> keeps_ifs s t"
proof (induction "is" arbitrary: f s)
  case Nil
  then show ?case by (simp add: keeps_ifs_def)
next
  case (Cons i "is")
  note h = Cons.prems(2)[unfolded level_slots.simps snd_conv]
  from h obtain r where r: "slot i s = Some r" by (rule opt_bindE)
  note h = h[unfolded r bind.bind_lunit]
  show ?case
  proof (cases "sl_dist r = dist")
    case False
    with h Cons.IH[OF Cons.prems(1) _ Cons.prems(3)] show ?thesis by simp
  next
    case True
    then have d: "sl_dist r \<noteq> 0" using Cons.prems(3) by simp
    note h = h[unfolded if_P[OF True]]
    from h obtain f1 s1 where s1: "expand_slot i dist (f, s) = Some (f1, s1)" by (rule opt_bindE) auto
    note h = h[unfolded s1 bind.bind_lunit prod.case]
    from h obtain e where e: "entry_of r s1 = Some e" by (rule opt_bindE)
    note h = h[unfolded e bind.bind_lunit]
    from h obtain s2 where s2: "add_hosts i (de_array e) s1 = Some s2" "level_slots dist is (f1, s2) = Some (f', t)"
      by (rule opt_bindE) (simp split: if_splits)
    have k1: "keeps_ifs s s1" by (rule expand_slot_via[OF Cons.prems(1) s1 r True Cons.prems(3)])
    have k2: "keeps_ifs s1 s2" using k1 add_hosts_via[OF _ s2(1) expand_slot_self[OF s1 r d] d] by (simp add: keeps_ifs_def)
    from k2 have "keeps_ifs s2 t" using Cons.IH[OF _ s2(2) Cons.prems(3)] by (simp add: keeps_ifs_def)
    with k1 k2 show ?thesis by (simp add: keeps_ifs_def)
  qed
qed

lemma levels_via: "via_nbrs s \<Longrightarrow> levels d s = Some t \<Longrightarrow> keeps_ifs s t"
proof (induction d s rule: levels.induct)
  case (1 d s)
  note h = 1(3)[unfolded levels.simps[of d s]]
  from h obtain f s1 where s1: "level_slots (int (Suc d)) [0..<ms_sup s] (False, s) = Some (f, s1)" by (rule opt_bindE) auto
  note h = h[unfolded s1 bind.bind_lunit prod.case]
  have k: "keeps_ifs s s1" by (rule level_slots_via[OF 1(2) s1]) simp
  show ?case
  proof (cases f)
    case True
    with h 1(1)[OF s1 refl True] k show ?thesis by (simp add: keeps_ifs_def)
  next
    case False
    with h k show ?thesis by simp
  qed
qed

definition keeps_table :: "mospf \<Rightarrow> mospf \<Rightarrow> bool" where
  "keeps_table s t \<longleftrightarrow> ms_rtable t = ms_rtable s \<and> ms_ifs t = ms_ifs s \<and> ms_start t = ms_start s"

lemma renew_db_keeps: "renew_db db cnt s = Some (n, t) \<Longrightarrow> keeps_table s t"
proof (induction db cnt s rule: renew_db.induct)
  case (2 a e rest cnt s)
  show ?case
  proof (cases "de_map e \<le> NODE_DELETE")
    case True
    note h = "2.prems"[unfolded renew_db.simps if_P[OF True] Let_def]
    from h obtain r where r: "slot (nat (NODE_DELETE - de_map e)) s = Some r" by (rule opt_bindE)
    from 2(1)[OF True refl r h[unfolded r bind.bind_lunit]] show ?thesis by (simp add: keeps_table_def)
  next
    case nodel: False
    note h = "2.prems"[unfolded renew_db.simps if_not_P[OF nodel]]
    show ?thesis
    proof (cases "de_map e = NODE_ADD")
      case True
      note h = h[unfolded if_P[OF True]]
      show ?thesis
      proof (cases "first_free (ms_record s)")
        case None
        from 2(2)[OF nodel True None] h[unfolded None option.case] show ?thesis by simp
      next
        case (Some i)
        note h = h[unfolded Some option.case]
        from h obtain r where r: "slot i s = Some r" by (rule opt_bindE)
        from 2(3)[OF nodel True Some r h[unfolded r bind.bind_lunit]] show ?thesis by (simp add: keeps_table_def)
      qed
    next
      case False
      from 2(4)[OF nodel False h[unfolded if_not_P[OF False]]] show ?thesis .
    qed
  qed
qed (simp add: keeps_table_def)

lemma edit_mtx_frame: "edit_mtx i s = Some t \<Longrightarrow> \<exists>p. t = s\<lparr>ms_path := p\<rparr>"
  by (auto simp: edit_mtx_def elim!: opt_bindE split: if_splits dest: edit_rows_frame)

lemma edit_slots_frame: "edit_slots n i s = Some (m, t) \<Longrightarrow> \<exists>p. t = s\<lparr>ms_path := p\<rparr>"
proof (induction n i s rule: edit_slots.induct)
  case (1 n i s)
  show ?case
  proof (cases "n = 0")
    case True
    with 1(3) show ?thesis by (intro exI[of _ "ms_path s"]) (simp add: edit_slots.simps[of 0 i s])
  next
    case False
    with 1(3) have i: "\<not> MAX_NODES \<le> i" by (auto simp: edit_slots.simps[of n i s])
    note h = 1(3)[unfolded edit_slots.simps[of n i s] if_not_P[OF False] if_not_P[OF i]]
    from h obtain r where r: "slot i s = Some r" by (rule opt_bindE)
    note h = h[unfolded r bind.bind_lunit]
    show ?thesis
    proof (cases "sl_valid r")
      case False
      with h 1(1)[OF \<open>n \<noteq> 0\<close> i r] show ?thesis by simp
    next
      case True
      with h obtain u where u: "edit_mtx i s = Some u" "edit_slots (n - 1) (Suc i) u = Some (m, t)" by (auto elim: opt_bindE)
      from edit_mtx_frame[OF u(1)] 1(2)[OF \<open>n \<noteq> 0\<close> i r _ u(1) u(2)] True show ?thesis by auto
    qed
  qed
qed


text \<open>Router 1 with its neighbour 2, behind which are the routers 3 and 4.\<close>

definition sample_if :: mospf_if where
  "sample_if = \<lparr> mi_if = \<lparr> if_index = 1, if_mac = Mac 0 0 0 0 0 0, if_ip = 0x0A000001, if_mask = 0xFFFFFF00, if_name = ''r1-eth0'' \<rparr>,
     mi_helloint = 5, mi_num_nbr = 1, mi_nbrs = [\<lparr> nb_id = 2, nb_ip = 0x0A000002, nb_mask = 0xFFFFFF00, nb_alive = 15 \<rparr>] \<rparr>"

definition sample_entry :: "u32 \<Rightarrow> int \<Rightarrow> mospf_lsa list \<Rightarrow> db_entry" where
  "sample_entry rid m as = \<lparr> de_rid = rid, de_seq = 1, de_nadv = int (length as), de_alive = 40, de_map = m, de_array = as \<rparr>"

definition sample_advert :: "u32 \<Rightarrow> u32 \<Rightarrow> mospf_lsa" where
  "sample_advert net rid = \<lparr> la_network = net, la_mask = 0xFFFFFF00, la_rid = rid \<rparr>"

definition sample_net :: mospf where
  "sample_net = \<lparr> ms_ifs = [sample_if], ms_area_id = 0, ms_router_id = 1, ms_sequence_num = 1,
     ms_db = [(0, sample_entry 2 0 [sample_advert 0x0A000000 1, sample_advert 0x0A000100 3, sample_advert 0x0A000200 4]),
              (1, sample_entry 3 1 [sample_advert 0x0A000100 2]), (2, sample_entry 4 2 [sample_advert 0x0A000200 2])],
     ms_next = 3, ms_path = (\<lambda>_ _. \<lparr> ni_network = 0, ni_mask = 0, ni_value = 0 \<rparr>),
     ms_record = map (\<lambda>i. \<lparr> sl_entry = i, sl_valid = (i < 3), sl_dist = 0, sl_gw = 0, sl_iface = 0 \<rparr>) [0..<10],
     ms_sup = 3, ms_start = 1,
     ms_rtable = [\<lparr> rt_dest = 0x0A000000, rt_mask = 0xFFFFFF00, rt_gw = 0, rt_flags = 0, rt_if_name = ''r1-eth0'', rt_iface = mi_if sample_if \<rparr>],
     ms_out = [], ms_rnd = (\<lambda>_. 0), ms_junk = (\<lambda>_. 0), ms_pos = 0 \<rparr>"

text \<open>A router behind a neighbour that advertises another link after it gets no route: here
  router 2 advertises its links to 3 and then to 4, and only the network towards 4 is installed.\<close>

theorem second_link_gets_no_route:
  "map_option (\<lambda>t. map rt_dest (ms_rtable t)) (setting_rt_list sample_net) = Some [0x0A000000, 0x0A000200]"
  by code_simp


theorem edit_mtx_keeps_last_advert_witness:
  "\<exists>t. edit_mtx 0 sample_net = Some t \<and> ni_value (ms_path t 0 1) = 0 \<and> ni_value (ms_path t 0 2) = 1"
proof -
  have "map_option (\<lambda>_. ()) (edit_mtx 0 sample_net) = Some ()" by code_simp
  then obtain t where t: "edit_mtx 0 sample_net = Some t" by (cases "edit_mtx 0 sample_net") simp_all
  have r: "slot 0 sample_net = Some (ms_record sample_net ! 0)" by (simp add: slot_def sample_net_def MAX_NODES_def)
  have e: "entry_of (ms_record sample_net ! 0) sample_net = Some (sample_entry 2 0 [sample_advert 0x0A000000 1, sample_advert 0x0A000100 3, sample_advert 0x0A000200 4])"
    by (simp add: entry_of_def sample_net_def)
  have a: "de_array (sample_entry 2 0 [sample_advert 0x0A000000 1, sample_advert 0x0A000100 3, sample_advert 0x0A000200 4]) =
      [sample_advert 0x0A000000 1, sample_advert 0x0A000100 3] @ [sample_advert 0x0A000200 4]" by (simp add: sample_entry_def)
  note k = edit_mtx_keeps_last_advert[OF t r e a]
  have "slot_is (la_rid (sample_advert 0x0A000200 4)) 1 sample_net = Some False" "slot_is (la_rid (sample_advert 0x0A000200 4)) 2 sample_net = Some True"
    "ms_sup sample_net = 3" by code_simp+
  with k[of 1] k[of 2] t show ?thesis by auto
qed

end
