(* ===== verification/Ip_Trie.thy ===== *)
theory Ip_Trie
  imports Routing
begin

text \<open>
  The binary lookup trie of \<open>prj09/base.c\<close>. The nodes form a tree no pointer shares, so a node
  holds its sons; updating a node in place is rebuilding the path to it. \<open>malloc\<close> leaves the fields
  of a new node as they are: the parameter \<open>junk\<close> gives them, numbered by the allocation counter.
  \<open>None\<close> stands for undefined behaviour (a shift by a negative count). The walk of \<open>put_base\<close> along
  existing nodes and the chain it appends below them are \<open>put_walk\<close> and \<open>put_chain\<close>; the C loops
  carry \<open>depth\<close> and \<open>bit_chk\<close>, and so do they.
\<close>

section \<open>Nodes\<close>

datatype node = Node (son0: "node option") (son1: "node option") (n_iface: u32) (n_dest: u32) (n_match: int)

type_synonym junk = "u32 \<Rightarrow> u32 \<times> u32 \<times> int"

fun node_son :: "u32 \<Rightarrow> node \<Rightarrow> node option" where
  "node_son b (Node l r i d m) = (if b = 0 then l else r)"

fun set_son :: "u32 \<Rightarrow> node \<Rightarrow> node \<Rightarrow> node" where
  "set_son b c (Node l r i d m) = (if b = 0 then Node (Some c) r i d m else Node l (Some c) i d m)"

definition malloc_base :: "junk \<Rightarrow> u32 \<Rightarrow> node \<times> u32" where
  "malloc_base junk cnt = (case junk cnt of (i, d, m) \<Rightarrow> (Node None None i d m, cnt + 1))"

definition init_root_base :: "junk \<Rightarrow> u32 \<Rightarrow> node \<times> u32" where
  "init_root_base junk cnt = malloc_base junk cnt"

definition set_entry :: "u32 \<Rightarrow> u32 \<Rightarrow> node \<Rightarrow> node" where
  "set_entry i d c = (case c of Node l r _ _ _ \<Rightarrow> Node l r i d 1)"

definition clear_match :: "node \<Rightarrow> node" where
  "clear_match c = (case c of Node l r i d _ \<Rightarrow> Node l r i d 0)"

section \<open>Insertion and lookup\<close>

text \<open>\<open>bit_idx\<close> at a depth: the bit that \<open>bit_chk\<close> selects, shifted to the right end.\<close>

definition bit_idx :: "u32 \<Rightarrow> u32 \<Rightarrow> nat \<Rightarrow> u32 option" where
  "bit_idx bit_chk dest depth = (if depth \<le> 32 then Some (drop_bit (32 - depth) (bit_chk AND dest)) else None)"

function put_chain :: "junk \<Rightarrow> u32 \<Rightarrow> nat \<Rightarrow> u32 \<Rightarrow> u32 \<Rightarrow> nat \<Rightarrow> u32 \<Rightarrow> (node \<times> u32) option" where
  "put_chain junk iface msk dest chk depth cnt =
     (let (c, cnt) = malloc_base junk cnt in
      if depth < msk then do {
        let chk = drop_bit 1 chk;
        let depth = Suc depth;
        idx \<leftarrow> bit_idx chk dest depth;
        (sub, cnt) \<leftarrow> put_chain junk iface msk dest chk depth cnt;
        Some (set_son idx sub (clear_match c), cnt) }
      else Some (set_entry iface dest c, cnt))"
  by pat_completeness auto
termination by (relation "measure (\<lambda>(junk, iface, msk, dest, chk, depth, cnt). msk - depth)") auto

function put_walk :: "junk \<Rightarrow> u32 \<Rightarrow> nat \<Rightarrow> u32 \<Rightarrow> u32 \<Rightarrow> nat \<Rightarrow> node \<Rightarrow> u32 \<Rightarrow> (node \<times> u32) option" where
  "put_walk junk iface msk dest chk depth current cnt =
     (if depth < msk then do {
        let depth = Suc depth;
        idx \<leftarrow> bit_idx chk dest depth;
        (sub, cnt) \<leftarrow> (case node_son idx current of
            None \<Rightarrow> put_chain junk iface msk dest chk depth cnt
          | Some c \<Rightarrow> put_walk junk iface msk dest (drop_bit 1 chk) depth c cnt);
        Some (set_son idx sub current, cnt) }
      else Some (set_entry iface dest current, cnt))"
  by pat_completeness auto
termination by (relation "measure (\<lambda>(junk, iface, msk, dest, chk, depth, current, cnt). msk - depth)") auto

definition put_base :: "junk \<Rightarrow> node \<Rightarrow> u32 \<Rightarrow> u32 \<Rightarrow> u32 \<Rightarrow> u32 \<Rightarrow> (node \<times> u32) option" where
  "put_base junk root iface msk dest cnt = put_walk junk iface (unat msk) dest 0x80000000 0 root cnt"

function get_walk :: "u32 \<Rightarrow> u32 \<Rightarrow> nat \<Rightarrow> node \<Rightarrow> node option \<Rightarrow> node option" where
  "get_walk dest chk depth current result =
     (if depth < 32 then
        let depth = Suc depth;
            idx = drop_bit (32 - depth) (chk AND dest)
        in case node_son idx current of
             None \<Rightarrow> result
           | Some c \<Rightarrow> get_walk dest (drop_bit 1 chk) depth c (if n_match c \<noteq> 0 then Some c else result)
      else result)"
  by pat_completeness auto
termination by (relation "measure (\<lambda>(dest, chk, depth, current, result). 32 - depth)") auto

definition get_base :: "node \<Rightarrow> u32 \<Rightarrow> node option" where
  "get_base root dest = get_walk dest 0x80000000 0 root None"

text \<open>\<open>sizeof(node_t)\<close> is 32 on the 64-bit target: two pointers, two words and an \<open>int\<close>, padded.\<close>

definition calc_space_base :: "u32 \<Rightarrow> u32" where
  "calc_space_base cnt = cnt * 32"

fun put_all :: "junk \<Rightarrow> (u32 \<times> u32 \<times> u32) list \<Rightarrow> node \<Rightarrow> u32 \<Rightarrow> (node \<times> u32) option" where
  "put_all junk [] root cnt = Some (root, cnt)"
| "put_all junk ((iface, msk, dest) # rules) root cnt = do {
     (root, cnt) \<leftarrow> put_base junk root iface msk dest cnt;
     put_all junk rules root cnt }"

declare put_chain.simps [simp del] put_walk.simps [simp del] get_walk.simps [simp del]

section \<open>The trie as a map of bit strings\<close>

definition key :: "nat \<Rightarrow> u32 \<Rightarrow> bool list" where
  "key n d = map (\<lambda>i. bit d (31 - i)) [0..<n]"

definition keys_from :: "nat \<Rightarrow> nat \<Rightarrow> u32 \<Rightarrow> bool list" where
  "keys_from k n d = map (\<lambda>i. bit d (31 - i)) [k..<n]"

definition entry :: "node \<Rightarrow> (u32 \<times> u32) option" where
  "entry c = (if n_match c \<noteq> 0 then Some (n_iface c, n_dest c) else None)"

fun child :: "bool \<Rightarrow> node \<Rightarrow> node option" where
  "child b (Node l r i d m) = (if b then r else l)"

fun entry_at :: "node \<Rightarrow> bool list \<Rightarrow> (u32 \<times> u32) option" where
  "entry_at c [] = entry c"
| "entry_at c (b # bs) = (case child b c of None \<Rightarrow> None | Some c' \<Rightarrow> entry_at c' bs)"

text \<open>The bit a loop reads at depth \<open>k + 1\<close> is the next bit of the address.\<close>

lemma bit_idx_bit:
  assumes "k < 32"
  shows "drop_bit (31 - k) (drop_bit k 0x80000000 AND d) = (of_bool (bit d (31 - k)) :: u32)"
proof (rule bit_word_eqI)
  fix n :: nat assume "n < LENGTH(32)"
  have p: "(0x80000000 :: u32) = push_bit 31 1" by simp
  have x: "bit (0x80000000 :: u32) j \<longleftrightarrow> j = 31" for j
    unfolding p bit_push_bit_iff bit_1_iff by (auto simp: possible_bit_def)
  have "bit (drop_bit (31 - k) (drop_bit k 0x80000000 AND d)) n \<longleftrightarrow>
      k + (31 - k + n) = 31 \<and> bit d (31 - k + n)"
    unfolding bit_drop_bit_eq bit_and_iff comp_def x by (rule refl)
  also have "\<dots> \<longleftrightarrow> n = 0 \<and> bit d (31 - k)" using assms by auto
  also have "\<dots> = bit (of_bool (bit d (31 - k)) :: u32) n" unfolding bit_of_bool_iff by auto
  finally show "bit (drop_bit (31 - k) (drop_bit k 0x80000000 AND d)) n = bit (of_bool (bit d (31 - k)) :: u32) n" .
qed

lemma next_bit: "k < 32 \<Longrightarrow> bit_idx (drop_bit k 0x80000000) d (Suc k) = Some (of_bool (bit d (31 - k)))"
  using bit_idx_bit[of k d] by (simp add: bit_idx_def)

lemma keys_from_step: "k < n \<Longrightarrow> keys_from k n d = bit d (31 - k) # keys_from (Suc k) n d"
  by (simp add: keys_from_def upt_conv_Cons)

lemma keys_from_end [simp]: "n \<le> k \<Longrightarrow> keys_from k n d = []"
  by (simp add: keys_from_def)

lemma keys_from_0: "keys_from 0 n d = key n d"
  by (simp add: keys_from_def key_def)

lemma node_son_child: "node_son (of_bool b) c = child b c"
  by (cases c) simp

lemma child_set_son: "child b (set_son (of_bool b') s c) = (if b = b' then Some s else child b c)"
  by (cases c) auto

lemma entry_set_son [simp]: "entry (set_son x s c) = entry c"
  by (cases c) (simp add: entry_def)

lemma entry_set_entry [simp]: "entry (set_entry i d c) = Some (i, d)"
  by (cases c) (simp add: entry_def set_entry_def)

lemma entry_at_set_son:
  "entry_at (set_son (of_bool b) s c) bs =
     (case bs of [] \<Rightarrow> entry c | b' # bs' \<Rightarrow> if b' = b then entry_at s bs' else entry_at c bs)"
  by (cases bs) (simp_all add: child_set_son)

lemma entry_at_fresh: "malloc_base junk cnt = (c, cnt') \<Longrightarrow> entry_at (set_entry i d c) bs = (if bs = [] then Some (i, d) else None)"
  by (cases bs; cases c) (auto simp: malloc_base_def set_entry_def entry_def split: prod.splits)

lemma entry_at_blank: "malloc_base junk cnt = (c, cnt') \<Longrightarrow> entry_at (clear_match c) bs = None"
  by (cases bs; cases c) (auto simp: malloc_base_def clear_match_def entry_def split: prod.splits)

lemma put_chain_entries:
  assumes "put_chain junk i (unat msk) d (drop_bit k 0x80000000) (Suc k) cnt = Some (c, cnt')" "unat msk \<le> 32" "k < 32"
  shows "entry_at c bs = (if bs = keys_from (Suc k) (unat msk) d then Some (i, d) else None)"
  using assms
proof (induction "unat msk - k" arbitrary: k cnt c cnt' bs)
  case 0
  then show ?case
    by (subst (asm) put_chain.simps) (auto simp: entry_at_fresh split: prod.splits)
next
  case (Suc n)
  obtain c0 cnt0 where m: "malloc_base junk cnt = (c0, cnt0)" by fastforce
  note h = Suc.prems(1)[unfolded put_chain.simps[of _ _ _ _ _ "Suc k"] m Let_def prod.case]
  show ?case
  proof (cases "Suc k < unat msk")
    case False
    with h m show ?thesis by (auto simp: entry_at_fresh)
  next
    case True
    then have k: "Suc k < 32" using Suc.prems(2) by simp
    have chk: "drop_bit 1 (drop_bit k 0x80000000) = (drop_bit (Suc k) 0x80000000 :: u32)"
      by (simp add: drop_bit_Suc drop_bit_half[symmetric] flip: drop_bit_drop_bit)
    from h True next_bit[OF k, of d] obtain sub cnt1 where sub:
        "put_chain junk i (unat msk) d (drop_bit (Suc k) 0x80000000) (Suc (Suc k)) cnt0 = Some (sub, cnt1)"
        "c = set_son (of_bool (bit d (31 - Suc k))) sub (clear_match c0)"
      unfolding chk by (auto split: Option.bind_splits)
    have "n = unat msk - Suc k" using Suc.hyps(2) by simp
    from Suc.hyps(1)[OF this sub(1) Suc.prems(2) k] entry_at_blank[OF m, of bs] True show ?thesis
      by (cases bs) (auto simp: sub(2) child_set_son keys_from_step[of "Suc k"])
  qed
qed

lemma put_walk_entries:
  assumes "put_walk junk i (unat msk) d (drop_bit k 0x80000000) k c cnt = Some (c', cnt')" "unat msk \<le> 32" "k \<le> 32"
  shows "entry_at c' bs = (if bs = keys_from k (unat msk) d then Some (i, d) else entry_at c bs)"
  using assms
proof (induction "unat msk - k" arbitrary: k c cnt c' cnt' bs)
  case 0
  then have "c' = set_entry i d c" by (subst (asm) put_walk.simps) simp
  with 0 show ?case by (cases bs; cases c) (auto simp: set_entry_def entry_def)
next
  case (Suc n)
  then have k: "k < unat msk" "k < 32" by auto
  have chk: "drop_bit 1 (drop_bit k 0x80000000) = (drop_bit (Suc k) 0x80000000 :: u32)"
    by (simp add: drop_bit_Suc drop_bit_half[symmetric] flip: drop_bit_drop_bit)
  let ?b = "bit d (31 - k)"
  note h = Suc.prems(1)[unfolded put_walk.simps[of _ _ _ _ _ k] if_P[OF k(1)] Let_def next_bit[OF k(2)]
      bind.bind_lunit node_son_child chk]
  show ?case
  proof (cases "child ?b c")
    case None
    with h obtain sub cnt1 where sub: "put_chain junk i (unat msk) d (drop_bit k 0x80000000) (Suc k) cnt = Some (sub, cnt1)"
      "c' = set_son (of_bool ?b) sub c" by (auto split: Option.bind_splits)
    show ?thesis using put_chain_entries[OF sub(1) Suc.prems(2) k(2)] k(1) None
      by (cases bs) (auto simp: sub(2) child_set_son keys_from_step)
  next
    case (Some s0)
    with h obtain sub cnt1 where sub: "put_walk junk i (unat msk) d (drop_bit (Suc k) 0x80000000) (Suc k) s0 cnt = Some (sub, cnt1)"
      "c' = set_son (of_bool ?b) sub c" by (auto split: Option.bind_splits)
    have "n = unat msk - Suc k" "Suc k \<le> 32" using Suc.hyps(2) k(2) by simp_all
    from Suc.hyps(1)[OF this(1) sub(1) Suc.prems(2) this(2)] k(1) Some show ?thesis
      by (cases bs) (auto simp: sub(2) child_set_son keys_from_step)
  qed
qed

lemma put_base_entries:
  assumes "put_base junk c i msk d cnt = Some (c', cnt')" "unat msk \<le> 32"
  shows "entry_at c' = (entry_at c)(key (unat msk) d := Some (i, d))"
  using put_walk_entries[of junk i msk d 0] assms by (auto simp: put_base_def keys_from_0)

section \<open>Lookup finds the deepest entry\<close>

text \<open>Below a node, the deepest entry on the way along a bit string, the node itself left out.\<close>

fun deepest :: "(bool list \<Rightarrow> 'a option) \<Rightarrow> bool list \<Rightarrow> 'a option" where
  "deepest f [] = None"
| "deepest f (b # bs) = (case deepest (\<lambda>p. f (b # p)) bs of None \<Rightarrow> f [b] | Some x \<Rightarrow> Some x)"

lemma deepest_none: "(\<And>p. f p = None) \<Longrightarrow> deepest f bs = None"
  by (induction bs arbitrary: f) simp_all

lemma get_walk_deepest:
  assumes "k \<le> 32"
  shows "map_option (\<lambda>c. (n_iface c, n_dest c)) (get_walk d (drop_bit k 0x80000000) k c res) =
    (case deepest (entry_at c) (keys_from k 32 d) of
       None \<Rightarrow> map_option (\<lambda>c. (n_iface c, n_dest c)) res | Some x \<Rightarrow> Some x)"
  using assms
proof (induction "32 - k" arbitrary: k c res)
  case 0
  then show ?case by (subst get_walk.simps) simp
next
  case (Suc n)
  then have k: "k < 32" and n: "n = 32 - Suc k" "Suc k \<le> 32" by simp_all
  have chk: "drop_bit 1 (drop_bit k 0x80000000) = (drop_bit (Suc k) 0x80000000 :: u32)"
    by (simp add: drop_bit_Suc drop_bit_half[symmetric] flip: drop_bit_drop_bit)
  have idx: "drop_bit (32 - Suc k) (drop_bit k 0x80000000 AND d) = (of_bool (bit d (31 - k)) :: u32)"
    using bit_idx_bit[OF k, of d] by simp
  let ?b = "bit d (31 - k)"
  show ?case
  proof (cases "child ?b c")
    case None
    then have "deepest (\<lambda>p. entry_at c (?b # p)) bs = None" for bs by (intro deepest_none) simp
    with None show ?thesis unfolding get_walk.simps[of _ _ k] if_P[OF k] Let_def idx node_son_child
      by (simp add: keys_from_step[OF k])
  next
    case (Some c')
    then have "(\<lambda>p. entry_at c (?b # p)) = entry_at c'" by (simp add: fun_eq_iff)
    then show ?thesis
      unfolding get_walk.simps[of _ _ k] if_P[OF k] Let_def idx node_son_child chk Some option.case
        Suc.hyps(1)[OF n] keys_from_step[OF k] deepest.simps
      using Some by (simp add: entry_def split: option.splits)
  qed
qed

lemma get_base_deepest:
  "map_option (\<lambda>c. (n_iface c, n_dest c)) (get_base c d) = deepest (entry_at c) (key 32 d)"
  using get_walk_deepest[of 0 d c None] by (simp add: get_base_def keys_from_0 split: option.splits)

lemma deepest_snoc: "deepest f (bs @ [b]) = (case f (bs @ [b]) of None \<Rightarrow> deepest f bs | Some x \<Rightarrow> Some x)"
  by (induction bs arbitrary: f) (simp_all split: option.splits)

lemma key_Suc: "key (Suc n) d = key n d @ [bit d (31 - n)]"
  by (simp add: key_def)

lemma length_key [simp]: "length (key n d) = n"
  by (simp add: key_def)

lemma deepest_key_Suc:
  "deepest f (key (Suc n) d) = (case f (key (Suc n) d) of None \<Rightarrow> deepest f (key n d) | Some x \<Rightarrow> Some x)"
  by (simp only: key_Suc deepest_snoc)

definition deepest_len :: "(bool list \<Rightarrow> 'a option) \<Rightarrow> u32 \<Rightarrow> nat \<Rightarrow> nat \<Rightarrow> bool" where
  "deepest_len f d n j \<longleftrightarrow> 1 \<le> j \<and> j \<le> n \<and> f (key j d) \<noteq> None \<and> (\<forall>m. j < m \<and> m \<le> n \<longrightarrow> f (key m d) = None)"

lemma deepest_key_Some: "deepest_len f d n j \<Longrightarrow> deepest f (key n d) = f (key j d)"
proof (induction n)
  case (Suc n)
  then show ?case
    by (cases "j = Suc n") (auto simp: deepest_len_def deepest_key_Suc le_Suc_eq split: option.splits)
qed (auto simp: deepest_len_def)

lemma deepest_key_None: "(\<And>j. 1 \<le> j \<Longrightarrow> j \<le> n \<Longrightarrow> f (key j d) = None) \<Longrightarrow> deepest f (key n d) = None"
  by (induction n) (simp_all add: deepest_key_Suc, simp add: key_def)

section \<open>The rules put into a trie\<close>

text \<open>A rule agrees with an address when they share the leading bits; a list of rules is searched for
  the longest prefix, the latest of equal ones.\<close>

type_synonym rule = "u32 \<times> u32 \<times> u32"

definition agrees :: "u32 \<Rightarrow> rule \<Rightarrow> bool" where
  "agrees d = (\<lambda>(iface, msk, dest). 1 \<le> unat msk \<and> (\<forall>i<unat msk. bit d (31 - i) = bit dest (31 - i)))"

definition better :: "rule option \<Rightarrow> rule \<Rightarrow> bool" where
  "better best r = (case best of None \<Rightarrow> True | Some (_, msk, _) \<Rightarrow> unat msk \<le> unat (fst (snd r)))"

fun best_rule :: "u32 \<Rightarrow> rule list \<Rightarrow> rule option \<Rightarrow> rule option" where
  "best_rule d [] best = best"
| "best_rule d (r # rules) best = best_rule d rules (if agrees d r \<and> better best r then Some r else best)"

lemma key_eq_iff: "key m e = key j d \<longleftrightarrow> m = j \<and> (\<forall>i<m. bit d (31 - i) = bit e (31 - i))"
proof
  assume *: "key m e = key j d"
  then have "m = j" by (metis length_key)
  moreover have "bit d (31 - i) = bit e (31 - i)" if "i < m" for i
    using arg_cong[OF *, of "\<lambda>x. x ! i"] that \<open>m = j\<close> by (simp add: key_def)
  ultimately show "m = j \<and> (\<forall>i<m. bit d (31 - i) = bit e (31 - i))" by blast
qed (auto simp: key_def)

text \<open>The entries of a trie and the best rule so far hold together for every address.\<close>

definition matches_best :: "(bool list \<Rightarrow> (u32 \<times> u32) option) \<Rightarrow> u32 \<Rightarrow> rule option \<Rightarrow> bool" where
  "matches_best f d best = (case best of
     None \<Rightarrow> \<forall>j. 1 \<le> j \<and> j \<le> 32 \<longrightarrow> f (key j d) = None
   | Some (i, msk, e) \<Rightarrow> deepest_len f d 32 (unat msk) \<and> f (key (unat msk) d) = Some (i, e))"

lemma matches_best_put:
  assumes "matches_best f d best" "unat msk \<le> 32"
  shows "matches_best (f(key (unat msk) e := Some (i, e))) d
    (if agrees d (i, msk, e) \<and> better best (i, msk, e) then Some (i, msk, e) else best)"
proof (cases "agrees d (i, msk, e)")
  case False
  then have "j = 0" if "key j d = key (unat msk) e" for j
    using that by (auto simp: agrees_def key_eq_iff)
  then have "(f(key (unat msk) e := Some (i, e))) (key j d) = f (key j d)" if "1 \<le> j" for j
    using that by (metis fun_upd_apply not_one_le_zero)
  with assms(1) False show ?thesis
    by (auto simp: matches_best_def deepest_len_def simp del: fun_upd_apply split: option.splits)
next
  case True
  then have 1: "1 \<le> unat msk" and k: "key (unat msk) e = key (unat msk) d" by (auto simp: agrees_def key_eq_iff)
  have u: "(f(key (unat msk) e := Some (i, e))) (key j d) = (if j = unat msk then Some (i, e) else f (key j d))" for j
    unfolding k by (auto simp: key_eq_iff)
  show ?thesis using assms True 1
    by (auto simp: matches_best_def deepest_len_def better_def u simp del: fun_upd_apply split: option.splits)
qed

lemma put_all_best:
  assumes "put_all junk rules c cnt = Some (c', cnt')" "\<forall>(i, msk, e)\<in>set rules. unat msk \<le> 32"
    and "matches_best (entry_at c) d best"
  shows "matches_best (entry_at c') d (best_rule d rules best)"
  using assms
proof (induction rules arbitrary: c cnt best)
  case (Cons r rules)
  obtain i msk e where r: "r = (i, msk, e)" by (cases r)
  from Cons.prems(1) r obtain c1 cnt1 where p: "put_base junk c i msk e cnt = Some (c1, cnt1)"
    "put_all junk rules c1 cnt1 = Some (c', cnt')" by (auto split: Option.bind_splits)
  have m: "unat msk \<le> 32" using Cons.prems(2) r by simp
  have "matches_best (entry_at c1) d (if agrees d r \<and> better best r then Some r else best)"
    unfolding put_base_entries[OF p(1) m] r by (rule matches_best_put[OF Cons.prems(3) m])
  from Cons.IH[OF p(2) _ this] Cons.prems(2) show ?case by simp
qed simp

lemma init_root_matches: "init_root_base junk cnt = (c, cnt') \<Longrightarrow> matches_best (entry_at c) d None"
proof -
  assume "init_root_base junk cnt = (c, cnt')"
  then have "child b c = None" for b
    by (auto simp: init_root_base_def malloc_base_def split: prod.splits)
  then have "entry_at c (b # bs) = None" for b bs by simp
  then show ?thesis unfolding matches_best_def by (simp add: key_def upt_conv_Cons)
qed

section \<open>Insertion never fails\<close>

lemma put_chain_total:
  assumes "unat msk \<le> 32"
  shows "\<exists>c cnt'. put_chain junk i (unat msk) d chk k cnt = Some (c, cnt')"
proof (induction "unat msk - k" arbitrary: k chk cnt)
  case 0
  then show ?case by (subst put_chain.simps) (simp split: prod.splits)
next
  case (Suc n)
  then have k: "k < unat msk" "n = unat msk - Suc k" by simp_all
  obtain idx where "bit_idx (drop_bit 1 chk) d (Suc k) = Some idx" using k(1) assms by (simp add: bit_idx_def)
  moreover obtain c0 cnt0 where "malloc_base junk cnt = (c0, cnt0)" by fastforce
  moreover obtain sub cnt1 where "put_chain junk i (unat msk) d (drop_bit 1 chk) (Suc k) cnt0 = Some (sub, cnt1)"
    using Suc.hyps(1)[OF k(2)] by blast
  ultimately show ?case using k(1) by (subst put_chain.simps) (simp del: drop_bit_numeral_bit1)
qed

lemma put_walk_total:
  assumes "unat msk \<le> 32"
  shows "\<exists>c' cnt'. put_walk junk i (unat msk) d chk k c cnt = Some (c', cnt')"
proof (induction "unat msk - k" arbitrary: k chk c cnt)
  case 0
  then show ?case by (subst put_walk.simps) simp
next
  case (Suc n)
  then have k: "k < unat msk" "n = unat msk - Suc k" by simp_all
  obtain idx where idx: "bit_idx chk d (Suc k) = Some idx" using k(1) assms by (simp add: bit_idx_def)
  show ?case
  proof (cases "node_son idx c")
    case None
    then show ?thesis using k(1) idx put_chain_total[OF assms, of junk i d chk "Suc k" cnt]
      by (subst put_walk.simps) auto
  next
    case (Some c1)
    then show ?thesis using k(1) idx Suc.hyps(1)[OF k(2), of "drop_bit 1 chk" c1 cnt]
      by (subst put_walk.simps) auto
  qed
qed

lemma put_all_total:
  assumes "\<forall>(i, msk, e)\<in>set rules. unat msk \<le> 32"
  shows "\<exists>t cnt'. put_all junk rules c cnt = Some (t, cnt')"
  using assms
proof (induction rules arbitrary: c cnt)
  case (Cons r rules)
  obtain i msk e where r: "r = (i, msk, e)" by (cases r)
  with Cons.prems obtain c1 cnt1 where "put_base junk c i msk e cnt = Some (c1, cnt1)"
    using put_walk_total[of msk] by (fastforce simp: put_base_def)
  with Cons r show ?case by simp
qed simp

section \<open>Properties\<close>



text \<open>The forwarding table of the router with the same rules, the gateway field holding the interface
  number of the rule.\<close>

definition route_of :: "iface \<Rightarrow> rule \<Rightarrow> rt_entry" where
  "route_of ifc = (\<lambda>(i, msk, e). \<lparr> rt_dest = e, rt_mask = prefix_mask (unat msk), rt_gw = i, rt_flags = 0,
     rt_if_name = if_name ifc, rt_iface = ifc \<rparr>)"

definition rule_key :: "rule \<Rightarrow> bool list" where
  "rule_key = (\<lambda>(i, msk, e). key (unat msk) e)"

lemma route_matches:
  assumes "1 \<le> unat msk" "unat msk \<le> 32"
  shows "d AND rt_mask (route_of ifc (i, msk, e)) = rt_dest (route_of ifc (i, msk, e)) AND rt_mask (route_of ifc (i, msk, e))
    \<longleftrightarrow> agrees d (i, msk, e)"
proof -
  have "(\<forall>j. 32 - unat msk \<le> j \<and> j < 32 \<longrightarrow> bit d j = bit e j) \<longleftrightarrow> (\<forall>k<unat msk. bit d (31 - k) = bit e (31 - k))"
  proof (rule iffI; intro allI impI)
    fix k assume *: "\<forall>j. 32 - unat msk \<le> j \<and> j < 32 \<longrightarrow> bit d j = bit e j" "k < unat msk"
    then have "32 - unat msk \<le> 31 - k \<and> 31 - k < 32" using assms by linarith
    with *(1) show "bit d (31 - k) = bit e (31 - k)" by blast
  next
    fix j assume *: "\<forall>k<unat msk. bit d (31 - k) = bit e (31 - k)" "32 - unat msk \<le> j \<and> j < 32"
    then have "31 - j < unat msk" "31 - (31 - j) = j" using assms by arith+
    with *(1) show "bit d j = bit e j" by metis
  qed
  moreover have "rt_mask (route_of ifc (i, msk, e)) = prefix_mask (unat msk)" "rt_dest (route_of ifc (i, msk, e)) = e"
    by (simp_all add: route_of_def)
  ultimately show ?thesis
    using rt_matches_prefix[of "route_of ifc (i, msk, e)" "unat msk" d] assms by (simp add: rt_matches_def agrees_def)
qed

lemma lpm_loop_best_rule:
  assumes "\<forall>(i, msk, e)\<in>set rules. 1 \<le> unat msk \<and> unat msk \<le> 32" "distinct (map rule_key rules)"
    and "\<forall>b. best = Some b \<longrightarrow> agrees d b \<and> unat (fst (snd b)) \<le> 32 \<and> rule_key b \<notin> rule_key ` set rules"
  shows "lpm_loop d (map (route_of ifc) rules) (map_option (route_of ifc) best) = map_option (route_of ifc) (best_rule d rules best)"
  using assms
proof (induction rules arbitrary: best)
  case (Cons r rules)
  obtain i msk e where r: "r = (i, msk, e)" by (cases r)
  have m: "1 \<le> unat msk" "unat msk \<le> 32" using Cons.prems(1) r by simp_all
  have step: "(case map_option (route_of ifc) best of None \<Rightarrow> True | Some s \<Rightarrow> rt_mask s < rt_mask (route_of ifc r)) \<longleftrightarrow> better best r"
    if ag: "agrees d r"
  proof (cases best)
    case (Some b)
    obtain i' msk' e' where b: "b = (i', msk', e')" by (cases b)
    have *: "agrees d (i', msk', e')" "unat msk' \<le> 32" "key (unat msk') e' \<noteq> key (unat msk) e"
      using Cons.prems(3) Some b r by (auto simp: rule_key_def)
    have "unat msk' \<noteq> unat msk" using *(1,3) ag r by (auto simp: agrees_def key_def)
    then show ?thesis using prefix_mask_less_iff[of "unat msk'" "unat msk"] m *(2) Some b r
      by (auto simp: better_def route_of_def)
  qed (simp add: better_def)
  have "lpm_loop d (map (route_of ifc) (r # rules)) (map_option (route_of ifc) best) =
      lpm_loop d (map (route_of ifc) rules) (map_option (route_of ifc) (if agrees d r \<and> better best r then Some r else best))"
    using route_matches[OF m, of d ifc i e] step r by (auto simp: if_distrib)
  also have "\<dots> = map_option (route_of ifc) (best_rule d rules (if agrees d r \<and> better best r then Some r else best))"
    using Cons.prems m r by (intro Cons.IH) (auto simp: image_iff)
  finally show ?case by simp
qed simp



text \<open>A default route is stored at the root, where no lookup looks: it is never used.\<close>

theorem default_route_never_found:
  "put_base junk (Node l r i0 d0 m0) i 0 e cnt = Some (Node l r i e 1, cnt) \<and>
   get_base (Node l r i e 1) d = get_base (Node l r i0 d0 m0) d"
  by (simp add: put_base_def put_walk.simps get_base_def get_walk.simps[of _ _ 0] set_entry_def)

end
