(* ===== verification/Pop_Trie.thy ===== *)
theory Pop_Trie
  imports Net_Prelude
begin

text \<open>
  The compressed trie of \<open>prj09/poptrie.c\<close>. A node covers six bits of the address: \<open>vector\<close> marks the
  keys with a child, \<open>leafvec\<close> those where a new run of equal leaves starts, and the children and the
  leaves stand in arrays indexed by the number of marks up to the key. The arrays are reallocated
  when a node grows and \<open>direct_pointing\<close> points into them, so the model keeps a heap: an array is a
  number, a pointer to an element a pair of the array and the index. A freed array is gone: using a
  pointer into it, or an index outside an array, is \<open>None\<close>, as are the shifts by 32 of \<open>put_poptrie\<close>
  and the \<open>memset\<close> of \<open>malloc_leaf\<close> on an array of no leaves. Copying no bytes is harmless from any
  pointer, also from NULL (array 0).
\<close>

section \<open>Nodes and the heap\<close>

record leaf_node =
  lf_iface :: u32
  lf_mask :: u32

record internal_node =
  in_leafvec :: u64
  in_vector :: u64
  in_child :: nat
  in_leaf :: nat

record poptrie =
  pp_internals :: "nat \<Rightarrow> internal_node list option"
  pp_leaves :: "nat \<Rightarrow> leaf_node list option"
  pp_next :: nat
  pp_junk :: "nat \<Rightarrow> nat \<Rightarrow> leaf_node"
  pp_direct :: "nat \<Rightarrow> (nat \<times> nat) option"
  pp_counter_leaf :: u32
  pp_counter_internal :: u32

definition node_K :: nat where "node_K = 6"
definition SEC_MASK :: u32 where "SEC_MASK = 0xfc000000"

definition zero_leaf :: leaf_node where "zero_leaf = \<lparr> lf_iface = 0, lf_mask = 0 \<rparr>"
definition zero_internal :: internal_node where
  "zero_internal = \<lparr> in_leafvec = 0, in_vector = 0, in_child = 0, in_leaf = 0 \<rparr>"

definition elem :: "'a list option \<Rightarrow> nat \<Rightarrow> 'a option" where
  "elem a i = (case a of None \<Rightarrow> None | Some xs \<Rightarrow> if i < length xs then Some (xs ! i) else None)"

definition int_at :: "nat \<times> nat \<Rightarrow> poptrie \<Rightarrow> internal_node option" where
  "int_at p s = elem (pp_internals s (fst p)) (snd p)"

definition leaf_at :: "nat \<times> nat \<Rightarrow> poptrie \<Rightarrow> leaf_node option" where
  "leaf_at p s = elem (pp_leaves s (fst p)) (snd p)"

definition put_int :: "nat \<times> nat \<Rightarrow> internal_node \<Rightarrow> poptrie \<Rightarrow> poptrie option" where
  "put_int p n s = (case pp_internals s (fst p) of
     None \<Rightarrow> None
   | Some xs \<Rightarrow> if snd p < length xs then Some (s\<lparr>pp_internals := (pp_internals s)(fst p := Some (xs[snd p := n]))\<rparr>) else None)"

text \<open>\<open>memcpy\<close> of \<open>n\<close> elements from position \<open>i\<close> of an array; none from anywhere.\<close>

definition slice :: "'a list option \<Rightarrow> nat \<Rightarrow> nat \<Rightarrow> 'a list option" where
  "slice a i n = (if n = 0 then Some [] else case a of None \<Rightarrow> None
     | Some xs \<Rightarrow> if i + n \<le> length xs then Some (take n (drop i xs)) else None)"

definition free_leaf :: "nat \<Rightarrow> poptrie \<Rightarrow> poptrie" where
  "free_leaf a s = s\<lparr>pp_leaves := (pp_leaves s)(a := None)\<rparr>"

definition free_internal :: "nat \<Rightarrow> poptrie \<Rightarrow> poptrie" where
  "free_internal a s = s\<lparr>pp_internals := (pp_internals s)(a := None)\<rparr>"

fun count_one_bit :: "nat \<Rightarrow> u64 \<Rightarrow> nat" where
  "count_one_bit 0 num = 0"
| "count_one_bit (Suc n) num = of_bool (num AND 1 = 1) + count_one_bit n (drop_bit 1 num)"

fun renew_pointing :: "nat \<Rightarrow> nat \<Rightarrow> u64 \<Rightarrow> nat \<Rightarrow> nat \<Rightarrow> (nat \<Rightarrow> (nat \<times> nat) option) \<Rightarrow> nat \<Rightarrow> (nat \<times> nat) option" where
  "renew_pointing 0 pos vec new_child idx direct = direct"
| "renew_pointing (Suc n) pos vec new_child idx direct =
     (if vec AND 1 = 1
      then renew_pointing n (Suc pos) (drop_bit 1 vec) new_child (Suc idx) (direct(pos := Some (new_child, idx)))
      else renew_pointing n (Suc pos) (drop_bit 1 vec) new_child idx direct)"

definition malloc_leaf :: "nat \<Rightarrow> poptrie \<Rightarrow> (nat \<times> poptrie) option" where
  "malloc_leaf sz s = (if sz = 0 then None
     else let a = pp_next s
       in Some (a, s\<lparr>pp_leaves := (pp_leaves s)(a := Some (zero_leaf # map (pp_junk s a) [1..<sz])), pp_next := Suc a\<rparr>))"

definition malloc_internal :: "nat \<Rightarrow> poptrie \<Rightarrow> nat \<times> poptrie" where
  "malloc_internal sz s = (let a = pp_next s
     in (a, s\<lparr>pp_internals := (pp_internals s)(a := Some (replicate sz zero_internal)), pp_next := Suc a,
          pp_counter_internal := pp_counter_internal s + 1\<rparr>))"

text \<open>An allocated array whose elements the code has all written.\<close>

definition fill_leaf :: "nat \<Rightarrow> leaf_node list \<Rightarrow> poptrie \<Rightarrow> poptrie" where
  "fill_leaf a ls s = s\<lparr>pp_leaves := (pp_leaves s)(a := Some ls)\<rparr>"

definition fill_internal :: "nat \<Rightarrow> internal_node list \<Rightarrow> poptrie \<Rightarrow> poptrie" where
  "fill_internal a ns s = s\<lparr>pp_internals := (pp_internals s)(a := Some ns)\<rparr>"

definition init_root_poptrie :: "poptrie \<Rightarrow> ((nat \<times> nat) \<times> poptrie) option" where
  "init_root_poptrie s = (let (a, s) = malloc_internal 1 s in do {
     (l, s) \<leftarrow> malloc_leaf 1 s;
     Some ((a, 0), fill_internal a [\<lparr> in_leafvec = 1, in_vector = 0, in_child = 0, in_leaf = l \<rparr>]
       (s\<lparr>pp_counter_leaf := pp_counter_leaf s + 1, pp_direct := (\<lambda>_. None)\<rparr>)) })"

section \<open>Lookup\<close>

text \<open>The loop over the bits before the key: the counts \<open>idx[0]\<close> and \<open>idx[1]\<close> and the shifted
  vectors.\<close>

fun scan_bits :: "nat \<Rightarrow> u64 \<Rightarrow> u64 \<Rightarrow> nat \<Rightarrow> nat \<Rightarrow> nat \<times> nat \<times> u64 \<times> u64" where
  "scan_bits 0 v l i0 i1 = (i0, i1, v, l)"
| "scan_bits (Suc n) v l i0 i1 =
     (if v AND 1 = 1 then scan_bits n (drop_bit 1 v) (drop_bit 1 l) i0 (Suc i1)
      else scan_bits n (drop_bit 1 v) (drop_bit 1 l) (i0 + of_bool (l AND 1 = 1)) i1)"

definition sec_key :: "u32 \<Rightarrow> nat" where
  "sec_key dest = unat (drop_bit (32 - node_K) (dest AND SEC_MASK))"

text \<open>Both counts with the bit of the key included, and the two bits themselves.\<close>

definition scan_key :: "nat \<Rightarrow> internal_node \<Rightarrow> nat \<times> nat \<times> bool \<times> bool" where
  "scan_key key n = (case scan_bits key (in_vector n) (in_leafvec n) 0 0 of (i0, i1, v, l) \<Rightarrow>
     (i0 + of_bool (\<not> v AND 1 = 1 \<and> l AND 1 = 1), i1 + of_bool (v AND 1 = 1), v AND 1 = 1, l AND 1 = 1))"

text \<open>\<open>leaf + idx[0] - 1\<close> is a pointer to an element, or undefined.\<close>

partial_function (option) get_loop :: "u32 \<Rightarrow> u32 \<Rightarrow> nat \<times> nat \<Rightarrow> poptrie \<Rightarrow> (nat \<times> nat) option option" where
  "get_loop dest msk current s =
     (if msk = 0 then Some None
      else do {
        n \<leftarrow> int_at current s;
        (case scan_key (sec_key dest) n of (i0, i1, b, lb) \<Rightarrow>
           if \<not> b then (if i0 = 0 then None else do { _ \<leftarrow> leaf_at (in_leaf n, i0 - 1) s; Some (Some (in_leaf n, i0 - 1)) })
           else get_loop (push_bit node_K dest) (msk - of_nat node_K) (in_child n, i1 - 1) s) })"

declare get_loop.simps [code]

definition get_poptrie :: "nat \<times> nat \<Rightarrow> u32 \<Rightarrow> poptrie \<Rightarrow> (nat \<times> nat) option option" where
  "get_poptrie root dest s =
     (case pp_direct s (unat (drop_bit 20 dest)) of
        None \<Rightarrow> get_loop dest 32 root s
      | Some q \<Rightarrow> get_loop (push_bit 12 dest) (32 - 12) q s)"

section \<open>Insertion\<close>

text \<open>Making room for a child at a key that has none: the vectors, the leaf the key had, the leaves
  without it (or with its run starting later), the children with a new node in their middle.\<close>

fun tail_scan :: "nat \<Rightarrow> nat \<Rightarrow> u64 \<Rightarrow> u64 \<Rightarrow> nat \<times> bool \<times> bool" where
  "tail_scan 0 i v l = (i, True, False)"
| "tail_scan (Suc n) i v l =
     (let v = drop_bit 1 v; l = drop_bit 1 l
      in if \<not> v AND 1 = 1 then (i, False, l AND 1 = 1)
         else tail_scan n (Suc i) v l)"

text \<open>\<open>tail_l\<close> is only looked at when \<open>tail_v\<close> is clear, that is, when the loop has stopped early.\<close>

definition drop_leaf :: "nat \<Rightarrow> nat \<Rightarrow> u64 \<Rightarrow> u64 \<Rightarrow> internal_node \<Rightarrow> poptrie \<Rightarrow> (internal_node \<times> poptrie) option" where
  "drop_leaf key i0 v l n s =
     (case tail_scan (63 - key) (key + 1) v l of (i, tail_v, tail_l) \<Rightarrow>
        if \<not> tail_v \<and> \<not> tail_l then Some (n\<lparr>in_leafvec := in_leafvec n OR push_bit i 1\<rparr>, s)
        else do {
          let l_one_bit = count_one_bit 64 (in_leafvec n);
          (a, s) \<leftarrow> malloc_leaf l_one_bit s;
          front \<leftarrow> slice (pp_leaves s (in_leaf n)) 0 (i0 - 1);
          back \<leftarrow> slice (pp_leaves s (in_leaf n)) i0 (Suc l_one_bit - i0);
          if Suc l_one_bit < i0 then None else do {
            let s = free_leaf (in_leaf n) (fill_leaf a (front @ back) s);
            Some (n\<lparr>in_leaf := a\<rparr>, s\<lparr>pp_counter_leaf := pp_counter_leaf s - 1\<rparr>) } })"

definition grow_node :: "nat \<Rightarrow> nat \<Rightarrow> nat \<Rightarrow> nat \<times> nat \<Rightarrow> internal_node \<Rightarrow> poptrie \<Rightarrow> (nat \<times> poptrie) option" where
  "grow_node head level key current n s =
     (case scan_bits key (in_vector n) (in_leafvec n) 0 0 of (i0, i1, v, l) \<Rightarrow> do {
        let lbit = (l AND 1 = 1);
        let i0 = i0 + of_bool lbit;
        let one_bit = count_one_bit 64 (in_vector n);
        let n = n\<lparr>in_vector := in_vector n OR push_bit key 1, in_leafvec := in_leafvec n AND NOT (push_bit key 1)\<rparr>;
        old \<leftarrow> (if i0 = 0 then None else leaf_at (in_leaf n, i0 - 1) s);
        (n, s) \<leftarrow> (if lbit then drop_leaf key i0 v l n s else Some (n, s));
        let (c, s) = malloc_internal (one_bit + 1) s;
        front \<leftarrow> slice (pp_internals s (in_child n)) 0 i1;
        back \<leftarrow> slice (pp_internals s (in_child n)) i1 (one_bit - i1);
        (a, s) \<leftarrow> malloc_leaf 1 s;
        let s = fill_leaf a [\<lparr> lf_iface = lf_iface old, lf_mask = lf_mask old \<rparr>] s;
        let s = fill_internal c (front @ [\<lparr> in_leafvec = 1, in_vector = 0, in_child = 0, in_leaf = a \<rparr>] @ back) s;
        let s = free_internal (in_child n) s;
        let s = (if level = 1 then s\<lparr>pp_direct := renew_pointing 64 head (in_vector n) c 0 (pp_direct s)\<rparr> else s);
        s \<leftarrow> put_int current (n\<lparr>in_child := c\<rparr>) s;
        Some (i1, s\<lparr>pp_counter_leaf := pp_counter_leaf s + 1\<rparr>) })"

function put_descend :: "nat \<Rightarrow> u32 \<Rightarrow> nat \<Rightarrow> nat \<Rightarrow> nat \<times> nat \<Rightarrow> poptrie \<Rightarrow> (u32 \<times> nat \<times> (nat \<times> nat) \<times> poptrie) option" where
  "put_descend head dest mask_copy level current s =
     (if mask_copy > node_K then do {
        let key = sec_key dest;
        n \<leftarrow> int_at current s;
        (i, s) \<leftarrow> (case scan_key key n of (i0, i1, b, lb) \<Rightarrow>
           if b then Some (i1 - 1, s) else grow_node head level key current n s);
        n \<leftarrow> int_at current s;
        put_descend head (push_bit node_K dest) (mask_copy - node_K) (Suc level) (in_child n, i) s }
      else Some (dest, mask_copy, current, s))"
  by pat_completeness auto
termination by (relation "measure (\<lambda>(head, dest, mask_copy, level, current, s). mask_copy)") (auto simp: node_K_def)

declare put_descend.simps [simp del]

text \<open>The last node: its leaves are collected in \<open>cache\<close>, in three loops over the keys before, in and
  behind the range of the prefix. The array \<open>cache\<close> of 64 leaves is written before it is read in every
  call, so it is part of the loops and not of the state. The state of the loops is the position in the leaf array, the
  vectors, the last leaf seen and the cache filled so far.\<close>

record leaf_scan =
  ls_idx :: nat
  ls_vector :: u64
  ls_leafvec :: u64
  ls_last :: leaf_node
  ls_cache :: "leaf_node list"
  ls_new :: u64

definition push_cache :: "leaf_node \<Rightarrow> leaf_scan \<Rightarrow> leaf_scan option" where
  "push_cache x c = (if length (ls_cache c) < 64 then Some (c\<lparr>ls_cache := ls_cache c @ [x]\<rparr>) else None)"

definition scan_shift :: "leaf_scan \<Rightarrow> leaf_scan" where
  "scan_shift c = c\<lparr>ls_vector := drop_bit 1 (ls_vector c), ls_leafvec := drop_bit 1 (ls_leafvec c)\<rparr>"

fun scan_before :: "nat \<Rightarrow> leaf_node list option \<Rightarrow> leaf_scan \<Rightarrow> leaf_scan option" where
  "scan_before 0 ls c = Some c"
| "scan_before (Suc n) ls c = do {
     c \<leftarrow> (if \<not> ls_vector c AND 1 = 1 \<and> ls_leafvec c AND 1 = 1 then do {
         x \<leftarrow> elem ls (ls_idx c);
         push_cache x (c\<lparr>ls_last := x, ls_idx := Suc (ls_idx c)\<rparr>) }
       else Some c);
     scan_before n ls (scan_shift c) }"

fun scan_range :: "nat \<Rightarrow> nat \<Rightarrow> u32 \<Rightarrow> u32 \<Rightarrow> leaf_node list option \<Rightarrow> bool \<Rightarrow> leaf_scan \<Rightarrow> (bool \<times> leaf_scan) option" where
  "scan_range 0 pos msk iface ls first c = Some (first, c)"
| "scan_range (Suc n) pos msk iface ls first c = do {
     let lbit = (ls_leafvec c AND 1 = 1);
     (first, c) \<leftarrow> (if \<not> ls_vector c AND 1 = 1 \<and> (first \<or> lbit) then do {
         c \<leftarrow> (if lbit then do { x \<leftarrow> elem ls (ls_idx c); Some (c\<lparr>ls_last := x, ls_idx := Suc (ls_idx c)\<rparr>) } else Some c);
         c \<leftarrow> (if msk \<ge> lf_mask (ls_last c)
              then push_cache \<lparr> lf_iface = iface, lf_mask = msk \<rparr> (c\<lparr>ls_new := ls_new c OR push_bit pos 1\<rparr>)
              else Some c);
         Some (False, c) }
       else Some (first, c));
     scan_range n (Suc pos) msk iface ls first (scan_shift c) }"

fun scan_behind :: "nat \<Rightarrow> nat \<Rightarrow> leaf_node list option \<Rightarrow> bool \<Rightarrow> leaf_scan \<Rightarrow> leaf_scan option" where
  "scan_behind 0 pos ls first c = Some c"
| "scan_behind (Suc n) pos ls first c = do {
     let lbit = (ls_leafvec c AND 1 = 1);
     (first, c) \<leftarrow> (if \<not> ls_vector c AND 1 = 1 then do {
         c \<leftarrow> (if first \<and> \<not> lbit then push_cache (ls_last c) (c\<lparr>ls_new := ls_new c OR push_bit pos 1\<rparr>)
              else if lbit then do { x \<leftarrow> elem ls (ls_idx c); push_cache x (c\<lparr>ls_idx := Suc (ls_idx c)\<rparr>) }
              else Some c);
         Some (False, c) }
       else Some (first, c));
     scan_behind n (Suc pos) ls first (scan_shift c) }"

definition put_leaves :: "u32 \<Rightarrow> u32 \<Rightarrow> u32 \<Rightarrow> nat \<Rightarrow> nat \<times> nat \<Rightarrow> poptrie \<Rightarrow> poptrie option" where
  "put_leaves dest msk iface mask_copy current s = do {
     n \<leftarrow> int_at current s;
     let key = sec_key dest;
     let range = 2 ^ (node_K - mask_copy);
     let ls = pp_leaves s (in_leaf n);
     c \<leftarrow> scan_before key ls \<lparr> ls_idx = 0, ls_vector = in_vector n, ls_leafvec = in_leafvec n, ls_last = zero_leaf,
       ls_cache = [], ls_new = in_leafvec n \<rparr>;
     (first, c) \<leftarrow> scan_range range key msk iface ls True c;
     c \<leftarrow> scan_behind (64 - (key + range)) (key + range) ls (\<not> first) c;
     (a, s) \<leftarrow> malloc_leaf (length (ls_cache c)) s;
     let s = free_leaf (in_leaf n) (fill_leaf a (ls_cache c) s);
     s \<leftarrow> put_int current (n\<lparr>in_leafvec := ls_new c, in_leaf := a\<rparr>) s;
     Some (s\<lparr>pp_counter_leaf := pp_counter_leaf s + of_int (int (length (ls_cache c)) - int (ls_idx c))\<rparr>) }"

definition put_poptrie :: "nat \<times> nat \<Rightarrow> u32 \<Rightarrow> u32 \<Rightarrow> u32 \<Rightarrow> poptrie \<Rightarrow> poptrie option" where
  "put_poptrie root dest msk iface s =
     (if \<not> (1 \<le> unat msk \<and> unat msk \<le> 32) then None
      else do {
        let dest = push_bit (32 - unat msk) (drop_bit (32 - unat msk) dest);
        let head = sec_key dest * 64;
        (dest, mask_copy, current, s) \<leftarrow> (case pp_direct s (unat (drop_bit 20 dest)) of
            Some q \<Rightarrow> if unat msk \<le> 12 then put_descend head dest (unat msk) 0 root s
              else put_descend head (push_bit 12 dest) (unat msk - 12) 2 q s
          | None \<Rightarrow> put_descend head dest (unat msk) 0 root s);
        put_leaves dest msk iface mask_copy current s })"

text \<open>\<open>sizeof(leaf_t)\<close> is 8 and \<open>sizeof(internal_t)\<close> 32 on the 64-bit target.\<close>

definition calc_space_poptrie :: "poptrie \<Rightarrow> u32" where
  "calc_space_poptrie s = pp_counter_leaf s * 8 + pp_counter_internal s * 32"

section \<open>The plain trie behind the arrays\<close>

text \<open>What the arrays compress: a tree whose inner nodes have 64 sons each.\<close>

datatype ptree = PLeaf leaf_node | PNode "ptree list"

lemma size_son [termination_simp]: "k < length ts \<Longrightarrow> size (ts ! k) < Suc (size_list size ts)"
  using size_list_estimation'[of "ts ! k" ts "size (ts ! k)" size] by (simp add: le_imp_less_Suc)

fun plookup :: "ptree \<Rightarrow> u32 \<Rightarrow> leaf_node" where
  "plookup (PLeaf x) d = x"
| "plookup (PNode ts) d = (if sec_key d < length ts then plookup (ts ! sec_key d) (push_bit 6 d) else zero_leaf)"

fun fits_levels :: "nat \<Rightarrow> ptree \<Rightarrow> bool" where
  "fits_levels n (PLeaf x) = True"
| "fits_levels 0 (PNode ts) = False"
| "fits_levels (Suc n) (PNode ts) = list_all (fits_levels n) ts"

definition ones_below :: "nat \<Rightarrow> u64 \<Rightarrow> nat" where
  "ones_below n w = length (filter (bit w) [0..<n])"

definition runs_below :: "nat \<Rightarrow> internal_node \<Rightarrow> nat" where
  "runs_below k n = length (filter (\<lambda>j. \<not> bit (in_vector n) j \<and> bit (in_leafvec n) j) [0..<k])"

inductive pop_repr :: "poptrie \<Rightarrow> nat \<times> nat \<Rightarrow> ptree \<Rightarrow> bool" for s where
  Node: "int_at p s = Some n \<Longrightarrow> length ts = 64 \<Longrightarrow>
    (\<And>k. k < 64 \<Longrightarrow> bit (in_vector n) k \<Longrightarrow> (\<exists>us. ts ! k = PNode us) \<and> pop_repr s (in_child n, ones_below k (in_vector n)) (ts ! k)) \<Longrightarrow>
    (\<And>k. k < 64 \<Longrightarrow> \<not> bit (in_vector n) k \<Longrightarrow>
      (\<exists>x. ts ! k = PLeaf x \<and> 0 < runs_below (Suc k) n \<and> leaf_at (in_leaf n, runs_below (Suc k) n - 1) s = Some x)) \<Longrightarrow>
    pop_repr s p (PNode ts)"

lemma low_bit: "w AND 1 = (1 :: u64) \<longleftrightarrow> bit w 0"
  by (simp add: and_one_eq bit_0 odd_iff_mod_2_eq_one)

lemma low_bit_drop [simp]: "drop_bit k w AND 1 = (1 :: u64) \<longleftrightarrow> bit w k"
  by (simp only: low_bit bit_drop_bit_eq comp_def add_0_right)

lemma scan_bits_eq:
  "scan_bits k v l i0 i1 =
    (i0 + length (filter (\<lambda>j. \<not> bit v j \<and> bit l j) [0..<k]), i1 + ones_below k v, drop_bit k v, drop_bit k l)"
proof (induction k arbitrary: v l i0 i1)
  case (Suc k)
  have "[0..<Suc k] = 0 # map Suc [0..<k]" by (simp add: map_Suc_upt upt_conv_Cons del: upt_Suc)
  then have "filter P [0..<Suc k] = (if P 0 then [0] else []) @ map Suc (filter (P \<circ> Suc) [0..<k])" for P
    by (simp add: filter_map del: upt_Suc)
  then show ?case
    by (simp add: Suc.IH low_bit ones_below_def comp_def bit_drop_bit_eq bit_0 del: upt_Suc)
qed (simp add: ones_below_def)

lemma scan_key_eq:
  "scan_key k n = (runs_below (Suc k) n, ones_below (Suc k) (in_vector n), bit (in_vector n) k, bit (in_leafvec n) k)"
  by (simp add: scan_key_def scan_bits_eq runs_below_def ones_below_def)

lemma sec_key_drop: "sec_key d = unat (drop_bit 26 d)"
proof -
  have "drop_bit 26 (d AND SEC_MASK) = drop_bit 26 d"
  proof (rule bit_word_eqI)
    fix j assume "j < LENGTH(32)"
    have sm: "SEC_MASK = push_bit 26 (mask 6)" by (simp add: SEC_MASK_def mask_eq_exp_minus_1)
    have "bit SEC_MASK (26 + j) \<longleftrightarrow> 26 + j < 32"
      unfolding sm bit_push_bit_iff bit_mask_iff by (auto simp: possible_bit_def)
    then show "bit (drop_bit 26 (d AND SEC_MASK)) j = bit (drop_bit 26 d) j"
      using bit_imp_le_length[of d "26 + j"] unfolding bit_drop_bit_eq bit_and_iff comp_def by auto
  qed
  then show ?thesis by (simp add: sec_key_def node_K_def)
qed

lemma sec_key_less: "sec_key d < 64"
proof -
  have "unat (drop_bit 26 d) = unat d div 2 ^ 26" by (simp add: drop_bit_eq_div unat_div_distrib)
  moreover have "unat d < 2 ^ LENGTH(32)" by (rule unsigned_less)
  ultimately show ?thesis unfolding sec_key_drop by (simp add: div_less_iff_less_mult)
qed

lemma get_loop_step:
  assumes "pop_repr s p (PNode ts)" "msk \<noteq> 0"
  shows "\<exists>n. get_loop d msk p s = (case ts ! sec_key d of
      PLeaf x \<Rightarrow> Some (Some (in_leaf n, runs_below (Suc (sec_key d)) n - 1))
    | PNode us \<Rightarrow> get_loop (push_bit 6 d) (msk - 6) (in_child n, ones_below (sec_key d) (in_vector n)) s) \<and>
    (case ts ! sec_key d of
      PLeaf x \<Rightarrow> leaf_at (in_leaf n, runs_below (Suc (sec_key d)) n - 1) s = Some x
    | PNode us \<Rightarrow> pop_repr s (in_child n, ones_below (sec_key d) (in_vector n)) (PNode us))"
proof -
  let ?k = "sec_key d"
  have k: "?k < 64" by (rule sec_key_less)
  show ?thesis using assms(1)
  proof (cases rule: pop_repr.cases)
    case (Node n)
    note n = Node(1) and child = Node(3)[OF k] and leaf = Node(4)[OF k]
  note e = get_loop.simps[of d msk p s] if_not_P[OF assms(2)] n bind.bind_lunit scan_key_eq prod.case
  show ?thesis
  proof (cases "bit (in_vector n) ?k")
    case True
    then have o: "ones_below (Suc ?k) (in_vector n) - 1 = ones_below ?k (in_vector n)" by (simp add: ones_below_def)
    from True child obtain us where us: "ts ! ?k = PNode us" "pop_repr s (in_child n, ones_below ?k (in_vector n)) (PNode us)"
      by auto
    from True have b: "(\<not> bit (in_vector n) ?k) = False" by simp
    have "get_loop d msk p s = get_loop (push_bit 6 d) (msk - 6) (in_child n, ones_below ?k (in_vector n)) s"
      unfolding e b if_False o node_K_def by simp
    with us show ?thesis by (intro exI[of _ n]) simp
  next
    case False
    from leaf[OF False] obtain x where x: "ts ! ?k = PLeaf x" "0 < runs_below (Suc ?k) n"
      "leaf_at (in_leaf n, runs_below (Suc ?k) n - 1) s = Some x" by blast
    have "get_loop d msk p s = Some (Some (in_leaf n, runs_below (Suc ?k) n - 1))"
      unfolding e if_P[OF False] if_not_P[OF gr_implies_not0[OF x(2)]] x(3) bind.bind_lunit by (rule refl)
    with x show ?thesis by (intro exI[of _ n]) simp
    qed
  qed
qed

lemma repr_length: "pop_repr s p (PNode ts) \<Longrightarrow> length ts = 64"
  by (cases rule: pop_repr.cases) auto

lemma get_loop_repr:
  assumes "pop_repr s p (PNode ts)" "fits_levels (Suc m) (PNode ts)" "6 * m < unat msk"
  shows "\<exists>q. get_loop d msk p s = Some (Some q) \<and> leaf_at q s = Some (plookup (PNode ts) d)"
  using assms
proof (induction m arbitrary: p ts d msk)
  case 0
  then have k: "sec_key d < length ts" using sec_key_less[of d] by (simp add: repr_length)
  then have "ts ! sec_key d \<in> set ts" by simp
  with 0(2) have "fits_levels 0 (ts ! sec_key d)" by (simp add: list_all_iff)
  then obtain x where x: "ts ! sec_key d = PLeaf x" by (cases "ts ! sec_key d") simp_all
  have "msk \<noteq> 0" using 0(3) by auto
  from get_loop_step[OF 0(1) this, of d] x k show ?case by auto
next
  case (Suc m)
  then have k: "sec_key d < length ts" using sec_key_less[of d] by (simp add: repr_length)
  have msk: "msk \<noteq> 0" "6 * m < unat (msk - 6)"
    using Suc.prems(3) by (auto simp: unat_sub_if_size word_le_nat_alt)
  from get_loop_step[OF Suc.prems(1) msk(1), of d] obtain n where n:
    "get_loop d msk p s = (case ts ! sec_key d of
      PLeaf x \<Rightarrow> Some (Some (in_leaf n, runs_below (Suc (sec_key d)) n - 1))
    | PNode us \<Rightarrow> get_loop (push_bit 6 d) (msk - 6) (in_child n, ones_below (sec_key d) (in_vector n)) s)"
    "case ts ! sec_key d of
      PLeaf x \<Rightarrow> leaf_at (in_leaf n, runs_below (Suc (sec_key d)) n - 1) s = Some x
    | PNode us \<Rightarrow> pop_repr s (in_child n, ones_below (sec_key d) (in_vector n)) (PNode us)" by blast
  show ?case
  proof (cases "ts ! sec_key d")
    case (PLeaf x)
    with n k show ?thesis by simp
  next
    case (PNode us)
    have "fits_levels (Suc m) (PNode us)" using Suc.prems(2) k PNode by (auto simp: list_all_length)
    with Suc.IH[OF _ this msk(2)] n PNode k show ?thesis by simp
  qed
qed

text \<open>The table of direct pointers skips two levels.\<close>

definition direct_ok :: "poptrie \<Rightarrow> ptree list \<Rightarrow> bool" where
  "direct_ok s ts \<longleftrightarrow> (\<forall>j<4096. \<forall>q. pp_direct s j = Some q \<longrightarrow>
     (\<exists>us ws. ts ! (j div 64) = PNode us \<and> length us = 64 \<and> us ! (j mod 64) = PNode ws \<and> pop_repr s q (PNode ws)))"

lemma unat_drop32: "unat (drop_bit k d :: u32) = unat d div 2 ^ k"
proof -
  have "unat (drop_bit k d) = drop_bit k (take_bit LENGTH(32) (unat d))" by (rule unsigned_drop_bit_eq)
  moreover have "take_bit LENGTH(32) (unat d) = unat d" by (rule take_bit_nat_eq_self) (rule unsigned_less)
  ultimately show ?thesis by (simp only: drop_bit_eq_div)
qed

lemma sec_key_nat: "sec_key d = unat d div 2 ^ 26"
  by (simp only: sec_key_drop unat_drop32)

lemma two_keys:
  "sec_key d = unat (drop_bit 20 d) div 64 \<and> sec_key (push_bit 6 d) = unat (drop_bit 20 d) mod 64"
proof -
  have "unat (push_bit 6 d) = take_bit LENGTH(32) (push_bit 6 (unat d))" by (rule unsigned_push_bit_eq)
  then have p: "unat (push_bit 6 d) = unat d * 64 mod 2 ^ 32" by (simp add: take_bit_eq_mod push_bit_eq_mult)
  have "(unat d * 64 mod (2 ^ 26 * 64)) div 2 ^ 26 = unat d div 2 ^ 20 mod 64"
  proof -
    have a: "unat d * 64 mod (2 ^ 26 * 64) = (unat d mod 2 ^ 26) * 64" by (rule mult_mod_left[symmetric])
    have b: "(unat d mod 2 ^ 26) * 64 div 2 ^ 26 = (unat d mod 2 ^ 26) div 2 ^ 20"
    proof -
      have "(unat d mod 2 ^ 26) * 64 div (2 ^ 20 * 64) = (unat d mod 2 ^ 26) div 2 ^ 20" by (rule div_mult_mult2) simp
      then show ?thesis by simp
    qed
    have c: "(unat d mod (2 ^ 20 * 64)) div 2 ^ 20 = unat d div 2 ^ 20 mod 64"
      by (simp only: mod_mult2_eq) simp
    show ?thesis unfolding a b using c by simp
  qed
  then have "unat (push_bit 6 d) div 2 ^ 26 = unat d div 2 ^ 20 mod 64" unfolding p by simp
  moreover have "unat d div 2 ^ 26 = unat d div 2 ^ 20 div 64" by (simp flip: div_mult2_eq)
  ultimately show ?thesis unfolding sec_key_nat unat_drop32 by simp
qed

section \<open>Properties\<close>

text \<open>Property C30. Looking up in the arrays is looking up in the plain trie: whatever the direct pointers skip, on
  arrays that represent a trie of at most six levels the lookup ends, inside the arrays, at the leaf
  the keys of the address lead to.\<close>

theorem get_poptrie_is_plookup:
  assumes "pop_repr s root (PNode ts)" "fits_levels 6 (PNode ts)" "direct_ok s ts"
  shows "\<exists>q. get_poptrie root d s = Some (Some q) \<and> leaf_at q s = Some (plookup (PNode ts) d)"
proof (cases "pp_direct s (unat (drop_bit 20 d))")
  case None
  have "fits_levels (Suc 5) (PNode ts)" using assms(2) by (simp add: numeral_eq_Suc)
  from get_loop_repr[OF assms(1) this, of 32 d] None show ?thesis by (simp add: get_poptrie_def)
next
  case (Some q)
  let ?j = "unat (drop_bit 20 d)"
  note len = repr_length[OF assms(1)]
  have j: "?j < 4096"
    using unsigned_less[of d, where 'a = nat] unfolding unat_drop32 by (simp add: div_less_iff_less_mult)
  from assms(3) Some j obtain us ws where u: "ts ! (?j div 64) = PNode us" "length us = 64" "us ! (?j mod 64) = PNode ws"
    "pop_repr s q (PNode ws)" using assms(3)[unfolded direct_ok_def, rule_format, OF j Some] by blast
  have "list_all (fits_levels 5) ts" using assms(2) by (simp add: numeral_eq_Suc)
  moreover have "PNode us \<in> set ts" using nth_mem[of "?j div 64" ts] u(1) len j by simp
  ultimately have "fits_levels 5 (PNode us)" by (auto simp: list_all_iff)
  then have "list_all (fits_levels 4) us" by (simp add: numeral_eq_Suc)
  moreover have "PNode ws \<in> set us" using nth_mem[of "?j mod 64" us] u(2,3) by simp
  ultimately have "fits_levels (Suc 3) (PNode ws)" by (simp add: list_all_iff)
  from get_loop_repr[OF u(4) this, of 20 "push_bit 12 d"] obtain r where
    "get_loop (push_bit 12 d) 20 q s = Some (Some r)" "leaf_at r s = Some (plookup (PNode ws) (push_bit 12 d))" by auto
  moreover have "plookup (PNode ts) d = plookup (PNode ws) (push_bit 12 d)"
  proof -
    have "plookup (PNode ts) d = plookup (PNode us) (push_bit 6 d)"
      using two_keys[of d] u(1) len sec_key_less[of d] by (simp del: plookup.simps(2) add: plookup.simps(2)[of ts])
    also have "\<dots> = plookup (PNode ws) (push_bit 6 (push_bit 6 d))"
      using two_keys[of d] u(2,3) by (simp del: plookup.simps(2) add: plookup.simps(2)[of us])
    finally show ?thesis by (simp only: push_bit_push_bit) simp
  qed
  ultimately show ?thesis using Some by (simp add: get_poptrie_def)
qed

lemma init_root_repr:
  assumes "init_root_poptrie s = Some (root, t)"
  shows "pop_repr t root (PNode (replicate 64 (PLeaf zero_leaf))) \<and> direct_ok t (replicate 64 (PLeaf zero_leaf))"
proof -
  let ?n = "\<lparr> in_leafvec = 1, in_vector = 0, in_child = 0, in_leaf = Suc (pp_next s) \<rparr>"
  from assms have t: "root = (pp_next s, 0)" "int_at root t = Some ?n" "leaf_at (Suc (pp_next s), 0) t = Some zero_leaf" "pp_direct t = (\<lambda>_. None)"
    by (auto simp: init_root_poptrie_def malloc_internal_def malloc_leaf_def fill_internal_def int_at_def leaf_at_def elem_def Let_def)
  have runs: "runs_below (Suc k) ?n = 1" for k
    by (induction k) (auto simp: runs_below_def bit_1_iff)
  have "pop_repr t root (PNode (replicate 64 (PLeaf zero_leaf)))"
    by (rule pop_repr.Node[OF t(2)]) (simp_all add: runs t(3))
  then show ?thesis using t(4) by (simp add: direct_ok_def)
qed

definition fresh_pop :: poptrie where
  "fresh_pop = \<lparr> pp_internals = (\<lambda>_. None), pp_leaves = (\<lambda>_. None), pp_next = 1, pp_junk = (\<lambda>_ _. zero_leaf),
     pp_direct = (\<lambda>_. None), pp_counter_leaf = 0, pp_counter_internal = 0 \<rparr>"

theorem get_poptrie_is_plookup_witness:
  "\<exists>root s q. init_root_poptrie fresh_pop = Some (root, s) \<and> get_poptrie root 0x0A000001 s = Some (Some q) \<and>
     leaf_at q s = Some zero_leaf"
proof -
  have "init_root_poptrie fresh_pop \<noteq> None"
    by (simp add: init_root_poptrie_def malloc_internal_def malloc_leaf_def Let_def)
  then obtain root s where i: "init_root_poptrie fresh_pop = Some (root, s)" by auto
  have f: "fits_levels 6 (PNode (replicate 64 (PLeaf zero_leaf)))" by (simp add: list_all_iff numeral_eq_Suc)
  have "plookup (PNode (replicate 64 (PLeaf zero_leaf))) 0x0A000001 = zero_leaf"
    using sec_key_less[of "0x0A000001"] by simp
  with get_poptrie_is_plookup[OF init_root_repr[OF i, THEN conjunct1] f init_root_repr[OF i, THEN conjunct2], where d = "0x0A000001"] i
  show ?thesis by auto
qed

text \<open>A sequence of insertions into a fresh trie, and the leaf a lookup finds in it.\<close>

fun put_rules :: "nat \<times> nat \<Rightarrow> (u32 \<times> u32 \<times> u32) list \<Rightarrow> poptrie \<Rightarrow> poptrie option" where
  "put_rules root [] s = Some s"
| "put_rules root ((dest, msk, iface) # rules) s = do { s \<leftarrow> put_poptrie root dest msk iface s; put_rules root rules s }"

definition lookup_after :: "(u32 \<times> u32 \<times> u32) list \<Rightarrow> u32 \<Rightarrow> leaf_node option" where
  "lookup_after rules d = do {
     (root, s) \<leftarrow> init_root_poptrie fresh_pop;
     s \<leftarrow> put_rules root rules s;
     q \<leftarrow> get_poptrie root d s;
     q \<leftarrow> q;
     leaf_at q s }"

lemma order_results:
  "lookup_after [(0x04000000, 6, 1), (0x04000000, 7, 2)] 0x06000001 = Some \<lparr> lf_iface = 1, lf_mask = 6 \<rparr>"
  by code_simp

lemma reverse_order_results:
  "lookup_after [(0x04000000, 7, 2), (0x04000000, 6, 1)] 0x06000001 = Some zero_leaf"
  by code_simp

text \<open>The order of the insertions matters: with 4.0.0.0/6 first, 6.0.0.1 has it as its route; with
  4.0.0.0/7 first, the node below is already there, the shorter prefix is not carried into it, and
  the address has no route.\<close>

theorem put_poptrie_order_matters:
  "lookup_after [(0x04000000, 6, 1), (0x04000000, 7, 2)] 0x06000001 = Some \<lparr> lf_iface = 1, lf_mask = 6 \<rparr> \<and>
   lookup_after [(0x04000000, 7, 2), (0x04000000, 6, 1)] 0x06000001 = Some zero_leaf"
  using order_results reverse_order_results by blast

text \<open>Within one node a longer prefix inserted first even loses its leaf: the mark stays, the leaf is
  not copied, and the lookup of an address behind it reads beyond the leaves.\<close>

theorem put_poptrie_loses_leaf:
  "lookup_after [(0x08000000, 5, 2), (0x00000000, 4, 1)] 0x10010203 = None"
  by code_simp

end
