(* ===== verification/Router07.thy ===== *)
theory Router07
  imports Ip_Stack Checksum_Variants
begin

text \<open>
  The router of prj07 (\<open>arp.c\<close>, \<open>arpcache.c\<close>, \<open>icmp.c\<close>, \<open>ip.c\<close>, \<open>ip_base.c\<close>), the first version of the
  network layer of prj14, with a cache of its own: an address is learned in the first free slot, a
  request carries the retries left, and the sweeping thread answers the packets it gives up while it
  holds the mutex. So here the mutex is part of the state: locking it again is \<open>None\<close>, the thread
  waits for itself. \<open>None\<close> also stands for the use of a route that is not there and for accesses
  outside a packet. The contents of malloc'ed blocks come from \<open>r7_junk\<close>. The headers, \<open>ip_init_hdr\<close>
  and the routing table are those of prj14, whose code is the same; the checksum of prj07 is proved
  equal to theirs. The trace \<open>iface_send_packet_by_arp\<close> appends to a file is left out.
\<close>

section \<open>State\<close>

record router =
  r7_rtable :: rtable
  r7_entries :: "arp_entry list"
  r7_reqs :: "arp_req list"
  r7_locked :: bool
  r7_out :: "(iface \<times> bytes) list"
  r7_now :: int
  r7_rnd :: "nat \<Rightarrow> u16"
  r7_junk :: "nat \<Rightarrow> u8"
  r7_pos :: nat

definition r7_malloc :: "nat \<Rightarrow> router \<Rightarrow> bytes \<times> router" where
  "r7_malloc n s = (map (\<lambda>k. r7_junk s (r7_pos s + k)) [0..<n], s\<lparr>r7_pos := r7_pos s + n\<rparr>)"

definition r7_rand :: "router \<Rightarrow> u16 \<times> router" where
  "r7_rand s = (r7_rnd s (r7_pos s), s\<lparr>r7_pos := r7_pos s + 1\<rparr>)"

definition r7_lock :: "router \<Rightarrow> router option" where
  "r7_lock s = (if r7_locked s then None else Some (s\<lparr>r7_locked := True\<rparr>))"

definition r7_unlock :: "router \<Rightarrow> router" where
  "r7_unlock s = s\<lparr>r7_locked := False\<rparr>"

definition r7_arpcache_init :: "router \<Rightarrow> router" where
  "r7_arpcache_init s = s\<lparr>
     r7_entries := replicate MAX_ARP_SIZE \<lparr> ae_ip4 = 0, ae_mac = Mac 0 0 0 0 0 0, ae_added = 0, ae_valid = False \<rparr>,
     r7_reqs := [], r7_locked := False\<rparr>"

definition r7_arpcache_destroy :: "router \<Rightarrow> router option" where
  "r7_arpcache_destroy s = do { s \<leftarrow> r7_lock s; Some (r7_unlock (s\<lparr>r7_reqs := []\<rparr>)) }"

section \<open>Frames and ARP messages\<close>

definition r7_send_packet :: "iface \<Rightarrow> bytes \<Rightarrow> router \<Rightarrow> router option" where
  "r7_send_packet ifc p s = do { eh \<leftarrow> get_ether p 0; Some (s\<lparr>r7_out := r7_out s @ [(ifc, p)]\<rparr>) }"

definition r7_arp_init_hdr :: "ether_arp \<Rightarrow> iface \<Rightarrow> u16 \<Rightarrow> u32 \<Rightarrow> ether_arp" where
  "r7_arp_init_hdr a ifc op dst_ip = a\<lparr>arp_hrd := htons 1, arp_pro := htons 0x800, arp_hln := 6, arp_pln := 4,
     arp_op := htons op, arp_spa := htonl (if_ip ifc), arp_sha := if_mac ifc, arp_tpa := htonl dst_ip\<rparr>"

definition r7_arp_send_request :: "iface \<Rightarrow> u32 \<Rightarrow> router \<Rightarrow> router option" where
  "r7_arp_send_request ifc dst_ip s = do {
     let (p, s) = r7_malloc (ETHER_HDR_SIZE + ETHER_ARP_SIZE) s;
     p \<leftarrow> put_ether p 0 \<lparr> ether_dhost = bc_mac, ether_shost = if_mac ifc, ether_type = htons 0x0806 \<rparr>;
     a \<leftarrow> get_arp p ETHER_HDR_SIZE;
     p \<leftarrow> put_arp p ETHER_HDR_SIZE ((r7_arp_init_hdr a ifc 1 dst_ip)\<lparr>arp_tha := Mac 0 0 0 0 0 0\<rparr>);
     r7_send_packet ifc p s }"

definition r7_arp_send_reply :: "iface \<Rightarrow> ether_arp \<Rightarrow> router \<Rightarrow> router option" where
  "r7_arp_send_reply ifc req s = do {
     let (p, s) = r7_malloc (ETHER_HDR_SIZE + ETHER_ARP_SIZE) s;
     p \<leftarrow> put_ether p 0 \<lparr> ether_dhost = arp_sha req, ether_shost = if_mac ifc, ether_type = htons 0x0806 \<rparr>;
     a \<leftarrow> get_arp p ETHER_HDR_SIZE;
     p \<leftarrow> put_arp p ETHER_HDR_SIZE ((r7_arp_init_hdr a ifc 2 (ntohl (arp_spa req)))\<lparr>arp_tha := arp_sha req\<rparr>);
     r7_send_packet ifc p s }"

section \<open>The cache\<close>

fun r7_lookup_loop :: "u32 \<Rightarrow> arp_entry list \<Rightarrow> mac_addr option" where
  "r7_lookup_loop ip4 [] = None"
| "r7_lookup_loop ip4 (e # es) =
     (if \<not> ae_valid e then r7_lookup_loop ip4 es
      else if ae_ip4 e = ip4 then Some (ae_mac e) else r7_lookup_loop ip4 es)"

definition r7_arpcache_lookup :: "u32 \<Rightarrow> router \<Rightarrow> (mac_addr option \<times> router) option" where
  "r7_arpcache_lookup ip4 s = do { s \<leftarrow> r7_lock s; Some (r7_lookup_loop ip4 (r7_entries s), r7_unlock s) }"

definition r7_arpcache_append_packet :: "iface \<Rightarrow> u32 \<Rightarrow> bytes \<Rightarrow> router \<Rightarrow> router option" where
  "r7_arpcache_append_packet ifc ip4 p s = do {
     s \<leftarrow> r7_lock s;
     let same = (\<lambda>r. rq_ip4 r = ip4 \<and> if_index (rq_iface r) = if_index ifc);
     if list_ex same (r7_reqs s)
     then Some (r7_unlock (s\<lparr>r7_reqs := upd_first same (\<lambda>r. r\<lparr>rq_pkts := rq_pkts r @ [p]\<rparr>) (r7_reqs s)\<rparr>))
     else do {
       let s = s\<lparr>r7_reqs := r7_reqs s @ [\<lparr> rq_iface = ifc, rq_ip4 = ip4, rq_sent = r7_now s,
         rq_retries = ARP_REQUEST_MAX_RETRIES, rq_pkts = [p] \<rparr>]\<rparr>;
       s \<leftarrow> r7_arp_send_request ifc ip4 s;
       Some (r7_unlock s) } }"

text \<open>The slot \<open>arpcache_insert\<close> writes: the first free one, or the one the clock selects.\<close>

fun first_invalid :: "nat \<Rightarrow> arp_entry list \<Rightarrow> nat option" where
  "first_invalid i [] = None"
| "first_invalid i (e # es) = (if \<not> ae_valid e then Some i else first_invalid (Suc i) es)"

definition insert_slot :: "int \<Rightarrow> arp_entry list \<Rightarrow> nat option" where
  "insert_slot now es = (case first_invalid 0 es of Some i \<Rightarrow> Some i
     | None \<Rightarrow> if now < 0 then None else Some (nat (now mod 32)))"

fun r7_flush :: "iface \<Rightarrow> mac_addr \<Rightarrow> bytes list \<Rightarrow> router \<Rightarrow> router option" where
  "r7_flush ifc m [] s = Some s"
| "r7_flush ifc m (p # ps) s = do {
     p \<leftarrow> st_bytes p 0 (mac_bytes m);
     s \<leftarrow> r7_send_packet ifc p s;
     r7_flush ifc m ps s }"

fun r7_flush_first :: "u32 \<Rightarrow> mac_addr \<Rightarrow> arp_req list \<Rightarrow> arp_req list \<Rightarrow> router \<Rightarrow> router option" where
  "r7_flush_first ip4 m done [] s = Some (s\<lparr>r7_reqs := done\<rparr>)"
| "r7_flush_first ip4 m done (r # rs) s =
     (if rq_ip4 r = ip4
      then do { s \<leftarrow> r7_flush (rq_iface r) m (rq_pkts r) s; Some (s\<lparr>r7_reqs := done @ rs\<rparr>) }
      else r7_flush_first ip4 m (done @ [r]) rs s)"

definition r7_arpcache_insert :: "u32 \<Rightarrow> mac_addr \<Rightarrow> router \<Rightarrow> router option" where
  "r7_arpcache_insert ip4 m s = do {
     s \<leftarrow> r7_lock s;
     i \<leftarrow> insert_slot (r7_now s) (r7_entries s);
     if length (r7_entries s) \<le> i then None
     else do {
       let s = s\<lparr>r7_entries := (r7_entries s)[i := \<lparr> ae_ip4 = ip4, ae_mac = m, ae_added = r7_now s, ae_valid = True \<rparr>]\<rparr>;
       s \<leftarrow> r7_flush_first ip4 m [] (r7_reqs s) s;
       Some (r7_unlock s) } }"

definition r7_handle_arp_packet :: "iface \<Rightarrow> bytes \<Rightarrow> router \<Rightarrow> router option" where
  "r7_handle_arp_packet ifc p s = do {
     ah \<leftarrow> get_arp p ETHER_HDR_SIZE;
     if ntohl (arp_tpa ah) \<noteq> if_ip ifc then Some s
     else if ntohs (arp_op ah) = 1 then r7_arp_send_reply ifc ah s
     else if ntohs (arp_op ah) = 2 then r7_arpcache_insert (ntohl (arp_spa ah)) (arp_sha ah) s
     else Some s }"

definition r7_send_by_arp :: "iface \<Rightarrow> u32 \<Rightarrow> bytes \<Rightarrow> router \<Rightarrow> router option" where
  "r7_send_by_arp ifc dst_ip p s = do {
     eh \<leftarrow> get_ether p 0;
     p \<leftarrow> put_ether p 0 (eh\<lparr>ether_shost := if_mac ifc, ether_type := htons 0x0800\<rparr>);
     (found, s) \<leftarrow> r7_arpcache_lookup dst_ip s;
     (case found of
        Some m \<Rightarrow> do { p \<leftarrow> st_bytes p 0 (mac_bytes m); r7_send_packet ifc p s }
      | None \<Rightarrow> r7_arpcache_append_packet ifc dst_ip p s) }"

section \<open>IP and ICMP\<close>

definition r7_ip_send_packet :: "bytes \<Rightarrow> router \<Rightarrow> router option" where
  "r7_ip_send_packet p s = do {
     ih \<leftarrow> get_ip p ETHER_HDR_SIZE;
     let dst = ntohl (daddr ih);
     entry \<leftarrow> longest_prefix_match07 (r7_rtable s) dst;
     p \<leftarrow> put_ip p ETHER_HDR_SIZE (ih\<lparr>saddr := htonl (if_ip (rt_iface entry))\<rparr>);
     ck \<leftarrow> ip_checksum p ETHER_HDR_SIZE;
     ih \<leftarrow> get_ip p ETHER_HDR_SIZE;
     p \<leftarrow> put_ip p ETHER_HDR_SIZE (ih\<lparr>ip_cksum := ck\<rparr>);
     let next_ip = (if rt_gw entry = 0 then dst else rt_gw entry);
     r7_send_by_arp (rt_iface entry) next_ip p s }"

definition r7_icmp_checksum :: "bytes \<Rightarrow> nat \<Rightarrow> int \<Rightarrow> u16 option" where
  "r7_icmp_checksum p off len = do {
     p \<leftarrow> st_bytes p (off + 2) [0, 0];
     b \<leftarrow> (if len < 0 then None else ld_bytes p off (nat len));
     Some (checksum07 b 0) }"

text \<open>The ICMP part of the outgoing packet: type and code, the copied bytes, the checksum.\<close>

definition r7_icmp_fill :: "bytes \<Rightarrow> int \<Rightarrow> u8 \<Rightarrow> u8 \<Rightarrow> bytes \<Rightarrow> bytes option" where
  "r7_icmp_fill in_pkt hs type code out = do {
     let icmp = ETHER_HDR_SIZE + IP_BASE_HDR_SIZE;
     let len = int (length in_pkt);
     out \<leftarrow> st_bytes out icmp [type, code];
     out \<leftarrow> (if type = ICMP_ECHOREPLY
       then copy_bytes out (icmp + 4) in_pkt (nat (14 + hs + 4)) (len - (14 + hs + 4))
       else do {
         out \<leftarrow> st_bytes out (icmp + 4) [0, 0, 0, 0];
         copy_bytes out (icmp + ICMP_HDR_SIZE) in_pkt ETHER_HDR_SIZE (hs + int ICMP_COPIED_DATA_LEN) });
     ck \<leftarrow> r7_icmp_checksum out icmp (int (length out) - 14 - 20);
     st_bytes out (icmp + 2) (le16_enc ck) }"

definition r7_icmp_send_packet :: "bytes \<Rightarrow> u8 \<Rightarrow> u8 \<Rightarrow> router \<Rightarrow> router option" where
  "r7_icmp_send_packet in_pkt type code s = do {
     in_ih \<leftarrow> get_ip in_pkt ETHER_HDR_SIZE;
     let hs = int (ip_hdr_size in_ih);
     let out_len = (if type = ICMP_ECHOREPLY then int (length in_pkt) - hs + 20
       else int (ETHER_HDR_SIZE + IP_BASE_HDR_SIZE + ICMP_HDR_SIZE) + hs + int ICMP_COPIED_DATA_LEN);
     if out_len < 0 then None else do {
       let (out, s) = r7_malloc (nat out_len) s;
       let (r, s) = r7_rand s;
       out \<leftarrow> ip_init_hdr r out ETHER_HDR_SIZE 0 (ntohl (saddr in_ih)) (of_int (out_len - 14)) 1;
       out \<leftarrow> r7_icmp_fill in_pkt hs type code out;
       r7_ip_send_packet out s } }"

definition r7_handle_ip_packet :: "iface \<Rightarrow> bytes \<Rightarrow> router \<Rightarrow> router option" where
  "r7_handle_ip_packet ifc p s = do {
     hdr \<leftarrow> get_ip p ETHER_HDR_SIZE;
     let dip = ntohl (daddr hdr);
     if if_ip ifc = dip then do {
       b \<leftarrow> ld_bytes p (ETHER_HDR_SIZE + ip_hdr_size hdr) 1;
       if b = [ICMP_ECHOREQUEST] then r7_icmp_send_packet p ICMP_ECHOREPLY 0 s else Some s }
     else (case longest_prefix_match07 (r7_rtable s) dip of
         None \<Rightarrow> r7_icmp_send_packet p ICMP_DEST_UNREACH ICMP_NET_UNREACH s
       | Some entry \<Rightarrow> do {
           let hdr = hdr\<lparr>ttl := ttl hdr - 1\<rparr>;
           p \<leftarrow> put_ip p ETHER_HDR_SIZE hdr;
           if ttl hdr = 0 then r7_icmp_send_packet p ICMP_TIME_EXCEEDED ICMP_EXC_TTL s
           else do {
             let dst_ip = (if rt_gw entry = 0 then dip else rt_gw entry);
             ck \<leftarrow> ip_checksum p ETHER_HDR_SIZE;
             p \<leftarrow> put_ip p ETHER_HDR_SIZE (hdr\<lparr>ip_cksum := ck\<rparr>);
             r7_send_by_arp (rt_iface entry) dst_ip p s } }) }"

definition r7_handle_packet :: "iface \<Rightarrow> bytes \<Rightarrow> router \<Rightarrow> router option" where
  "r7_handle_packet ifc p s = do {
     eh \<leftarrow> get_ether p 0;
     if ntohs (ether_type eh) = 0x0800 then r7_handle_ip_packet ifc p s
     else if ntohs (ether_type eh) = 0x0806 then r7_handle_arp_packet ifc p s
     else Some s }"

section \<open>The sweeping thread\<close>

definition r7_age_entry :: "int \<Rightarrow> arp_entry \<Rightarrow> arp_entry" where
  "r7_age_entry now e = e\<lparr>ae_valid := (now - ae_added e < ARP_ENTRY_TIMEOUT)\<rparr>"

fun r7_give_up :: "bytes list \<Rightarrow> router \<Rightarrow> router option" where
  "r7_give_up [] s = Some s"
| "r7_give_up (p # ps) s = do {
     s \<leftarrow> r7_icmp_send_packet p ICMP_DEST_UNREACH ICMP_HOST_UNREACH s;
     r7_give_up ps s }"

fun r7_sweep_reqs :: "int \<Rightarrow> arp_req list \<Rightarrow> arp_req list \<Rightarrow> router \<Rightarrow> router option" where
  "r7_sweep_reqs now done [] s = Some (s\<lparr>r7_reqs := done\<rparr>)"
| "r7_sweep_reqs now done (r # rs) s =
     (if now - rq_sent r > 1 then
        let r = r\<lparr>rq_retries := rq_retries r - 1\<rparr> in
        if rq_retries r > 0 then do {
          s \<leftarrow> r7_arp_send_request (rq_iface r) (rq_ip4 r) s;
          r7_sweep_reqs now (done @ [r\<lparr>rq_sent := now\<rparr>]) rs s }
        else do { s \<leftarrow> r7_give_up (rq_pkts r) s; r7_sweep_reqs now done rs s }
      else r7_sweep_reqs now (done @ [r]) rs s)"

definition r7_arpcache_sweep :: "router \<Rightarrow> router option" where
  "r7_arpcache_sweep s = do {
     s \<leftarrow> r7_lock s;
     let s = s\<lparr>r7_entries := map (r7_age_entry (r7_now s)) (r7_entries s)\<rparr>;
     s \<leftarrow> r7_sweep_reqs (r7_now s) [] (r7_reqs s) s;
     Some (r7_unlock s) }"

section \<open>The operations on frames\<close>

lemma r7_send_packet_eq: "14 \<le> length p \<Longrightarrow> r7_send_packet ifc p s = Some (s\<lparr>r7_out := r7_out s @ [(ifc, p)]\<rparr>)"
proof -
  assume "14 \<le> length p"
  then obtain h where "get_ether p 0 = Some h" using get_ether_Some_iff by blast
  then show ?thesis by (simp add: r7_send_packet_def)
qed

lemma length_malloc [simp]: "length (fst (r7_malloc n s)) = n"
  by (simp add: r7_malloc_def)

lemma snd_malloc [simp]: "snd (r7_malloc n s) = s\<lparr>r7_pos := r7_pos s + n\<rparr>"
  by (simp add: r7_malloc_def)

lemma malloc_parts:
  assumes "r7_malloc (14 + n) s = (p, s')"
  shows "\<exists>b rest. p = b @ rest \<and> length b = 14 \<and> length rest = n \<and> s' = s\<lparr>r7_pos := r7_pos s + (14 + n)\<rparr>"
proof (intro exI conjI)
  have l: "length p = 14 + n" and s': "s' = s\<lparr>r7_pos := r7_pos s + (14 + n)\<rparr>"
    using assms by (auto simp: r7_malloc_def)
  show "p = take 14 p @ drop 14 p" "length (take 14 p) = 14" "length (drop 14 p) = n" using l by simp_all
  show "s' = s\<lparr>r7_pos := r7_pos s + (14 + n)\<rparr>" by (rule s')
qed

lemma arp_over_junk:
  assumes "length rest = 28" "length e = 14"
  shows "\<exists>a. get_arp (e @ rest) ETHER_HDR_SIZE = Some a" "put_arp (e @ rest) ETHER_HDR_SIZE a' = Some (e @ arp_enc a')"
proof -
  have "\<exists>h. get_arp (e @ rest) ETHER_HDR_SIZE = Some h" using assms arp.get_Some_iff[of "e @ rest" ETHER_HDR_SIZE] by (simp add: hdr_sizes)
  then show "\<exists>a. get_arp (e @ rest) ETHER_HDR_SIZE = Some a" .
  show "put_arp (e @ rest) ETHER_HDR_SIZE a' = Some (e @ arp_enc a')"
    using arp.put_raw[of 14 e rest "[]" a'] assms by (simp add: hdr_sizes)
qed

lemma r7_arp_send_request_eq:
  "r7_arp_send_request ifc ip4 s =
     Some (s\<lparr>r7_pos := r7_pos s + 42, r7_out := r7_out s @ [(ifc, arp_frame bc_mac ifc (arp_request_of ifc ip4))]\<rparr>)"
proof -
  obtain p s' where m: "r7_malloc (14 + 28) s = (p, s')" by fastforce
  then obtain b rest where p: "p = b @ rest" "length b = 14" "length rest = 28" "s' = s\<lparr>r7_pos := r7_pos s + 42\<rparr>"
    using malloc_parts[OF m] by auto
  let ?e = "ether_enc \<lparr> ether_dhost = bc_mac, ether_shost = if_mac ifc, ether_type = htons 0x0806 \<rparr>"
  obtain a where a: "get_arp (?e @ rest) ETHER_HDR_SIZE = Some a" using arp_over_junk(1)[OF p(3), of ?e] by auto
  have r: "(r7_arp_init_hdr a ifc 1 ip4)\<lparr>arp_tha := Mac 0 0 0 0 0 0\<rparr> = arp_request_of ifc ip4"
    by (simp add: r7_arp_init_hdr_def arp_request_of_def)
  show ?thesis
    using m p a by (simp add: r7_arp_send_request_def hdr_sizes(1) hdr_sizes Let_def put_ether_front r
        arp_over_junk(2)[OF p(3), unfolded hdr_sizes] r7_send_packet_eq arp_frame_def)
qed

text \<open>A thread that holds the mutex gets stuck in any attempt to send an IP packet.\<close>

lemma r7_locked_stuck:
  assumes "r7_locked s"
  shows "r7_ip_send_packet p s = None"
proof -
  have "r7_send_by_arp ifc ip4 p s = None" for ifc ip4 p
    using assms by (auto simp: r7_send_by_arp_def r7_arpcache_lookup_def r7_lock_def bind_eq_None_conv)
  then show ?thesis by (auto simp: r7_ip_send_packet_def bind_eq_None_conv)
qed

lemma get_ip_st_bytes: "st_bytes b off v = Some b' \<Longrightarrow> 34 \<le> off \<Longrightarrow> get_ip b' ETHER_HDR_SIZE = get_ip b ETHER_HDR_SIZE"
  by (auto simp: st_bytes_def get_ip_def ld_bytes_def hdr_sizes take_drop_blit_before length_blit split: if_splits)

lemma get_ip_copy_bytes: "copy_bytes b off src soff n = Some b' \<Longrightarrow> 34 \<le> off \<Longrightarrow> get_ip b' ETHER_HDR_SIZE = get_ip b ETHER_HDR_SIZE"
  by (auto simp: copy_bytes_def get_ip_st_bytes split: if_splits Option.bind_splits)

lemma ip_init_hdr_daddr:
  assumes "ip_init_hdr rnd p ETHER_HDR_SIZE sip dip len proto = Some q"
  shows "\<exists>h. get_ip q ETHER_HDR_SIZE = Some h \<and> daddr h = htonl dip"
proof -
  have "\<exists>h. get_ip p ETHER_HDR_SIZE = Some h" using assms by (auto simp: ip_init_hdr_def split: Option.bind_splits)
  then have "ETHER_HDR_SIZE + IP_BASE_HDR_SIZE \<le> length p" by (simp add: ip.get_Some_iff)
  from ip_init_hdr_Some[OF this, of rnd sip dip len proto] obtain us h rest where
    "length us = ETHER_HDR_SIZE" "q = us @ iphdr_enc (ip_header_of rnd h sip dip len proto) @ rest" using assms by auto
  then show ?thesis by (simp add: ip.get_append ip_header_of_def Let_def)
qed

lemma get_ip_icmp_fill: "r7_icmp_fill p hs type code out = Some out' \<Longrightarrow> get_ip out' ETHER_HDR_SIZE = get_ip out ETHER_HDR_SIZE"
proof -
  have sz: "ETHER_HDR_SIZE + IP_BASE_HDR_SIZE = 34" by (simp add: hdr_sizes)
  assume "r7_icmp_fill p hs type code out = Some out'"
  then show ?thesis unfolding r7_icmp_fill_def Let_def sz
    by (auto simp: get_ip_st_bytes get_ip_copy_bytes split: if_splits Option.bind_splits)
qed

text \<open>Every message \<open>icmp_send_packet\<close> gets out is an IP packet to the source of the other one.\<close>

lemma r7_icmp_sends:
  assumes "r7_icmp_send_packet p type code s = Some t" "get_ip p ETHER_HDR_SIZE = Some ih"
  shows "\<exists>out k oih. r7_ip_send_packet out (s\<lparr>r7_pos := k\<rparr>) = Some t \<and> get_ip out ETHER_HDR_SIZE = Some oih \<and> daddr oih = saddr ih"
proof -
  from assms obtain n out s1 r s2 len out1 out2 where
    m: "r7_malloc n s = (out, s1)" "r7_rand s1 = (r, s2)"
    and i: "ip_init_hdr r out ETHER_HDR_SIZE 0 (ntohl (saddr ih)) len 1 = Some out1"
    and f: "r7_icmp_fill p (int (ip_hdr_size ih)) type code out1 = Some out2" and e: "r7_ip_send_packet out2 s2 = Some t"
    unfolding r7_icmp_send_packet_def by (auto simp: Let_def split: if_splits prod.splits Option.bind_splits)
  have "s2 = s\<lparr>r7_pos := r7_pos s2\<rparr>" using m by (auto simp: r7_malloc_def r7_rand_def)
  with ip_init_hdr_daddr[OF i] get_ip_icmp_fill[OF f] e show ?thesis by (metis htonl_htonl)
qed

lemma r7_give_up_stuck: "r7_locked s \<Longrightarrow> ps \<noteq> [] \<Longrightarrow> r7_give_up ps s = None"
proof (cases ps)
  case (Cons p qs)
  assume l: "r7_locked s"
  have "r7_icmp_send_packet p type code s = None" for type code
  proof (cases "get_ip p ETHER_HDR_SIZE")
    case (Some ih)
    then show ?thesis using r7_icmp_sends[of p type code s] r7_locked_stuck[of "s\<lparr>r7_pos := k\<rparr>" for k] l
      by (cases "r7_icmp_send_packet p type code s") fastforce+
  qed (simp add: r7_icmp_send_packet_def)
  with Cons show ?thesis by simp
qed simp

section \<open>The sweeping thread waits for itself\<close>

lemma r7_sweep_reqs_stuck:
  assumes "r7_locked s" "r \<in> set rs" "now - rq_sent r > 1" "rq_retries r \<le> 1" "rq_pkts r \<noteq> []"
  shows "r7_sweep_reqs now dn rs s = None"
  using assms(1,2)
proof (induction rs arbitrary: dn s)
  case (Cons q rs)
  show ?case
  proof (cases "q = r")
    case True
    then show ?thesis using assms(3-5) r7_give_up_stuck[OF Cons.prems(1)] by (simp add: Let_def)
  next
    case False
    then have q: "r \<in> set rs" using Cons.prems(2) by simp
    have "r7_locked u" if "r7_give_up ps s = Some u" for ps u
      using that Cons.prems(1) r7_give_up_stuck by (cases "ps = []") auto
    then show ?thesis using Cons.IH[OF _ q] Cons.prems(1)
      by (cases "r7_give_up (rq_pkts q) s") (auto simp: Let_def r7_arp_send_request_eq)
  qed
qed simp

definition r7_tick :: "int \<Rightarrow> router \<Rightarrow> router" where
  "r7_tick d s = s\<lparr>r7_now := r7_now s + d\<rparr>"

text \<open>One round on a single waiting request with retries left.\<close>

lemma r7_sweep_retry:
  assumes "r7_reqs s = [r]" "\<not> r7_locked s" "r7_now s - rq_sent r > 1" "rq_retries r > 1"
  shows "\<exists>t. r7_arpcache_sweep s = Some t \<and> r7_reqs t = [r\<lparr>rq_retries := rq_retries r - 1, rq_sent := r7_now s\<rparr>] \<and>
    \<not> r7_locked t \<and> r7_now t = r7_now s"
  using assms by (simp add: r7_arpcache_sweep_def r7_lock_def r7_unlock_def Let_def r7_arp_send_request_eq)

fun r7_rounds :: "nat \<Rightarrow> router \<Rightarrow> router option" where
  "r7_rounds 0 s = Some s"
| "r7_rounds (Suc n) s = do { s \<leftarrow> r7_arpcache_sweep (r7_tick 2 s); r7_rounds n s }"

lemma r7_rounds_retry:
  assumes "r7_reqs s = [r]" "\<not> r7_locked s" "rq_sent r = r7_now s" "rq_retries r > int n"
  shows "\<exists>t r'. r7_rounds n s = Some t \<and> r7_reqs t = [r'] \<and> \<not> r7_locked t \<and> rq_sent r' = r7_now t \<and>
    rq_retries r' = rq_retries r - int n \<and> rq_pkts r' = rq_pkts r"
  using assms
proof (induction n arbitrary: s r)
  case (Suc n)
  let ?s = "r7_tick 2 s"
  have "r7_reqs ?s = [r]" "\<not> r7_locked ?s" "r7_now ?s - rq_sent r > 1" "rq_retries r > 1"
    using Suc.prems by (simp_all add: r7_tick_def)
  from r7_sweep_retry[OF this] obtain t where t: "r7_arpcache_sweep ?s = Some t"
    "r7_reqs t = [r\<lparr>rq_retries := rq_retries r - 1, rq_sent := r7_now ?s\<rparr>]" "\<not> r7_locked t" "r7_now t = r7_now ?s" by blast
  from Suc.IH[OF t(2,3)] t Suc.prems(4) show ?case by auto
qed simp

section \<open>Properties\<close>


definition empty_router :: router where
  "empty_router = \<lparr> r7_rtable = [sample_route 0x0A000000 0xFF000000], r7_entries = replicate 32
     \<lparr> ae_ip4 = 0, ae_mac = Mac 0 0 0 0 0 0, ae_added = 0, ae_valid = False \<rparr>, r7_reqs = [], r7_locked = False,
     r7_out = [], r7_now = 100, r7_rnd = (\<lambda>_. 0), r7_junk = (\<lambda>_. 0), r7_pos = 0 \<rparr>"

lemma empty_router_simps [simp]:
  "\<not> r7_locked empty_router" "r7_reqs empty_router = []" "r7_now empty_router = 100"
  "r7_rtable empty_router = [sample_route 0x0A000000 0xFF000000]"
  "first_invalid 0 (r7_entries empty_router) = Some 0" "length (r7_entries empty_router) = 32"
  by (simp_all add: empty_router_def) (simp add: numeral_eq_Suc)


text \<open>A packet without a route from a source without a route stops the router: the ICMP error has no
  route either, and the missing entry is used. Default routes do not help, the match never returns
  one.\<close>

theorem unroutable_source_crashes:
  assumes "get_ip p ETHER_HDR_SIZE = Some ih" "ntohl (daddr ih) \<noteq> if_ip ifc"
    and "longest_prefix_match07 (r7_rtable s) (ntohl (daddr ih)) = None"
    and "longest_prefix_match07 (r7_rtable s) (ntohl (saddr ih)) = None"
  shows "r7_handle_ip_packet ifc p s = None"
proof -
  have "r7_icmp_send_packet p ICMP_DEST_UNREACH ICMP_NET_UNREACH s = None"
  proof (rule ccontr)
    assume "r7_icmp_send_packet p ICMP_DEST_UNREACH ICMP_NET_UNREACH s \<noteq> None"
    then obtain t where "r7_icmp_send_packet p ICMP_DEST_UNREACH ICMP_NET_UNREACH s = Some t" by blast
    from r7_icmp_sends[OF this assms(1)] assms(4) show False by (auto simp: r7_ip_send_packet_def)
  qed
  with assms(1-3) show ?thesis by (simp add: r7_handle_ip_packet_def)
qed

theorem unroutable_source_crashes_witness:
  "r7_handle_ip_packet sample_iface (frame zero_eth (sample_iph\<lparr>saddr := htonl 0x0B000001, daddr := htonl 0x0C000001\<rparr>) [1, 2])
    (empty_router\<lparr>r7_rtable := [sample_route 0 0, sample_route 0x0A000000 0xFF000000]\<rparr>) = None"
  by (rule unroutable_source_crashes[where ih = "sample_iph\<lparr>saddr := htonl 0x0B000001, daddr := htonl 0x0C000001\<rparr>"])
    (simp_all add: longest_prefix_match07_def sample_route_def sample_iface_def)

lemma r7_flush_entries: "r7_flush ifc m ps s = Some t \<Longrightarrow> r7_entries t = r7_entries s \<and> r7_reqs t = r7_reqs s"
  by (induction ps arbitrary: s) (auto simp: r7_send_packet_def split: Option.bind_splits)

lemma r7_flush_first_entries: "r7_flush_first ip4 m dn rs s = Some t \<Longrightarrow> r7_entries t = r7_entries s \<and>
    r7_reqs t = dn @ drop_first (\<lambda>r. rq_ip4 r = ip4) rs"
  by (induction rs arbitrary: dn s) (auto dest: r7_flush_entries split: if_splits Option.bind_splits)

lemma r7_lookup_update: "i < length es \<Longrightarrow> ae_valid e \<Longrightarrow> ae_ip4 e = ip4 \<Longrightarrow>
    r7_lookup_loop ip4 (es[i := e]) = (case r7_lookup_loop ip4 (take i es) of None \<Rightarrow> Some (ae_mac e) | Some m \<Rightarrow> Some m)"
  by (induction es arbitrary: i) (auto split: nat.splits option.splits)

text \<open>Learning an address writes one slot and releases the packets of its request; a binding of the
  same address in an earlier slot stays and hides the new one from every lookup.\<close>

theorem older_binding_hides_learned_one:
  assumes "r7_arpcache_insert ip4 m s = Some t"
  shows "\<exists>i. insert_slot (r7_now s) (r7_entries s) = Some i \<and>
    r7_arpcache_lookup ip4 t = Some (case r7_lookup_loop ip4 (take i (r7_entries s)) of None \<Rightarrow> Some m | Some old \<Rightarrow> Some old, t) \<and>
    r7_reqs t = drop_first (\<lambda>r. rq_ip4 r = ip4) (r7_reqs s)"
proof -
  from assms obtain i u where i: "\<not> r7_locked s" "insert_slot (r7_now s) (r7_entries s) = Some i" "i < length (r7_entries s)"
    "r7_flush_first ip4 m [] (r7_reqs s) (s\<lparr>r7_locked := True, r7_entries := (r7_entries s)[i :=
       \<lparr> ae_ip4 = ip4, ae_mac = m, ae_added = r7_now s, ae_valid = True \<rparr>]\<rparr>) = Some u" "t = u\<lparr>r7_locked := False\<rparr>"
    by (auto simp: r7_arpcache_insert_def r7_lock_def r7_unlock_def split: if_splits Option.bind_splits)
  have "r7_lookup_loop ip4 (r7_entries t) = (case r7_lookup_loop ip4 (take i (r7_entries s)) of None \<Rightarrow> Some m | Some old \<Rightarrow> Some old)"
    using r7_flush_first_entries[OF i(4)] r7_lookup_update[OF i(3)] i(5) by (simp split: option.splits)
  with i(2) r7_flush_first_entries[OF i(4)] i(5) show ?thesis
    by (auto simp: r7_arpcache_lookup_def r7_lock_def r7_unlock_def)
qed

theorem older_binding_hides_learned_one_witness:
  "\<exists>t u. r7_arpcache_insert 0x0A000002 (Mac 0 0 0 0 0 2) empty_router = Some t \<and>
     r7_arpcache_insert 0x0A000002 (Mac 0 0 0 0 0 3) t = Some u \<and>
     r7_arpcache_lookup 0x0A000002 u = Some (Some (Mac 0 0 0 0 0 2), u)"
proof -
  have "map_option (\<lambda>_. ()) (r7_arpcache_insert 0x0A000002 (Mac 0 0 0 0 0 2) empty_router) = Some ()" by code_simp
  then obtain t where t: "r7_arpcache_insert 0x0A000002 (Mac 0 0 0 0 0 2) empty_router = Some t" by auto
  have "map_option (\<lambda>_. ()) (do { t \<leftarrow> r7_arpcache_insert 0x0A000002 (Mac 0 0 0 0 0 2) empty_router;
      r7_arpcache_insert 0x0A000002 (Mac 0 0 0 0 0 3) t }) = Some ()" by code_simp
  with t obtain u where u: "r7_arpcache_insert 0x0A000002 (Mac 0 0 0 0 0 3) t = Some u" by auto
  have "map_option (\<lambda>t. case insert_slot (r7_now t) (r7_entries t) of None \<Rightarrow> None
      | Some i \<Rightarrow> r7_lookup_loop 0x0A000002 (take i (r7_entries t)))
    (r7_arpcache_insert 0x0A000002 (Mac 0 0 0 0 0 2) empty_router) = Some (Some (Mac 0 0 0 0 0 2))" by code_simp
  with t older_binding_hides_learned_one[OF u] u show ?thesis by auto
qed

text \<open>Property C33. A packet whose next hop is resolved leaves in one frame on the interface of its route, its time to
  live one lower, modulo 256, and its header checksum valid. So a packet that arrives with a time to
  live of zero goes on with 255.\<close>

theorem r7_forwards:
  assumes "\<not> r7_locked s" "ihl ih = 5" "ttl ih \<noteq> 1" "ntohl (daddr ih) \<noteq> if_ip ifc"
    and "longest_prefix_match07 (r7_rtable s) (ntohl (daddr ih)) = Some e"
    and "r7_lookup_loop (get_next_hop e (ntohl (daddr ih))) (r7_entries s) = Some m"
  shows "\<exists>ih'. r7_handle_ip_packet ifc (frame eh ih rest) s = Some (s\<lparr>r7_out := r7_out s @ [(rt_iface e,
      frame \<lparr> ether_dhost = m, ether_shost = if_mac (rt_iface e), ether_type = htons 0x0800 \<rparr> ih' rest)]\<rparr>) \<and>
    ttl ih' = ttl ih - 1 \<and> checksum07 (iphdr_enc ih') 0 = 0 \<and> ih'\<lparr>ttl := ttl ih, ip_cksum := ip_cksum ih\<rparr> = ih"
proof (intro exI[of _ "fwd_hdr ih"] conjI)
  have n: "(if rt_gw e = 0 then d else rt_gw e) = get_next_hop e d" for d by (simp add: get_next_hop_def)
  have l: "s\<lparr>r7_locked := False\<rparr> = s" using assms(1) by (cases s) simp
  have m: "st_bytes (frame eh' ih' rest) 0 (mac_bytes m) = Some (frame (eh'\<lparr>ether_dhost := m\<rparr>) ih' rest)" for eh' ih'
    using mac_front_frame[of m eh' ih' rest] by (simp add: st_bytes_def blit_def)
  have "r7_send_by_arp (rt_iface e) (get_next_hop e (ntohl (daddr ih))) (frame eh (fwd_hdr ih) rest) s =
      Some (s\<lparr>r7_out := r7_out s @ [(rt_iface e,
        frame \<lparr> ether_dhost = m, ether_shost = if_mac (rt_iface e), ether_type = htons 0x0800 \<rparr> (fwd_hdr ih) rest)]\<rparr>)"
    using assms(1,6) by (simp add: r7_send_by_arp_def r7_arpcache_lookup_def r7_lock_def r7_unlock_def l m r7_send_packet_eq)
      (simp add: frame_def ether_enc_def)
  moreover have "ttl ih - 1 \<noteq> 0" using assms(3) by simp
  ultimately show "r7_handle_ip_packet ifc (frame eh ih rest) s = Some (s\<lparr>r7_out := r7_out s @ [(rt_iface e,
      frame \<lparr> ether_dhost = m, ether_shost = if_mac (rt_iface e), ether_type = htons 0x0800 \<rparr> (fwd_hdr ih) rest)]\<rparr>)"
    using assms(2,4,5) by (simp add: r7_handle_ip_packet_def Let_def n fwd_hdr_def)
  show "checksum07 (iphdr_enc (fwd_hdr ih)) 0 = 0" using checksums_agree fwd_hdr_verifies by simp
qed (simp_all add: fwd_hdr_def)

theorem r7_forwards_witness:
  "\<exists>ih'. r7_handle_ip_packet (sample_iface\<lparr>if_ip := 0x0B000001\<rparr>) (frame zero_eth (sample_iph\<lparr>ttl := 0\<rparr>) [1, 2])
      (empty_router\<lparr>r7_entries := [\<lparr> ae_ip4 = 0x0A000107, ae_mac = Mac 2 2 2 2 2 2, ae_added = 90, ae_valid = True \<rparr>]\<rparr>) =
    Some (empty_router\<lparr>r7_entries := [\<lparr> ae_ip4 = 0x0A000107, ae_mac = Mac 2 2 2 2 2 2, ae_added = 90, ae_valid = True \<rparr>],
      r7_out := [(sample_iface, frame \<lparr> ether_dhost = Mac 2 2 2 2 2 2, ether_shost = if_mac sample_iface, ether_type = htons 0x0800 \<rparr> ih' [1, 2])]\<rparr>) \<and>
    ttl ih' = 255"
proof -
  let ?s = "empty_router\<lparr>r7_entries := [\<lparr> ae_ip4 = 0x0A000107, ae_mac = Mac 2 2 2 2 2 2, ae_added = 90, ae_valid = True \<rparr>]\<rparr>"
  have e: "longest_prefix_match07 (r7_rtable ?s) (ntohl (daddr (sample_iph\<lparr>ttl := 0\<rparr>))) = Some (sample_route 0x0A000000 0xFF000000)"
    by (simp add: longest_prefix_match07_def) (simp add: sample_route_def)
  have n: "get_next_hop (sample_route 0x0A000000 0xFF000000) d = d" for d by (simp add: get_next_hop_def sample_route_def)
  have i: "rt_iface (sample_route 0x0A000000 0xFF000000) = sample_iface" "r7_out empty_router = []"
    by (simp_all add: sample_route_def empty_router_def)
  have l: "r7_lookup_loop (get_next_hop (sample_route 0x0A000000 0xFF000000) (ntohl (daddr (sample_iph\<lparr>ttl := 0\<rparr>)))) (r7_entries ?s)
      = Some (Mac 2 2 2 2 2 2)" by (simp add: n)
  have d: "ntohl (daddr (sample_iph\<lparr>ttl := 0\<rparr>)) \<noteq> if_ip (sample_iface\<lparr>if_ip := 0x0B000001\<rparr>)" by (simp add: sample_iph_def)
  have h: "ihl (sample_iph\<lparr>ttl := 0\<rparr>) = 5" "ttl (sample_iph\<lparr>ttl := 0\<rparr>) \<noteq> 1" "\<not> r7_locked ?s"
    by (simp_all add: sample_iph_def empty_router_def)
  from r7_forwards[OF h(3) h(1) h(2) d e l, of zero_eth "[1, 2]"] obtain ih' where
    "r7_handle_ip_packet (sample_iface\<lparr>if_ip := 0x0B000001\<rparr>) (frame zero_eth (sample_iph\<lparr>ttl := 0\<rparr>) [1, 2]) ?s =
      Some (?s\<lparr>r7_out := r7_out ?s @ [(rt_iface (sample_route 0x0A000000 0xFF000000),
        frame \<lparr> ether_dhost = Mac 2 2 2 2 2 2, ether_shost = if_mac (rt_iface (sample_route 0x0A000000 0xFF000000)), ether_type = htons 0x0800 \<rparr>
          ih' [1, 2])]\<rparr>)"
    "ttl ih' = ttl (sample_iph\<lparr>ttl := 0\<rparr>) - 1" by metis
  moreover have "r7_out ?s = []" by (simp add: i(2))
  moreover have "ttl (sample_iph\<lparr>ttl := 0\<rparr>) - 1 = 255" by simp
  ultimately show ?thesis unfolding i(1) by (intro exI[of _ ih'] conjI) (simp_all only: append_Nil)
qed

end
