(* ===== verification/Tcp12.thy ===== *)
theory Tcp12
  imports Tcp_Data
begin

text \<open>
  The stack of prj12 (\<open>tcp_in.c\<close>, \<open>tcp_out.c\<close>, \<open>tcp_timer.c\<close>, \<open>tcp_sock.c\<close>), the stage before
  retransmission: no queue of sent packets, no out-of-order queue, no retransmission timer. A writer
  sends one segment and sleeps until an acknowledgement arrives. The functions of the socket table
  that are the same in prj14 are those of \<open>Tcp_Sock\<close>; the fields of the socket this stage does not
  have are never read.
\<close>

section \<open>Allocation, release, timers\<close>

definition TCP_TIMER_SCAN_INTERVAL12 :: int where "TCP_TIMER_SCAN_INTERVAL12 = 100000"

definition alloc_tcp_sock12 :: "tcp \<Rightarrow> addr \<times> tcp" where
  "alloc_tcp_sock12 s = (let i = t_next s in (i, put_sk i fresh_sock (s\<lparr>t_next := Suc i\<rparr>)))"

definition free_tcp_sock12 :: "addr \<Rightarrow> tcp \<Rightarrow> tcp option" where
  "free_tcp_sock12 i s = do {
     s \<leftarrow> upd_sk i (\<lambda>k. k\<lparr>sk_ref_cnt := sk_ref_cnt k - 1\<rparr>) s;
     k \<leftarrow> t_socks s i;
     Some (if sk_ref_cnt k \<le> 0 then s\<lparr>t_socks := (t_socks s)(i := None)\<rparr> else s) }"

definition tcp_bind_unhash12 :: "addr \<Rightarrow> tcp \<Rightarrow> tcp option" where
  "tcp_bind_unhash12 i s = do {
     k \<leftarrow> t_socks s i;
     if sk_bind_link k = Linked then do {
       let h = tcp_hash_function 0 0 (sk_sport k) 0;
       free_tcp_sock12 i (put_sk i (k\<lparr>sk_bind_link := Stale\<rparr>)
         (s\<lparr>t_bind := (t_bind s)(h := remove1 i (t_bind s h))\<rparr>)) }
     else None }"

definition tcp_unhash12 :: "addr \<Rightarrow> tcp \<Rightarrow> tcp option" where
  "tcp_unhash12 i s = do {
     k \<leftarrow> t_socks s i;
     if sk_hash_link k = Linked then do {
       let h = tcp_hash_function (sk_sip k) (sk_dip k) (sk_sport k) (sk_dport k);
       let hl = tcp_hash_function 0 0 (sk_sport k) 0;
       let s = put_sk i (k\<lparr>sk_hash_link := Stale\<rparr>) (if i \<in> set (t_est s h)
         then s\<lparr>t_est := (t_est s)(h := remove1 i (t_est s h))\<rparr>
         else s\<lparr>t_lis := (t_lis s)(hl := remove1 i (t_lis s hl))\<rparr>);
       free_tcp_sock12 i s }
     else None }"

text \<open>Starting a timer that runs already links its node a second time: undefined.\<close>

definition tcp_set_timewait_timer12 :: "addr \<Rightarrow> tcp \<Rightarrow> tcp option" where
  "tcp_set_timewait_timer12 i s = do {
     s \<leftarrow> upd_sk i (\<lambda>k. k\<lparr>sk_timewait := TCP_TIMEWAIT_TIMEOUT\<rparr>) s;
     if TimeWait i \<in> set (t_timers s) then None
     else upd_sk i (\<lambda>k. k\<lparr>sk_ref_cnt := sk_ref_cnt k + 1\<rparr>) (s\<lparr>t_timers := t_timers s @ [TimeWait i]\<rparr>) }"

definition scan_timewait12 :: "addr \<Rightarrow> tcp \<Rightarrow> tcp option" where
  "scan_timewait12 i s = do {
     s \<leftarrow> upd_sk i (\<lambda>k. k\<lparr>sk_timewait := sk_timewait k - TCP_TIMER_SCAN_INTERVAL12\<rparr>) s;
     k \<leftarrow> t_socks s i;
     if sk_timewait k \<le> 0 then do {
       let s = s\<lparr>t_timers := remove1 (TimeWait i) (t_timers s)\<rparr>;
       s \<leftarrow> tcp_set_state i TCP_CLOSED s;
       s \<leftarrow> (if sk_parent k = None then tcp_bind_unhash12 i s else Some s);
       tcp_unhash12 i s }
     else Some s }"

text \<open>The list of this stage holds time-wait timers only.\<close>

fun scan_list12 :: "timer list \<Rightarrow> tcp \<Rightarrow> tcp option" where
  "scan_list12 [] s = Some s"
| "scan_list12 (TimeWait i # ts) s = do { s \<leftarrow> scan_timewait12 i s; scan_list12 ts s }"
| "scan_list12 (Retrans i # ts) s = None"

definition tcp_scan_timer_list12 :: "tcp \<Rightarrow> tcp option" where
  "tcp_scan_timer_list12 s = scan_list12 (t_timers s) s"

fun tcp_scans12 :: "nat \<Rightarrow> tcp \<Rightarrow> tcp option" where
  "tcp_scans12 0 s = Some s"
| "tcp_scans12 (Suc n) s = do { s \<leftarrow> tcp_scan_timer_list12 s; tcp_scans12 n s }"

section \<open>Sending\<close>

definition tcp_send_packet12 :: "addr \<Rightarrow> bytes \<Rightarrow> tcp \<Rightarrow> tcp option" where
  "tcp_send_packet12 i p s = do {
     k \<leftarrow> t_socks s i;
     let ipoff = ETHER_HDR_SIZE;
     let off = ETHER_HDR_SIZE + IP_BASE_HDR_SIZE;
     let ip_tot_len = int (length p) - int ETHER_HDR_SIZE;
     let tcp_data_len = ip_tot_len - int IP_BASE_HDR_SIZE - int TCP_BASE_HDR_SIZE;
     p \<leftarrow> tcp_init_hdr p off (sk_sport k) (sk_dport k) (sk_snd_nxt k) (sk_rcv_nxt k) (TCP_PSH OR TCP_ACK) (sk_rcv_wnd k);
     let (r, n) = c_rand (t_net s);
     let s = s\<lparr>t_net := n\<rparr>;
     p \<leftarrow> ip_init_hdr (of_nat r) p ipoff (sk_sip k) (sk_dip k) (of_int ip_tot_len) IPPROTO_TCP;
     p \<leftarrow> tcp_seal p ipoff off;
     ck \<leftarrow> ip_checksum p ipoff;
     ip \<leftarrow> get_ip p ipoff;
     p \<leftarrow> put_ip p ipoff (ip\<lparr>ip_cksum := ck\<rparr>);
     let s = put_sk i (k\<lparr>sk_snd_nxt := sk_snd_nxt k + to_u32 tcp_data_len,
       sk_snd_wnd := sk_snd_wnd k - to_u32 tcp_data_len\<rparr>) s;
     on_net (ip_send_packet p) s }"

definition tcp_send_control_packet12 :: "addr \<Rightarrow> u8 \<Rightarrow> tcp \<Rightarrow> tcp option" where
  "tcp_send_control_packet12 i flags s = do {
     k \<leftarrow> t_socks s i;
     let ipoff = ETHER_HDR_SIZE;
     let off = ETHER_HDR_SIZE + IP_BASE_HDR_SIZE;
     let p = replicate (ETHER_HDR_SIZE + IP_BASE_HDR_SIZE + TCP_BASE_HDR_SIZE) 0;
     let (r, n) = c_rand (t_net s);
     let s = s\<lparr>t_net := n\<rparr>;
     p \<leftarrow> ip_init_hdr (of_nat r) p ipoff (sk_sip k) (sk_dip k)
       (of_nat (IP_BASE_HDR_SIZE + TCP_BASE_HDR_SIZE)) IPPROTO_TCP;
     p \<leftarrow> tcp_init_hdr p off (sk_sport k) (sk_dport k) (sk_snd_nxt k) (sk_rcv_nxt k) flags (sk_rcv_wnd k);
     p \<leftarrow> tcp_seal p ipoff off;
     let s = (if flags AND (TCP_SYN OR TCP_FIN) \<noteq> 0 then put_sk i (k\<lparr>sk_snd_nxt := sk_snd_nxt k + 1\<rparr>) s else s);
     on_net (ip_send_packet p) s }"

section \<open>The state machine\<close>

definition tcp_rcv_syn_listen12 :: "addr \<Rightarrow> tcp_cb \<Rightarrow> tcp \<Rightarrow> tcp option" where
  "tcp_rcv_syn_listen12 i cb s = do {
     let (c, s) = alloc_tcp_sock12 s;
     s \<leftarrow> upd_sk i (\<lambda>k. k\<lparr>sk_listen_queue := sk_listen_queue k @ [c]\<rparr>) s;
     k \<leftarrow> t_socks s i;
     let (iss, s) = tcp_new_iss s;
     s \<leftarrow> upd_sk c (\<lambda>ck. ck\<lparr>sk_queue := OnListen i, sk_sip := cb_daddr cb, sk_dip := cb_saddr cb,
       sk_dport := cb_sport cb, sk_sport := cb_dport cb, sk_parent := Some i, sk_iss := iss,
       sk_snd_una := sk_snd_una k, sk_rcv_nxt := sk_rcv_nxt k, sk_snd_nxt := sk_iss k\<rparr>) s;
     s \<leftarrow> tcp_set_state c TCP_SYN_RECV s;
     (r, s) \<leftarrow> tcp_hash c s;
     tcp_send_control_packet12 c (TCP_SYN OR TCP_ACK) s }"

definition tcp_rcv_ack12 :: "addr \<Rightarrow> tcp \<Rightarrow> tcp option" where
  "tcp_rcv_ack12 i s = do {
     k \<leftarrow> t_socks s i;
     (case sk_state k of
        TCP_SYN_RECV \<Rightarrow> do {
          s \<leftarrow> tcp_sock_accept_enqueue i s;
          p \<leftarrow> sk_parent k;
          s \<leftarrow> wake_accept p s;
          tcp_set_state i TCP_ESTABLISHED s }
      | TCP_ESTABLISHED \<Rightarrow> wake_send i s
      | TCP_FIN_WAIT_1 \<Rightarrow> tcp_set_state i TCP_FIN_WAIT_2 s
      | TCP_LAST_ACK \<Rightarrow> do {
          s \<leftarrow> tcp_set_state i TCP_CLOSED s;
          s \<leftarrow> (if sk_parent k = None then tcp_bind_unhash12 i s else Some s);
          tcp_unhash12 i s }
      | _ \<Rightarrow> Some s) }"

text \<open>A segment with data, written to the ring buffer whatever its sequence number.\<close>

definition wake_if_asleep :: "synch_wait \<Rightarrow> synch_wait" where
  "wake_if_asleep w = (if sw_sleep w then wake w else w)"

definition tcp_rcv_data12 :: "addr \<Rightarrow> tcp_cb \<Rightarrow> bytes \<Rightarrow> tcp \<Rightarrow> tcp option" where
  "tcp_rcv_data12 i cb packet s = do {
     k \<leftarrow> t_socks s i;
     if cb_pl_len cb \<le> 0 then None
     else do {
       pl \<leftarrow> ld_bytes packet (cb_payload cb) (nat (cb_pl_len cb));
       rb \<leftarrow> write_ring_buffer (sk_rcv_buf k) pl;
       let s = put_sk i (k\<lparr>sk_rcv_buf := rb, sk_wait_recv := wake_if_asleep (sk_wait_recv k)\<rparr>) s;
       s \<leftarrow> tcp_send_control_packet12 i TCP_ACK s;
       upd_sk i (\<lambda>k. k\<lparr>sk_wait_send := wake_if_asleep (sk_wait_send k)\<rparr>) s } }"

definition tcp_rcv_ack_fin12 :: "addr \<Rightarrow> tcp \<Rightarrow> tcp option" where
  "tcp_rcv_ack_fin12 i s = do {
     k \<leftarrow> t_socks s i;
     if sk_state k = TCP_FIN_WAIT_1 then do {
       s \<leftarrow> tcp_set_state i TCP_TIME_WAIT s;
       s \<leftarrow> tcp_send_control_packet12 i TCP_ACK s;
       tcp_set_timewait_timer12 i s }
     else Some s }"

definition tcp_rcv_fin12 :: "addr \<Rightarrow> tcp \<Rightarrow> tcp option" where
  "tcp_rcv_fin12 i s = do {
     k \<leftarrow> t_socks s i;
     (case sk_state k of
        TCP_ESTABLISHED \<Rightarrow> do {
          s \<leftarrow> tcp_set_state i TCP_LAST_ACK s;
          tcp_send_control_packet12 i (TCP_ACK OR TCP_FIN) s }
      | TCP_FIN_WAIT_2 \<Rightarrow> do {
          s \<leftarrow> tcp_set_state i TCP_TIME_WAIT s;
          s \<leftarrow> tcp_send_control_packet12 i TCP_ACK s;
          tcp_set_timewait_timer12 i s }
      | _ \<Rightarrow> Some s) }"

definition tcp_process12 :: "addr option \<Rightarrow> tcp_cb \<Rightarrow> bytes \<Rightarrow> tcp \<Rightarrow> tcp option" where
  "tcp_process12 tsk cb packet s =
     (case tsk of
        None \<Rightarrow> Some s
      | Some i \<Rightarrow> do {
          let f = cb_flags cb;
          s \<leftarrow> upd_sk i (\<lambda>k. k\<lparr>sk_snd_una := cb_ack cb, sk_rcv_nxt := cb_seq_end cb\<rparr>) s;
          k \<leftarrow> t_socks s i;
          if f = TCP_SYN then (if sk_state k = TCP_LISTEN then tcp_rcv_syn_listen12 i cb s else Some s)
          else if f = TCP_SYN OR TCP_ACK then (if sk_state k = TCP_SYN_SENT then wake_connect i s else Some s)
          else if f = TCP_ACK then tcp_rcv_ack12 i s
          else if f = TCP_PSH OR TCP_ACK then tcp_rcv_data12 i cb packet s
          else if f = TCP_ACK OR TCP_FIN then tcp_rcv_ack_fin12 i s
          else if f = TCP_FIN then tcp_rcv_fin12 i s
          else Some s })"

definition handle_tcp_packet12 :: "bytes \<Rightarrow> nat \<Rightarrow> nat \<Rightarrow> tcp \<Rightarrow> tcp option" where
  "handle_tcp_packet12 packet ipoff off s = do {
     ck \<leftarrow> tcp_checksum packet ipoff off;
     h \<leftarrow> get_tcp packet off;
     if ck \<noteq> th_cksum h then Some s
     else do {
       ip \<leftarrow> get_ip packet ipoff;
       let cb = tcp_cb_init ip h off;
       tsk \<leftarrow> tcp_sock_lookup cb s;
       tcp_process12 tsk cb packet s } }"

section \<open>The calls of an application\<close>

definition tcp_sock_connect12 :: "addr \<Rightarrow> u32 \<Rightarrow> u16 \<Rightarrow> tcp \<Rightarrow> (cn_pc \<times> tcp) option" where
  "tcp_sock_connect12 i nip nport s = do {
     f \<leftarrow> (case n_ifaces (t_net s) of [] \<Rightarrow> None | f # _ \<Rightarrow> Some f);
     s \<leftarrow> upd_sk i (\<lambda>k. k\<lparr>sk_dip := htonl nip, sk_dport := htons nport, sk_sip := if_ip f\<rparr>) s;
     (r, s) \<leftarrow> tcp_sock_set_sport i 0 s;
     if r < 0 then Some (CnDone (-1), s) else do {
       let (iss, s) = tcp_new_iss s;
       s \<leftarrow> upd_sk i (\<lambda>k. k\<lparr>sk_iss := iss, sk_snd_nxt := iss\<rparr>) s;
       s \<leftarrow> tcp_set_state i TCP_SYN_SENT s;
       (r, s) \<leftarrow> tcp_hash i s;
       s \<leftarrow> tcp_send_control_packet12 i TCP_SYN s;
       k \<leftarrow> t_socks s i;
       (case sleep_on_enter (sk_wait_connect k) of
          (Waiting, w) \<Rightarrow> Some (CnSleep i, put_sk i (k\<lparr>sk_wait_connect := w\<rparr>) s)
        | (Returned _, w) \<Rightarrow> Some (CnWoken i, put_sk i (k\<lparr>sk_wait_connect := w\<rparr>) s)) } }"

definition connect_finish12 :: "addr \<Rightarrow> tcp \<Rightarrow> (cn_pc \<times> tcp) option" where
  "connect_finish12 i s = do {
     s \<leftarrow> tcp_set_state i TCP_ESTABLISHED s;
     s \<leftarrow> tcp_send_control_packet12 i TCP_ACK s;
     Some (CnDone 0, s) }"

definition tcp_sock_close12 :: "addr \<Rightarrow> tcp \<Rightarrow> tcp option" where
  "tcp_sock_close12 i s = do {
     k \<leftarrow> t_socks s i;
     if sk_state k = TCP_ESTABLISHED then do {
       s \<leftarrow> tcp_set_state i TCP_FIN_WAIT_1 s;
       tcp_send_control_packet12 i TCP_FIN s }
     else if sk_state k = TCP_CLOSE_WAIT then do {
       s \<leftarrow> tcp_set_state i TCP_LAST_ACK s;
       tcp_send_control_packet12 i TCP_FIN s }
     else Some s }"

text \<open>\<open>tcp_sock_read\<close>, cut between releasing the lock and \<open>sleep_on (wait_recv)\<close>, and inside it.\<close>

fun read12_step :: "rd_pc \<Rightarrow> tcp \<Rightarrow> (rd_pc \<times> tcp) option" where
  "read12_step (RdHead i len) s = do {
     k \<leftarrow> t_socks s i;
     if ring_buffer_empty (sk_rcv_buf k) then Some (RdWait i len, s)
     else do {
       (res, rb) \<leftarrow> read_ring_buffer (sk_rcv_buf k) len;
       Some (RdDone res, put_sk i (k\<lparr>sk_rcv_buf := rb\<rparr>) s) } }"
| "read12_step (RdWait i len) s = do {
     k \<leftarrow> t_socks s i;
     (case sleep_on_enter (sk_wait_recv k) of
        (Waiting, w) \<Rightarrow> Some (RdSleep i len, put_sk i (k\<lparr>sk_wait_recv := w\<rparr>) s)
      | (Returned _, w) \<Rightarrow> Some (RdHead i len, put_sk i (k\<lparr>sk_wait_recv := w\<rparr>) s)) }"
| "read12_step pc s = Some (pc, s)"

fun read12_resume :: "rd_pc \<Rightarrow> tcp \<Rightarrow> (rd_pc \<times> tcp) option" where
  "read12_resume (RdSleep i len) s = do {
     s \<leftarrow> upd_sk i (\<lambda>k. k\<lparr>sk_wait_recv := snd (sleep_on_resume (sk_wait_recv k))\<rparr>) s;
     Some (RdHead i len, s) }"
| "read12_resume pc s = Some (pc, s)"

text \<open>\<open>tcp_sock_write\<close>: after every segment the writer sleeps on \<open>wait_send\<close>.\<close>

fun write12_step :: "wr_pc \<Rightarrow> tcp \<Rightarrow> (wr_pc \<times> tcp) option" where
  "write12_step (WrHead i buf len sent) s =
     (if sent < len then do {
        sl \<leftarrow> c_strlen buf;
        let valid_len = min len sl - sent;
        let data_len = min (int MSS) valid_len;
        if data_len < 0 then None
        else do {
          d \<leftarrow> ld_bytes buf (nat sent) (nat data_len);
          s \<leftarrow> tcp_send_packet12 i (replicate (ETHER_HDR_SIZE + IP_BASE_HDR_SIZE + TCP_BASE_HDR_SIZE) 0 @ d) s;
          Some (WrWait i buf len (sent + data_len), s) } }
      else Some (WrDone sent, s))"
| "write12_step (WrWait i buf len sent) s = do {
     k \<leftarrow> t_socks s i;
     (case sleep_on_enter (sk_wait_send k) of
        (Waiting, w) \<Rightarrow> Some (WrSleep i buf len sent, put_sk i (k\<lparr>sk_wait_send := w\<rparr>) s)
      | (Returned _, w) \<Rightarrow> Some (WrHead i buf len sent, put_sk i (k\<lparr>sk_wait_send := w\<rparr>) s)) }"
| "write12_step pc s = Some (pc, s)"

fun write12_resume :: "wr_pc \<Rightarrow> tcp \<Rightarrow> (wr_pc \<times> tcp) option" where
  "write12_resume (WrSleep i buf len sent) s = do {
     s \<leftarrow> upd_sk i (\<lambda>k. k\<lparr>sk_wait_send := snd (sleep_on_resume (sk_wait_send k))\<rparr>) s;
     Some (WrHead i buf len sent, s) }"
| "write12_resume pc s = Some (pc, s)"

section \<open>What sending does\<close>

definition data_seg :: "tcp \<Rightarrow> tcp_sock \<Rightarrow> bytes \<Rightarrow> bytes" where
  "data_seg s k d = segment zero_eth (draw s) (sk_sip k) (sk_dip k)
     (seg_hdr (sk_sport k) (sk_dport k) (sk_snd_nxt k) (sk_rcv_nxt k) (TCP_PSH OR TCP_ACK) (sk_rcv_wnd k)) d"

lemma length_data_seg [simp]: "length (data_seg s k d) = 54 + length d"
  by (simp add: data_seg_def)

lemma zero_frame_data: "replicate (ETHER_HDR_SIZE + IP_BASE_HDR_SIZE + TCP_BASE_HDR_SIZE) 0 @ d = frame zero_eth zero_iph (replicate 20 0 @ d)"
  using arg_cong[OF zero_frame_20, of "\<lambda>x. x @ d"] by (simp add: frame_def)

lemma tcp_send_packet12_eq:
  assumes "t_socks s i = Some k" "length d \<le> 65495"
  shows "tcp_send_packet12 i (replicate (ETHER_HDR_SIZE + IP_BASE_HDR_SIZE + TCP_BASE_HDR_SIZE) 0 @ d) s =
    on_net (ip_send_packet (data_seg s k d)) (put_sk i (k\<lparr>sk_snd_nxt := sk_snd_nxt k + of_nat (length d),
      sk_snd_wnd := sk_snd_wnd k - of_nat (length d)\<rparr>) (drawn s))"
proof -
  let ?f = "TCP_PSH OR TCP_ACK"
  let ?ih = "seg_ip (draw s) (sk_sip k) (sk_dip k) d"
  let ?th = "seg_hdr (sk_sport k) (sk_dport k) (sk_snd_nxt k) (sk_rcv_nxt k) ?f (sk_rcv_wnd k)"
  have n: "ETHER_HDR_SIZE + IP_BASE_HDR_SIZE = 34"
    "int (length (frame zero_eth zero_iph (replicate 20 0 @ d))) - int ETHER_HDR_SIZE = int (40 + length d)"
    "int (40 + length d) - int IP_BASE_HDR_SIZE - int TCP_BASE_HDR_SIZE = int (length d)"
    "of_int (int (40 + length d)) = of_nat (40 + length d)"
    by (simp_all add: hdr_sizes)
  have init: "tcp_init_hdr (frame zero_eth zero_iph (replicate 20 0 @ d)) 34 a b c e f g =
      Some (frame zero_eth zero_iph (tcp_enc (seg_hdr a b c e f g) @ d))" for a b c e f g
    by (simp add: tcp_init_hdr_def seg_hdr_def)
  have ipi: "ip_header_of r zero_iph (sk_sip k) (sk_dip k) (of_nat (40 + length d)) IPPROTO_TCP =
      seg_ip r (sk_sip k) (sk_dip k) d" for r unfolding seg_ip_def by (rule ip_header_of_any)
  have ck: "ip_checksum (frame zero_eth ?ih z) ETHER_HDR_SIZE = Some (ip_cksum ?ih)" for z by (simp add: seg_ip_checksum)
  have id: "?ih\<lparr>ip_cksum := ip_cksum ?ih\<rparr> = ?ih" by simp
  have sl: "tcp_seal (frame zero_eth ?ih (tcp_enc ?th @ d)) ETHER_HDR_SIZE 34 = Some (frame zero_eth ?ih (tcp_enc (sealed ?ih ?th d) @ d))"
    by (rule tcp_seal_frame) (use assms(2) in simp_all)
  show ?thesis
    unfolding zero_frame_data unfolding tcp_send_packet12_def Let_def assms(1) n c_rand_def
    apply (simp only: n init bind.bind_lunit prod.case ip_init_hdr_frame ipi draw_def[symmetric] sl ck frame_ops id)
    apply (simp add: data_seg_def segment_def Let_def drawn_def)
    done
qed

lemma net_after_draw: "(put_sk i k (drawn s))\<lparr>t_net := n\<rparr> = (put_sk i k s)\<lparr>t_net := n\<rparr>" "(drawn s)\<lparr>t_net := n\<rparr> = s\<lparr>t_net := n\<rparr>"
  by (simp_all add: put_sk_def drawn_def)

lemma send_packet12_total:
  assumes "t_socks s i = Some k" "length d \<le> 65495"
  obtains n where "tcp_send_packet12 i (replicate (ETHER_HDR_SIZE + IP_BASE_HDR_SIZE + TCP_BASE_HDR_SIZE) 0 @ d) s =
    Some ((put_sk i (k\<lparr>sk_snd_nxt := sk_snd_nxt k + of_nat (length d), sk_snd_wnd := sk_snd_wnd k - of_nat (length d)\<rparr>) s)\<lparr>t_net := n\<rparr>)"
proof -
  have "34 \<le> length (data_seg s k d)" by simp
  from on_net_send_total[OF this, of "put_sk i (k\<lparr>sk_snd_nxt := sk_snd_nxt k + of_nat (length d),
      sk_snd_wnd := sk_snd_wnd k - of_nat (length d)\<rparr>) (drawn s)"] obtain n where
    "tcp_send_packet12 i (replicate (ETHER_HDR_SIZE + IP_BASE_HDR_SIZE + TCP_BASE_HDR_SIZE) 0 @ d) s =
      Some ((put_sk i (k\<lparr>sk_snd_nxt := sk_snd_nxt k + of_nat (length d), sk_snd_wnd := sk_snd_wnd k - of_nat (length d)\<rparr>) (drawn s))\<lparr>t_net := n\<rparr>)"
    unfolding tcp_send_packet12_eq[OF assms] by (elim exE)
  then show thesis unfolding net_after_draw by (rule that)
qed

lemma send_control12_eq:
  assumes "t_socks s i = Some k"
  shows "tcp_send_control_packet12 i flags s = on_net (ip_send_packet (ctl_seg s k flags))
    (if flags AND (TCP_SYN OR TCP_FIN) \<noteq> 0 then put_sk i (k\<lparr>sk_snd_nxt := sk_snd_nxt k + 1\<rparr>) (drawn s) else drawn s)"
proof -
  have d: "s\<lparr>t_net := snd (c_rand (t_net s))\<rparr> = drawn s" "of_nat (fst (c_rand (t_net s))) = draw s"
    by (simp_all add: drawn_def draw_def)
  show ?thesis
    unfolding tcp_send_control_packet12_def Let_def assms bind.bind_lunit case_prod_beta d control_bytes by (simp add: ctl_seg_def)
qed

lemma send_control12_total:
  assumes "t_socks s i = Some k"
  obtains n where "tcp_send_control_packet12 i flags s =
    Some ((if flags AND (TCP_SYN OR TCP_FIN) \<noteq> 0 then put_sk i (k\<lparr>sk_snd_nxt := sk_snd_nxt k + 1\<rparr>) s else s)\<lparr>t_net := n\<rparr>)"
proof -
  let ?u = "if flags AND (TCP_SYN OR TCP_FIN) \<noteq> 0 then put_sk i (k\<lparr>sk_snd_nxt := sk_snd_nxt k + 1\<rparr>) (drawn s) else drawn s"
  have "34 \<le> length (ctl_seg s k flags)" by simp
  from on_net_send_total[OF this, of ?u] obtain n where "on_net (ip_send_packet (ctl_seg s k flags)) ?u = Some (?u\<lparr>t_net := n\<rparr>)" by blast
  then show thesis by (intro that[of n]) (simp add: send_control12_eq[OF assms] net_after_draw split: if_splits)
qed

text \<open>With the flags fixed: an acknowledgement leaves the socket alone, a FIN takes a sequence number.\<close>

lemma send_ack12:
  assumes "t_socks s i = Some k"
  obtains n where "tcp_send_control_packet12 i TCP_ACK s = Some (s\<lparr>t_net := n\<rparr>)"
proof -
  have "TCP_ACK AND (TCP_SYN OR TCP_FIN) = 0" by (simp add: tcp_flag_defs)
  with send_control12_total[OF assms, of TCP_ACK] that show thesis by auto
qed

lemma send_fin12:
  assumes "t_socks s i = Some k" "f = TCP_FIN \<or> f = TCP_ACK OR TCP_FIN"
  obtains n where "tcp_send_control_packet12 i f s = Some ((put_sk i (k\<lparr>sk_snd_nxt := sk_snd_nxt k + 1\<rparr>) s)\<lparr>t_net := n\<rparr>)"
proof -
  have "f AND (TCP_SYN OR TCP_FIN) \<noteq> 0" using assms(2) by (auto simp: tcp_flag_defs)
  with send_control12_total[OF assms(1), of f] that show thesis by auto
qed

section \<open>Closing\<close>

text \<open>What every segment writes before the flags are looked at.\<close>

definition noted12 :: "tcp_cb \<Rightarrow> tcp_sock \<Rightarrow> tcp_sock" where
  "noted12 cb k = k\<lparr>sk_snd_una := cb_ack cb, sk_rcv_nxt := cb_seq_end cb\<rparr>"

lemma noted12_simps [simp]: "sk_state (noted12 cb k) = sk_state k" "sk_parent (noted12 cb k) = sk_parent k" "sk_ref_cnt (noted12 cb k) = sk_ref_cnt k"
  "sk_hash_link (noted12 cb k) = sk_hash_link k" "sk_bind_link (noted12 cb k) = sk_bind_link k" "sk_wait_recv (noted12 cb k) = sk_wait_recv k"
  "sk_rcv_buf (noted12 cb k) = sk_rcv_buf k" "sk_wait_send (noted12 cb k) = sk_wait_send k" "sk_sip (noted12 cb k) = sk_sip k"
  "sk_dip (noted12 cb k) = sk_dip k" "sk_sport (noted12 cb k) = sk_sport k" "sk_dport (noted12 cb k) = sk_dport k"
  by (simp_all add: noted12_def)

lemma process12_ack:
  assumes "t_socks s i = Some k" "cb_flags cb = TCP_ACK"
  shows "tcp_process12 (Some i) cb p s = tcp_rcv_ack12 i (put_sk i (noted12 cb k) s)"
  unfolding tcp_process12_def assms(2) by (simp add: tcp_flag_defs assms(1) noted12_def)

lemma process12_fin:
  assumes "t_socks s i = Some k" "cb_flags cb = TCP_FIN"
  shows "tcp_process12 (Some i) cb p s = tcp_rcv_fin12 i (put_sk i (noted12 cb k) s)"
  unfolding tcp_process12_def assms(2) by (simp add: tcp_flag_defs assms(1) noted12_def)

lemma process12_data:
  assumes "t_socks s i = Some k" "cb_flags cb = TCP_PSH OR TCP_ACK"
  shows "tcp_process12 (Some i) cb p s = tcp_rcv_data12 i cb p (put_sk i (noted12 cb k) s)"
  unfolding tcp_process12_def assms(2) by (simp add: tcp_flag_defs assms(1) noted12_def)

lemma rcv_fin12_established:
  assumes "t_socks s i = Some k" "sk_state k = TCP_ESTABLISHED"
  shows "\<exists>n. tcp_rcv_fin12 i s = Some ((put_sk i (k\<lparr>sk_state := TCP_LAST_ACK, sk_snd_nxt := sk_snd_nxt k + 1\<rparr>) s)\<lparr>t_net := n\<rparr>)"
proof -
  let ?k = "k\<lparr>sk_state := TCP_LAST_ACK\<rparr>"
  have k: "t_socks (put_sk i ?k s) i = Some ?k" by simp
  obtain n where "tcp_send_control_packet12 i (TCP_ACK OR TCP_FIN) (put_sk i ?k s) =
      Some ((put_sk i (?k\<lparr>sk_snd_nxt := sk_snd_nxt ?k + 1\<rparr>) (put_sk i ?k s))\<lparr>t_net := n\<rparr>)"
    by (rule send_fin12[OF k disjI2[OF HOL.refl]])
  then show ?thesis using assms by (intro exI[of _ n]) (simp add: tcp_rcv_fin12_def tcp_set_state_def)
qed

lemma unhash12_last:
  assumes "t_socks s i = Some k" "sk_hash_link k = Linked" "sk_ref_cnt k = 1"
  shows "\<exists>t. tcp_unhash12 i s = Some t \<and> t_socks t i = None"
  using assms by (simp add: tcp_unhash12_def Let_def free_tcp_sock12_def)

text \<open>Property C37. A passive close frees the socket while the application that accepted it still has it: the
  peer's FIN does not wake a reader, and the acknowledgement that follows drops the only reference,
  that of the hash table, so the application's next call, or the return of the one it sleeps in,
  reads freed memory.\<close>

theorem passive_close_frees_socket12:
  assumes "t_socks s i = Some k" "sk_state k = TCP_ESTABLISHED" "sk_parent k = Some l" "sk_hash_link k = Linked" "sk_ref_cnt k = 1"
    and "cb_flags f = TCP_FIN" "cb_flags a = TCP_ACK"
  shows "\<exists>s1 k1 t. tcp_process12 (Some i) f p s = Some s1 \<and> t_socks s1 i = Some k1 \<and> sk_state k1 = TCP_LAST_ACK \<and>
    sk_wait_recv k1 = sk_wait_recv k \<and> tcp_process12 (Some i) a q s1 = Some t \<and> t_socks t i = None \<and>
    read12_resume (RdSleep i len) t = None \<and> read12_step (tcp_sock_read i len) t = None \<and>
    write12_resume (WrSleep i buf len n) t = None \<and> tcp_sock_close12 i t = None"
proof -
  have "t_socks (put_sk i (noted12 f k) s) i = Some (noted12 f k)" "sk_state (noted12 f k) = TCP_ESTABLISHED" using assms(2) by simp_all
  from rcv_fin12_established[OF this] obtain n' where
    n: "tcp_rcv_fin12 i (put_sk i (noted12 f k) s) = Some ((put_sk i ((noted12 f k)\<lparr>sk_state := TCP_LAST_ACK, sk_snd_nxt := sk_snd_nxt (noted12 f k) + 1\<rparr>)
      (put_sk i (noted12 f k) s))\<lparr>t_net := n'\<rparr>)" by (elim exE)
  define k1 where "k1 = (noted12 f k)\<lparr>sk_state := TCP_LAST_ACK, sk_snd_nxt := sk_snd_nxt (noted12 f k) + 1\<rparr>"
  define s1 where "s1 = (put_sk i k1 s)\<lparr>t_net := n'\<rparr>"
  have f: "tcp_process12 (Some i) f p s = Some s1" unfolding process12_fin[OF assms(1,6)] n by (simp add: s1_def k1_def)
  have k1: "t_socks s1 i = Some k1" "sk_state k1 = TCP_LAST_ACK" "sk_wait_recv k1 = sk_wait_recv k" "sk_parent k1 = Some l"
    "sk_hash_link k1 = Linked" "sk_ref_cnt k1 = 1" using assms(3-5) by (simp_all add: s1_def k1_def)
  let ?c = "(noted12 a k1)\<lparr>sk_state := TCP_CLOSED\<rparr>"
  have "t_socks (put_sk i ?c s1) i = Some ?c" "sk_hash_link ?c = Linked" "sk_ref_cnt ?c = 1" using k1 by simp_all
  from unhash12_last[OF this] obtain t where t: "tcp_unhash12 i (put_sk i ?c s1) = Some t" "t_socks t i = None" by blast
  have "tcp_process12 (Some i) a q s1 = Some t"
    unfolding process12_ack[OF k1(1) assms(7)] using k1 t(1) by (simp add: tcp_rcv_ack12_def tcp_set_state_def)
  with f k1 t(2) show ?thesis
    by (intro exI[of _ s1] exI[of _ k1] exI[of _ t]) (simp add: tcp_sock_read_def tcp_sock_close12_def)
qed

definition accepted12 :: tcp_sock where
  "accepted12 = fresh_sock\<lparr>sk_state := TCP_ESTABLISHED, sk_parent := Some 7, sk_hash_link := Linked, sk_ref_cnt := 1\<rparr>"

definition flags_cb :: "u8 \<Rightarrow> tcp_cb" where
  "flags_cb f = \<lparr> cb_saddr = 1, cb_daddr = 2, cb_sport = 3, cb_dport = 4, cb_seq = 0, cb_seq_end = 1, cb_ack = 0, cb_rwnd = 0,
     cb_flags = f, cb_payload = 54, cb_pl_len = 0 \<rparr>"

theorem passive_close_frees_socket12_witness:
  "\<exists>s1 t. tcp_process12 (Some 0) (flags_cb TCP_FIN) [] (one_sock accepted12) = Some s1 \<and>
     tcp_process12 (Some 0) (flags_cb TCP_ACK) [] s1 = Some t \<and> t_socks t 0 = None \<and> read12_resume (RdSleep 0 5) t = None"
proof -
  have a: "sk_state accepted12 = TCP_ESTABLISHED" "sk_parent accepted12 = Some 7" "sk_hash_link accepted12 = Linked" "sk_ref_cnt accepted12 = 1"
    by (simp_all add: accepted12_def)
  have "cb_flags (flags_cb TCP_FIN) = TCP_FIN" "cb_flags (flags_cb TCP_ACK) = TCP_ACK" by (simp_all add: flags_cb_def)
  from passive_close_frees_socket12[OF one_sock_simps(1) a this, of "[]" "[]" 5 "[]" 0] show ?thesis by blast
qed

text \<open>The time-wait timer, when it is the only one.\<close>

lemma scan12_runs:
  assumes "t_timers s = [TimeWait i]" "t_socks s i = Some k" "TCP_TIMER_SCAN_INTERVAL12 < sk_timewait k"
  shows "tcp_scan_timer_list12 s = Some (put_sk i (k\<lparr>sk_timewait := sk_timewait k - TCP_TIMER_SCAN_INTERVAL12\<rparr>) s)"
  using assms by (simp add: tcp_scan_timer_list12_def scan_timewait12_def)

lemma scans12_run:
  "t_timers s = [TimeWait i] \<Longrightarrow> t_socks s i = Some k \<Longrightarrow> int n * TCP_TIMER_SCAN_INTERVAL12 < sk_timewait k \<Longrightarrow>
    tcp_scans12 n s = Some (put_sk i (k\<lparr>sk_timewait := sk_timewait k - int n * TCP_TIMER_SCAN_INTERVAL12\<rparr>) s)"
proof (induction n arbitrary: s k)
  case (Suc n)
  let ?k = "k\<lparr>sk_timewait := sk_timewait k - TCP_TIMER_SCAN_INTERVAL12\<rparr>"
  have p: "0 < TCP_TIMER_SCAN_INTERVAL12" by (simp add: TCP_TIMER_SCAN_INTERVAL12_def)
  have d: "int (Suc n) * TCP_TIMER_SCAN_INTERVAL12 = int n * TCP_TIMER_SCAN_INTERVAL12 + TCP_TIMER_SCAN_INTERVAL12"
    by (simp add: distrib_right)
  have lt: "TCP_TIMER_SCAN_INTERVAL12 < sk_timewait k" using Suc.prems(3) p unfolding d by (smt (verit) mult_nonneg_nonneg of_nat_0_le_iff)
  have "int n * TCP_TIMER_SCAN_INTERVAL12 < sk_timewait ?k" using Suc.prems(3) unfolding d by simp
  with Suc.IH[of "put_sk i ?k s" ?k] Suc.prems(1) scan12_runs[OF Suc.prems(1,2) lt] show ?case
    unfolding d by (simp add: algebra_simps)
qed simp

lemma bind_unhash12_kept:
  assumes "t_socks s i = Some k" "sk_bind_link k = Linked" "2 \<le> sk_ref_cnt k"
  shows "\<exists>t. tcp_bind_unhash12 i s = Some t \<and> t_socks t i = Some (k\<lparr>sk_bind_link := Stale, sk_ref_cnt := sk_ref_cnt k - 1\<rparr>) \<and>
    t_timers t = t_timers s"
  using assms by (simp add: tcp_bind_unhash12_def Let_def free_tcp_sock12_def)

lemma unhash12_kept:
  assumes "t_socks s i = Some k" "sk_hash_link k = Linked" "2 \<le> sk_ref_cnt k"
  shows "\<exists>t. tcp_unhash12 i s = Some t \<and> t_socks t i = Some (k\<lparr>sk_hash_link := Stale, sk_ref_cnt := sk_ref_cnt k - 1\<rparr>) \<and>
    t_timers t = t_timers s"
  using assms by (simp add: tcp_unhash12_def Let_def free_tcp_sock12_def)

lemma scan12_expires:
  assumes "t_timers s = [TimeWait i]" "t_socks s i = Some k" "sk_timewait k \<le> TCP_TIMER_SCAN_INTERVAL12" "sk_parent k = None"
    "sk_hash_link k = Linked" "sk_bind_link k = Linked" "sk_ref_cnt k = 3"
  shows "\<exists>t k'. tcp_scan_timer_list12 s = Some t \<and> t_socks t i = Some k' \<and> sk_state k' = TCP_CLOSED \<and> sk_ref_cnt k' = 1 \<and>
    sk_hash_link k' = Stale \<and> sk_bind_link k' = Stale \<and> t_timers t = []"
proof -
  let ?k1 = "k\<lparr>sk_timewait := sk_timewait k - TCP_TIMER_SCAN_INTERVAL12, sk_state := TCP_CLOSED\<rparr>"
  let ?s1 = "put_sk i ?k1 (s\<lparr>t_timers := []\<rparr>)"
  have "t_socks ?s1 i = Some ?k1" "sk_bind_link ?k1 = Linked" "2 \<le> sk_ref_cnt ?k1" using assms by simp_all
  from bind_unhash12_kept[OF this] obtain s2 where s2: "tcp_bind_unhash12 i ?s1 = Some s2"
    "t_socks s2 i = Some (?k1\<lparr>sk_bind_link := Stale, sk_ref_cnt := sk_ref_cnt ?k1 - 1\<rparr>)" "t_timers s2 = []" by auto
  let ?k2 = "?k1\<lparr>sk_bind_link := Stale, sk_ref_cnt := sk_ref_cnt ?k1 - 1\<rparr>"
  have "sk_hash_link ?k2 = Linked" "2 \<le> sk_ref_cnt ?k2" using assms by simp_all
  from unhash12_kept[OF s2(2) this] obtain t where t: "tcp_unhash12 i s2 = Some t"
    "t_socks t i = Some (?k2\<lparr>sk_hash_link := Stale, sk_ref_cnt := sk_ref_cnt ?k2 - 1\<rparr>)" "t_timers t = []" using s2(3) by auto
  let ?k0 = "k\<lparr>sk_timewait := sk_timewait k - TCP_TIMER_SCAN_INTERVAL12\<rparr>"
  have k0: "t_socks (put_sk i ?k0 s) i = Some ?k0" "sk_timewait ?k0 \<le> 0" "remove1 (TimeWait i) (t_timers (put_sk i ?k0 s)) = []"
    using assms(1,3) by simp_all
  have c: "tcp_set_state i TCP_CLOSED ((put_sk i ?k0 s)\<lparr>t_timers := []\<rparr>) = Some ?s1"
    by (simp add: tcp_set_state_def upd_sk_def put_sk_def)
  have "scan_timewait12 i s = Some t"
    unfolding scan_timewait12_def upd_sk_Some[OF assms(2)] bind.bind_lunit k0(1,3) if_P[OF k0(2)] Let_def c
    using s2(1) t(1) assms(4) by simp
  then have "tcp_scan_timer_list12 s = Some t" by (simp add: tcp_scan_timer_list12_def assms(1))
  with t(2,3) assms(7) show ?thesis by simp
qed

lemma scans12_Suc: "tcp_scans12 (m + 1) u = tcp_scans12 m u \<bind> tcp_scan_timer_list12"
proof (induction m arbitrary: u)
  case 0
  show ?case by (cases "tcp_scan_timer_list12 u") simp_all
next
  case (Suc m)
  then show ?case by (cases "tcp_scan_timer_list12 u") simp_all
qed

text \<open>An active close up to its time-wait timer.\<close>

lemma active_close12_waits:
  assumes "t_socks s i = Some k" "sk_state k = TCP_ESTABLISHED" "t_timers s = []" "cb_flags a = TCP_ACK" "cb_flags f = TCP_FIN"
  shows "\<exists>s1 s2 s3 k3. tcp_sock_close12 i s = Some s1 \<and> tcp_process12 (Some i) a p s1 = Some s2 \<and> tcp_process12 (Some i) f q s2 = Some s3 \<and>
    t_socks s3 i = Some k3 \<and> sk_state k3 = TCP_TIME_WAIT \<and> sk_timewait k3 = TCP_TIMEWAIT_TIMEOUT \<and> t_timers s3 = [TimeWait i] \<and>
    sk_parent k3 = sk_parent k \<and> sk_hash_link k3 = sk_hash_link k \<and> sk_bind_link k3 = sk_bind_link k \<and> sk_ref_cnt k3 = sk_ref_cnt k + 1"
proof -
  define k0 where "k0 = k\<lparr>sk_state := TCP_FIN_WAIT_1\<rparr>"
  have "t_socks (put_sk i k0 s) i = Some k0" by simp
  from send_fin12[OF this disjI1[OF HOL.refl]] obtain n1
    where n1: "tcp_send_control_packet12 i TCP_FIN (put_sk i k0 s) = Some ((put_sk i (k0\<lparr>sk_snd_nxt := sk_snd_nxt k0 + 1\<rparr>) (put_sk i k0 s))\<lparr>t_net := n1\<rparr>)" .
  define k1 s1 where d1: "k1 = k0\<lparr>sk_snd_nxt := sk_snd_nxt k0 + 1\<rparr>" "s1 = (put_sk i k1 s)\<lparr>t_net := n1\<rparr>"
  have s1: "tcp_sock_close12 i s = Some s1" "t_socks s1 i = Some k1" "t_timers s1 = []"
    using assms(1-3) n1 by (simp_all add: tcp_sock_close12_def tcp_set_state_def d1 k0_def)
  define k2 s2 where d2: "k2 = (noted12 a k1)\<lparr>sk_state := TCP_FIN_WAIT_2\<rparr>" "s2 = put_sk i k2 s1"
  have s2: "tcp_process12 (Some i) a p s1 = Some s2" "t_socks s2 i = Some k2" "t_timers s2 = []"
    unfolding process12_ack[OF s1(2) assms(4)] using s1(3) by (simp_all add: tcp_rcv_ack12_def tcp_set_state_def d2 d1 k0_def)
  define k3 where "k3 = (noted12 f k2)\<lparr>sk_state := TCP_TIME_WAIT\<rparr>"
  have "t_socks (put_sk i k3 s2) i = Some k3" by simp
  from send_ack12[OF this] obtain n3 where n3: "tcp_send_control_packet12 i TCP_ACK (put_sk i k3 s2) = Some ((put_sk i k3 s2)\<lparr>t_net := n3\<rparr>)" .
  define k4 where "k4 = k3\<lparr>sk_timewait := TCP_TIMEWAIT_TIMEOUT, sk_ref_cnt := sk_ref_cnt k3 + 1\<rparr>"
  have "tcp_set_timewait_timer12 i ((put_sk i k3 s2)\<lparr>t_net := n3\<rparr>) = Some ((put_sk i k4 s2)\<lparr>t_net := n3, t_timers := [TimeWait i]\<rparr>)"
    using s2(3) by (simp add: tcp_set_timewait_timer12_def k4_def put_sk_def)
  then have "tcp_process12 (Some i) f q s2 = Some ((put_sk i k4 s2)\<lparr>t_net := n3, t_timers := [TimeWait i]\<rparr>)"
    unfolding process12_fin[OF s2(2) assms(5)] using n3 by (simp add: tcp_rcv_fin12_def tcp_set_state_def k3_def d2)
  with s1(1) s2(1) show ?thesis
    by (intro exI[of _ s1] exI[of _ s2] exI[of _ "(put_sk i k4 s2)\<lparr>t_net := n3, t_timers := [TimeWait i]\<rparr>"] exI[of _ k4])
      (simp add: k4_def k3_def d2 d1 k0_def)
qed

text \<open>An active close never releases its socket: after the time-wait timer has run out the client's
  socket is closed, in no table and on no timer, but its reference count is still one, since the
  reference the time-wait timer took is not returned.\<close>

theorem active_close_leaks12:
  assumes "t_socks s i = Some k" "sk_state k = TCP_ESTABLISHED" "sk_parent k = None" "sk_hash_link k = Linked" "sk_bind_link k = Linked"
    "sk_ref_cnt k = 2" "t_timers s = []" "cb_flags a = TCP_ACK" "cb_flags f = TCP_FIN"
  shows "\<exists>s1 s2 s3 t k'. tcp_sock_close12 i s = Some s1 \<and> tcp_process12 (Some i) a p s1 = Some s2 \<and> tcp_process12 (Some i) f q s2 = Some s3 \<and>
    tcp_scans12 20 s3 = Some t \<and> t_socks t i = Some k' \<and> sk_state k' = TCP_CLOSED \<and> sk_ref_cnt k' = 1 \<and>
    sk_hash_link k' = Stale \<and> sk_bind_link k' = Stale \<and> t_timers t = []"
proof -
  obtain s1 s2 s3 k3 where s: "tcp_sock_close12 i s = Some s1" "tcp_process12 (Some i) a p s1 = Some s2" "tcp_process12 (Some i) f q s2 = Some s3"
    and k3: "t_socks s3 i = Some k3" "sk_timewait k3 = TCP_TIMEWAIT_TIMEOUT" "t_timers s3 = [TimeWait i]" "sk_parent k3 = None"
      "sk_hash_link k3 = Linked" "sk_bind_link k3 = Linked" "sk_ref_cnt k3 = 3"
    using active_close12_waits[OF assms(1,2,7-9), of p q] unfolding assms(3-6) by auto
  let ?k = "k3\<lparr>sk_timewait := sk_timewait k3 - int 19 * TCP_TIMER_SCAN_INTERVAL12\<rparr>"
  have i: "int 19 * TCP_TIMER_SCAN_INTERVAL12 < sk_timewait k3" "sk_timewait ?k \<le> TCP_TIMER_SCAN_INTERVAL12"
    using k3(2) by (simp_all add: TCP_TIMER_SCAN_INTERVAL12_def TCP_TIMEWAIT_TIMEOUT_def)
  from scans12_run[OF k3(3,1) i(1)] have w: "tcp_scans12 19 s3 = Some (put_sk i ?k s3)" .
  have "t_timers (put_sk i ?k s3) = [TimeWait i]" "t_socks (put_sk i ?k s3) i = Some ?k" "sk_parent ?k = None"
    "sk_hash_link ?k = Linked" "sk_bind_link ?k = Linked" "sk_ref_cnt ?k = 3" using k3 by simp_all
  from scan12_expires[OF this(1,2) i(2) this(3-)] obtain t k' where t: "tcp_scan_timer_list12 (put_sk i ?k s3) = Some t" "t_socks t i = Some k'"
    "sk_state k' = TCP_CLOSED" "sk_ref_cnt k' = 1" "sk_hash_link k' = Stale" "sk_bind_link k' = Stale" "t_timers t = []" by blast
  from scans12_Suc[of 19 s3] have "tcp_scans12 20 s3 = Some t" unfolding w using t(1) by simp
  with s t show ?thesis by blast
qed

theorem active_close_leaks12_witness:
  "\<exists>s1 s2 s3 t k'. tcp_sock_close12 0 (one_sock (accepted12\<lparr>sk_parent := None, sk_bind_link := Linked, sk_ref_cnt := 2\<rparr>)) = Some s1 \<and>
     tcp_process12 (Some 0) (flags_cb TCP_ACK) [] s1 = Some s2 \<and> tcp_process12 (Some 0) (flags_cb TCP_FIN) [] s2 = Some s3 \<and>
     tcp_scans12 20 s3 = Some t \<and> t_socks t 0 = Some k' \<and> sk_ref_cnt k' = 1"
proof -
  let ?k = "accepted12\<lparr>sk_parent := None, sk_bind_link := Linked, sk_ref_cnt := 2\<rparr>"
  have k: "sk_state ?k = TCP_ESTABLISHED" "sk_parent ?k = None" "sk_hash_link ?k = Linked" "sk_bind_link ?k = Linked" "sk_ref_cnt ?k = 2"
    "t_timers (one_sock ?k) = []" "cb_flags (flags_cb TCP_ACK) = TCP_ACK" "cb_flags (flags_cb TCP_FIN) = TCP_FIN"
    by (simp_all add: accepted12_def flags_cb_def one_sock_def empty_tcp_def)
  from active_close_leaks12[OF one_sock_simps(1) k, of "[]" "[]"] show ?thesis by blast
qed

end
