(* ===== verification/Tcp11.thy ===== *)
theory Tcp11
  imports Tcp12 Tcp_Handshake
begin

text \<open>
  The stack of prj11 (\<open>tcp_in.c\<close>, \<open>tcp_sock.c\<close>), which opens and closes connections and has no data
  path. Only what differs from prj12 is here: a child socket is bound to its port, the table of bound
  ports is searched through the wrong member of the socket, and closing an accepted socket first spins
  for the state \<open>TCP_CLOSE_WAIT\<close>.
\<close>

section \<open>Ports\<close>

text \<open>\<open>tcp_port_in_use\<close> walks the chain of \<open>bind_hash_list\<close> nodes as if they were \<open>hash_list\<close> nodes. The
  nodes are 16 bytes apart on a 64-bit machine, so the walk itself is right, but what is read as
  \<open>sk_sport\<close>, two bytes at offset 4, lies at offset 20 of the socket: bits 32 to 47 of its pointer
  \<open>parent\<close>. The parameter \<open>mid\<close> gives these bits of the address \<open>malloc\<close> chose for a socket.\<close>

definition misread_sport :: "(addr \<Rightarrow> u16) \<Rightarrow> tcp_sock \<Rightarrow> u16" where
  "misread_sport mid k = (case sk_parent k of None \<Rightarrow> 0 | Some p \<Rightarrow> mid p)"

definition tcp_port_in_use11 :: "(addr \<Rightarrow> u16) \<Rightarrow> u16 \<Rightarrow> tcp \<Rightarrow> bool option" where
  "tcp_port_in_use11 mid port s = do {
     r \<leftarrow> find_sock (\<lambda>k. misread_sport mid k = port) (t_bind s (tcp_hash_function 0 0 port 0)) s;
     Some (r \<noteq> None) }"

function get_port_from11 :: "(addr \<Rightarrow> u16) \<Rightarrow> u16 \<Rightarrow> tcp \<Rightarrow> u16 option" where
  "get_port_from11 mid port s =
     (if port < PORT_MAX then do {
        used \<leftarrow> tcp_port_in_use11 mid port s;
        if \<not> used then Some port else get_port_from11 mid (port + 1) s }
      else Some 0)"
  by pat_completeness auto
termination
proof (relation "measure (\<lambda>(mid, port, s). 65536 - unat port)")
  fix mid and port :: u16 and s :: tcp and used
  assume "port < PORT_MAX"
  then have "unat port < 23456" by (simp add: PORT_MAX_def word_less_nat_alt)
  then show "((mid, port + 1, s), (mid, port, s)) \<in> measure (\<lambda>(mid, port, s). 65536 - unat port)"
    by (simp add: unat_word_ariths)
qed simp

declare get_port_from11.simps [simp del]

definition tcp_get_port11 :: "(addr \<Rightarrow> u16) \<Rightarrow> tcp \<Rightarrow> u16 option" where
  "tcp_get_port11 mid s = get_port_from11 mid PORT_MIN s"

definition tcp_sock_set_sport11 :: "(addr \<Rightarrow> u16) \<Rightarrow> addr \<Rightarrow> u16 \<Rightarrow> tcp \<Rightarrow> (int \<times> tcp) option" where
  "tcp_sock_set_sport11 mid i port s = do {
     used \<leftarrow> (if port \<noteq> 0 then tcp_port_in_use11 mid port s else Some False);
     if used then Some (-1, s) else do {
       port \<leftarrow> (if port \<noteq> 0 then Some port else tcp_get_port11 mid s);
       if port = 0 then Some (-1, s) else do {
         s \<leftarrow> upd_sk i (\<lambda>k. k\<lparr>sk_sport := port\<rparr>) s;
         s \<leftarrow> tcp_bind_hash i s;
         Some (0, s) } } }"

definition tcp_sock_bind11 :: "(addr \<Rightarrow> u16) \<Rightarrow> addr \<Rightarrow> u16 \<Rightarrow> tcp \<Rightarrow> (int \<times> tcp) option" where
  "tcp_sock_bind11 mid i nport s = tcp_sock_set_sport11 mid i (ntohs nport) s"

section \<open>The state machine\<close>

text \<open>The child gets its source port from \<open>tcp_sock_bind\<close>, whose result is not looked at.\<close>

definition tcp_rcv_syn_listen11 :: "(addr \<Rightarrow> u16) \<Rightarrow> addr \<Rightarrow> tcp_cb \<Rightarrow> tcp \<Rightarrow> tcp option" where
  "tcp_rcv_syn_listen11 mid i cb s = do {
     let (c, s) = alloc_tcp_sock12 s;
     s \<leftarrow> upd_sk i (\<lambda>k. k\<lparr>sk_listen_queue := sk_listen_queue k @ [c]\<rparr>) s;
     k \<leftarrow> t_socks s i;
     let (iss, s) = tcp_new_iss s;
     s \<leftarrow> upd_sk c (\<lambda>ck. ck\<lparr>sk_queue := OnListen i, sk_sip := cb_daddr cb, sk_dip := cb_saddr cb,
       sk_dport := cb_sport cb, sk_parent := Some i, sk_iss := iss,
       sk_snd_una := sk_snd_una k, sk_rcv_nxt := sk_rcv_nxt k, sk_snd_nxt := sk_iss k\<rparr>) s;
     (r, s) \<leftarrow> tcp_sock_bind11 mid c (htons (cb_dport cb)) s;
     s \<leftarrow> tcp_set_state c TCP_SYN_RECV s;
     (r, s) \<leftarrow> tcp_hash c s;
     tcp_send_control_packet12 c (TCP_SYN OR TCP_ACK) s }"

definition tcp_rcv_ack11 :: "addr \<Rightarrow> tcp \<Rightarrow> tcp option" where
  "tcp_rcv_ack11 i s = do {
     k \<leftarrow> t_socks s i;
     (case sk_state k of
        TCP_SYN_RECV \<Rightarrow> do {
          s \<leftarrow> tcp_sock_accept_enqueue i s;
          p \<leftarrow> sk_parent k;
          s \<leftarrow> wake_accept p s;
          tcp_set_state i TCP_ESTABLISHED s }
      | TCP_FIN_WAIT_1 \<Rightarrow> tcp_set_state i TCP_FIN_WAIT_2 s
      | TCP_LAST_ACK \<Rightarrow> do {
          s \<leftarrow> tcp_set_state i TCP_CLOSED s;
          s \<leftarrow> (if sk_parent k = None then tcp_bind_unhash12 i s else Some s);
          tcp_unhash12 i s }
      | _ \<Rightarrow> Some s) }"

definition tcp_process11 :: "(addr \<Rightarrow> u16) \<Rightarrow> addr option \<Rightarrow> tcp_cb \<Rightarrow> bytes \<Rightarrow> tcp \<Rightarrow> tcp option" where
  "tcp_process11 mid tsk cb packet s =
     (case tsk of
        None \<Rightarrow> Some s
      | Some i \<Rightarrow> do {
          let f = cb_flags cb;
          s \<leftarrow> upd_sk i (\<lambda>k. k\<lparr>sk_snd_una := cb_ack cb, sk_rcv_nxt := cb_seq_end cb\<rparr>) s;
          k \<leftarrow> t_socks s i;
          if f = TCP_SYN then (if sk_state k = TCP_LISTEN then tcp_rcv_syn_listen11 mid i cb s else Some s)
          else if f = TCP_SYN OR TCP_ACK then (if sk_state k = TCP_SYN_SENT then wake_connect i s else Some s)
          else if f = TCP_ACK then tcp_rcv_ack11 i s
          else if f = TCP_ACK OR TCP_FIN then tcp_rcv_ack_fin12 i s
          else if f = TCP_FIN then tcp_rcv_fin12 i s
          else Some s })"

definition handle_tcp_packet11 :: "(addr \<Rightarrow> u16) \<Rightarrow> bytes \<Rightarrow> nat \<Rightarrow> nat \<Rightarrow> tcp \<Rightarrow> tcp option" where
  "handle_tcp_packet11 mid packet ipoff off s = do {
     ck \<leftarrow> tcp_checksum packet ipoff off;
     h \<leftarrow> get_tcp packet off;
     if ck \<noteq> th_cksum h then Some s
     else do {
       ip \<leftarrow> get_ip packet ipoff;
       let cb = tcp_cb_init ip h off;
       tsk \<leftarrow> tcp_sock_lookup cb s;
       tcp_process11 mid tsk cb packet s } }"

section \<open>The calls of an application\<close>

definition tcp_sock_connect11 :: "(addr \<Rightarrow> u16) \<Rightarrow> addr \<Rightarrow> u32 \<Rightarrow> u16 \<Rightarrow> tcp \<Rightarrow> (cn_pc \<times> tcp) option" where
  "tcp_sock_connect11 mid i nip nport s = do {
     f \<leftarrow> (case n_ifaces (t_net s) of [] \<Rightarrow> None | f # _ \<Rightarrow> Some f);
     s \<leftarrow> upd_sk i (\<lambda>k. k\<lparr>sk_dip := htonl nip, sk_dport := htons nport, sk_sip := if_ip f\<rparr>) s;
     (r, s) \<leftarrow> tcp_sock_set_sport11 mid i 0 s;
     if r < 0 then Some (CnDone (-1), s) else do {
       let (iss, s) = tcp_new_iss s;
       s \<leftarrow> upd_sk i (\<lambda>k. k\<lparr>sk_iss := iss, sk_snd_nxt := iss\<rparr>) s;
       s \<leftarrow> tcp_set_state i TCP_SYN_SENT s;
       (r, s) \<leftarrow> tcp_hash i s;
       s \<leftarrow> tcp_send_control_packet12 i TCP_SYN s;
       k \<leftarrow> t_socks s i;
       (case sleep_on_enter (sk_wait_connect k) of
          (Waiting, w) \<Rightarrow> Some (CnSleep i, put_sk i (k\<lparr>sk_wait_connect := w\<rparr>) s)
        | (Returned _, w) \<Rightarrow> Some (CnWoken i, put_sk i (k\<lparr>sk_wait_connect := w\<rparr>) s)) } }"

fun connect11_resume :: "cn_pc \<Rightarrow> tcp \<Rightarrow> (cn_pc \<times> tcp) option" where
  "connect11_resume (CnSleep i) s = do {
     s \<leftarrow> upd_sk i (\<lambda>k. k\<lparr>sk_wait_connect := snd (sleep_on_resume (sk_wait_connect k))\<rparr>) s;
     Some (CnWoken i, s) }"
| "connect11_resume (CnWoken i) s = connect_finish12 i s"
| "connect11_resume (CnDone r) s = Some (CnDone r, s)"

text \<open>\<open>tcp_sock_close\<close>: each test of the loop condition is one step.\<close>

datatype cl_pc = ClWait addr | ClTest addr | ClDone

fun close11_step :: "cl_pc \<Rightarrow> tcp \<Rightarrow> (cl_pc \<times> tcp) option" where
  "close11_step (ClWait i) s = do {
     k \<leftarrow> t_socks s i;
     Some (if sk_parent k \<noteq> None \<and> sk_state k \<noteq> TCP_CLOSE_WAIT then ClWait i else ClTest i, s) }"
| "close11_step (ClTest i) s = do { s \<leftarrow> tcp_sock_close12 i s; Some (ClDone, s) }"
| "close11_step ClDone s = Some (ClDone, s)"

section \<open>Closing an accepted socket\<close>

text \<open>No socket is in the state \<open>TCP_CLOSE_WAIT\<close>, and socket \<open>i\<close> has a parent as long as it is there.\<close>

definition never_waits :: "addr \<Rightarrow> tcp \<Rightarrow> bool" where
  "never_waits i s \<longleftrightarrow> i < t_next s \<and> (\<forall>j k. t_socks s j = Some k \<longrightarrow>
     j < t_next s \<and> sk_state k \<noteq> TCP_CLOSE_WAIT \<and> (j = i \<longrightarrow> sk_parent k \<noteq> None))"

named_theorems nw

lemma nw_seq [nw]: "pred_option (never_waits i) m \<Longrightarrow> (\<And>s. never_waits i s \<Longrightarrow> pred_option P (f s)) \<Longrightarrow> pred_option P (m \<bind> f)"
  by (cases m) simp_all

lemma nw_seq_pair [nw]: "pred_option (\<lambda>x. never_waits i (snd x)) m \<Longrightarrow> (\<And>x. never_waits i (snd x) \<Longrightarrow> pred_option P (f x)) \<Longrightarrow> pred_option P (m \<bind> f)"
  by (cases m) auto

lemma nw_cong: "never_waits i s \<Longrightarrow> t_socks t = t_socks s \<Longrightarrow> t_next t = t_next s \<Longrightarrow> never_waits i t"
  by (simp add: never_waits_def)

lemma nw_net [simp]: "never_waits i (s\<lparr>t_net := n\<rparr>) = never_waits i s"
  by (simp add: never_waits_def)

lemma nw_put: "never_waits i s \<Longrightarrow> t_socks s j = Some k \<Longrightarrow> sk_state k' \<noteq> TCP_CLOSE_WAIT \<Longrightarrow> (sk_parent k \<noteq> None \<Longrightarrow> sk_parent k' \<noteq> None) \<Longrightarrow>
    never_waits i (put_sk j k' s)"
  by (auto simp: never_waits_def)

lemma nw_state: "never_waits i s \<Longrightarrow> t_socks s j = Some k \<Longrightarrow> sk_state k \<noteq> TCP_CLOSE_WAIT"
  by (auto simp: never_waits_def)

lemma nw_upd [nw]:
  assumes "never_waits i s" "\<And>k. sk_state k \<noteq> TCP_CLOSE_WAIT \<Longrightarrow> sk_state (f k) \<noteq> TCP_CLOSE_WAIT \<and> (sk_parent k \<noteq> None \<longrightarrow> sk_parent (f k) \<noteq> None)"
  shows "pred_option (never_waits i) (upd_sk j f s)"
proof (cases "t_socks s j")
  case None
  then show ?thesis by (simp add: upd_sk_def)
next
  case (Some k)
  have "never_waits i (put_sk j (f k) s)"
    by (rule nw_put[OF assms(1) Some]) (use assms(2)[OF nw_state[OF assms(1) Some]] in blast)+
  then show ?thesis by (simp add: upd_sk_def Some)
qed

lemma nw_set_state [nw]: "never_waits i s \<Longrightarrow> st \<noteq> TCP_CLOSE_WAIT \<Longrightarrow> pred_option (never_waits i) (tcp_set_state j st s)"
  unfolding tcp_set_state_def by (rule nw_upd) simp_all

lemma nw_on_net [nw]: "never_waits i s \<Longrightarrow> pred_option (never_waits i) (on_net f s)"
  unfolding on_net_def by (intro pred_read) (auto intro: nw_cong)

lemma nw_free [nw]: "never_waits i s \<Longrightarrow> pred_option (never_waits i) (free_tcp_sock12 j s)"
  unfolding free_tcp_sock12_def by (intro nw_seq nw_upd reads) (auto simp: never_waits_def)

lemma nw_put_free: "never_waits i s \<Longrightarrow> t_socks s j = Some k \<Longrightarrow> sk_state k' = sk_state k \<Longrightarrow> sk_parent k' = sk_parent k \<Longrightarrow>
    t_socks t = t_socks s \<Longrightarrow> t_next t = t_next s \<Longrightarrow> never_waits i (put_sk j k' t)"
  using nw_put[of i t j k k'] nw_cong[of i s t] nw_state[of i s j k] by simp

lemma nw_unhash [nw]:
  "never_waits i s \<Longrightarrow> pred_option (never_waits i) (tcp_bind_unhash12 j s)" "never_waits i s \<Longrightarrow> pred_option (never_waits i) (tcp_unhash12 j s)"
  unfolding tcp_bind_unhash12_def tcp_unhash12_def Let_def
  by (intro reads pred_if nw_free; auto intro: nw_put_free)+

lemma nw_hash [nw]:
  "never_waits i s \<Longrightarrow> pred_option (never_waits i) (tcp_bind_hash j s)" "never_waits i s \<Longrightarrow> pred_option (\<lambda>x. never_waits i (snd x)) (tcp_hash j s)"
  unfolding tcp_bind_hash_def tcp_hash_def Let_def
  by (intro reads pred_if; auto intro: nw_put_free)+

lemma nw_timewait [nw]: "never_waits i s \<Longrightarrow> pred_option (never_waits i) (tcp_set_timewait_timer12 j s)"
  unfolding tcp_set_timewait_timer12_def by (intro nw_seq nw_upd pred_if) (auto intro: nw_cong)

lemma nw_control [nw]: "never_waits i s \<Longrightarrow> pred_option (never_waits i) (tcp_send_control_packet12 j f s)"
  unfolding tcp_send_control_packet12_def Let_def split_beta
  by (intro reads nw_on_net) (auto intro!: nw_put_free[of i s])

lemma nw_alloc: "never_waits i s \<Longrightarrow> never_waits i (snd (alloc_tcp_sock12 s))"
  by (auto simp: never_waits_def alloc_tcp_sock12_def Let_def fresh_sock_def less_Suc_eq)

lemma nw_iss: "never_waits i s \<Longrightarrow> never_waits i (snd (tcp_new_iss s))"
  by (simp add: tcp_new_iss_def split_beta)

lemma nw_sport [nw]: "never_waits i s \<Longrightarrow> pred_option (\<lambda>x. never_waits i (snd x)) (tcp_sock_set_sport11 mid j port s)"
  unfolding tcp_sock_set_sport11_def
  by (intro reads pred_if nw_seq nw_upd nw_hash) simp_all

lemma nw_bind [nw]: "never_waits i s \<Longrightarrow> pred_option (\<lambda>x. never_waits i (snd x)) (tcp_sock_bind11 mid j port s)"
  unfolding tcp_sock_bind11_def by (rule nw_sport)

lemma nw_enqueue [nw]: "never_waits i s \<Longrightarrow> pred_option (never_waits i) (tcp_sock_accept_enqueue j s)"
  unfolding tcp_sock_accept_enqueue_def leave_queue_def
  by (intro nw_seq reads nw_upd) (auto split: queue_link.split intro!: nw_upd)

lemma nw_dequeue [nw]: "never_waits i s \<Longrightarrow> pred_option (\<lambda>x. never_waits i (snd x)) (tcp_sock_accept_dequeue j s)"
  unfolding tcp_sock_accept_dequeue_def
  by (intro reads) (auto split: list.split intro!: nw_seq nw_upd nw_put_free[of i s])

lemma nw_wake [nw]: "never_waits i s \<Longrightarrow> pred_option (never_waits i) (wake_connect j s)" "never_waits i s \<Longrightarrow> pred_option (never_waits i) (wake_accept j s)"
  unfolding wake_connect_def wake_accept_def by (rule nw_upd; simp)+

lemma nw_syn [nw]: "never_waits i s \<Longrightarrow> pred_option (never_waits i) (tcp_rcv_syn_listen11 mid j cb s)"
  unfolding tcp_rcv_syn_listen11_def Let_def split_beta
  by (intro nw_seq nw_seq_pair reads nw_upd nw_set_state nw_hash nw_bind nw_control nw_iss nw_alloc) simp_all

lemma nw_ack [nw]: "never_waits i s \<Longrightarrow> pred_option (never_waits i) (tcp_rcv_ack11 j s)"
  unfolding tcp_rcv_ack11_def
  by (intro reads) (auto split: tcp_state.split intro!: nw_seq reads nw_enqueue nw_wake nw_set_state nw_unhash)

lemma nw_fin [nw]: "never_waits i s \<Longrightarrow> pred_option (never_waits i) (tcp_rcv_fin12 j s)" "never_waits i s \<Longrightarrow> pred_option (never_waits i) (tcp_rcv_ack_fin12 j s)"
  unfolding tcp_rcv_fin12_def tcp_rcv_ack_fin12_def
  by (intro reads; auto split: tcp_state.split intro!: nw_seq nw_set_state nw_control nw_timewait)+

lemma nw_process: "never_waits i s \<Longrightarrow> pred_option (never_waits i) (tcp_process11 mid tsk cb p s)"
  unfolding tcp_process11_def Let_def
  by (cases tsk) (auto intro!: nw_seq reads nw_upd nw_syn nw_wake nw_ack nw_fin)

lemma nw_segment: "never_waits i s \<Longrightarrow> pred_option (never_waits i) (handle_tcp_packet11 mid p ipoff off s)"
  unfolding handle_tcp_packet11_def Let_def by (intro reads pred_if nw_process) simp_all

lemma nw_scan: "never_waits i s \<Longrightarrow> pred_option (never_waits i) (tcp_scan_timer_list12 s)"
proof -
  have w: "pred_option (never_waits i) (scan_timewait12 j s)" if "never_waits i s" for j s
    unfolding scan_timewait12_def Let_def using that
    by (intro nw_seq nw_upd reads pred_if nw_set_state nw_unhash) (auto intro: nw_cong)
  have "never_waits i s \<Longrightarrow> pred_option (never_waits i) (scan_list12 ts s)" for ts s
  proof (induction ts arbitrary: s)
    case (Cons t ts)
    then show ?case by (cases t) (auto intro!: nw_seq w)
  qed simp
  then show "never_waits i s \<Longrightarrow> ?thesis" by (simp add: tcp_scan_timer_list12_def)
qed

lemma nw_connect: "never_waits i s \<Longrightarrow> pred_option (\<lambda>x. never_waits i (snd x)) (tcp_sock_connect11 mid j a p s)"
  unfolding tcp_sock_connect11_def Let_def split_beta
  by (intro reads nw_seq nw_seq_pair pred_if nw_upd nw_sport nw_set_state nw_hash nw_control nw_iss)
    (auto split: prod.split sleep_result.split intro: nw_put_free)

lemma nw_connect_resume: "never_waits i s \<Longrightarrow> pred_option (\<lambda>x. never_waits i (snd x)) (connect11_resume pc s)"
  by (cases pc) (auto simp: connect_finish12_def intro!: nw_seq nw_upd nw_set_state nw_control)

lemma nw_accept: "never_waits i s \<Longrightarrow> pred_option (\<lambda>x. never_waits i (snd x)) (accept_step pc s)"
  by (cases pc) (auto intro!: reads nw_seq_pair nw_dequeue nw_put_free[of i s] simp: split_beta split: sleep_result.split)

lemma nw_listen: "never_waits i s \<Longrightarrow> pred_option (\<lambda>x. never_waits i (snd x)) (tcp_sock_listen j n s)"
  unfolding tcp_sock_listen_def by (intro nw_seq nw_upd nw_set_state nw_hash) simp_all

lemma nw_close: "never_waits i s \<Longrightarrow> pred_option (\<lambda>x. never_waits i (snd x)) (close11_step pc s)"
  by (cases pc) (auto simp: tcp_sock_close12_def intro!: reads nw_seq pred_if nw_set_state nw_control)

text \<open>One operation of any thread. The first component is the thread that closes the socket.\<close>

inductive run11 :: "(addr \<Rightarrow> u16) \<Rightarrow> cl_pc \<times> tcp \<Rightarrow> cl_pc \<times> tcp \<Rightarrow> bool" for mid where
  closer: "close11_step pc s = Some (pc', t) \<Longrightarrow> run11 mid (pc, s) (pc', t)"
| other_close: "close11_step q s = Some (q', t) \<Longrightarrow> run11 mid (pc, s) (pc, t)"
| segment: "handle_tcp_packet11 mid p ipoff off s = Some t \<Longrightarrow> run11 mid (pc, s) (pc, t)"
| process: "tcp_process11 mid tsk cb p s = Some t \<Longrightarrow> run11 mid (pc, s) (pc, t)"
| timers: "tcp_scan_timer_list12 s = Some t \<Longrightarrow> run11 mid (pc, s) (pc, t)"
| alloc: "alloc_tcp_sock12 s = (i, t) \<Longrightarrow> run11 mid (pc, s) (pc, t)"
| bind_call: "tcp_sock_bind11 mid i port s = Some (r, t) \<Longrightarrow> run11 mid (pc, s) (pc, t)"
| listen_call: "tcp_sock_listen i n s = Some (r, t) \<Longrightarrow> run11 mid (pc, s) (pc, t)"
| accept: "accept_step ac s = Some (ac', t) \<Longrightarrow> run11 mid (pc, s) (pc, t)"
| connect: "tcp_sock_connect11 mid i a port s = Some (cn, t) \<Longrightarrow> run11 mid (pc, s) (pc, t)"
| connect_woken: "connect11_resume cn s = Some (cn', t) \<Longrightarrow> run11 mid (pc, s) (pc, t)"
| network: "run11 mid (pc, s) (pc, s\<lparr>t_net := n\<rparr>)"

inductive_cases close11_doneE: "run11 mid (ClWait i, s) (pc, t)"

lemma run11_keeps:
  "run11 mid x y \<Longrightarrow> never_waits i (snd x) \<Longrightarrow> never_waits i (snd y)"
proof (induction rule: run11.induct)
  case (closer pc s pc' t) then show ?case using pred_optionD[OF nw_close] by fastforce
next
  case (other_close q s q' t pc) then show ?case using pred_optionD[OF nw_close] by fastforce
next
  case (segment p ipoff off s t pc) then show ?case using pred_optionD[OF nw_segment] by fastforce
next
  case (process tsk cb p s t pc) then show ?case using pred_optionD[OF nw_process] by fastforce
next
  case (timers s t pc) then show ?case using pred_optionD[OF nw_scan] by fastforce
next
  case (alloc s j t pc) then show ?case using nw_alloc[of i s] by simp
next
  case (bind_call j port s r t pc) then show ?case using pred_optionD[OF nw_bind] by fastforce
next
  case (listen_call j n s r t pc) then show ?case using pred_optionD[OF nw_listen] by fastforce
next
  case (accept ac s ac' t pc) then show ?case using pred_optionD[OF nw_accept] by fastforce
next
  case (connect j a port s cn t pc) then show ?case using pred_optionD[OF nw_connect] by fastforce
next
  case (connect_woken cn s cn' t pc) then show ?case using pred_optionD[OF nw_connect_resume] by fastforce
qed simp

lemma close11_spins:
  "never_waits i s \<Longrightarrow> close11_step (ClWait i) s = Some (pc, t) \<Longrightarrow> pc = ClWait i \<and> t = s"
  by (cases "t_socks s i") (auto simp: never_waits_def)

text \<open>Property C39. The program that closes an accepted connection spins for ever: whatever segments arrive, and
  whatever the timers and the other threads do, no socket ever enters the state \<open>TCP_CLOSE_WAIT\<close> the
  call waits for, so it never gets to send its FIN.\<close>

theorem server_close_spins11:
  assumes "\<forall>j k. t_socks s j = Some k \<longrightarrow> j < t_next s \<and> sk_state k \<noteq> TCP_CLOSE_WAIT"
    and "t_socks s i = Some k" "sk_parent k \<noteq> None" "(run11 mid)\<^sup>*\<^sup>* (ClWait i, s) (pc, t)"
  shows "pc = ClWait i \<and> close11_step pc t \<in> {None, Some (pc, t)}"
proof -
  have "never_waits i s" using assms(1-3) by (auto simp: never_waits_def)
  with assms(4) have "pc = ClWait i \<and> never_waits i t"
  proof (induction rule: rtranclp_induct2)
    case (step pc t pc' t')
    then have "never_waits i t'" using run11_keeps[of mid "(pc, t)" "(pc', t')" i] by simp
    moreover have "pc' = ClWait i" using step close11_spins by (auto elim!: close11_doneE)
    ultimately show ?case by simp
  qed simp
  then show ?thesis using close11_spins by (cases "close11_step pc t") auto
qed

theorem server_close_spins11_witness:
  "\<exists>t. tcp_process11 (\<lambda>_. 0) (Some 0) (flags_cb TCP_FIN) [] ((one_sock accepted12)\<lparr>t_next := 1\<rparr>) = Some t \<and>
     (run11 (\<lambda>_. 0))\<^sup>*\<^sup>* (ClWait 0, (one_sock accepted12)\<lparr>t_next := 1\<rparr>) (ClWait 0, t) \<and> close11_step (ClWait 0) t \<in> {None, Some (ClWait 0, t)}"
proof -
  let ?s = "(one_sock accepted12)\<lparr>t_next := 1\<rparr>" and ?k = "noted12 (flags_cb TCP_FIN) accepted12"
  have a: "sk_state accepted12 = TCP_ESTABLISHED" "sk_parent accepted12 \<noteq> None" by (simp_all add: accepted12_def)
  have "t_socks (put_sk 0 ?k ?s) 0 = Some ?k" "sk_state ?k = TCP_ESTABLISHED" by (simp_all add: a)
  from rcv_fin12_established[OF this] obtain t where t: "tcp_rcv_fin12 0 (put_sk 0 ?k ?s) = Some t" by blast
  have p: "tcp_process11 (\<lambda>_. 0) (Some 0) (flags_cb TCP_FIN) [] ?s = Some t"
    unfolding tcp_process11_def using t by (simp add: tcp_flag_defs flags_cb_def noted12_def)
  then have r: "(run11 (\<lambda>_. 0))\<^sup>*\<^sup>* (ClWait 0, ?s) (ClWait 0, t)" by (intro r_into_rtranclp run11.process)
  have "\<forall>j k. t_socks ?s j = Some k \<longrightarrow> j < t_next ?s \<and> sk_state k \<noteq> TCP_CLOSE_WAIT" "t_socks ?s 0 = Some accepted12"
    using a by (auto simp: one_sock_def put_sk_def empty_tcp_def split: if_splits)
  from server_close_spins11[OF this a(2) r] p r show ?thesis by blast
qed

section \<open>Two connections to one server\<close>

text \<open>Every bound socket of the bucket of \<open>PORT_MIN\<close> is there and has no parent, as in a program that only
  connects.\<close>

definition no_parents :: "tcp \<Rightarrow> bool" where
  "no_parents s \<longleftrightarrow> (\<forall>i\<in>set (t_bind s (tcp_hash_function 0 0 PORT_MIN 0)). \<exists>b. t_socks s i = Some b \<and> sk_parent b = None)"

lemma find_sock_none: "(\<And>i. i \<in> set is \<Longrightarrow> \<exists>k. t_socks s i = Some k \<and> \<not> P k) \<Longrightarrow> find_sock P is s = Some None"
  by (induction "is") fastforce+

lemma first_port_looks_free11: "no_parents s \<Longrightarrow> tcp_get_port11 mid s = Some PORT_MIN"
proof -
  assume p: "no_parents s"
  have "tcp_port_in_use11 mid PORT_MIN s = Some False"
    unfolding tcp_port_in_use11_def
    by (subst find_sock_none) (use p in \<open>auto simp: no_parents_def misread_sport_def PORT_MIN_def\<close>)
  moreover have "PORT_MIN < PORT_MAX" by (simp add: PORT_MIN_def PORT_MAX_def)
  ultimately show ?thesis by (simp add: tcp_get_port11_def get_port_from11.simps[of mid PORT_MIN])
qed

text \<open>What a connect leaves behind; it does not look at the result of \<open>tcp_hash\<close>, by which the socket enters the table only if no other
  has its four-tuple.\<close>

lemma connect11_result:
  assumes f: "n_ifaces (t_net s) = f # fs" and k: "t_socks s j = Some k" "sk_bind_link k = Zeroed" "sk_hash_link k = Zeroed"
      "sk_parent k = None" "sk_wait_connect k = wait_init"
    and np: "no_parents s" and look: "tcp_sock_lookup_established (if_ip f) (htonl nip) PORT_MIN (htons nport) s = Some r"
    and new: "j \<notin> set (t_est s (tcp_hash_function (if_ip f) (htonl nip) PORT_MIN (htons nport)))"
  shows "\<exists>t k'. tcp_sock_connect11 mid j nip nport s = Some (CnSleep j, t) \<and> t_socks t = (t_socks s)(j \<mapsto> k') \<and> no_parents t \<and>
    sk_sip k' = if_ip f \<and> sk_dip k' = htonl nip \<and> sk_sport k' = PORT_MIN \<and> sk_dport k' = htons nport \<and> sk_state k' = TCP_SYN_SENT \<and>
    sk_wait_connect k' = wait_init\<lparr>sw_sleep := True\<rparr> \<and> sk_parent k' = None \<and>
    t_est t = (if r = None then (t_est s)(tcp_hash_function (if_ip f) (htonl nip) PORT_MIN (htons nport) :=
        j # t_est s (tcp_hash_function (if_ip f) (htonl nip) PORT_MIN (htons nport))) else t_est s)"
proof -
  let ?h = "tcp_hash_function (if_ip f) (htonl nip) PORT_MIN (htons nport)" and ?b = "tcp_hash_function 0 0 PORT_MIN 0"
  have ne: "PORT_MIN \<noteq> 0" by (simp add: PORT_MIN_def)
  define ka where "ka = k\<lparr>sk_dip := htonl nip, sk_dport := htons nport, sk_sip := if_ip f\<rparr>"
  define kb where "kb = ka\<lparr>sk_sport := PORT_MIN, sk_bind_link := Linked, sk_ref_cnt := sk_ref_cnt k + 1\<rparr>"
  define sb where "sb = put_sk j kb (s\<lparr>t_bind := (t_bind s)(?b := j # t_bind s ?b)\<rparr>)"
  have "no_parents (put_sk j ka s)" using np k(1,4) by (auto simp: no_parents_def ka_def)
  then have port: "tcp_sock_set_sport11 mid j 0 (put_sk j ka s) = Some (0, sb)"
    unfolding tcp_sock_set_sport11_def using first_port_looks_free11 ne k(2)
    by (simp add: tcp_bind_hash_def Let_def kb_def sb_def ka_def)
  obtain iss n where iss: "tcp_new_iss sb = (iss, sb\<lparr>t_net := n\<rparr>)" by (simp add: tcp_new_iss_def case_prod_beta)
  define kd where "kd = kb\<lparr>sk_iss := iss, sk_snd_nxt := iss, sk_state := TCP_SYN_SENT\<rparr>"
  define sd where "sd = put_sk j kd (sb\<lparr>t_net := n\<rparr>)"
  have kd: "sk_sip kd = if_ip f" "sk_dip kd = htonl nip" "sk_sport kd = PORT_MIN" "sk_dport kd = htons nport" "sk_state kd = TCP_SYN_SENT"
    "sk_wait_connect kd = wait_init" "sk_parent kd = None" "sk_hash_link kd = Zeroed" using k by (simp_all add: kd_def kb_def ka_def)
  have sd: "t_socks sd = (t_socks s)(j \<mapsto> kd)" "t_est sd = t_est s" by (simp_all add: sd_def sb_def put_sk_def)
  define se where "se = (if r = None then put_sk j (kd\<lparr>sk_hash_link := Linked, sk_ref_cnt := sk_ref_cnt kd + 1\<rparr>)
    (sd\<lparr>t_est := (t_est s)(?h := j # t_est s ?h)\<rparr>) else sd)"
  have "find_sock (same_tuple (if_ip f) (htonl nip) PORT_MIN (htons nport)) (t_est s ?h) sd =
      find_sock (same_tuple (if_ip f) (htonl nip) PORT_MIN (htons nport)) (t_est s ?h) s"
    by (rule find_sock_cong) (use new sd(1) in auto)
  then have "find_sock (same_tuple (if_ip f) (htonl nip) PORT_MIN (htons nport)) (t_est s ?h) sd = Some r"
    using look by (simp add: tcp_sock_lookup_established_def)
  then have hash: "tcp_hash j sd = Some (if r = None then 0 else -1, se)"
    unfolding tcp_hash_def se_def using kd sd by (cases r) (simp_all add: Let_def)
  define ke where "ke = (if r = None then kd\<lparr>sk_hash_link := Linked, sk_ref_cnt := sk_ref_cnt kd + 1\<rparr> else kd)"
  have se: "t_socks se j = Some ke" "t_socks se = (t_socks s)(j \<mapsto> ke)" "t_bind se = t_bind sb"
    "t_est se = (if r = None then (t_est s)(?h := j # t_est s ?h) else t_est s)"
    using sd by (auto simp: se_def ke_def put_sk_def sd_def)
  have "TCP_SYN AND (TCP_SYN OR TCP_FIN) \<noteq> 0" by (simp add: tcp_flag_defs)
  with send_control12_total[OF se(1), of TCP_SYN] obtain n' where
    n': "tcp_send_control_packet12 j TCP_SYN se = Some ((put_sk j (ke\<lparr>sk_snd_nxt := sk_snd_nxt ke + 1\<rparr>) se)\<lparr>t_net := n'\<rparr>)" by auto
  define kf where "kf = ke\<lparr>sk_snd_nxt := sk_snd_nxt ke + 1\<rparr>"
  define kg where "kg = kf\<lparr>sk_wait_connect := wait_init\<lparr>sw_sleep := True\<rparr>\<rparr>"
  define t where "t = put_sk j kg ((put_sk j kf se)\<lparr>t_net := n'\<rparr>)"
  have kf: "sk_wait_connect kf = wait_init" using kd by (simp add: kf_def ke_def)
  have sl: "sleep_on_enter wait_init = (Waiting, wait_init\<lparr>sw_sleep := True\<rparr>)" by (simp add: sleep_on_enter_def wait_init_def)
  have sbn: "t_socks (sb\<lparr>t_net := n\<rparr>) j = Some kb" by (simp add: sb_def)
  have con: "tcp_sock_connect11 mid j nip nport s = Some (CnSleep j, t)"
    unfolding tcp_sock_connect11_def using f k(1) port
    by (simp add: ka_def[symmetric] iss upd_sk_Some[OF sbn] tcp_set_state_def)
      (simp add: kd_def[symmetric] sd_def[symmetric] hash n' kf_def[symmetric] kf sl kg_def[symmetric] t_def)
  have tt: "t_socks t = (t_socks s)(j \<mapsto> kg)" "t_est t = t_est se" "t_bind t = t_bind sb" using se by (simp_all add: t_def put_sk_def)
  have "no_parents t" using np kd(7) tt by (auto simp: no_parents_def sb_def kg_def kf_def ke_def put_sk_def)
  with con tt se(4) kd show ?thesis
    by (intro exI[of _ t] exI[of _ kg]) (simp add: kg_def kf_def ke_def)
qed

text \<open>Property C40. A program that connects to the same server twice never gets its second connection: the search
  for a free port reads the wrong field and finds the first port free again, the second socket has
  the four-tuple of the first and is not entered in the table, and the server's answer to it is
  delivered to the first, whatever the network layer does in between.\<close>

theorem second_connect_hangs11:
  assumes "n_ifaces (t_net s) = f # fs" "i \<noteq> j" "no_parents s"
    and "t_socks s i = Some k" "sk_bind_link k = Zeroed" "sk_hash_link k = Zeroed" "sk_parent k = None" "sk_wait_connect k = wait_init"
    and "t_socks s j = Some l" "sk_bind_link l = Zeroed" "sk_hash_link l = Zeroed" "sk_parent l = None" "sk_wait_connect l = wait_init"
    and "tcp_sock_lookup_established (if_ip f) (htonl nip) PORT_MIN (htons nport) s = Some None"
    and "\<forall>h. i \<notin> set (t_est s h) \<and> j \<notin> set (t_est s h)"
  shows "\<exists>s1 k1. tcp_sock_connect11 mid i nip nport s = Some (CnSleep i, s1) \<and> t_socks s1 i = Some k1 \<and> sk_sport k1 = PORT_MIN \<and>
    (\<forall>n. n_ifaces n = f # fs \<longrightarrow> (\<exists>t l'. tcp_sock_connect11 mid j nip nport (s1\<lparr>t_net := n\<rparr>) = Some (CnSleep j, t) \<and>
      t_socks t j = Some l' \<and> sk_sport l' = PORT_MIN \<and> sk_state l' = TCP_SYN_SENT \<and> (\<forall>h. j \<notin> set (t_est t h)) \<and>
      tcp_sock_lookup_established (if_ip f) (htonl nip) PORT_MIN (htons nport) t = Some (Some i)))"
proof -
  let ?h = "tcp_hash_function (if_ip f) (htonl nip) PORT_MIN (htons nport)"
  obtain s1 k1 where c1: "tcp_sock_connect11 mid i nip nport s = Some (CnSleep i, s1)" "t_socks s1 = (t_socks s)(i \<mapsto> k1)" "no_parents s1"
    and k1: "sk_sip k1 = if_ip f" "sk_dip k1 = htonl nip" "sk_sport k1 = PORT_MIN" "sk_dport k1 = htons nport"
    and e1: "t_est s1 = (t_est s)(?h := i # t_est s ?h)"
    using connect11_result[OF assms(1,4-8,3,14), of mid] assms(15) by auto
  have "\<exists>t l'. tcp_sock_connect11 mid j nip nport (s1\<lparr>t_net := n\<rparr>) = Some (CnSleep j, t) \<and>
      t_socks t j = Some l' \<and> sk_sport l' = PORT_MIN \<and> sk_state l' = TCP_SYN_SENT \<and> (\<forall>h. j \<notin> set (t_est t h)) \<and>
      tcp_sock_lookup_established (if_ip f) (htonl nip) PORT_MIN (htons nport) t = Some (Some i)" if n: "n_ifaces n = f # fs" for n
  proof -
    let ?s = "s1\<lparr>t_net := n\<rparr>"
    have look: "tcp_sock_lookup_established (if_ip f) (htonl nip) PORT_MIN (htons nport) ?s = Some (Some i)"
      using e1 c1(2) k1 by (simp add: tcp_sock_lookup_established_def same_tuple_def)
    have s: "n_ifaces (t_net ?s) = f # fs" "t_socks ?s j = Some l" "no_parents ?s" "j \<notin> set (t_est ?s ?h)"
      using n c1(2,3) assms(2,9,15) e1 by (simp_all add: no_parents_def)
    obtain t l' where c2: "tcp_sock_connect11 mid j nip nport ?s = Some (CnSleep j, t)" "t_socks t = (t_socks ?s)(j \<mapsto> l')"
      and l': "sk_sport l' = PORT_MIN" "sk_state l' = TCP_SYN_SENT" and e2: "t_est t = t_est ?s"
      using connect11_result[OF s(1,2) assms(10-13) s(3) look s(4), of mid] by auto
    have "t_socks t j = Some l'" "\<forall>h. j \<notin> set (t_est t h)"
      "tcp_sock_lookup_established (if_ip f) (htonl nip) PORT_MIN (htons nport) t = Some (Some i)"
      using c2(2) e2 e1 assms(2,15) c1(2) k1 by (auto simp: tcp_sock_lookup_established_def same_tuple_def)
    with c2(1) l' show ?thesis by blast
  qed
  with c1 k1(3) show ?thesis by (intro exI[of _ s1] exI[of _ k1]) simp
qed

theorem second_connect_hangs11_witness:
  "\<exists>s1 t. tcp_sock_connect11 (\<lambda>_. 0) 0 1 2 (put_sk 1 fresh_sock (one_sock fresh_sock)) = Some (CnSleep 0, s1) \<and>
     tcp_sock_connect11 (\<lambda>_. 0) 1 1 2 (s1\<lparr>t_net := empty_net\<rparr>) = Some (CnSleep 1, t) \<and>
     tcp_sock_lookup_established (if_ip sample_iface) (htonl 1) PORT_MIN (htons 2) t = Some (Some 0)"
proof -
  let ?s = "put_sk 1 fresh_sock (one_sock fresh_sock)"
  have s: "n_ifaces (t_net ?s) = sample_iface # []" "(0::nat) \<noteq> 1" "no_parents ?s" "t_socks ?s 0 = Some fresh_sock" "t_socks ?s 1 = Some fresh_sock"
    "tcp_sock_lookup_established (if_ip sample_iface) (htonl 1) PORT_MIN (htons 2) ?s = Some None"
    "\<forall>h. 0 \<notin> set (t_est ?s h) \<and> 1 \<notin> set (t_est ?s h)"
    by (simp_all add: one_sock_def empty_tcp_def no_parents_def tcp_sock_lookup_established_def)
  have k: "sk_bind_link fresh_sock = Zeroed" "sk_hash_link fresh_sock = Zeroed" "sk_parent fresh_sock = None" "sk_wait_connect fresh_sock = wait_init"
    by (simp_all add: fresh_sock_def)
  have n: "n_ifaces empty_net = sample_iface # []" by simp
  from second_connect_hangs11[OF s(1-4) k s(5) k s(6,7), of "\<lambda>_. 0"] n show ?thesis by blast
qed

end
