(* ===== verification/Tcp12_Link.thy ===== *)
theory Tcp12_Link
  imports Tcp12 Tcp_Handshake
begin

text \<open>
  Two stacks of prj12 and the link between them: an application of one writes, an application of the
  other reads. The link keeps the order of the segments and loses none, which this stage relies on;
  when a segment arrives, when an acknowledgement arrives, and when each thread runs is left open.
\<close>

section \<open>A data segment at the receiver\<close>

type_synonym tuple = "u32 \<times> u32 \<times> u16 \<times> u16"

definition tuple_of :: "tcp_sock \<Rightarrow> tuple" where
  "tuple_of k = (sk_sip k, sk_dip k, sk_sport k, sk_dport k)"

text \<open>The lookup the receiver of a segment of a tuple does.\<close>

fun finds_peer :: "tuple \<Rightarrow> addr \<Rightarrow> tcp \<Rightarrow> bool" where
  "finds_peer (sip, dip, sport, dport) j v \<longleftrightarrow> tcp_sock_lookup_established dip sip dport sport v = Some (Some j)"

definition data_cb :: "tcp_sock \<Rightarrow> bytes \<Rightarrow> tcp_cb" where
  "data_cb k d = \<lparr> cb_saddr = sk_sip k, cb_daddr = sk_dip k, cb_sport = sk_sport k, cb_dport = sk_dport k,
     cb_seq = sk_snd_nxt k, cb_seq_end = sk_snd_nxt k + of_nat (length d), cb_ack = sk_rcv_nxt k,
     cb_rwnd = ucast (sk_rcv_wnd k), cb_flags = TCP_PSH OR TCP_ACK, cb_payload = 54, cb_pl_len = int (length d) \<rparr>"

lemma data_cb_simps [simp]: "cb_flags (data_cb k d) = TCP_PSH OR TCP_ACK" "cb_pl_len (data_cb k d) = int (length d)" "cb_payload (data_cb k d) = 54"
  by (simp_all add: data_cb_def)

lemma receive_data12:
  assumes "length d \<le> 65495" "finds_peer (tuple_of k) j v"
  shows "handle_tcp_packet12 (readdressed e (data_seg s k d)) ETHER_HDR_SIZE 34 v =
      tcp_process12 (Some j) (data_cb k d) (readdressed e (data_seg s k d)) v"
    and "ld_bytes (readdressed e (data_seg s k d)) 54 (length d) = Some d"
proof -
  let ?h = "seg_hdr (sk_sport k) (sk_dport k) (sk_snd_nxt k) (sk_rcv_nxt k) (TCP_PSH OR TCP_ACK) (sk_rcv_wnd k)"
  have q: "readdressed e (data_seg s k d) = segment e (draw s) (sk_sip k) (sk_dip k) ?h d"
    by (simp add: readdressed_def data_seg_def segment_def Let_def frame_def)
  have f: "(TCP_PSH OR TCP_ACK) AND (TCP_SYN OR TCP_FIN) = 0" by (simp add: tcp_flag_defs)
  have l: "tcp_sock_lookup (data_cb k d) v = Some (Some j)"
    using assms(2) by (simp add: tuple_of_def tcp_sock_lookup_def data_cb_def Let_def)
  note r = segment_reads[OF assms(1), of e "draw s" "sk_sip k" "sk_dip k" "sk_sport k" "sk_dport k" "sk_snd_nxt k" "sk_rcv_nxt k"
      "TCP_PSH OR TCP_ACK" "sk_rcv_wnd k", folded q, unfolded f, simplified, folded data_cb_def]
  from r show "ld_bytes (readdressed e (data_seg s k d)) 54 (length d) = Some d" by blast
  from r obtain ih th where "get_ip (readdressed e (data_seg s k d)) ETHER_HDR_SIZE = Some ih" "get_tcp (readdressed e (data_seg s k d)) 34 = Some th"
    "tcp_checksum (readdressed e (data_seg s k d)) ETHER_HDR_SIZE 34 = Some (th_cksum th)"
    "tcp_cb_init ih th 34 = data_cb k d" by (auto simp: data_cb_def)
  with l show "handle_tcp_packet12 (readdressed e (data_seg s k d)) ETHER_HDR_SIZE 34 v =
      tcp_process12 (Some j) (data_cb k d) (readdressed e (data_seg s k d)) v"
    by (simp add: handle_tcp_packet12_def Let_def)
qed

lemma rcv_data12_eq:
  assumes "t_socks s j = Some k" "cb_pl_len cb = int (length d)" "ld_bytes p (cb_payload cb) (length d) = Some d"
  shows "case write_ring_buffer (sk_rcv_buf k) d of
      None \<Rightarrow> tcp_rcv_data12 j cb p s = None
    | Some rb \<Rightarrow> \<exists>n k'. tcp_rcv_data12 j cb p s = Some ((put_sk j k' s)\<lparr>t_net := n\<rparr>) \<and> sk_rcv_buf k' = rb \<and> tuple_of k' = tuple_of k"
proof (cases "write_ring_buffer (sk_rcv_buf k) d")
  case None
  with assms show ?thesis by (simp add: tcp_rcv_data12_def)
next
  case (Some rb)
  let ?k = "k\<lparr>sk_rcv_buf := rb, sk_wait_recv := wake_if_asleep (sk_wait_recv k)\<rparr>"
  have "d \<noteq> []" using Some by (auto simp: write_ring_buffer_def)
  then have pos: "\<not> cb_pl_len cb \<le> 0" using assms(2) by simp
  have k1: "t_socks (put_sk j ?k s) j = Some ?k" by simp
  obtain n where n: "tcp_send_control_packet12 j TCP_ACK (put_sk j ?k s) = Some ((put_sk j ?k s)\<lparr>t_net := n\<rparr>)" using send_ack12[OF k1] .
  let ?k2 = "?k\<lparr>sk_wait_send := wake_if_asleep (sk_wait_send ?k)\<rparr>"
  have "tcp_rcv_data12 j cb p s = upd_sk j (\<lambda>k. k\<lparr>sk_wait_send := wake_if_asleep (sk_wait_send k)\<rparr>) ((put_sk j ?k s)\<lparr>t_net := n\<rparr>)"
    unfolding tcp_rcv_data12_def assms(1) bind.bind_lunit if_not_P[OF pos] using assms(2,3) Some n by simp
  also have "\<dots> = Some ((put_sk j ?k2 s)\<lparr>t_net := n\<rparr>)" by (simp add: upd_sk_def put_sk_def)
  finally show ?thesis using Some by (auto simp: tuple_of_def intro!: exI[of _ n] exI[of _ ?k2])
qed

section \<open>The link\<close>

text \<open>What a call to write is asked to send: \<open>len\<close> bytes, up to the terminating zero.\<close>

definition asked :: "bytes \<Rightarrow> int \<Rightarrow> bytes" where
  "asked buf len = take (nat len) (takeWhile (\<lambda>b. b \<noteq> 0) buf)"

text \<open>The segment the next step of a writer puts on the link.\<close>

fun put_on_link :: "wr_pc \<Rightarrow> tcp \<Rightarrow> bytes list" where
  "put_on_link (WrHead i buf len sent) s =
     (case t_socks s i of None \<Rightarrow> []
      | Some k \<Rightarrow> if sent < len then [data_seg s k (take MSS (drop (nat sent) (asked buf len)))] else [])"
| "put_on_link pc s = []"

type_synonym link_state = "wr_pc \<times> tcp \<times> bytes list \<times> tcp \<times> rd_pc \<times> bytes \<times> bytes"

text \<open>The writer with its stack, the segments on the link, the receiving stack with its reader, what
  finished reads returned, and what the calls to write were asked to send.\<close>

inductive link12 :: "addr \<Rightarrow> addr \<Rightarrow> link_state \<Rightarrow> link_state \<Rightarrow> bool" for i j where
  write_call: "link12 i j (WrDone r, c, ch, v, rd, got, req) (tcp_sock_write i buf len, c, ch, v, rd, got, req @ asked buf len)"
| writer: "write12_step w c = Some (w', c') \<Longrightarrow> link12 i j (w, c, ch, v, rd, got, req) (w', c', ch @ put_on_link w c, v, rd, got, req)"
| writer_woken: "t_socks c i = Some k \<Longrightarrow> sw_notified (sk_wait_send k) \<Longrightarrow> write12_resume w c = Some (w', c') \<Longrightarrow>
    link12 i j (w, c, ch, v, rd, got, req) (w', c', ch, v, rd, got, req)"
| acknowledgement: "cb_flags cb = TCP_ACK \<Longrightarrow> tcp_process12 (Some i) cb p c = Some c' \<Longrightarrow>
    link12 i j (w, c, ch, v, rd, got, req) (w, c', ch, v, rd, got, req)"
| arrival: "handle_tcp_packet12 (readdressed e q) ETHER_HDR_SIZE 34 v = Some v' \<Longrightarrow>
    link12 i j (w, c, q # ch, v, rd, got, req) (w, c, ch, v', rd, got, req)"
| read_call: "link12 i j (w, c, ch, v, RdDone r, got, req) (w, c, ch, v, tcp_sock_read j len, got @ r, req)"
| reader: "read12_step rd v = Some (rd', v') \<Longrightarrow> link12 i j (w, c, ch, v, rd, got, req) (w, c, ch, v', rd', got, req)"
| reader_woken: "t_socks v j = Some k \<Longrightarrow> sw_notified (sk_wait_recv k) \<Longrightarrow> read12_resume rd v = Some (rd', v') \<Longrightarrow>
    link12 i j (w, c, ch, v, rd, got, req) (w, c, ch, v', rd', got, req)"

section \<open>What the link keeps\<close>

fun unsent :: "wr_pc \<Rightarrow> bytes" where
  "unsent (WrHead _ buf len sent) = drop (nat sent) (asked buf len)"
| "unsent (WrWait _ buf len sent) = drop (nat sent) (asked buf len)"
| "unsent (WrSleep _ buf len sent) = drop (nat sent) (asked buf len)"
| "unsent _ = []"

fun wr_sock :: "addr \<Rightarrow> wr_pc \<Rightarrow> bool" where
  "wr_sock i (WrHead j _ _ sent) \<longleftrightarrow> j = i \<and> 0 \<le> sent"
| "wr_sock i (WrWait j _ _ sent) \<longleftrightarrow> j = i \<and> 0 \<le> sent"
| "wr_sock i (WrSleep j _ _ sent) \<longleftrightarrow> j = i \<and> 0 \<le> sent"
| "wr_sock i (WrCheck _ _ _ _) \<longleftrightarrow> False"
| "wr_sock i (WrDone _) \<longleftrightarrow> True"

definition carries :: "tuple \<Rightarrow> bytes \<Rightarrow> bytes \<Rightarrow> bool" where
  "carries T q d \<longleftrightarrow> length d \<le> MSS \<and> (\<exists>s k. q = data_seg s k d \<and> tuple_of k = T)"

fun link_ok :: "tuple \<Rightarrow> addr \<Rightarrow> addr \<Rightarrow> link_state \<Rightarrow> bool" where
  "link_ok T i j (w, c, ch, v, rd, got, req) \<longleftrightarrow> (\<exists>k kv ds. t_socks c i = Some k \<and> sk_state k = TCP_ESTABLISHED \<and> tuple_of k = T \<and>
     wr_sock i w \<and> t_socks v j = Some kv \<and> rb_inv (sk_rcv_buf kv) \<and> rd_sock j rd \<and> finds_peer T j v \<and>
     list_all2 (carries T) ch ds \<and> got @ in_hand rd @ rb_contents (sk_rcv_buf kv) @ concat ds @ unsent w = req)"

lemma MSS_small: "d \<le> MSS \<Longrightarrow> d \<le> 65495"
  by (simp add: MSS_def)

lemma c_strlen_asked:
  assumes "c_strlen buf = Some sl"
  shows "0 \<le> sl" "asked buf len = take (nat (min len sl)) buf"
proof -
  have sl: "sl = int (length (takeWhile (\<lambda>c. c \<noteq> 0) buf))" using assms by (simp add: c_strlen_def split: if_splits)
  then show "0 \<le> sl" by simp
  have "takeWhile (\<lambda>b. b \<noteq> 0) buf = take (nat sl) buf" unfolding sl by (simp flip: takeWhile_eq_take)
  then show "asked buf len = take (nat (min len sl)) buf" by (simp add: asked_def min_def nat_le_eq_zle)
qed

lemma nat_min_diff: "0 \<le> s \<Longrightarrow> nat (min (int M) (m - s)) = min M (nat m - nat s)" for m :: int
  by (cases "int M \<le> m - s") (auto simp: min_def nat_le_iff le_nat_iff)

text \<open>A segment the writer sends carries the next bytes of what it was asked for, and it is the segment
  that \<open>put_on_link\<close> names.\<close>

lemma writer_sends:
  assumes st: "write12_step (WrHead i buf len sent) c = Some (w', c')" and s: "sent < len" "0 \<le> sent" and k: "t_socks c i = Some k"
  shows "\<exists>d n k'. put_on_link (WrHead i buf len sent) c = [data_seg c k d] \<and> length d \<le> MSS \<and>
    on_net (ip_send_packet (data_seg c k d)) (put_sk i k' (drawn c)) = Some c' \<and>
    c' = (put_sk i k' c)\<lparr>t_net := n\<rparr> \<and> sk_state k' = sk_state k \<and> tuple_of k' = tuple_of k \<and>
    wr_sock i w' \<and> unsent (WrHead i buf len sent) = d @ unsent w'"
proof -
  let ?z = "replicate (ETHER_HDR_SIZE + IP_BASE_HDR_SIZE + TCP_BASE_HDR_SIZE) 0"
  obtain sl where sl: "c_strlen buf = Some sl" using st s by (auto split: Option.bind_splits)
  define n where "n = min (int MSS) (min len sl - sent)"
  note st = st[unfolded write12_step.simps if_P[OF s(1)] sl bind.bind_lunit Let_def, folded n_def]
  have n0: "0 \<le> n" using st by (simp split: if_splits)
  then have "\<not> n < 0" by simp
  note st = st[unfolded if_not_P[OF this]]
  obtain d where d: "ld_bytes buf (nat sent) (nat n) = Some d" "tcp_send_packet12 i (?z @ d) c = Some c'" "w' = WrWait i buf len (sent + n)"
    using st by (auto split: Option.bind_splits)
  have dv: "d = take (nat n) (drop (nat sent) buf)" "length d = nat n" using d(1) by (auto simp: ld_bytes_def split: if_splits)
  have m: "drop (nat sent) (asked buf len) = take (nat (min len sl) - nat sent) (drop (nat sent) buf)"
    unfolding c_strlen_asked(2)[OF sl] by (simp add: drop_take)
  have nn: "nat n = min MSS (nat (min len sl) - nat sent)" unfolding n_def by (rule nat_min_diff[OF s(2)])
  have da: "d = take MSS (drop (nat sent) (asked buf len))" unfolding m dv(1) nn by (simp add: min.commute)
  have "drop (nat n) (drop (nat sent) (asked buf len)) = drop (nat (sent + n)) (asked buf len)"
    using s(2) n0 by (simp add: nat_add_distrib add.commute)
  moreover have "d = take (nat n) (drop (nat sent) (asked buf len))" unfolding m dv(1) nn by (simp add: min.commute)
  ultimately have un: "drop (nat sent) (asked buf len) = d @ drop (nat (sent + n)) (asked buf len)" by (metis append_take_drop_id)
  have ld: "length d \<le> MSS" unfolding da by simp
  let ?k = "k\<lparr>sk_snd_nxt := sk_snd_nxt k + of_nat (length d), sk_snd_wnd := sk_snd_wnd k - of_nat (length d)\<rparr>"
  from send_packet12_total[OF k MSS_small[OF ld]] obtain x where x: "tcp_send_packet12 i (?z @ d) c = Some ((put_sk i ?k c)\<lparr>t_net := x\<rparr>)" .
  then have "c' = (put_sk i ?k c)\<lparr>t_net := x\<rparr>" using d(2) by simp
  moreover have "on_net (ip_send_packet (data_seg c k d)) (put_sk i ?k (drawn c)) = Some c'"
    using d(2) unfolding tcp_send_packet12_eq[OF k MSS_small[OF ld]] .
  moreover have "put_on_link (WrHead i buf len sent) c = [data_seg c k d]" using k s(1) by (simp add: da[symmetric])
  ultimately show ?thesis using s k ld un d(3) n0
    by (intro exI[of _ d] exI[of _ x] exI[of _ ?k]) (simp add: tuple_of_def)
qed

lemma finds_peer_put:
  assumes "t_socks v j = Some k" "tuple_of k' = tuple_of k"
  shows "finds_peer T i ((put_sk j k' v)\<lparr>t_net := n\<rparr>) = finds_peer T i v" "finds_peer T i (put_sk j k' v) = finds_peer T i v"
proof -
  obtain a b x y where T: "T = (a, b, x, y)" by (cases T)
  have "map_option (same_tuple b a y x) (t_socks (put_sk j k' v) m) = map_option (same_tuple b a y x) (t_socks v m)" for m
    using assms by (simp add: same_tuple_def tuple_of_def)
  then have "tcp_sock_lookup_established b a y x u = tcp_sock_lookup_established b a y x v"
    if "t_est u = t_est v" "t_socks u = t_socks (put_sk j k' v)" for u
    using that by (intro lookup_est_cong) simp_all
  then show "finds_peer T i ((put_sk j k' v)\<lparr>t_net := n\<rparr>) = finds_peer T i v" "finds_peer T i (put_sk j k' v) = finds_peer T i v"
    by (simp_all add: T)
qed

declare link_ok.simps [simp del]

lemma link_okE:
  assumes "link_ok T i j (w, c, ch, v, rd, got, req)"
  obtains k kv ds where "t_socks c i = Some k" "sk_state k = TCP_ESTABLISHED" "tuple_of k = T" "wr_sock i w" "t_socks v j = Some kv"
    "rb_inv (sk_rcv_buf kv)" "rd_sock j rd" "finds_peer T j v" "list_all2 (carries T) ch ds"
    "got @ in_hand rd @ rb_contents (sk_rcv_buf kv) @ concat ds @ unsent w = req"
  using assms unfolding link_ok.simps by blast

lemma link_okI:
  "t_socks c i = Some k \<Longrightarrow> sk_state k = TCP_ESTABLISHED \<Longrightarrow> tuple_of k = T \<Longrightarrow> wr_sock i w \<Longrightarrow> t_socks v j = Some kv \<Longrightarrow>
    rb_inv (sk_rcv_buf kv) \<Longrightarrow> rd_sock j rd \<Longrightarrow> finds_peer T j v \<Longrightarrow> list_all2 (carries T) ch ds \<Longrightarrow>
    got @ in_hand rd @ rb_contents (sk_rcv_buf kv) @ concat ds @ unsent w = req \<Longrightarrow> link_ok T i j (w, c, ch, v, rd, got, req)"
  unfolding link_ok.simps by blast

text \<open>Steps that touch only the client's wait object, or only the receiver's.\<close>

lemma link_client_frame:
  assumes "link_ok T i j (w, c, ch, v, rd, got, req)" "t_socks c i = Some k" "t_socks c' i = Some k'" "sk_state k' = sk_state k"
    "tuple_of k' = tuple_of k" "wr_sock i w'" "unsent w' = unsent w"
  shows "link_ok T i j (w', c', ch, v, rd, got, req)"
  using assms by (elim link_okE) (rule link_okI, assumption, simp_all)

lemma link_server_frame:
  assumes "link_ok T i j (w, c, ch, v, rd, got, req)" "t_socks v j = Some k" "tuple_of k' = tuple_of k" "sk_rcv_buf k' = sk_rcv_buf k"
    "rd_sock j rd'" "in_hand rd' = in_hand rd"
  shows "link_ok T i j (w, c, ch, put_sk j k' v, rd', got, req)"
  using assms(1)
proof (rule link_okE)
  fix kc kv ds
  assume a: "t_socks c i = Some kc" "sk_state kc = TCP_ESTABLISHED" "tuple_of kc = T" "wr_sock i w" "t_socks v j = Some kv"
    "rb_inv (sk_rcv_buf kv)" "rd_sock j rd" "finds_peer T j v" "list_all2 (carries T) ch ds"
    "got @ in_hand rd @ rb_contents (sk_rcv_buf kv) @ concat ds @ unsent w = req"
  have "finds_peer T j (put_sk j k' v)" using finds_peer_put(2)[OF assms(2,3)] a(8) by simp
  with a assms show ?thesis by (intro link_okI[of c i kc T w "put_sk j k' v" j k' rd' ch ds]) simp_all
qed

lemma link_writer:
  assumes inv: "link_ok T i j (w, c, ch, v, rd, got, req)" and st: "write12_step w c = Some (w', c')"
  shows "link_ok T i j (w', c', ch @ put_on_link w c, v, rd, got, req)"
  using inv
proof (rule link_okE)
  fix k kv ds
  assume a: "t_socks c i = Some k" "sk_state k = TCP_ESTABLISHED" "tuple_of k = T" "wr_sock i w" "t_socks v j = Some kv"
    "rb_inv (sk_rcv_buf kv)" "rd_sock j rd" "finds_peer T j v" "list_all2 (carries T) ch ds"
    "got @ in_hand rd @ rb_contents (sk_rcv_buf kv) @ concat ds @ unsent w = req"
  show ?thesis
  proof (cases w)
    case (WrHead x buf len sent)
    with a(4) have x: "x = i" "0 \<le> sent" by simp_all
    show ?thesis
    proof (cases "sent < len")
      case True
      from writer_sends[OF st[unfolded WrHead x(1)] True x(2) a(1)] obtain d n k' where d:
        "put_on_link w c = [data_seg c k d]" "length d \<le> MSS" "c' = (put_sk i k' c)\<lparr>t_net := n\<rparr>" "sk_state k' = sk_state k"
        "tuple_of k' = tuple_of k" "wr_sock i w'" "unsent w = d @ unsent w'" unfolding WrHead x(1) by blast
      have "list_all2 (carries T) (ch @ put_on_link w c) (ds @ [d])"
        unfolding d(1) using a(9)
      proof (rule list_all2_appendI)
        show "list_all2 (carries T) [data_seg c k d] [d]" using a(3) d(2) unfolding carries_def by blast
      qed
      with a d show ?thesis by (intro link_okI[of c' i k' T w' v j kv rd "ch @ put_on_link w c" "ds @ [d]"]) simp_all
    next
      case False
      then have "w' = WrDone sent" "c' = c" using st WrHead by simp_all
      moreover have "unsent w = []" using False by (simp add: WrHead asked_def)
      moreover have "put_on_link w c = []" using False WrHead x a(1) by simp
      ultimately show ?thesis using a by (intro link_okI[of c' i k]) simp_all
    qed
  next
    case (WrWait x buf len sent)
    with a(4) have x: "x = i" "0 \<le> sent" by simp_all
    obtain u where u: "c' = put_sk i (k\<lparr>sk_wait_send := u\<rparr>) c" "w' = WrSleep i buf len sent \<or> w' = WrHead i buf len sent"
      using st unfolding WrWait x(1) write12_step.simps a(1) bind.bind_lunit by (auto split: sleep_result.splits prod.splits)
    then have "link_ok T i j (w', c', ch, v, rd, got, req)"
      by (intro link_client_frame[OF inv a(1), of c' "k\<lparr>sk_wait_send := u\<rparr>"]) (use WrWait x in \<open>auto simp: tuple_of_def\<close>)
    with WrWait show ?thesis by simp
  qed (use st inv a(4) in auto)
qed

lemma link_writer_woken:
  assumes inv: "link_ok T i j (w, c, ch, v, rd, got, req)" and st: "write12_resume w c = Some (w', c')"
  shows "link_ok T i j (w', c', ch, v, rd, got, req)"
proof (cases w)
  case (WrSleep x buf len sent)
  obtain k where k: "t_socks c i = Some k" "wr_sock i w" by (rule link_okE[OF inv])
  let ?k = "k\<lparr>sk_wait_send := snd (sleep_on_resume (sk_wait_send k))\<rparr>"
  from k WrSleep have x: "x = i" "0 \<le> sent" by simp_all
  have e: "w' = WrHead i buf len sent" "c' = put_sk i ?k c"
    using st unfolding WrSleep write12_resume.simps x(1) upd_sk_Some[OF k(1)] bind.bind_lunit by (simp_all only: option.inject prod.inject)
  show ?thesis unfolding e by (rule link_client_frame[OF inv k(1), of _ ?k]) (simp_all add: tuple_of_def x WrSleep)
qed (use assms in simp_all)

lemma link_acknowledgement:
  assumes inv: "link_ok T i j (w, c, ch, v, rd, got, req)" and "cb_flags cb = TCP_ACK" "tcp_process12 (Some i) cb p c = Some c'"
  shows "link_ok T i j (w, c', ch, v, rd, got, req)"
proof -
  obtain k where k: "t_socks c i = Some k" "sk_state k = TCP_ESTABLISHED" "wr_sock i w" by (rule link_okE[OF inv])
  let ?k = "(noted12 cb k)\<lparr>sk_wait_send := wake (sk_wait_send k)\<rparr>"
  have e: "c' = put_sk i ?k c" using assms(3) k(2) unfolding process12_ack[OF k(1) assms(2)] by (simp add: tcp_rcv_ack12_def wake_send_def)
  show ?thesis unfolding e by (rule link_client_frame[OF inv k(1), of _ ?k]) (simp_all add: tuple_of_def k(3))
qed

text \<open>The receiving side.\<close>

lemma take_drop_append: "take n xs @ drop n xs @ ys = xs @ ys"
  by (metis append_assoc append_take_drop_id)

lemma link_arrival:
  assumes inv: "link_ok T i j (w, c, q # ch, v, rd, got, req)" and st: "handle_tcp_packet12 (readdressed e q) ETHER_HDR_SIZE 34 v = Some v'"
  shows "link_ok T i j (w, c, ch, v', rd, got, req)"
  using inv
proof (rule link_okE)
  fix kc kv ds'
  assume a: "t_socks c i = Some kc" "sk_state kc = TCP_ESTABLISHED" "tuple_of kc = T" "wr_sock i w" "t_socks v j = Some kv"
    "rb_inv (sk_rcv_buf kv)" "rd_sock j rd" "finds_peer T j v" "list_all2 (carries T) (q # ch) ds'"
    "got @ in_hand rd @ rb_contents (sk_rcv_buf kv) @ concat ds' @ unsent w = req"
  from a(9) obtain d ds where ds: "ds' = d # ds" "carries T q d" "list_all2 (carries T) ch ds" by (auto simp: list_all2_Cons1)
  from ds(2) obtain s k where q: "q = data_seg s k d" "tuple_of k = T" "length d \<le> MSS" by (auto simp: carries_def)
  have fp: "finds_peer (tuple_of k) j v" using a(8) q(2) by simp
  note r = receive_data12[OF MSS_small[OF q(3)] fp, of e s, folded q(1)]
  let ?v = "put_sk j (noted12 (data_cb k d) kv) v"
  have rcv: "tcp_rcv_data12 j (data_cb k d) (readdressed e q) ?v = Some v'"
    using st unfolding r(1) process12_data[OF a(5) data_cb_simps(1)] .
  have "t_socks ?v j = Some (noted12 (data_cb k d) kv)" "ld_bytes (readdressed e q) (cb_payload (data_cb k d)) (length d) = Some d"
    using r(2) by simp_all
  from rcv_data12_eq[OF this(1) data_cb_simps(2) this(2)] rcv obtain rb n k' where
    w: "write_ring_buffer (sk_rcv_buf kv) d = Some rb" "v' = (put_sk j k' ?v)\<lparr>t_net := n\<rparr>" "sk_rcv_buf k' = rb" "tuple_of k' = tuple_of kv"
    by (auto simp: tuple_of_def split: option.splits)
  have ne: "d \<noteq> []" using w(1) by (auto simp: write_ring_buffer_def)
  have "int (length d) \<le> ring_buffer_free (sk_rcv_buf kv)" using w(1) write_ring_buffer_None[of d "sk_rcv_buf kv"] by force
  note ne this
  from write_ring_buffer_spec[OF a(6) this] w(1) have rb: "rb_inv rb" "rb_contents rb = rb_contents (sk_rcv_buf kv) @ d" by auto
  have "v' = (put_sk j k' v)\<lparr>t_net := n\<rparr>" using w(2) by simp
  moreover have "finds_peer T j ((put_sk j k' v)\<lparr>t_net := n\<rparr>)" using finds_peer_put(1)[OF a(5) w(4)] a(8) by simp
  ultimately show ?thesis using a rb w(3) ds by (intro link_okI[of c i kc T w v' j k' rd ch ds]) simp_all
qed

lemma link_reader:
  assumes inv: "link_ok T i j (w, c, ch, v, rd, got, req)" and st: "read12_step rd v = Some (rd', v')"
  shows "link_ok T i j (w, c, ch, v', rd', got, req)"
  using inv
proof (rule link_okE)
  fix kc k ds
  assume a: "t_socks c i = Some kc" "sk_state kc = TCP_ESTABLISHED" "tuple_of kc = T" "wr_sock i w" "t_socks v j = Some k"
    "rb_inv (sk_rcv_buf k)" "rd_sock j rd" "finds_peer T j v" "list_all2 (carries T) ch ds"
    "got @ in_hand rd @ rb_contents (sk_rcv_buf k) @ concat ds @ unsent w = req"
  show ?thesis
  proof (cases rd)
    case (RdHead x len)
    with a(7) have x: "x = j" by simp
    show ?thesis
    proof (cases "ring_buffer_empty (sk_rcv_buf k)")
      case True
      then have "rd' = RdWait j len" "v' = v" using st RdHead x a(5) by simp_all
      with link_server_frame[OF inv a(5), of k rd'] a(5) RdHead show ?thesis by simp
    next
      case False
      obtain rb where rb: "read_ring_buffer (sk_rcv_buf k) len = Some (take (nat len) (rb_contents (sk_rcv_buf k)), rb)"
        "rb_inv rb" "rb_contents rb = drop (nat len) (rb_contents (sk_rcv_buf k))"
        using read_ring_buffer_spec[OF a(6)] by blast
      let ?k = "k\<lparr>sk_rcv_buf := rb\<rparr>"
      have e: "rd' = RdDone (take (nat len) (rb_contents (sk_rcv_buf k)))" "v' = put_sk j ?k v"
        using st False unfolding RdHead x read12_step.simps a(5) bind.bind_lunit rb(1) by simp_all
      have "tuple_of ?k = tuple_of k" by (simp add: tuple_of_def)
      from finds_peer_put(2)[OF a(5) this] a(8) have "finds_peer T j (put_sk j ?k v)" by simp
      with a rb RdHead show ?thesis unfolding e by (intro link_okI[of c i kc T w _ j ?k _ ch ds]) (simp_all add: take_drop_append)
    qed
  next
    case (RdWait x len)
    with a(7) have x: "x = j" by simp
    obtain u where "v' = put_sk j (k\<lparr>sk_wait_recv := u\<rparr>) v" "rd' = RdSleep j len \<or> rd' = RdHead j len"
      using st unfolding RdWait x read12_step.simps a(5) bind.bind_lunit by (auto split: sleep_result.splits prod.splits)
    with link_server_frame[OF inv a(5), of "k\<lparr>sk_wait_recv := u\<rparr>" rd'] RdWait show ?thesis by (auto simp: tuple_of_def)
  qed (use st inv in auto)
qed

lemma link_reader_woken:
  assumes inv: "link_ok T i j (w, c, ch, v, rd, got, req)" and st: "read12_resume rd v = Some (rd', v')"
  shows "link_ok T i j (w, c, ch, v', rd', got, req)"
proof (cases rd)
  case (RdSleep x len)
  obtain k where k: "t_socks v j = Some k" "rd_sock j rd" by (rule link_okE[OF inv])
  let ?k = "k\<lparr>sk_wait_recv := snd (sleep_on_resume (sk_wait_recv k))\<rparr>"
  from k(2) RdSleep have x: "x = j" by simp
  have e: "rd' = RdHead j len" "v' = put_sk j ?k v"
    using st unfolding RdSleep x read12_resume.simps upd_sk_Some[OF k(1)] bind.bind_lunit by (simp_all only: option.inject prod.inject)
  show ?thesis unfolding e by (rule link_server_frame[OF inv k(1)]) (simp_all add: tuple_of_def RdSleep)
qed (use assms in auto)

lemma link_write_call:
  "link_ok T i j (WrDone r, c, ch, v, rd, got, req) \<Longrightarrow> link_ok T i j (tcp_sock_write i buf len, c, ch, v, rd, got, req @ asked buf len)"
  by (erule link_okE, rule link_okI, assumption) (auto simp: tcp_sock_write_def)

lemma link_read_call:
  "link_ok T i j (w, c, ch, v, RdDone r, got, req) \<Longrightarrow> link_ok T i j (w, c, ch, v, tcp_sock_read j len, got @ r, req)"
  by (erule link_okE, rule link_okI, assumption) (auto simp: tcp_sock_read_def)

lemma link12_ok: "link12 i j x y \<Longrightarrow> link_ok T i j x \<Longrightarrow> link_ok T i j y"
  by (induction rule: link12.induct)
    (blast intro: link_write_call link_writer link_writer_woken link_acknowledgement link_arrival link_read_call link_reader link_reader_woken)+

lemma link12_runs_ok: "(link12 i j)\<^sup>*\<^sup>* x y \<Longrightarrow> link_ok T i j x \<Longrightarrow> link_ok T i j y"
  by (induction rule: rtranclp_induct) (blast intro: link12_ok)+

section \<open>Properties\<close>


definition linked12 :: tcp where
  "linked12 = (one_sock accepted12)\<lparr>t_est := (\<lambda>_. [0])\<rparr>"

lemma linked12_sock: "t_socks linked12 0 = Some accepted12" "sk_state accepted12 = TCP_ESTABLISHED" "rb_inv (sk_rcv_buf accepted12)"
  "rb_contents (sk_rcv_buf accepted12) = []" "finds_peer (tuple_of accepted12) 0 linked12" "2 \<le> ring_buffer_free (sk_rcv_buf accepted12)"
  by (simp_all add: linked12_def accepted12_def fresh_sock_def rb_inv_alloc rb_contents_alloc tuple_of_def tcp_sock_lookup_established_def same_tuple_def)
    (simp add: alloc_ring_buffer_def ring_buffer_free_def ring_buffer_used_def TCP_DEFAULT_WINDOW_def)


text \<open>A piece of data for a socket, as its control block and packet describe it.\<close>

definition data_for :: "tcp_cb \<Rightarrow> bytes \<Rightarrow> bytes \<Rightarrow> bool" where
  "data_for cb p d \<longleftrightarrow> cb_flags cb = TCP_PSH OR TCP_ACK \<and> cb_pl_len cb = int (length d) \<and>
     ld_bytes p (cb_payload cb) (length d) = Some d"

lemma process12_data_cases:
  assumes "t_socks v j = Some k" "data_for cb p d" "rb_inv (sk_rcv_buf k)" "d \<noteq> []"
  shows "if ring_buffer_free (sk_rcv_buf k) < int (length d) then tcp_process12 (Some j) cb p v = None
    else \<exists>v' k'. tcp_process12 (Some j) cb p v = Some v' \<and> t_socks v' j = Some k' \<and> rb_inv (sk_rcv_buf k') \<and>
      rb_contents (sk_rcv_buf k') = rb_contents (sk_rcv_buf k) @ d \<and> ring_buffer_free (sk_rcv_buf k') = ring_buffer_free (sk_rcv_buf k) - int (length d)"
proof -
  have f: "cb_flags cb = TCP_PSH OR TCP_ACK" and cb: "cb_pl_len cb = int (length d)" "ld_bytes p (cb_payload cb) (length d) = Some d"
    using assms(2) by (simp_all add: data_for_def)
  have "t_socks (put_sk j (noted12 cb k) v) j = Some (noted12 cb k)" by simp
  note e = rcv_data12_eq[OF this cb] process12_data[OF assms(1) f, of p]
  show ?thesis
  proof (cases "ring_buffer_free (sk_rcv_buf k) < int (length d)")
    case True
    then show ?thesis using e write_ring_buffer_None[of d "sk_rcv_buf k"] by simp
  next
    case False
    then obtain rb where rb: "write_ring_buffer (sk_rcv_buf k) d = Some rb" "rb_inv rb" "rb_contents rb = rb_contents (sk_rcv_buf k) @ d"
      "rb_size rb = rb_size (sk_rcv_buf k)" using write_ring_buffer_spec[OF assms(3,4)] by auto
    have "nat (ring_buffer_used rb) = nat (ring_buffer_used (sk_rcv_buf k)) + length d" using arg_cong[OF rb(3), of length] by simp
    then have "ring_buffer_free rb = ring_buffer_free (sk_rcv_buf k) - int (length d)"
      using used_bounds[OF rb(2)] used_bounds[OF assms(3)] rb(4) unfolding ring_buffer_free_def by linarith
    have "sk_rcv_buf (noted12 cb k) = sk_rcv_buf k" by simp
    note e1 = e(1)[unfolded this rb(1) option.case]
    from e1 obtain n k' where k': "tcp_rcv_data12 j cb p (put_sk j (noted12 cb k) v) = Some ((put_sk j k' (put_sk j (noted12 cb k) v))\<lparr>t_net := n\<rparr>)"
      "sk_rcv_buf k' = rb" by (elim exE conjE)
    define v' where "v' = (put_sk j k' (put_sk j (noted12 cb k) v))\<lparr>t_net := n\<rparr>"
    have "tcp_process12 (Some j) cb p v = Some v'" "t_socks v' j = Some k'" using k'(1) e(2) by (simp_all add: v'_def)
    with k'(2) rb(2,3) \<open>ring_buffer_free rb = _\<close> show ?thesis
      unfolding if_not_P[OF False] by (intro exI[of _ v'] exI[of _ k'] conjI) simp_all
  qed
qed

text \<open>Segments that arrive one after the other while nobody reads.\<close>

fun unread12 :: "addr \<Rightarrow> (tcp_cb \<times> bytes) list \<Rightarrow> tcp \<Rightarrow> tcp option" where
  "unread12 j [] v = Some v"
| "unread12 j ((cb, p) # xs) v = do { v \<leftarrow> tcp_process12 (Some j) cb p v; unread12 j xs v }"

text \<open>Property C38. Nothing stops a sender from overrunning the receive buffer: the window that acknowledgements
  announce never shrinks, and when the unread data exceeds what the buffer has free, the assertion of
  \<open>write_ring_buffer\<close> ends the receiving program; up to that amount every segment is accepted.\<close>

theorem unread_data_aborts12:
  assumes "t_socks v j = Some k" "rb_inv (sk_rcv_buf k)" "list_all2 (\<lambda>(cb, p) d. data_for cb p d \<and> d \<noteq> []) xs ds"
  shows "unread12 j xs v = None \<longleftrightarrow> ring_buffer_free (sk_rcv_buf k) < int (length (concat ds))"
  using assms(3,1,2)
proof (induction xs ds arbitrary: v k rule: list_all2_induct)
  case Nil
  have "0 \<le> ring_buffer_free (sk_rcv_buf k)" using used_bounds[OF Nil(2)] by (simp add: ring_buffer_free_def)
  then show ?case by simp
next
  case (Cons x xs d ds)
  obtain cb p where x: "x = (cb, p)" by (cases x)
  with Cons.hyps have d: "data_for cb p d" "d \<noteq> []" by simp_all
  note c = process12_data_cases[OF Cons.prems(1) d(1) Cons.prems(2) d(2)]
  show ?case
  proof (cases "ring_buffer_free (sk_rcv_buf k) < int (length d)")
    case True
    with c show ?thesis by (simp add: x)
  next
    case False
    with c obtain v' k' where v': "tcp_process12 (Some j) cb p v = Some v'" "t_socks v' j = Some k'" "rb_inv (sk_rcv_buf k')"
      "ring_buffer_free (sk_rcv_buf k') = ring_buffer_free (sk_rcv_buf k) - int (length d)" by auto
    from Cons.IH[OF v'(2,3)] v'(1,4) show ?thesis by (auto simp: x)
  qed
qed

definition big_cb :: tcp_cb where
  "big_cb = (flags_cb (TCP_PSH OR TCP_ACK))\<lparr>cb_pl_len := 40000\<rparr>"

lemma big_data: "data_for big_cb (replicate 40054 0) (replicate 40000 0)" "replicate 40000 (0 :: u8) \<noteq> []"
  by (simp_all add: data_for_def big_cb_def flags_cb_def ld_bytes_def)

theorem unread_data_aborts12_witness:
  "unread12 0 [(big_cb, replicate 40054 0), (big_cb, replicate 40054 0)] linked12 = None \<and>
   unread12 0 [(big_cb, replicate 40054 0)] linked12 \<noteq> None"
proof -
  have f: "ring_buffer_free (sk_rcv_buf accepted12) = 65535"
    by (simp add: accepted12_def fresh_sock_def alloc_ring_buffer_def ring_buffer_free_def ring_buffer_used_def TCP_DEFAULT_WINDOW_def)
  have "list_all2 (\<lambda>(cb, p) d. data_for cb p d \<and> d \<noteq> []) [(big_cb, replicate 40054 0), (big_cb, replicate 40054 0)] [replicate 40000 0, replicate 40000 0]"
    "list_all2 (\<lambda>(cb, p) d. data_for cb p d \<and> d \<noteq> []) [(big_cb, replicate 40054 0)] [replicate 40000 0]" using big_data by simp_all
  from unread_data_aborts12[OF linked12_sock(1,3) this(1)] unread_data_aborts12[OF linked12_sock(1,3) this(2)] show ?thesis
    unfolding f by simp
qed

text \<open>A wake-up is lost between the test of the buffer and the sleep: the reader finds the buffer
  empty and releases the lock, data arrives and wakes nobody, since nobody sleeps yet, and the reader
  goes to sleep next to data it could return. Only another segment can wake it.\<close>

theorem lost_wakeup12:
  assumes "t_socks v j = Some k" "rb_inv (sk_rcv_buf k)" "ring_buffer_empty (sk_rcv_buf k)" "sk_wait_recv k = wait_init"
    and "data_for cb p d" "d \<noteq> []" "int (length d) \<le> ring_buffer_free (sk_rcv_buf k)"
  shows "\<exists>v1 v2 k2. read12_step (tcp_sock_read j len) v = Some (RdWait j len, v) \<and> tcp_process12 (Some j) cb p v = Some v1 \<and>
    read12_step (RdWait j len) v1 = Some (RdSleep j len, v2) \<and> t_socks v2 j = Some k2 \<and>
    rb_contents (sk_rcv_buf k2) = d \<and> sw_sleep (sk_wait_recv k2) \<and> \<not> sw_notified (sk_wait_recv k2)"
proof -
  have f: "cb_flags cb = TCP_PSH OR TCP_ACK" and cb: "cb_pl_len cb = int (length d)" "ld_bytes p (cb_payload cb) (length d) = Some d"
    using assms(5) by (simp_all add: data_for_def)
  obtain rb where rb: "write_ring_buffer (sk_rcv_buf k) d = Some rb" "rb_contents rb = rb_contents (sk_rcv_buf k) @ d"
    using write_ring_buffer_spec[OF assms(2,6,7)] by blast
  have "rb_contents (sk_rcv_buf k) = []" using assms(3) by (simp add: ring_buffer_empty_def rb_contents_def)
  then have con: "rb_contents rb = d" using rb(2) by simp
  define k1 where "k1 = (noted12 cb k)\<lparr>sk_rcv_buf := rb, sk_wait_recv := wake_if_asleep (sk_wait_recv k)\<rparr>"
  have sk: "t_socks (put_sk j k1 v) j = Some k1" by simp
  obtain n where n: "tcp_send_control_packet12 j TCP_ACK (put_sk j k1 v) = Some ((put_sk j k1 v)\<lparr>t_net := n\<rparr>)" using send_ack12[OF sk] .
  have w: "sk_wait_recv k1 = wait_init" using assms(4) by (simp add: k1_def wake_if_asleep_def wait_init_def)
  define k2 v1 where d2: "k2 = k1\<lparr>sk_wait_send := wake_if_asleep (sk_wait_send k1)\<rparr>" "v1 = put_sk j k2 ((put_sk j k1 v)\<lparr>t_net := n\<rparr>)"
  have "tcp_rcv_data12 j cb p (put_sk j (noted12 cb k) v) = Some v1"
    unfolding tcp_rcv_data12_def using assms(6) cb rb(1) n by (simp add: k1_def[symmetric] d2)
  then have p: "tcp_process12 (Some j) cb p v = Some v1" unfolding process12_data[OF assms(1) f] .
  have "t_socks v1 j = Some k2" "sk_wait_recv k2 = wait_init" "sk_rcv_buf k2 = rb" using w by (simp_all add: d2 k1_def)
  then have "read12_step (RdWait j len) v1 = Some (RdSleep j len, put_sk j (k2\<lparr>sk_wait_recv := wait_init\<lparr>sw_sleep := True\<rparr>\<rparr>) v1)"
    by (simp add: sleep_on_enter_def wait_init_def)
  with p assms(1,3) con \<open>sk_rcv_buf k2 = rb\<close> show ?thesis
    by (intro exI[of _ v1] exI[of _ "put_sk j (k2\<lparr>sk_wait_recv := wait_init\<lparr>sw_sleep := True\<rparr>\<rparr>) v1"]
        exI[of _ "k2\<lparr>sk_wait_recv := wait_init\<lparr>sw_sleep := True\<rparr>\<rparr>"]) (simp add: tcp_sock_read_def wait_init_def)
qed

theorem lost_wakeup12_witness:
  "\<exists>v1 v2 k2. tcp_process12 (Some 0) big_cb (replicate 40054 0) linked12 = Some v1 \<and>
     read12_step (RdWait 0 5) v1 = Some (RdSleep 0 5, v2) \<and> t_socks v2 0 = Some k2 \<and> \<not> sw_notified (sk_wait_recv k2)"
proof -
  have "sk_wait_recv accepted12 = wait_init" "ring_buffer_empty (sk_rcv_buf accepted12)"
    "int (length (replicate 40000 (0 :: u8))) \<le> ring_buffer_free (sk_rcv_buf accepted12)"
    by (simp_all add: accepted12_def fresh_sock_def alloc_ring_buffer_def ring_buffer_empty_def ring_buffer_free_def ring_buffer_used_def TCP_DEFAULT_WINDOW_def)
  from lost_wakeup12[OF linked12_sock(1,3) this(2,1) big_data this(3), of 5] show ?thesis by blast
qed

end
