(* ===== verification/Tcp13.thy ===== *)
theory Tcp13
  imports Tcp12 Tcp_Timer
begin

text \<open>
  The stack of prj13 (\<open>tcp_in.c\<close>, \<open>tcp_out.c\<close>, \<open>tcp_timer.c\<close>, \<open>tcp_sock.c\<close>), the stage with
  retransmission and an out-of-order queue but without flow and congestion control: a writer keeps at
  most five packets in flight, and received data goes to the ring buffer at once. Allocation, release,
  the tables, control segments and the queues are those of prj14, reading is that of prj12.
\<close>

section \<open>Sending and timers\<close>

definition tcp_send_packet13 :: "addr \<Rightarrow> bytes \<Rightarrow> tcp \<Rightarrow> tcp option" where
  "tcp_send_packet13 i p s = do {
     k \<leftarrow> t_socks s i;
     let ipoff = ETHER_HDR_SIZE;
     let off = ETHER_HDR_SIZE + IP_BASE_HDR_SIZE;
     let ip_tot_len = int (length p) - int ETHER_HDR_SIZE;
     let tcp_data_len = ip_tot_len - int IP_BASE_HDR_SIZE - int TCP_BASE_HDR_SIZE;
     p \<leftarrow> tcp_init_hdr p off (sk_sport k) (sk_dport k) (sk_snd_nxt k) (sk_rcv_nxt k) (TCP_PSH OR TCP_ACK) (sk_rcv_wnd k);
     let (r, n) = c_rand (t_net s);
     let s = s\<lparr>t_net := n\<rparr>;
     p \<leftarrow> ip_init_hdr (of_nat r) p ipoff (sk_sip k) (sk_dip k) (of_int ip_tot_len) IPPROTO_TCP;
     p \<leftarrow> tcp_seal p ipoff off;
     ck \<leftarrow> ip_checksum p ipoff;
     ip \<leftarrow> get_ip p ipoff;
     p \<leftarrow> put_ip p ipoff (ip\<lparr>ip_cksum := ck\<rparr>);
     let s = put_sk i (k\<lparr>sk_snd_nxt := sk_snd_nxt k + to_u32 tcp_data_len,
       sk_snd_wnd := sk_snd_wnd k - to_u32 tcp_data_len\<rparr>) s;
     s \<leftarrow> put_sendbuf i p s;
     on_net (ip_send_packet p) s }"

text \<open>The pass over the packets of one socket resends without touching the socket.\<close>

fun scan_bufs13 :: "send_buffer list \<Rightarrow> tcp \<Rightarrow> (send_buffer list \<times> tcp) option" where
  "scan_bufs13 [] s = Some ([], s)"
| "scan_bufs13 (b # bs) s =
     (case buf_tick b of
        (Resend, b') \<Rightarrow> do {
          s \<leftarrow> on_net (ip_send_packet (sb_packet b)) s;
          (bs, s) \<leftarrow> scan_bufs13 bs s;
          Some (b' # bs, s) }
      | (_, b') \<Rightarrow> do { (bs, s) \<leftarrow> scan_bufs13 bs s; Some (b' # bs, s) })"

definition scan_retrans13 :: "addr \<Rightarrow> tcp \<Rightarrow> tcp option" where
  "scan_retrans13 i s = do {
     k \<leftarrow> t_socks s i;
     (bs, s) \<leftarrow> scan_bufs13 (sk_send_buf k) s;
     Some (put_sk i (k\<lparr>sk_send_buf := bs\<rparr>) s) }"

fun scan_list13 :: "timer list \<Rightarrow> tcp \<Rightarrow> tcp option" where
  "scan_list13 [] s = Some s"
| "scan_list13 (TimeWait i # ts) s = do { s \<leftarrow> scan_timewait i s; scan_list13 ts s }"
| "scan_list13 (Retrans i # ts) s = do { s \<leftarrow> scan_retrans13 i s; scan_list13 ts s }"

definition tcp_scan_timer_list13 :: "tcp \<Rightarrow> tcp option" where
  "tcp_scan_timer_list13 s = scan_list13 (t_timers s) s"

section \<open>The state machine\<close>

text \<open>The loop over the queue of sent packets. Its condition \<open>cb->flags | TCP_ACK\<close> holds for every segment.\<close>

fun ack_pop13 :: "u32 \<Rightarrow> send_buffer list \<Rightarrow> tcp_sock \<Rightarrow> tcp_sock" where
  "ack_pop13 ack [] k = k"
| "ack_pop13 ack (b # bs) k =
     (if sb_seq_end b > ack then k else ack_pop13 ack bs (tcp_pop_sendbuf (k\<lparr>sk_snd_una := sb_seq_end b\<rparr>)))"

definition tcp_rcv_syn_listen13 :: "addr \<Rightarrow> tcp_cb \<Rightarrow> tcp \<Rightarrow> tcp option" where
  "tcp_rcv_syn_listen13 i cb s = do {
     (c, s) \<leftarrow> alloc_tcp_sock s;
     s \<leftarrow> upd_sk i (\<lambda>k. k\<lparr>sk_listen_queue := sk_listen_queue k @ [c]\<rparr>) s;
     k \<leftarrow> t_socks s i;
     let (iss, s) = tcp_new_iss s;
     s \<leftarrow> upd_sk c (\<lambda>ck. ck\<lparr>sk_queue := OnListen i, sk_sip := cb_daddr cb, sk_dip := cb_saddr cb,
       sk_dport := cb_sport cb, sk_sport := cb_dport cb, sk_parent := Some i, sk_iss := iss,
       sk_snd_una := sk_snd_una k, sk_rcv_nxt := sk_rcv_nxt k, sk_snd_nxt := sk_iss k\<rparr>) s;
     s \<leftarrow> tcp_set_state c TCP_SYN_RECV s;
     (r, s) \<leftarrow> tcp_hash c s;
     tcp_send_control_packet c (TCP_SYN OR TCP_ACK) s }"

definition tcp_rcv_ack13 :: "addr \<Rightarrow> tcp \<Rightarrow> tcp option" where
  "tcp_rcv_ack13 i s = do {
     k \<leftarrow> t_socks s i;
     (case sk_state k of
        TCP_SYN_RECV \<Rightarrow> do {
          s \<leftarrow> tcp_sock_accept_enqueue i s;
          p \<leftarrow> sk_parent k;
          s \<leftarrow> wake_accept p s;
          tcp_set_state i TCP_ESTABLISHED s }
      | TCP_ESTABLISHED \<Rightarrow> wake_send i s
      | TCP_FIN_WAIT_1 \<Rightarrow> tcp_set_state i TCP_FIN_WAIT_2 s
      | TCP_LAST_ACK \<Rightarrow> do {
          s \<leftarrow> tcp_set_state i TCP_CLOSED s;
          s \<leftarrow> (if sk_parent k = None then tcp_bind_unhash i s else Some s);
          tcp_unhash i s }
      | _ \<Rightarrow> Some s) }"

text \<open>The pieces of the out-of-order queue that the data before them has reached.\<close>

fun ofo_drain13 :: "u32 \<Rightarrow> ofo_buffer list \<Rightarrow> tcp_sock \<Rightarrow> (u32 \<times> tcp_sock) option" where
  "ofo_drain13 seq_end [] k = Some (seq_end, k)"
| "ofo_drain13 seq_end (b # bs) k =
     (if seq_end < ofo_seq b then Some (seq_end, k)
      else do {
        rb \<leftarrow> write_ring_buffer (sk_rcv_buf k) (ofo_payload b);
        ofo_drain13 (ofo_seq_end b) bs (ofo_delete_first (k\<lparr>sk_rcv_buf := rb\<rparr>)) })"

definition take_data13 :: "tcp_cb \<Rightarrow> bytes \<Rightarrow> tcp_sock \<Rightarrow> tcp_sock option" where
  "take_data13 cb packet k =
     (if sk_rcv_nxt k = cb_seq cb then
        if cb_pl_len cb \<le> 0 then None
        else do {
          pl \<leftarrow> ld_bytes packet (cb_payload cb) (nat (cb_pl_len cb));
          rb \<leftarrow> write_ring_buffer (sk_rcv_buf k) pl;
          if sk_ofo_link k = OfoDangling then None
          else do {
            (seq_end, k) \<leftarrow> ofo_drain13 (cb_seq_end cb) (sk_ofo k) (k\<lparr>sk_rcv_buf := rb\<rparr>);
            Some (k\<lparr>sk_rcv_nxt := seq_end\<rparr>) } }
      else if sk_rcv_nxt k < cb_seq cb then write_ofo_buffer cb packet k
      else Some k)"

definition tcp_rcv_data13 :: "addr \<Rightarrow> tcp_cb \<Rightarrow> bytes \<Rightarrow> tcp \<Rightarrow> tcp option" where
  "tcp_rcv_data13 i cb packet s = do {
     k \<leftarrow> t_socks s i;
     let k = (if sk_state k = TCP_SYN_RECV then k\<lparr>sk_state := TCP_ESTABLISHED\<rparr> else k);
     k \<leftarrow> take_data13 cb packet k;
     let s = put_sk i (k\<lparr>sk_wait_recv := wake_if_asleep (sk_wait_recv k)\<rparr>) s;
     s \<leftarrow> tcp_send_control_packet i TCP_ACK s;
     upd_sk i (\<lambda>k. k\<lparr>sk_wait_send := wake_if_asleep (sk_wait_send k)\<rparr>) s }"

definition tcp_rcv_ack_fin13 :: "addr \<Rightarrow> tcp \<Rightarrow> tcp option" where
  "tcp_rcv_ack_fin13 i s = do {
     k \<leftarrow> t_socks s i;
     if sk_state k = TCP_FIN_WAIT_1 then do {
       s \<leftarrow> tcp_set_state i TCP_TIME_WAIT s;
       s \<leftarrow> tcp_send_control_packet i TCP_ACK s;
       tcp_set_timewait_timer i s }
     else Some s }"

definition tcp_rcv_fin13 :: "addr \<Rightarrow> tcp \<Rightarrow> tcp option" where
  "tcp_rcv_fin13 i s = do {
     k \<leftarrow> t_socks s i;
     (case sk_state k of
        TCP_ESTABLISHED \<Rightarrow> do {
          s \<leftarrow> tcp_set_state i TCP_LAST_ACK s;
          s \<leftarrow> tcp_send_control_packet i (TCP_ACK OR TCP_FIN) s;
          tcp_set_timewait_timer i s }
      | TCP_FIN_WAIT_2 \<Rightarrow> do {
          s \<leftarrow> tcp_set_state i TCP_TIME_WAIT s;
          s \<leftarrow> tcp_send_control_packet i TCP_ACK s;
          tcp_set_timewait_timer i s }
      | _ \<Rightarrow> Some s) }"

text \<open>What every segment does before the flags are looked at.\<close>

definition noted13 :: "tcp_cb \<Rightarrow> tcp_sock \<Rightarrow> tcp_sock" where
  "noted13 cb k = (let k = (if cb_flags cb \<noteq> TCP_PSH OR TCP_ACK then k\<lparr>sk_rcv_nxt := cb_seq_end cb\<rparr> else k)
     in ack_pop13 (cb_ack cb) (sk_send_buf k) k)"

definition tcp_process13 :: "addr option \<Rightarrow> tcp_cb \<Rightarrow> bytes \<Rightarrow> tcp \<Rightarrow> tcp option" where
  "tcp_process13 tsk cb packet s =
     (case tsk of
        None \<Rightarrow> Some s
      | Some i \<Rightarrow> do {
          let f = cb_flags cb;
          s \<leftarrow> upd_sk i (noted13 cb) s;
          k \<leftarrow> t_socks s i;
          if f = TCP_SYN then (if sk_state k = TCP_LISTEN then tcp_rcv_syn_listen13 i cb s else Some s)
          else if f = TCP_SYN OR TCP_ACK then (if sk_state k = TCP_SYN_SENT then wake_connect i s else Some s)
          else if f = TCP_ACK then tcp_rcv_ack13 i s
          else if f = TCP_PSH OR TCP_ACK then tcp_rcv_data13 i cb packet s
          else if f = TCP_ACK OR TCP_FIN then tcp_rcv_ack_fin13 i s
          else if f = TCP_FIN then tcp_rcv_fin13 i s
          else Some s })"

section \<open>Writing\<close>

text \<open>The writer goes on while fewer than five packets are unacknowledged.\<close>

fun write13_step :: "wr_pc \<Rightarrow> tcp \<Rightarrow> (wr_pc \<times> tcp) option" where
  "write13_step (WrHead i buf len sent) s =
     (if sent < len then do {
        sl \<leftarrow> c_strlen buf;
        let valid_len = min len sl - sent;
        let data_len = min (int MSS) valid_len;
        if data_len < 0 then None
        else do {
          d \<leftarrow> ld_bytes buf (nat sent) (nat data_len);
          s \<leftarrow> tcp_send_packet13 i (replicate (ETHER_HDR_SIZE + IP_BASE_HDR_SIZE + TCP_BASE_HDR_SIZE) 0 @ d) s;
          Some (WrCheck i buf len (sent + data_len), s) } }
      else Some (WrDone sent, s))"
| "write13_step (WrCheck i buf len sent) s = do {
     k \<leftarrow> t_socks s i;
     Some (if sk_inflight k \<ge> 5 then WrWait i buf len sent else WrHead i buf len sent, s) }"
| "write13_step (WrWait i buf len sent) s = do {
     k \<leftarrow> t_socks s i;
     (case sleep_on_enter (sk_wait_send k) of
        (Waiting, w) \<Rightarrow> Some (WrSleep i buf len sent, put_sk i (k\<lparr>sk_wait_send := w\<rparr>) s)
      | (Returned _, w) \<Rightarrow> Some (WrCheck i buf len sent, put_sk i (k\<lparr>sk_wait_send := w\<rparr>) s)) }"
| "write13_step pc s = Some (pc, s)"

fun write13_resume :: "wr_pc \<Rightarrow> tcp \<Rightarrow> (wr_pc \<times> tcp) option" where
  "write13_resume (WrSleep i buf len sent) s = do {
     s \<leftarrow> upd_sk i (\<lambda>k. k\<lparr>sk_wait_send := snd (sleep_on_resume (sk_wait_send k))\<rparr>) s;
     Some (WrCheck i buf len sent, s) }"
| "write13_resume pc s = Some (pc, s)"

section \<open>The data path\<close>

lemma ack_pop13_simps [simp]:
  "sk_rcv_nxt (ack_pop13 a bs k) = sk_rcv_nxt k" "sk_ofo (ack_pop13 a bs k) = sk_ofo k" "sk_rcv_buf (ack_pop13 a bs k) = sk_rcv_buf k"
  "sk_ofo_link (ack_pop13 a bs k) = sk_ofo_link k" "sk_state (ack_pop13 a bs k) = sk_state k" "sk_wait_send (ack_pop13 a bs k) = sk_wait_send k"
  "sk_wait_recv (ack_pop13 a bs k) = sk_wait_recv k" "sk_parent (ack_pop13 a bs k) = sk_parent k"
  by (induction bs arbitrary: k) (simp_all add: tcp_pop_sendbuf_def)

lemma noted13_data [simp]:
  assumes "cb_flags cb = TCP_PSH OR TCP_ACK"
  shows "sk_rcv_nxt (noted13 cb k) = sk_rcv_nxt k" "sk_ofo (noted13 cb k) = sk_ofo k" "sk_rcv_buf (noted13 cb k) = sk_rcv_buf k"
  using assms by (simp_all add: noted13_def)

lemma process13_data:
  assumes "t_socks s i = Some k" "cb_flags cb = TCP_PSH OR TCP_ACK"
  shows "tcp_process13 (Some i) cb p s = tcp_rcv_data13 i cb p (put_sk i (noted13 cb k) s)"
  unfolding tcp_process13_def by (simp add: assms tcp_flag_defs)

text \<open>The socket of a receiver that has put the first \<open>p\<close> bytes of the stream into its buffer. \<open>X\<close> is what
  left the buffer before.\<close>

definition received :: "bytes \<Rightarrow> nat set \<Rightarrow> u32 \<Rightarrow> bytes \<Rightarrow> nat \<Rightarrow> tcp_sock \<Rightarrow> bool" where
  "received D cuts b X p k \<longleftrightarrow> rb_inv (sk_rcv_buf k) \<and> p \<le> length D \<and> X @ rb_contents (sk_rcv_buf k) = take p D \<and> idle_ok D cuts b p k"

lemma received_same: "received D cuts b X p k \<Longrightarrow> sk_rcv_buf k' = sk_rcv_buf k \<Longrightarrow> sk_rcv_nxt k' = sk_rcv_nxt k \<Longrightarrow> sk_ofo k' = sk_ofo k \<Longrightarrow>
    received D cuts b X p k'"
  by (simp add: received_def idle_ok_def)

lemma write_seg:
  assumes "rb_inv rb" "X @ rb_contents rb = take p D" "seg D cuts p pl" "write_ring_buffer rb pl = Some rb'"
  shows "rb_inv rb' \<and> X @ rb_contents rb' = take (p + length pl) D"
proof -
  have ne: "pl \<noteq> []" using assms(3) by (simp add: seg_def)
  have "int (length pl) \<le> ring_buffer_free rb" using assms(4) write_ring_buffer_None[of pl rb] by force
  from write_ring_buffer_spec[OF assms(1) ne this] assms(4) have rb': "rb_inv rb'" "rb_contents rb' = rb_contents rb @ pl" by auto
  then show ?thesis using assms(2) seg_extends[OF assms(3)] by (metis append.assoc)
qed

lemma ofo_drain13_spec:
  assumes f: "fits b D"
  shows "ofo_drain13 e rest k = Some (e', k') \<Longrightarrow> rb_inv (sk_rcv_buf k) \<Longrightarrow> p \<le> length D \<Longrightarrow> X @ rb_contents (sk_rcv_buf k) = take p D \<Longrightarrow>
    ofo_ok D cuts b p k e rest \<Longrightarrow> \<exists>p'. received D cuts b X p' (k'\<lparr>sk_rcv_nxt := e'\<rparr>)"
proof (induction e rest k arbitrary: p rule: ofo_drain13.induct)
  case (1 e k)
  then have "received D cuts b X p (k'\<lparr>sk_rcv_nxt := e'\<rparr>)"
    by (auto simp: received_def idle_ok_def ofo_ok_def)
  then show ?case ..
next
  case (2 e x bs k)
  have o: "e = b + of_nat p" "pieces D cuts b p (x # bs)" "sk_ofo k = x # bs \<or> sk_ofo k = []" using 2(6) by (simp_all add: ofo_ok_def)
  show ?case
  proof (cases "e < ofo_seq x")
    case True
    with idle_after_ofo[OF f 2(4) o(1,2)] have "pieces D cuts b (Suc p) (x # bs)" by simp
    moreover have "e' = e" "k' = k" using 2(2) True by simp_all
    ultimately have "received D cuts b X p (k'\<lparr>sk_rcv_nxt := e'\<rparr>)" using 2(3-5) o by (auto simp: received_def idle_ok_def)
    then show ?thesis ..
  next
    case False
    obtain rb where rb: "write_ring_buffer (sk_rcv_buf k) (ofo_payload x) = Some rb"
      "ofo_drain13 (ofo_seq_end x) bs (ofo_delete_first (k\<lparr>sk_rcv_buf := rb\<rparr>)) = Some (e', k')"
      using 2(2) False by (auto split: Option.bind_splits)
    from o(2) obtain m where m: "p \<le> m" "seg D cuts m (ofo_payload x)" "ofo_seq x = b + of_nat m"
      "ofo_seq_end x = b + of_nat (m + length (ofo_payload x))" "pieces D cuts b (m + length (ofo_payload x)) bs"
      by (auto simp del: of_nat_add)
    have "\<not> b + of_nat p < b + of_nat m" using False o(1) m(3) by simp
    then have mp: "m = p" using off_less[OF f 2(4)] seg_le[OF m(2)] m(1) by simp
    let ?k = "ofo_delete_first (k\<lparr>sk_rcv_buf := rb\<rparr>)"
    have kb: "sk_rcv_buf ?k = rb" "sk_ofo ?k = bs \<or> sk_ofo ?k = []" using o(3) by (auto simp: ofo_delete_first_def)
    from write_seg[OF 2(3,5) m(2)[unfolded mp] rb(1)] have w: "rb_inv (sk_rcv_buf ?k)"
      "X @ rb_contents (sk_rcv_buf ?k) = take (p + length (ofo_payload x)) D" by (simp_all add: kb)
    have "p + length (ofo_payload x) \<le> length D" using seg_le[OF m(2)] mp by simp
    moreover have "ofo_ok D cuts b (p + length (ofo_payload x)) ?k (ofo_seq_end x) bs" using m kb(2) mp by (simp add: ofo_ok_def)
    ultimately show ?thesis using 2(1)[OF False rb(1,2) w(1) _ w(2)] by blast
  qed
qed

lemma take_data13_spec:
  assumes f: "fits b D" and k: "received D cuts b X p k" and de: "describes D cuts b cb packet j pl" and st: "take_data13 cb packet k = Some k'"
  shows "\<exists>p'. received D cuts b X p' k'"
proof -
  have r: "rb_inv (sk_rcv_buf k)" "p \<le> length D" "X @ rb_contents (sk_rcv_buf k) = take p D" "sk_rcv_nxt k = b + of_nat p"
    "pieces D cuts b (Suc p) (sk_ofo k)" using k by (simp_all add: received_def idle_ok_def)
  have sg: "seg D cuts j pl" "cb_seq cb = b + of_nat j" "cb_seq_end cb = b + of_nat (j + length pl)"
    "cb_pl_len cb = int (length pl)" "ld_bytes packet (cb_payload cb) (length pl) = Some pl"
    using de by (simp_all add: describes_def)
  consider "sk_rcv_nxt k = cb_seq cb" | (ahead) "sk_rcv_nxt k \<noteq> cb_seq cb" "sk_rcv_nxt k < cb_seq cb"
    | (old) "sk_rcv_nxt k \<noteq> cb_seq cb" "\<not> sk_rcv_nxt k < cb_seq cb" by blast
  then show ?thesis
  proof cases
    case 1
    have pj: "p = j" using 1 r(4) sg(2) off_eq[OF f r(2), of j] seg_le[OF sg(1)] by simp
    note st = st[unfolded take_data13_def if_P[OF 1]]
    obtain rb e k1 where d: "write_ring_buffer (sk_rcv_buf k) pl = Some rb"
      "ofo_drain13 (cb_seq_end cb) (sk_ofo k) (k\<lparr>sk_rcv_buf := rb\<rparr>) = Some (e, k1)" "k' = k1\<lparr>sk_rcv_nxt := e\<rparr>"
      using st sg(4,5) by (auto split: Option.bind_splits if_splits)
    from write_seg[OF r(1,3) sg(1)[folded pj] d(1)] have w: "rb_inv (sk_rcv_buf (k\<lparr>sk_rcv_buf := rb\<rparr>))"
      "X @ rb_contents (sk_rcv_buf (k\<lparr>sk_rcv_buf := rb\<rparr>)) = take (p + length pl) D" by simp_all
    have "ofo_ok D cuts b (p + length pl) (k\<lparr>sk_rcv_buf := rb\<rparr>) (cb_seq_end cb) (sk_ofo k)"
      using pieces_jump[OF sg(1)[folded pj] r(5)] sg(3) pj by (simp add: ofo_ok_def)
    from ofo_drain13_spec[OF f d(2) w(1) _ w(2) this] seg_le[OF sg(1)] pj show ?thesis by (simp add: d(3))
  next
    case ahead
    note st = st[unfolded take_data13_def if_not_P[OF ahead(1)] if_P[OF ahead(2)]]
    let ?x = "\<lparr>ofo_seq = cb_seq cb, ofo_seq_end = cb_seq_end cb, ofo_payload = pl\<rparr>"
    obtain q c where q: "ofo_scan True ?x (sk_ofo k) = (q, c)" by (cases "ofo_scan True ?x (sk_ofo k)")
    have k': "sk_ofo k' = q" "sk_rcv_nxt k' = sk_rcv_nxt k" "sk_rcv_buf k' = sk_rcv_buf k"
      using st sg q by (auto simp: write_ofo_buffer_def Let_def split: if_splits)
    have "p < j" using ahead(2) r(4) sg(2) off_less[OF f r(2)] seg_le[OF sg(1)] by simp
    then have "pieces D cuts b (Suc p) q" using pieces_insert[OF f, of cuts "Suc p" "sk_ofo k" j ?x True q c] r(5) sg q by simp
    then have "received D cuts b X p k'" using r k' by (simp add: received_def idle_ok_def)
    then show ?thesis ..
  next
    case old
    with st k show ?thesis by (auto simp: take_data13_def)
  qed
qed

text \<open>Pieces of the stream arrive in any order and any number of times, the application reads.\<close>

inductive rx13 :: "bytes \<Rightarrow> nat set \<Rightarrow> u32 \<Rightarrow> addr \<Rightarrow> rd_pc \<times> tcp \<times> bytes \<Rightarrow> rd_pc \<times> tcp \<times> bytes \<Rightarrow> bool" for D cuts b i where
  arrive: "describes D cuts b cb packet j pl \<Longrightarrow> cb_flags cb = TCP_PSH OR TCP_ACK \<Longrightarrow> tcp_process13 (Some i) cb packet s = Some t \<Longrightarrow>
    rx13 D cuts b i (rd, s, got) (rd, t, got)"
| read_call: "rx13 D cuts b i (RdDone r, s, got) (tcp_sock_read i len, s, got @ r)"
| reader: "read12_step rd s = Some (rd', t) \<Longrightarrow> rx13 D cuts b i (rd, s, got) (rd', t, got)"
| reader_woken: "t_socks s i = Some k \<Longrightarrow> sw_notified (sk_wait_recv k) \<Longrightarrow> read12_resume rd s = Some (rd', t) \<Longrightarrow>
    rx13 D cuts b i (rd, s, got) (rd', t, got)"

definition rx13_ok :: "bytes \<Rightarrow> nat set \<Rightarrow> u32 \<Rightarrow> addr \<Rightarrow> rd_pc \<times> tcp \<times> bytes \<Rightarrow> bool" where
  "rx13_ok D cuts b i = (\<lambda>(rd, s, got). rd_sock i rd \<and>
     (\<exists>k p. t_socks s i = Some k \<and> received D cuts b (got @ in_hand rd) p k))"

lemma rx13_okI: "rd_sock i rd \<Longrightarrow> t_socks s i = Some k \<Longrightarrow> received D cuts b (got @ in_hand rd) p k \<Longrightarrow> rx13_ok D cuts b i (rd, s, got)"
  by (auto simp: rx13_ok_def)

lemma rx13_okE:
  assumes "rx13_ok D cuts b i (rd, s, got)"
  obtains k p where "rd_sock i rd" "t_socks s i = Some k" "received D cuts b (got @ in_hand rd) p k"
  using assms by (auto simp: rx13_ok_def)

lemma process13_data_eq:
  assumes "t_socks s i = Some k" "cb_flags cb = TCP_PSH OR TCP_ACK"
  shows "case take_data13 cb p (let k = noted13 cb k in if sk_state k = TCP_SYN_RECV then k\<lparr>sk_state := TCP_ESTABLISHED\<rparr> else k) of
      None \<Rightarrow> tcp_process13 (Some i) cb p s = None
    | Some k2 \<Rightarrow> \<exists>t k4. tcp_process13 (Some i) cb p s = Some t \<and> t_socks t i = Some k4 \<and>
        sk_rcv_buf k4 = sk_rcv_buf k2 \<and> sk_rcv_nxt k4 = sk_rcv_nxt k2 \<and> sk_ofo k4 = sk_ofo k2"
proof -
  define k1 where "k1 = (let k = noted13 cb k in if sk_state k = TCP_SYN_RECV then k\<lparr>sk_state := TCP_ESTABLISHED\<rparr> else k)"
  let ?s = "put_sk i (noted13 cb k) s"
  have s0: "t_socks ?s i = Some (noted13 cb k)" by simp
  note e = process13_data[OF assms, of p, unfolded tcp_rcv_data13_def s0 bind.bind_lunit, folded k1_def[unfolded Let_def], unfolded Let_def, folded k1_def[unfolded Let_def]]
  show ?thesis
  proof (cases "take_data13 cb p k1")
    case None
    then show ?thesis using e by (simp add: k1_def[symmetric])
  next
    case (Some k2)
    let ?k3 = "k2\<lparr>sk_wait_recv := wake_if_asleep (sk_wait_recv k2)\<rparr>"
    have s3: "t_socks (put_sk i ?k3 ?s) i = Some ?k3" by simp
    have c: "TCP_ACK AND (TCP_SYN OR TCP_FIN) = 0" by (simp add: tcp_flag_defs)
    obtain n where n: "tcp_send_control_packet i TCP_ACK (put_sk i ?k3 ?s) = Some ((put_sk i ?k3 ?s)\<lparr>t_net := n\<rparr>)"
      using tcp_send_control_total[OF s3, of TCP_ACK] unfolding c by auto
    let ?k4 = "?k3\<lparr>sk_wait_send := wake_if_asleep (sk_wait_send ?k3)\<rparr>"
    have s4: "t_socks ((put_sk i ?k3 ?s)\<lparr>t_net := n\<rparr>) i = Some ?k3" by simp
    have "tcp_process13 (Some i) cb p s = Some (put_sk i ?k4 ((put_sk i ?k3 ?s)\<lparr>t_net := n\<rparr>))"
      unfolding e Some bind.bind_lunit n upd_sk_Some[OF s4] ..
    then show ?thesis unfolding k1_def[symmetric] Some option.case
      by (intro exI[of _ "put_sk i ?k4 ((put_sk i ?k3 ?s)\<lparr>t_net := n\<rparr>)"] exI[of _ ?k4]) simp
  qed
qed

lemma rx13_arrive:
  assumes f: "fits b D" and inv: "rx13_ok D cuts b i (rd, s, got)" and de: "describes D cuts b cb packet j pl"
    and fl: "cb_flags cb = TCP_PSH OR TCP_ACK" and st: "tcp_process13 (Some i) cb packet s = Some t"
  shows "rx13_ok D cuts b i (rd, t, got)"
proof -
  obtain k p where k: "rd_sock i rd" "t_socks s i = Some k" "received D cuts b (got @ in_hand rd) p k" by (rule rx13_okE[OF inv])
  define k1 where "k1 = (let k = noted13 cb k in if sk_state k = TCP_SYN_RECV then k\<lparr>sk_state := TCP_ESTABLISHED\<rparr> else k)"
  have k1: "received D cuts b (got @ in_hand rd) p k1"
    by (rule received_same[OF k(3)]) (simp_all add: k1_def noted13_data[OF fl] Let_def)
  from process13_data_eq[OF k(2) fl, of packet, folded k1_def] st obtain k2 k4 where
    k2: "take_data13 cb packet k1 = Some k2" "t_socks t i = Some k4" "sk_rcv_buf k4 = sk_rcv_buf k2" "sk_rcv_nxt k4 = sk_rcv_nxt k2" "sk_ofo k4 = sk_ofo k2"
    by (auto split: option.splits)
  obtain p' where "received D cuts b (got @ in_hand rd) p' k2" using take_data13_spec[OF f k1 de k2(1)] by blast
  then have "received D cuts b (got @ in_hand rd) p' k4" by (rule received_same[OF _ k2(3-)])
  then show ?thesis by (rule rx13_okI[OF k(1) k2(2)])
qed

lemma rx13_reader:
  assumes inv: "rx13_ok D cuts b i (rd, s, got)" and st: "read12_step rd s = Some (rd', t)"
  shows "rx13_ok D cuts b i (rd', t, got)"
proof -
  obtain k p where k: "rd_sock i rd" "t_socks s i = Some k" "received D cuts b (got @ in_hand rd) p k" by (rule rx13_okE[OF inv])
  show ?thesis
  proof (cases rd)
    case (RdHead x len)
    with k(1) have x: "x = i" by simp
    show ?thesis
    proof (cases "ring_buffer_empty (sk_rcv_buf k)")
      case True
      then have "rd' = RdWait i len" "t = s" using st RdHead x k(2) by simp_all
      with k RdHead show ?thesis by (auto intro: rx13_okI)
    next
      case False
      have "rb_inv (sk_rcv_buf k)" using k(3) by (simp add: received_def)
      then obtain rb where rb: "read_ring_buffer (sk_rcv_buf k) len = Some (take (nat len) (rb_contents (sk_rcv_buf k)), rb)"
        "rb_inv rb" "rb_contents rb = drop (nat len) (rb_contents (sk_rcv_buf k))" using read_ring_buffer_spec by blast
      have e: "rd' = RdDone (take (nat len) (rb_contents (sk_rcv_buf k)))" "t = put_sk i (k\<lparr>sk_rcv_buf := rb\<rparr>) s"
        using st False unfolding RdHead x read12_step.simps k(2) bind.bind_lunit rb(1) by simp_all
      have "received D cuts b (got @ in_hand rd') p (k\<lparr>sk_rcv_buf := rb\<rparr>)"
        using k(3) rb RdHead unfolding e(1) by (simp add: received_def idle_ok_def)
      then show ?thesis unfolding e by (intro rx13_okI) simp_all
    qed
  next
    case (RdWait x len)
    with k(1) have x: "x = i" by simp
    obtain u where u: "t = put_sk i (k\<lparr>sk_wait_recv := u\<rparr>) s" "rd' = RdSleep i len \<or> rd' = RdHead i len"
      using st unfolding RdWait x read12_step.simps k(2) bind.bind_lunit by (auto split: sleep_result.splits prod.splits)
    have "received D cuts b (got @ in_hand rd') p (k\<lparr>sk_wait_recv := u\<rparr>)"
      by (rule received_same) (use k(3) RdWait u(2) in auto)
    then show ?thesis unfolding u(1) by (rule rx13_okI[rotated 2]) (use u(2) in auto)
  qed (use st inv in auto)
qed

lemma rx13_reader_woken:
  assumes inv: "rx13_ok D cuts b i (rd, s, got)" and st: "read12_resume rd s = Some (rd', t)"
  shows "rx13_ok D cuts b i (rd', t, got)"
proof (cases rd)
  case (RdSleep x len)
  obtain k p where k: "rd_sock i rd" "t_socks s i = Some k" "received D cuts b (got @ in_hand rd) p k" by (rule rx13_okE[OF inv])
  let ?k = "k\<lparr>sk_wait_recv := snd (sleep_on_resume (sk_wait_recv k))\<rparr>"
  from k(1) RdSleep have x: "x = i" by simp
  have e: "rd' = RdHead i len" "t = put_sk i ?k s"
    using st unfolding RdSleep x read12_resume.simps upd_sk_Some[OF k(2)] bind.bind_lunit by (simp_all only: option.inject prod.inject)
  have "received D cuts b (got @ in_hand rd') p ?k" by (rule received_same) (use k(3) RdSleep e(1) in simp_all)
  then show ?thesis unfolding e by (intro rx13_okI) simp_all
qed (use assms in auto)

lemma rx13_runs_ok:
  assumes f: "fits b D"
  shows "(rx13 D cuts b i)\<^sup>*\<^sup>* x y \<Longrightarrow> rx13_ok D cuts b i x \<Longrightarrow> rx13_ok D cuts b i y"
proof (induction rule: rtranclp_induct)
  case (step y z)
  from step(2) step(3)[OF step(4)] show ?case
  proof (induction rule: rx13.induct)
    case (read_call r s got len)
    then show ?case by (auto simp: rx13_ok_def tcp_sock_read_def)
  qed (blast intro: rx13_arrive[OF f] rx13_reader rx13_reader_woken)+
qed simp

section \<open>Properties\<close>



end
