(* ===== verification/Route_Import.thy ===== *)
theory Route_Import
  imports Routing
begin

text \<open>
  Loading the forwarding table from the kernel, \<open>rtable_internal.c\<close> of prj14: the loop that receives the
  datagrams of a netlink dump and the parser of its messages and attributes. The layout of the
  messages and the macros \<open>NLMSG_OK\<close>, \<open>NLMSG_NEXT\<close>, \<open>RTA_OK\<close>, \<open>RTA_NEXT\<close>, \<open>RTM_PAYLOAD\<close> are those of the manual
  pages netlink(3) and rtnetlink(3). The kernel is a parameter: the datagrams it sends, and the names
  it gives to interface numbers.
\<close>

section \<open>Results\<close>

text \<open>Besides undefined behaviour there are two ways not to return: \<open>exit\<close>, and waiting for a datagram
  that does not come.\<close>

datatype 'a outcome = Ok 'a | Exits | Undefined | Blocks

fun and_then :: "'a outcome \<Rightarrow> ('a \<Rightarrow> 'b outcome) \<Rightarrow> 'b outcome" where
  "and_then (Ok x) f = f x"
| "and_then Exits f = Exits"
| "and_then Undefined f = Undefined"
| "and_then Blocks f = Blocks"

definition defined :: "'a option \<Rightarrow> 'a outcome" where
  "defined x = (case x of None \<Rightarrow> Undefined | Some y \<Rightarrow> Ok y)"

definition or_exit :: "'a option \<Rightarrow> 'a outcome" where
  "or_exit x = (case x of None \<Rightarrow> Exits | Some y \<Rightarrow> Ok y)"

lemma lift_simps [simp]: "defined None = Undefined" "defined (Some y) = Ok y" "or_exit None = Exits" "or_exit (Some y) = Ok y"
  by (simp_all add: defined_def or_exit_def)

section \<open>Netlink messages\<close>

definition rd8 :: "bytes \<Rightarrow> nat \<Rightarrow> u8 option" where
  "rd8 b q = do { w \<leftarrow> ld_bytes b q 1; Some (w ! 0) }"

definition rd16 :: "bytes \<Rightarrow> nat \<Rightarrow> u16 option" where
  "rd16 b q = do { w \<leftarrow> ld_bytes b q 2; Some (le16_dec (w ! 0) (w ! 1)) }"

definition rd32 :: "bytes \<Rightarrow> nat \<Rightarrow> u32 option" where
  "rd32 b q = do { w \<leftarrow> ld_bytes b q 4; Some (le32_dec (w ! 0) (w ! 1) (w ! 2) (w ! 3)) }"

definition align4 :: "nat \<Rightarrow> nat" where "align4 n = (n + 3) div 4 * 4"

definition NLMSG_ERROR :: u16 where "NLMSG_ERROR = 2"
definition NLMSG_DONE :: u16 where "NLMSG_DONE = 3"
definition RTA_DST :: u16 where "RTA_DST = 1"
definition RTA_OIF :: u16 where "RTA_OIF = 4"
definition RTA_GATEWAY :: u16 where "RTA_GATEWAY = 5"

lemmas nl_consts = NLMSG_ERROR_def NLMSG_DONE_def RTA_DST_def RTA_OIF_def RTA_GATEWAY_def

text \<open>\<open>NLMSG_OK\<close> and \<open>RTA_OK\<close>: the length of the message or attribute when there is one more.\<close>

definition NLMSG_OK :: "bytes \<Rightarrow> nat \<Rightarrow> int \<Rightarrow> nat option option" where
  "NLMSG_OK b p len =
     (if len < 16 then Some None
      else do { l \<leftarrow> rd32 b p; Some (if 16 \<le> unat l \<and> int (unat l) \<le> len then Some (unat l) else None) })"

definition RTA_OK :: "bytes \<Rightarrow> nat \<Rightarrow> int \<Rightarrow> nat option option" where
  "RTA_OK b q len =
     (if len < 4 then Some None
      else do { l \<leftarrow> rd16 b q; Some (if 4 \<le> unat l \<and> int (unat l) \<le> len then Some (unat l) else None) })"

lemma NLMSG_OK_bounds: "NLMSG_OK b p len = Some (Some l) \<Longrightarrow> 16 \<le> l \<and> int l \<le> len"
  by (auto simp: NLMSG_OK_def split: if_splits Option.bind_splits)

lemma RTA_OK_bounds: "RTA_OK b q len = Some (Some l) \<Longrightarrow> 4 \<le> l \<and> int l \<le> len"
  by (auto simp: RTA_OK_def split: if_splits Option.bind_splits)

lemma align4_ge: "n \<le> align4 n"
  by (simp add: align4_def)

section \<open>Attributes\<close>

text \<open>The local variables of one iteration of the outer loop. The array \<open>if_name\<close> is not initialised.\<close>

record route_vars =
  rv_dest :: u32
  rv_mask :: u32
  rv_gw :: u32
  rv_name :: "string option"

definition route_vars_init :: route_vars where
  "route_vars_init = \<lparr> rv_dest = 0, rv_mask = 0, rv_gw = 0, rv_name = None \<rparr>"

text \<open>\<open>0xFFFFFFFF << (32 - dst_len)\<close> is undefined unless the shift is between 0 and 31.\<close>

definition shifted_mask :: "u8 \<Rightarrow> u32 option" where
  "shifted_mask dl = (if 0 \<le> 32 - int (unat dl) \<and> 32 - int (unat dl) < 32
     then Some (push_bit (nat (32 - int (unat dl))) 0xFFFFFFFF) else None)"

definition if_index_to_name :: "(int \<Rightarrow> string option) \<Rightarrow> int \<Rightarrow> string outcome" where
  "if_index_to_name ifn i = and_then (or_exit (ifn i)) (\<lambda>s. if length s < 16 then Ok s else Undefined)"

definition read_attr :: "(int \<Rightarrow> string option) \<Rightarrow> bytes \<Rightarrow> u8 \<Rightarrow> nat \<Rightarrow> route_vars \<Rightarrow> route_vars outcome" where
  "read_attr ifn b dl q v =
     and_then (defined (rd16 b (q + 2))) (\<lambda>t.
       if t = RTA_DST then
         and_then (defined (rd32 b (q + 4))) (\<lambda>d.
         and_then (defined (shifted_mask dl)) (\<lambda>m. Ok (v\<lparr>rv_dest := htonl d, rv_mask := m\<rparr>)))
       else if t = RTA_GATEWAY then
         and_then (defined (rd32 b (q + 4))) (\<lambda>d. Ok (v\<lparr>rv_gw := htonl d\<rparr>))
       else if t = RTA_OIF then
         and_then (defined (rd32 b (q + 4))) (\<lambda>d.
         and_then (if_index_to_name ifn (sint d)) (\<lambda>s. Ok (v\<lparr>rv_name := Some s\<rparr>)))
       else Ok v)"

function attr_loop :: "(int \<Rightarrow> string option) \<Rightarrow> bytes \<Rightarrow> u8 \<Rightarrow> nat \<Rightarrow> int \<Rightarrow> route_vars \<Rightarrow> route_vars outcome" where
  "attr_loop ifn b dl q rtl v =
     (case RTA_OK b q rtl of
        None \<Rightarrow> Undefined
      | Some None \<Rightarrow> Ok v
      | Some (Some l) \<Rightarrow>
          and_then (read_attr ifn b dl q v) (\<lambda>v. attr_loop ifn b dl (q + align4 l) (rtl - int (align4 l)) v))"
  by pat_completeness auto
termination
proof (relation "measure (\<lambda>(ifn, b, dl, q, rtl, v). nat rtl)")
  fix ifn :: "int \<Rightarrow> string option" and b and dl :: u8 and q rtl and v v' :: route_vars and x l
  assume "RTA_OK b q rtl = Some x" "x = Some l"
  then show "((ifn, b, dl, q + align4 l, rtl - int (align4 l), v'), ifn, b, dl, q, rtl, v) \<in>
      measure (\<lambda>(ifn, b, dl, q, rtl, v). nat rtl)"
    using RTA_OK_bounds[of b q rtl l] align4_ge[of l] by simp
qed simp

declare attr_loop.simps [simp del]

section \<open>Messages\<close>

definition iface_by_name :: "string \<Rightarrow> iface list \<Rightarrow> iface option" where
  "iface_by_name s ifs = List.find (\<lambda>f. if_name f = s) ifs"

text \<open>One message of length \<open>l\<close> at \<open>p\<close>: no entry when it is of another table or its interface is unknown.\<close>

definition read_route :: "(int \<Rightarrow> string option) \<Rightarrow> iface list \<Rightarrow> bytes \<Rightarrow> nat \<Rightarrow> nat \<Rightarrow> rt_entry option outcome" where
  "read_route ifn ifs b p l =
     and_then (defined (rd8 b (p + 16 + 4))) (\<lambda>table.
       if table \<noteq> 254 then Ok None
       else
         and_then (defined (rd8 b (p + 16 + 1))) (\<lambda>dl.
         and_then (attr_loop ifn b dl (p + 16 + 12) (int l - 28) route_vars_init) (\<lambda>v.
         and_then (defined (rv_name v)) (\<lambda>s.
           (case iface_by_name s ifs of
              None \<Rightarrow> Ok None
            | Some f \<Rightarrow> and_then (defined (new_rt_entry (rv_dest v) (rv_mask v) (rv_gw v) f)) (\<lambda>e. Ok (Some e)))))))"

function route_loop :: "(int \<Rightarrow> string option) \<Rightarrow> iface list \<Rightarrow> bytes \<Rightarrow> nat \<Rightarrow> int \<Rightarrow> rtable \<Rightarrow> int \<Rightarrow> (rtable \<times> int) outcome" where
  "route_loop ifn ifs b p len rt n =
     (case NLMSG_OK b p len of
        None \<Rightarrow> Undefined
      | Some None \<Rightarrow> Ok (rt, n)
      | Some (Some l) \<Rightarrow>
          and_then (read_route ifn ifs b p l) (\<lambda>r.
            (case r of
               None \<Rightarrow> route_loop ifn ifs b (p + align4 l) (len - int (align4 l)) rt n
             | Some e \<Rightarrow> route_loop ifn ifs b (p + align4 l) (len - int (align4 l)) (add_rt_entry e rt) (n + 1))))"
  by pat_completeness auto
termination
proof (relation "measure (\<lambda>(ifn, ifs, b, p, len, rt, n). nat len)")
  fix ifn :: "int \<Rightarrow> string option" and ifs :: "iface list" and b p len and rt rt' :: rtable and n n' :: int and x l
  assume "NLMSG_OK b p len = Some x" "x = Some l"
  then have "nat (len - int (align4 l)) < nat len"
    using NLMSG_OK_bounds[of b p len l] align4_ge[of l] by simp
  then show "((ifn, ifs, b, p + align4 l, len - int (align4 l), rt, n), ifn, ifs, b, p, len, rt, n) \<in>
      measure (\<lambda>(ifn, ifs, b, p, len, rt, n). nat len)"
    and "((ifn, ifs, b, p + align4 l, len - int (align4 l), add_rt_entry e rt, n + 1), ifn, ifs, b, p, len, rt, n) \<in>
      measure (\<lambda>(ifn, ifs, b, p, len, rt, n). nat len)" for e by simp_all
qed simp

declare route_loop.simps [simp del]

definition parse_routing_info :: "(int \<Rightarrow> string option) \<Rightarrow> iface list \<Rightarrow> bytes \<Rightarrow> int \<Rightarrow> (rtable \<times> int) outcome" where
  "parse_routing_info ifn ifs b len = route_loop ifn ifs b 0 len [] 0"

section \<open>Receiving the dump\<close>

text \<open>What \<open>recv\<close> returns; a datagram that does not fit is cut off.\<close>

datatype recv_result = Datagram bytes | Recv_Failed

fun receive_loop :: "recv_result list \<Rightarrow> bytes \<Rightarrow> nat \<Rightarrow> (bytes \<times> int) outcome" where
  "receive_loop rs b len =
     (let left = length b - len in
      if left < 16 then Exits
      else (case rs of
          [] \<Rightarrow> Blocks
        | Recv_Failed # rs \<Rightarrow> Ok (b, int len)
        | Datagram d # rs \<Rightarrow>
            let d = take left d; b = blit len d b in
            if d = [] then Ok (b, int len)
            else and_then (defined (rd16 b (len + 4))) (\<lambda>t.
              if t = NLMSG_DONE then Ok (b, int len)
              else if t = NLMSG_ERROR then Exits
              else receive_loop rs b (len + length d))))"

declare receive_loop.simps [simp del]

text \<open>The request: a \<open>nlmsghdr\<close>, a \<open>rtmsg\<close> and a buffer of zeros. \<open>sent\<close> says whether \<open>send\<close> takes it.\<close>

definition ROUTE_BATCH_SIZE :: nat where "ROUTE_BATCH_SIZE = 10240"

definition route_request :: bytes where
  "route_request = le32_enc 28 @ le16_enc 26 @ le16_enc 0x301 @ replicate 8 0 @ [2, 0, 0, 0, 254] @ replicate 7 0 @
     replicate ROUTE_BATCH_SIZE 0"

definition get_unparsed_route_info :: "(bytes \<Rightarrow> bool) \<Rightarrow> recv_result list \<Rightarrow> bytes \<Rightarrow> (bytes \<times> int) outcome" where
  "get_unparsed_route_info sent rs b = (if sent route_request then receive_loop rs b 0 else Exits)"

text \<open>\<open>b\<close> is what the array of \<open>ROUTE_BATCH_SIZE\<close> bytes on the stack holds before.\<close>

definition load_rtable_from_kernel ::
  "(int \<Rightarrow> string option) \<Rightarrow> (bytes \<Rightarrow> bool) \<Rightarrow> iface list \<Rightarrow> recv_result list \<Rightarrow> bytes \<Rightarrow> (rtable \<times> int) outcome" where
  "load_rtable_from_kernel ifn sent ifs rs b =
     and_then (get_unparsed_route_info sent rs b) (\<lambda>(b, len). parse_routing_info ifn ifs b len)"

section \<open>The dump of a table\<close>

text \<open>The messages the kernel sends: attributes are padded to multiples of four bytes.\<close>

definition attr_enc :: "u16 \<times> bytes \<Rightarrow> bytes" where
  "attr_enc a = le16_enc (of_nat (4 + length (snd a))) @ le16_enc (fst a) @ snd a @
     replicate (align4 (length (snd a)) - length (snd a)) 0"

record kroute =
  kr_type :: u16
  kr_nl :: bytes
  kr_family :: u8
  kr_dst_len :: u8
  kr_src_tos :: bytes
  kr_table :: u8
  kr_tail :: bytes
  kr_attrs :: "(u16 \<times> bytes) list"

definition attrs_enc :: "kroute \<Rightarrow> bytes" where
  "attrs_enc r = concat (map attr_enc (kr_attrs r))"

definition kroute_enc :: "kroute \<Rightarrow> bytes" where
  "kroute_enc r = le32_enc (of_nat (28 + length (attrs_enc r))) @ le16_enc (kr_type r) @ kr_nl r @
     [kr_family r, kr_dst_len r] @ kr_src_tos r @ [kr_table r] @ kr_tail r @ attrs_enc r"

definition kroute_wf :: "kroute \<Rightarrow> bool" where
  "kroute_wf r \<longleftrightarrow> length (kr_nl r) = 10 \<and> length (kr_src_tos r) = 2 \<and> length (kr_tail r) = 7 \<and>
     28 + length (attrs_enc r) < 2 ^ 32 \<and> (\<forall>a\<in>set (kr_attrs r). 4 + length (snd a) < 2 ^ 16) \<and>
     kr_type r \<noteq> NLMSG_DONE \<and> kr_type r \<noteq> NLMSG_ERROR"

text \<open>The meaning of a route: the last attribute of each type counts.\<close>

definition attr :: "kroute \<Rightarrow> u16 \<Rightarrow> bytes option" where
  "attr r t = map_of (rev (kr_attrs r)) t"

definition u32_of :: "bytes \<Rightarrow> u32" where
  "u32_of d = le32_dec (d ! 0) (d ! 1) (d ! 2) (d ! 3)"

definition kr_mask :: "kroute \<Rightarrow> u32" where
  "kr_mask r = push_bit (32 - unat (kr_dst_len r)) (-1)"

definition kr_iface :: "(int \<Rightarrow> string option) \<Rightarrow> iface list \<Rightarrow> kroute \<Rightarrow> iface option" where
  "kr_iface ifn ifs r = do { d \<leftarrow> attr r RTA_OIF; s \<leftarrow> ifn (sint (u32_of d)); iface_by_name s ifs }"

definition kr_entry :: "kroute \<Rightarrow> iface \<Rightarrow> rt_entry" where
  "kr_entry r f = \<lparr> rt_dest = (case attr r RTA_DST of None \<Rightarrow> 0 | Some d \<Rightarrow> htonl (u32_of d)),
     rt_mask = (case attr r RTA_DST of None \<Rightarrow> 0 | Some d \<Rightarrow> kr_mask r),
     rt_gw = (case attr r RTA_GATEWAY of None \<Rightarrow> 0 | Some d \<Rightarrow> htonl (u32_of d)),
     rt_flags = 0, rt_if_name = if_name f, rt_iface = f \<rparr>"

definition imported :: "(int \<Rightarrow> string option) \<Rightarrow> iface list \<Rightarrow> kroute list \<Rightarrow> rtable" where
  "imported ifn ifs rs = List.map_filter (\<lambda>r. if kr_table r = 254 then map_option (kr_entry r) (kr_iface ifn ifs r) else None) rs"

text \<open>What the parser relies on for a route of the main table: addresses of four bytes, a prefix length
  that is not zero when there is a destination, and an interface.\<close>

definition kroute_ok :: "(int \<Rightarrow> string option) \<Rightarrow> kroute \<Rightarrow> bool" where
  "kroute_ok ifn r \<longleftrightarrow> (\<forall>(t, d)\<in>set (kr_attrs r).
       (t \<in> {RTA_DST, RTA_GATEWAY, RTA_OIF} \<longrightarrow> length d = 4) \<and>
       (t = RTA_DST \<longrightarrow> 1 \<le> unat (kr_dst_len r) \<and> unat (kr_dst_len r) \<le> 32) \<and>
       (t = RTA_OIF \<longrightarrow> (\<exists>s. ifn (sint (u32_of d)) = Some s \<and> length s < 16))) \<and>
     RTA_OIF \<in> fst ` set (kr_attrs r)"

section \<open>Reading what was written\<close>

lemma align4_4 [simp]: "align4 (4 + n) = 4 + align4 n"
  unfolding align4_def by presburger

lemma length_le_enc [simp]: "length (le16_enc w) = 2" "length (le32_enc v) = 4"
  by (simp_all add: le16_enc_def le32_enc_def)

lemma length_attr_enc [simp]: "length (attr_enc a) = 4 + align4 (length (snd a))"
  using align4_ge[of "length (snd a)"] by (simp add: attr_enc_def le16_enc_def)

lemma rd_at:
  "rd8 (pre @ x # post) (length pre) = Some x"
  "rd16 (pre @ le16_enc w @ post) (length pre) = Some w"
  "rd32 (pre @ le32_enc v @ post) (length pre) = Some v"
  by (simp_all add: rd8_def rd16_def rd32_def ld_bytes_def le16_enc_def le32_enc_def codec_simps)

lemma rd32_four: "length d = 4 \<Longrightarrow> rd32 (pre @ d @ post) (length pre) = Some (u32_of d)"
  by (simp add: rd32_def ld_bytes_def u32_of_def nth_append)

lemma unat_of_nat_less: "n < 2 ^ LENGTH('a::len) \<Longrightarrow> unat (of_nat n :: 'a word) = n"
  by (simp add: unat_of_nat take_bit_nat_eq_self_iff)

text \<open>The parts of an attribute at their offsets.\<close>

lemma attr_at:
  fixes a :: "u16 \<times> bytes"
  assumes "4 + length (snd a) < 2 ^ 16"
  shows "rd16 (pre @ attr_enc a @ post) (length pre) = Some (of_nat (4 + length (snd a)))"
    "rd16 (pre @ attr_enc a @ post) (length pre + 2) = Some (fst a)"
    "length (snd a) = 4 \<Longrightarrow> rd32 (pre @ attr_enc a @ post) (length pre + 4) = Some (u32_of (snd a))"
proof -
  let ?l = "le16_enc (of_nat (4 + length (snd a)))" and ?t = "le16_enc (fst a)" and ?z = "replicate (align4 (length (snd a)) - length (snd a)) (0 :: u8)"
  have e: "pre @ attr_enc a @ post = pre @ ?l @ ?t @ snd a @ ?z @ post"
    by (simp add: attr_enc_def)
  show "rd16 (pre @ attr_enc a @ post) (length pre) = Some (of_nat (4 + length (snd a)))" unfolding e by (rule rd_at)
  show "rd16 (pre @ attr_enc a @ post) (length pre + 2) = Some (fst a)"
    using rd_at(2)[of "pre @ ?l" "fst a" "snd a @ ?z @ post"] unfolding e by simp
  show "rd32 (pre @ attr_enc a @ post) (length pre + 4) = Some (u32_of (snd a))" if "length (snd a) = 4"
    using rd32_four[OF that, of "pre @ ?l @ ?t" "?z @ post"] unfolding e by simp
qed

definition attr_ok :: "(int \<Rightarrow> string option) \<Rightarrow> u8 \<Rightarrow> u16 \<times> bytes \<Rightarrow> bool" where
  "attr_ok ifn dl = (\<lambda>(t, d). 4 + length d < 2 ^ 16 \<and>
     (t \<in> {RTA_DST, RTA_GATEWAY, RTA_OIF} \<longrightarrow> length d = 4) \<and> (t = RTA_DST \<longrightarrow> 1 \<le> unat dl \<and> unat dl \<le> 32) \<and>
     (t = RTA_OIF \<longrightarrow> (\<exists>s. ifn (sint (u32_of d)) = Some s \<and> length s < 16)))"

definition vars_after :: "(int \<Rightarrow> string option) \<Rightarrow> u8 \<Rightarrow> (u16 \<times> bytes) list \<Rightarrow> route_vars \<Rightarrow> route_vars" where
  "vars_after ifn dl as v = (let f = map_of (rev as) in v\<lparr>
     rv_dest := (case f RTA_DST of None \<Rightarrow> rv_dest v | Some d \<Rightarrow> htonl (u32_of d)),
     rv_mask := (case f RTA_DST of None \<Rightarrow> rv_mask v | Some d \<Rightarrow> push_bit (32 - unat dl) (-1)),
     rv_gw := (case f RTA_GATEWAY of None \<Rightarrow> rv_gw v | Some d \<Rightarrow> htonl (u32_of d)),
     rv_name := (case f RTA_OIF of None \<Rightarrow> rv_name v | Some d \<Rightarrow> ifn (sint (u32_of d)))\<rparr>)"

lemma vars_after_Nil: "vars_after ifn dl [] v = v"
  by (simp add: vars_after_def)

lemma vars_after_Cons: "vars_after ifn dl as (vars_after ifn dl [a] v) = vars_after ifn dl (a # as) v"
  by (cases a) (auto simp: vars_after_def Let_def map_add_def nl_consts split: option.split)

lemma shifted_mask_eq: "1 \<le> unat dl \<Longrightarrow> unat dl \<le> 32 \<Longrightarrow> shifted_mask dl = Some (push_bit (32 - unat dl) (-1))"
proof -
  assume "1 \<le> unat dl" "unat dl \<le> 32"
  then have "nat (32 - int (unat dl)) = 32 - unat dl" "0 \<le> 32 - int (unat dl)" "32 - int (unat dl) < 32" by linarith+
  moreover have "0xFFFFFFFF = (-1 :: u32)" by simp
  ultimately show ?thesis by (simp only: shifted_mask_def if_True simp_thms)
qed

lemma read_attr_at:
  assumes "attr_ok ifn dl a"
  shows "read_attr ifn (pre @ attr_enc a @ post) dl (length pre) v = Ok (vars_after ifn dl [a] v)"
proof -
  obtain t d where a: "a = (t, d)" by (cases a)
  have l: "4 + length (snd a) < 2 ^ 16" using assms by (simp add: attr_ok_def a)
  note at = attr_at(2,3)[OF l, of pre post]
  consider (dst) "t = RTA_DST" | (gw) "t = RTA_GATEWAY" | (oif) "t = RTA_OIF" | (other) "t \<notin> {RTA_DST, RTA_GATEWAY, RTA_OIF}" by blast
  then show ?thesis
  proof cases
    case dst
    then show ?thesis using assms at shifted_mask_eq[of dl]
      by (simp add: read_attr_def a attr_ok_def vars_after_def nl_consts)
  next
    case gw
    then show ?thesis using assms at by (simp add: read_attr_def a attr_ok_def vars_after_def nl_consts)
  next
    case oif
    then show ?thesis using assms at by (auto simp: read_attr_def a attr_ok_def vars_after_def nl_consts if_index_to_name_def)
  next
    case other
    then show ?thesis using at by (auto simp: read_attr_def a vars_after_def)
  qed
qed

lemma attr_loop_at:
  "\<forall>a\<in>set as. attr_ok ifn dl a \<Longrightarrow>
    attr_loop ifn (pre @ concat (map attr_enc as) @ post) dl (length pre) (int (length (concat (map attr_enc as)))) v =
      Ok (vars_after ifn dl as v)"
proof (induction as arbitrary: pre v)
  case Nil
  show ?case by (simp add: attr_loop.simps RTA_OK_def vars_after_Nil)
next
  case (Cons a as)
  let ?rest = "concat (map attr_enc as)" and ?n = "4 + length (snd a)"
  have l: "?n < 2 ^ 16" using Cons.prems by (simp add: attr_ok_def split_beta)
  then have n: "unat (of_nat ?n :: u16) = ?n" by (intro unat_of_nat_less) simp
  then have u: "uint (of_nat ?n :: u16) = int ?n" by (metis of_nat_unat)
  have ok: "RTA_OK (pre @ attr_enc a @ ?rest @ post) (length pre) (int (length (attr_enc a @ ?rest))) = Some (Some ?n)"
    using attr_at(1)[OF l, of pre "?rest @ post"] n u align4_ge[of "length (snd a)"]
    by (simp add: RTA_OK_def del: of_nat_add of_nat_numeral)
  have "read_attr ifn (pre @ attr_enc a @ ?rest @ post) dl (length pre) v = Ok (vars_after ifn dl [a] v)"
    by (rule read_attr_at) (use Cons.prems in simp)
  moreover have "attr_loop ifn ((pre @ attr_enc a) @ ?rest @ post) dl (length (pre @ attr_enc a)) (int (length ?rest)) (vars_after ifn dl [a] v) =
      Ok (vars_after ifn dl as (vars_after ifn dl [a] v))" by (rule Cons.IH) (use Cons.prems in simp)
  moreover have "int (length (attr_enc a @ ?rest)) - int (align4 ?n) = int (length ?rest)" "length pre + align4 ?n = length (pre @ attr_enc a)"
    by simp_all
  ultimately show ?case
    by (subst attr_loop.simps) (simp add: ok vars_after_Cons del: length_append align4_4)
qed

text \<open>A message is its 28 bytes of headers followed by its attributes.\<close>

definition kroute_hdr :: "kroute \<Rightarrow> bytes" where
  "kroute_hdr r = le32_enc (of_nat (28 + length (attrs_enc r))) @ le16_enc (kr_type r) @ kr_nl r @
     [kr_family r, kr_dst_len r] @ kr_src_tos r @ [kr_table r] @ kr_tail r"

lemma kroute_split: "kroute_enc r = kroute_hdr r @ attrs_enc r"
  by (simp add: kroute_enc_def kroute_hdr_def)

lemma length_kroute_hdr [simp]: "kroute_wf r \<Longrightarrow> length (kroute_hdr r) = 28"
  by (simp add: kroute_hdr_def kroute_wf_def)

lemma kroute_at:
  assumes "kroute_wf r"
  shows "rd32 (pre @ kroute_hdr r @ post) (length pre) = Some (of_nat (28 + length (attrs_enc r)))"
    "rd16 (pre @ kroute_hdr r @ post) (length pre + 4) = Some (kr_type r)"
    "rd8 (pre @ kroute_hdr r @ post) (length pre + 16 + 1) = Some (kr_dst_len r)"
    "rd8 (pre @ kroute_hdr r @ post) (length pre + 16 + 4) = Some (kr_table r)"
proof -
  let ?l = "le32_enc (of_nat (28 + length (attrs_enc r)))" and ?t = "le16_enc (kr_type r)"
  have n: "length (kr_nl r) = 10" "length (kr_src_tos r) = 2" using assms by (simp_all add: kroute_wf_def)
  have e: "pre @ kroute_hdr r @ post = pre @ ?l @ ?t @ kr_nl r @ kr_family r # kr_dst_len r # kr_src_tos r @ kr_table r # kr_tail r @ post"
    by (simp add: kroute_hdr_def)
  show "rd32 (pre @ kroute_hdr r @ post) (length pre) = Some (of_nat (28 + length (attrs_enc r)))" unfolding e by (rule rd_at)
  show "rd16 (pre @ kroute_hdr r @ post) (length pre + 4) = Some (kr_type r)"
    using rd_at(2)[of "pre @ ?l"] unfolding e by simp
  show "rd8 (pre @ kroute_hdr r @ post) (length pre + 16 + 1) = Some (kr_dst_len r)"
    using rd_at(1)[of "pre @ ?l @ ?t @ kr_nl r @ [kr_family r]"] n unfolding e by (simp add: add.commute)
  show "rd8 (pre @ kroute_hdr r @ post) (length pre + 16 + 4) = Some (kr_table r)"
    using rd_at(1)[of "pre @ ?l @ ?t @ kr_nl r @ kr_family r # kr_dst_len r # kr_src_tos r"] n unfolding e by (simp add: add.commute)
qed

lemma align4_dvd: "4 dvd n \<Longrightarrow> align4 n = n"
  unfolding align4_def by presburger

lemma align4_msg [simp]: "align4 (28 + length (attrs_enc r)) = 28 + length (attrs_enc r)"
proof (rule align4_dvd)
  have "4 dvd length (concat (map attr_enc as))" for as
    by (induction as) (auto simp: align4_def)
  then show "4 dvd 28 + length (attrs_enc r)" by (simp add: attrs_enc_def)
qed

definition route_read :: "(int \<Rightarrow> string option) \<Rightarrow> iface list \<Rightarrow> kroute \<Rightarrow> rt_entry option" where
  "route_read ifn ifs r = (if kr_table r = 254 then map_option (kr_entry r) (kr_iface ifn ifs r) else None)"

lemma imported_read: "imported ifn ifs rs = List.map_filter (route_read ifn ifs) rs"
  by (simp add: imported_def route_read_def[abs_def])

lemma attr_oif:
  assumes "kroute_ok ifn r"
  obtains d s where "attr r RTA_OIF = Some d" "ifn (sint (u32_of d)) = Some s" "length s < 16"
proof -
  have "attr r RTA_OIF \<noteq> None" using assms by (simp add: attr_def kroute_ok_def map_of_eq_None_iff)
  then obtain d where d: "attr r RTA_OIF = Some d" by blast
  then have "(RTA_OIF, d) \<in> set (kr_attrs r)" using map_of_SomeD[of "rev (kr_attrs r)" RTA_OIF d] by (simp add: attr_def)
  with assms d that show thesis by (auto simp: kroute_ok_def)
qed

lemma read_route_at:
  assumes wf: "kroute_wf r" and ok: "kr_table r = 254 \<longrightarrow> kroute_ok ifn r" and names: "\<forall>f\<in>set ifs. length (if_name f) < 16"
  shows "read_route ifn ifs (pre @ kroute_enc r @ post) (length pre) (28 + length (attrs_enc r)) = Ok (route_read ifn ifs r)"
proof (cases "kr_table r = 254")
  case False
  then show ?thesis using kroute_at(4)[OF wf, of pre "attrs_enc r @ post"]
    by (simp add: read_route_def route_read_def kroute_split)
next
  case True
  with ok have r: "kroute_ok ifn r" by simp
  from attr_oif[OF r] obtain d s where d: "attr r RTA_OIF = Some d" "ifn (sint (u32_of d)) = Some s" .
  let ?v = "vars_after ifn (kr_dst_len r) (kr_attrs r) route_vars_init"
  have "attr_loop ifn ((pre @ kroute_hdr r) @ concat (map attr_enc (kr_attrs r)) @ post) (kr_dst_len r) (length (pre @ kroute_hdr r))
      (int (length (concat (map attr_enc (kr_attrs r))))) route_vars_init = Ok ?v"
    by (rule attr_loop_at) (use wf r in \<open>auto simp: attr_ok_def kroute_wf_def kroute_ok_def\<close>)
  then have loop: "attr_loop ifn (pre @ kroute_hdr r @ attrs_enc r @ post) (kr_dst_len r) (28 + length pre) (int (length (attrs_enc r))) route_vars_init = Ok ?v"
    using wf by (simp add: attrs_enc_def add.commute)
  have v: "rv_name ?v = Some s" "kr_entry r f = \<lparr> rt_dest = rv_dest ?v, rt_mask = rv_mask ?v, rt_gw = rv_gw ?v, rt_flags = 0,
      rt_if_name = if_name f, rt_iface = f \<rparr>" for f
    using d by (simp_all add: vars_after_def Let_def attr_def route_vars_init_def kr_entry_def kr_mask_def cong: option.case_cong)
  have "length (if_name f) < 16" if "iface_by_name s ifs = Some f" for f
    using that names by (auto simp: iface_by_name_def find_Some_split)
  then show ?thesis
    using kroute_at(3,4)[OF wf, of pre "attrs_enc r @ post"] loop v d True
    by (auto simp: read_route_def route_read_def kroute_split kr_iface_def new_rt_entry_def split: option.split)
qed

lemma route_loop_at:
  assumes "\<forall>r\<in>set rs. kroute_wf r \<and> (kr_table r = 254 \<longrightarrow> kroute_ok ifn r)" "\<forall>f\<in>set ifs. length (if_name f) < 16"
  shows "route_loop ifn ifs (pre @ concat (map kroute_enc rs) @ post) (length pre) (int (length (concat (map kroute_enc rs)))) rt n =
    Ok (rt @ imported ifn ifs rs, n + int (length (imported ifn ifs rs)))"
  using assms(1)
proof (induction rs arbitrary: pre rt n)
  case Nil
  show ?case by (simp add: route_loop.simps NLMSG_OK_def imported_def)
next
  case (Cons r rs)
  let ?rest = "concat (map kroute_enc rs)" and ?l = "28 + length (attrs_enc r)"
  have wf: "kroute_wf r" and ok: "kr_table r = 254 \<longrightarrow> kroute_ok ifn r" using Cons.prems by simp_all
  have l: "length (kroute_enc r) = ?l" using wf by (simp add: kroute_split)
  have "?l < 2 ^ LENGTH(32)" using wf by (simp add: kroute_wf_def)
  then have n: "unat (of_nat ?l :: u32) = ?l" by (rule unat_of_nat_less)
  have u: "uint (of_nat ?l :: u32) = int ?l" using n by (metis of_nat_unat)
  have nl: "NLMSG_OK (pre @ kroute_enc r @ ?rest @ post) (length pre) (int (length (kroute_enc r @ ?rest))) = Some (Some ?l)"
    using kroute_at(1)[OF wf, of pre "attrs_enc r @ ?rest @ post"] n u l
    by (simp add: NLMSG_OK_def kroute_split del: of_nat_add of_nat_numeral)
  have rd: "read_route ifn ifs (pre @ kroute_enc r @ ?rest @ post) (length pre) ?l = Ok (route_read ifn ifs r)"
    by (rule read_route_at[OF wf ok assms(2)])
  have IH: "route_loop ifn ifs (pre @ kroute_enc r @ ?rest @ post) (length pre + ?l) (int (length ?rest)) rt n =
      Ok (rt @ imported ifn ifs rs, n + int (length (imported ifn ifs rs)))" for rt n
    using Cons.IH[of "pre @ kroute_enc r" rt n] Cons.prems l by simp
  have len: "int (length (kroute_enc r @ ?rest)) - int (align4 ?l) = int (length ?rest)" "length pre + align4 ?l = length pre + ?l"
    using l by simp_all
  show ?case
    by (subst route_loop.simps)
      (simp add: nl rd len IH imported_read List.map_filter_def add_rt_entry_def split: option.split del: length_append align4_msg)
qed

section \<open>The receive loop\<close>

definition dump :: "kroute list list \<Rightarrow> recv_result list" where
  "dump dss = map (\<lambda>rs. Datagram (concat (map kroute_enc rs))) dss"

definition done_msg :: "u32 \<Rightarrow> bytes \<Rightarrow> bytes" where
  "done_msg l d = le32_enc l @ le16_enc NLMSG_DONE @ d"

lemma take_blit: "off \<le> length b \<Longrightarrow> take (off + length d) (blit off d b) = take off b @ d"
  by (simp add: blit_def)

lemma rd16_blit: "6 \<le> length d \<Longrightarrow> off + length d \<le> length b \<Longrightarrow> rd16 (blit off d b) (off + 4) = rd16 d 4"
proof -
  assume "6 \<le> length d" "off + length d \<le> length b"
  moreover from this have "take 2 (drop (off + 4) (blit off d b)) = take 2 (drop 4 d)" by (simp add: blit_def)
  ultimately show ?thesis by (simp add: rd16_def ld_bytes_def length_blit)
qed

lemma datagram_type:
  assumes "kroute_wf r" "16 \<le> n"
  shows "6 \<le> length (take n (concat (map kroute_enc (r # rs))))" "rd16 (take n (concat (map kroute_enc (r # rs)))) 4 = Some (kr_type r)"
proof -
  let ?e = "le32_enc (of_nat (28 + length (attrs_enc r))) @ le16_enc (kr_type r)"
  obtain t where e: "concat (map kroute_enc (r # rs)) = ?e @ t" by (simp add: kroute_enc_def)
  then have "take n (concat (map kroute_enc (r # rs))) = ?e @ take (n - 6) t" using assms(2) by simp
  then show "rd16 (take n (concat (map kroute_enc (r # rs)))) 4 = Some (kr_type r)"
    using rd_at(2)[of "le32_enc (of_nat (28 + length (attrs_enc r)))" "kr_type r" "take (n - 6) t"] by simp
  show "6 \<le> length (take n (concat (map kroute_enc (r # rs))))" using assms by (simp add: kroute_split)
qed

text \<open>One datagram of routes, cut off to the room left.\<close>

lemma receive_routes:
  assumes rs: "rs \<noteq> []" "\<forall>r\<in>set rs. kroute_wf r" and n: "len + 16 \<le> length b"
  defines "d \<equiv> take (length b - len) (concat (map kroute_enc rs))"
  shows "receive_loop (Datagram (concat (map kroute_enc rs)) # evs) b len = receive_loop evs (blit len d b) (len + length d)"
proof -
  obtain r rs' where r: "rs = r # rs'" "kroute_wf r" using rs by (cases rs) auto
  have n16: "16 \<le> length b - len" using n by simp
  from datagram_type[OF r(2) n16, of rs'] have d: "6 \<le> length d" "rd16 d 4 = Some (kr_type r)" by (simp_all only: d_def r(1))
  have "len + length d \<le> length b" using n by (simp add: d_def)
  with d have t: "rd16 (blit len d b) (len + 4) = Some (kr_type r)" by (simp add: rd16_blit)
  have "kr_type r \<noteq> NLMSG_DONE" "kr_type r \<noteq> NLMSG_ERROR" "d \<noteq> []" using r(2) d(1) by (auto simp: kroute_wf_def)
  then show ?thesis using n16 t by (simp add: receive_loop.simps[of "Datagram _ # _"] Let_def d_def[symmetric])
qed

lemma receive_dump:
  assumes "\<forall>rs\<in>set dss. rs \<noteq> [] \<and> (\<forall>r\<in>set rs. kroute_wf r)"
    and "len + length (concat (map kroute_enc (concat dss))) + 16 \<le> length b"
  shows "\<exists>b'. receive_loop (dump dss @ Datagram (done_msg l d) # evs) b len = Ok (b', int (len + length (concat (map kroute_enc (concat dss))))) \<and>
    length b' = length b \<and> take (len + length (concat (map kroute_enc (concat dss)))) b' = take len b @ concat (map kroute_enc (concat dss))"
  using assms
proof (induction dss arbitrary: b len)
  case Nil
  let ?d = "take (length b - len) (done_msg l d)"
  have n: "16 \<le> length b - len" using Nil.prems by simp
  then have e: "?d = le32_enc l @ le16_enc NLMSG_DONE @ take (length b - len - 6) d" by (simp add: done_msg_def add.commute)
  have t: "rd16 ?d 4 = Some NLMSG_DONE" using rd_at(2)[of "le32_enc l"] unfolding e by simp
  have d6: "6 \<le> length ?d" unfolding e by simp
  have le: "len + length ?d \<le> length b" using n by simp
  have "rd16 (blit len ?d b) (len + 4) = Some NLMSG_DONE" using rd16_blit[OF d6 le] t by simp
  moreover have "?d \<noteq> []" using d6 by auto
  ultimately have "receive_loop (dump [] @ Datagram (done_msg l d) # evs) b len = Ok (blit len ?d b, int len)"
    using n by (simp add: receive_loop.simps[of "Datagram _ # _"] dump_def Let_def)
  moreover have "take len (blit len ?d b) = take len b" using le by (simp add: blit_def)
  ultimately show ?case using le by (simp add: length_blit)
next
  case (Cons rs dss)
  let ?c = "concat (map kroute_enc rs)"
  have fit: "len + length ?c \<le> length b" using Cons.prems(2) by simp
  then have tk: "take (length b - len) ?c = ?c" by simp
  have step: "receive_loop (dump (rs # dss) @ Datagram (done_msg l d) # evs) b len =
      receive_loop (dump dss @ Datagram (done_msg l d) # evs) (blit len ?c b) (len + length ?c)"
    using receive_routes[of rs len b "dump dss @ Datagram (done_msg l d) # evs"] Cons.prems unfolding tk by (simp add: dump_def)
  have "len + length ?c + length (concat (map kroute_enc (concat dss))) + 16 \<le> length (blit len ?c b)"
    using Cons.prems(2) fit by (simp add: length_blit)
  from Cons.IH[OF _ this] Cons.prems(1) obtain b' where
    "receive_loop (dump dss @ Datagram (done_msg l d) # evs) (blit len ?c b) (len + length ?c) =
       Ok (b', int (len + length ?c + length (concat (map kroute_enc (concat dss)))))"
    "length b' = length (blit len ?c b)"
    "take (len + length ?c + length (concat (map kroute_enc (concat dss)))) b' =
       take (len + length ?c) (blit len ?c b) @ concat (map kroute_enc (concat dss))" by auto
  then show ?case using fit step by (intro exI[of _ b']) (simp add: length_blit take_blit add.assoc)
qed

lemma receive_blocks: "len + 16 \<le> length b \<Longrightarrow> receive_loop [] b len = Blocks"
proof -
  assume "len + 16 \<le> length b"
  then have "\<not> length b - len < 16" by linarith
  then show ?thesis by (simp add: receive_loop.simps[of "[]"] Let_def)
qed

lemma receive_too_large:
  assumes "\<forall>rs\<in>set dss. rs \<noteq> [] \<and> (\<forall>r\<in>set rs. kroute_wf r)" "len \<le> length b"
    and "length b < len + length (concat (map kroute_enc (concat dss))) + 16"
  shows "receive_loop (dump dss @ evs) b len = Exits"
  using assms
proof (induction dss arbitrary: b len)
  case Nil
  then have "length b - len < 16" by simp
  then show ?case by (simp add: receive_loop.simps[of _ b len] Let_def)
next
  case (Cons rs dss)
  show ?case
  proof (cases "len + 16 \<le> length b")
    case True
    let ?d = "take (length b - len) (concat (map kroute_enc rs))"
    have fit: "len + length ?d \<le> length b" using True by simp
    have step: "receive_loop (dump (rs # dss) @ evs) b len = receive_loop (dump dss @ evs) (blit len ?d b) (len + length ?d)"
      using receive_routes[of rs len b "dump dss @ evs"] Cons.prems(1) True by (simp add: dump_def)
    have "length b < len + length ?d + length (concat (map kroute_enc (concat dss))) + 16"
      using Cons.prems(3) True by (simp add: min_def)
    with Cons.IH[of "len + length ?d" "blit len ?d b"] Cons.prems(1) fit show ?thesis unfolding step by (simp add: length_blit)
  next
    case False
    then have "length b - len < 16" by linarith
    then show ?thesis by (simp add: receive_loop.simps[of _ b len] Let_def)
  qed
qed

section \<open>Properties\<close>


definition sample_kroute :: kroute where
  "sample_kroute = \<lparr> kr_type = 24, kr_nl = replicate 10 0, kr_family = 2, kr_dst_len = 24, kr_src_tos = [0, 0], kr_table = 254,
     kr_tail = replicate 7 0, kr_attrs = [(RTA_DST, [10, 0, 1, 0]), (RTA_GATEWAY, [10, 0, 2, 1]), (RTA_OIF, [2, 0, 0, 0])] \<rparr>"

definition sample_name :: "int \<Rightarrow> string option" where
  "sample_name i = (if i = 2 then Some (if_name sample_iface) else None)"

lemma sample_kroute_wf: "kroute_wf sample_kroute" "kroute_ok sample_name sample_kroute"
  by (auto simp: kroute_wf_def kroute_ok_def sample_kroute_def attrs_enc_def attr_enc_def align4_def nl_consts sample_name_def
      sample_iface_def u32_of_def le32_dec_def be32_dec_def)

lemma sample_mask: "NOT (mask 8) = (0xFFFFFF00 :: u32)"
  by (simp add: mask_eq_exp_minus_1)

lemma sample_imported: "imported sample_name [sample_iface] [sample_kroute] =
    [\<lparr> rt_dest = 0x0A000100, rt_mask = 0xFFFFFF00, rt_gw = 0x0A000201, rt_flags = 0, rt_if_name = ''r1-eth0'', rt_iface = sample_iface \<rparr>]"
  using sample_mask by (simp add: imported_def List.map_filter_def sample_kroute_def kr_iface_def attr_def nl_consts sample_name_def u32_of_def le32_dec_def
      be32_dec_def htonl_def iface_by_name_def kr_entry_def kr_mask_def) (simp add: sample_iface_def)


text \<open>A table that does not fit into the buffer ends the program, however it is cut into datagrams.\<close>

theorem large_table_exits:
  assumes "length b = ROUTE_BATCH_SIZE" "\<forall>rs\<in>set dss. rs \<noteq> []" "\<forall>r\<in>set (concat dss). kroute_wf r"
    and "ROUTE_BATCH_SIZE < length (concat (map kroute_enc (concat dss))) + 16"
  shows "load_rtable_from_kernel ifn sent ifs (dump dss @ evs) b = Exits"
proof -
  have "receive_loop (dump dss @ evs) b 0 = Exits" by (rule receive_too_large) (use assms in auto)
  then show ?thesis by (simp add: load_rtable_from_kernel_def get_unparsed_route_info_def)
qed

text \<open>The end of the dump is noticed only at the start of a datagram: behind routes it is taken for data, and
  the program waits for a datagram that does not come.\<close>

theorem done_behind_routes_blocks:
  assumes "sent route_request" "length b = ROUTE_BATCH_SIZE" "kroute_wf r" "length (kroute_enc r) + length (done_msg l d) + 16 \<le> ROUTE_BATCH_SIZE"
  shows "load_rtable_from_kernel ifn sent ifs [Datagram (kroute_enc r @ done_msg l d)] b = Blocks"
proof -
  let ?d = "kroute_enc r @ done_msg l d"
  let ?e = "le32_enc (of_nat (28 + length (attrs_enc r))) @ le16_enc (kr_type r)"
  have tk: "take (length b) ?d = ?d" "16 \<le> length b" using assms(2,4) by simp_all
  obtain t where e: "?d = ?e @ t" by (simp add: kroute_enc_def)
  then have ty: "rd16 ?d 4 = Some (kr_type r)" using rd_at(2)[of "le32_enc (of_nat (28 + length (attrs_enc r)))" "kr_type r" t] by simp
  have "6 \<le> length ?d" using assms(3) by (simp add: kroute_split)
  from rd16_blit[OF this, of 0 b] ty assms(2,4) have "rd16 (blit 0 ?d b) 4 = Some (kr_type r)" by simp
  moreover have "kroute_enc r \<noteq> []" "kr_type r \<noteq> NLMSG_DONE" "kr_type r \<noteq> NLMSG_ERROR" using assms(3) by (auto simp: kroute_wf_def kroute_enc_def le32_enc_def)
  ultimately have "receive_loop [Datagram ?d] b 0 = receive_loop [] (blit 0 ?d b) (length ?d)"
    using tk by (simp add: receive_loop.simps[of "[Datagram _]"] Let_def)
  also have "\<dots> = Blocks" by (rule receive_blocks) (use assms(2,4) in \<open>simp add: length_blit\<close>)
  finally show ?thesis using assms(1) by (simp add: load_rtable_from_kernel_def get_unparsed_route_info_def)
qed

text \<open>A route of the main table without an interface of its own, as one with several next hops: the name
  compared with those of the interfaces is read from an array nobody wrote.\<close>

theorem route_without_interface_undefined:
  assumes "kroute_wf r" "kr_table r = 254" "\<forall>a\<in>set (kr_attrs r). attr_ok ifn (kr_dst_len r) a \<and> fst a \<noteq> RTA_OIF"
  shows "read_route ifn ifs (pre @ kroute_enc r @ post) (length pre) (28 + length (attrs_enc r)) = Undefined"
proof -
  let ?v = "vars_after ifn (kr_dst_len r) (kr_attrs r) route_vars_init"
  have "attr_loop ifn ((pre @ kroute_hdr r) @ concat (map attr_enc (kr_attrs r)) @ post) (kr_dst_len r) (length (pre @ kroute_hdr r))
      (int (length (concat (map attr_enc (kr_attrs r))))) route_vars_init = Ok ?v"
    by (rule attr_loop_at) (use assms(3) in blast)
  then have loop: "attr_loop ifn (pre @ kroute_hdr r @ attrs_enc r @ post) (kr_dst_len r) (28 + length pre) (int (length (attrs_enc r))) route_vars_init = Ok ?v"
    using assms(1) by (simp add: attrs_enc_def add.commute)
  have "map_of (rev (kr_attrs r)) RTA_OIF = None" using assms(3) by (force simp: map_of_eq_None_iff)
  then have "rv_name ?v = None" by (simp add: vars_after_def Let_def route_vars_init_def)
  then show ?thesis
    using kroute_at(3,4)[OF assms(1), of pre "attrs_enc r @ post"] loop assms(2) by (simp add: read_route_def kroute_split)
qed

end
