(* ===== verification/Http.thy ===== *)
theory Http
  imports Nat_Config
begin

text \<open>
  The HTTP programs of prj03: the client (\<open>client.c\<close>), the server with one thread per connection
  (\<open>pthread-server.c\<close>) and the one that waits with \<open>select\<close> (\<open>select-server.c\<close>). Arrays are strings of their
  full length; the functions of the C library that read strings look for the NUL and are undefined
  without one. What \<open>recv\<close> delivers, which sends succeed and the files are parameters.
\<close>

section \<open>Strings in arrays\<close>

abbreviation nul :: char where "nul \<equiv> CHR 0x00"

definition c_str :: "string \<Rightarrow> string option" where
  "c_str m = (if nul \<in> set m then Some (c_string m) else None)"

definition BUFSIZE :: nat where "BUFSIZE = 3000"
definition CONTENT_SIZE03 :: nat where "CONTENT_SIZE03 = 2000"

definition crlf :: string where "crlf = [CHR 0x0D, CHR 0x0A]"

definition ok_text :: string where "ok_text = ''HTTP/1.1 200 OK'' @ crlf @ ''Content-Length: ''"
definition fail_text :: string where "fail_text = ''HTTP/1.1 404 File Not Found'' @ crlf @ crlf"

text \<open>\<open>%*s /%[^ ]\<close>\<close>

definition scan_request :: "string \<Rightarrow> string option" where
  "scan_request cs = (case scan_word cs of
     None \<Rightarrow> None
   | Some (_, cs) \<Rightarrow> (case dropWhile is_space cs of
       [] \<Rightarrow> None
     | c # cs \<Rightarrow> let w = takeWhile (\<lambda>c. c \<noteq> CHR '' '') cs in if c = CHR ''/'' \<and> w \<noteq> [] then Some w else None))"

text \<open>\<open>%*[^ ] %[^ ]\<close>\<close>

definition scan_state :: "string \<Rightarrow> string option" where
  "scan_state cs = (if takeWhile (\<lambda>c. c \<noteq> CHR '' '') cs = [] then None
     else let w = takeWhile (\<lambda>c. c \<noteq> CHR '' '') (dropWhile is_space (dropWhile (\<lambda>c. c \<noteq> CHR '' '') cs)) in
       if w = [] then None else Some w)"

section \<open>Serving a request\<close>

text \<open>The arrays of a connection. \<open>filename\<close> is \<open>None\<close> until a request has been read.\<close>

record server =
  sv_buf :: string
  sv_filename :: "string option"
  sv_out :: "string list"

text \<open>The loop over the pieces of a file. \<open>readbuf\<close> keeps what a shorter piece does not overwrite.\<close>

function send_pieces :: "(string \<Rightarrow> bool) \<Rightarrow> string \<Rightarrow> string \<Rightarrow> server \<Rightarrow> server option" where
  "send_pieces sent rest readbuf s =
     (if rest = [] then Some s
      else do {
        let piece = take CONTENT_SIZE03 rest;
        let readbuf = blit 0 piece readbuf;
        body \<leftarrow> c_str readbuf;
        let text = ok_text @ decimal (length piece) @ crlf @ crlf @ body;
        buf \<leftarrow> st_bytes (replicate BUFSIZE nul) 0 (text @ [nul]);
        if \<not> sent text then Some (s\<lparr>sv_buf := buf\<rparr>)
        else send_pieces sent (drop CONTENT_SIZE03 rest) readbuf (s\<lparr>sv_buf := replicate BUFSIZE nul, sv_out := sv_out s @ [text]\<rparr>) })"
  by pat_completeness auto
termination
  by (relation "measure (\<lambda>(sent, rest, readbuf, s). length rest)") (auto simp: CONTENT_SIZE03_def)

declare send_pieces.simps [simp del]

text \<open>One request, received into the front of \<open>buf\<close>. A name that does not match leaves \<open>filename\<close> as it is.\<close>

definition serve_request :: "(string \<Rightarrow> string option) \<Rightarrow> (string \<Rightarrow> bool) \<Rightarrow> string \<Rightarrow> server \<Rightarrow> server option" where
  "serve_request files sent request s = do {
     let buf = blit 0 (take BUFSIZE request) (sv_buf s);
     cs \<leftarrow> c_str buf;
     fname \<leftarrow> (case scan_request cs of None \<Rightarrow> sv_filename s | Some w \<Rightarrow> if length w < 240 then Some w else None);
     let s = s\<lparr>sv_filename := Some fname\<rparr>;
     (case files fname of
        Some content \<Rightarrow> send_pieces sent content (replicate CONTENT_SIZE03 nul) (s\<lparr>sv_buf := replicate BUFSIZE nul\<rparr>)
      | None \<Rightarrow> Some (s\<lparr>sv_buf := replicate BUFSIZE nul,
          sv_out := (if sent fail_text then sv_out s @ [fail_text] else sv_out s)\<rparr>)) }"

text \<open>The thread of a connection: what \<open>recv\<close> returns, an empty piece standing for the end of the
  connection or an error.\<close>

fun routine :: "(string \<Rightarrow> string option) \<Rightarrow> (string \<Rightarrow> bool) \<Rightarrow> string list \<Rightarrow> server \<Rightarrow> server option" where
  "routine files sent [] s = Some s"
| "routine files sent (r # rs) s =
     (if r = [] then Some s else do { s \<leftarrow> serve_request files sent r s; routine files sent rs s })"

section \<open>The client\<close>

text \<open>The request and the path of the file it will be stored in. Both are built in \<open>buf\<close>; the path is then
  copied over the name, an array of 240 characters.\<close>

definition client_request :: "string \<Rightarrow> string \<Rightarrow> (string \<times> string) option" where
  "client_request filename url =
     (if length filename < 240 \<and> length url < 500 then do {
        let text = ''GET '' @ ''/'' @ filename @ '' HTTP/1.1'' @ crlf @ ''Host: '' @ url @ crlf @ crlf;
        let path = ''download/'' @ filename;
        if length text < BUFSIZE \<and> length path < 240 then Some (text, path) else None }
      else None)"

definition char_at :: "string \<Rightarrow> nat \<Rightarrow> char option" where
  "char_at b i = (if i < length b then Some (b ! i) else None)"

text \<open>The test for the end of the header, with its short-circuits.\<close>

definition header_ends :: "string \<Rightarrow> nat \<Rightarrow> bool option" where
  "header_ends b i = do {
     c0 \<leftarrow> char_at b i;
     if c0 \<noteq> CHR 0x0D then Some False else do {
       c2 \<leftarrow> char_at b (i + 2);
       if c2 \<noteq> CHR 0x0D then Some False else do {
         c1 \<leftarrow> char_at b (i + 1);
         if c1 \<noteq> CHR 0x0A then Some False else do {
           c3 \<leftarrow> char_at b (i + 3);
           Some (c3 = CHR 0x0A) } } } }"

function skip_header :: "string \<Rightarrow> nat \<Rightarrow> nat \<Rightarrow> nat option" where
  "skip_header b start len =
     (if start < len then do {
        e \<leftarrow> header_ends b start;
        if e then Some (start + 4) else skip_header b (start + 1) len }
      else Some start)"
  by pat_completeness auto
termination
  by (relation "measure (\<lambda>(b, start, len). len - start)") auto

declare skip_header.simps [simp del]

text \<open>One call of \<open>recv\<close> that returned \<open>reply\<close>; the file is appended to. \<open>opens\<close> says which files \<open>fopen\<close> opens.\<close>

definition client_reply :: "(string \<Rightarrow> bool) \<Rightarrow> string \<Rightarrow> string \<Rightarrow> (string \<Rightarrow> string option) \<Rightarrow> (string \<Rightarrow> string option) option" where
  "client_reply opens path reply fs = do {
     let reply = take BUFSIZE reply;
     let buf = blit 0 reply (replicate BUFSIZE nul);
     cs \<leftarrow> c_str buf;
     state \<leftarrow> scan_state cs;
     if 4 \<le> length state then None
     else if state \<noteq> ''404'' then do {
       start \<leftarrow> skip_header buf 0 (length reply);
       if \<not> opens path then None
       else Some (fs(path \<mapsto> (case fs path of None \<Rightarrow> [] | Some old \<Rightarrow> old) @ drop start reply)) }
     else Some fs }"

text \<open>One round of the client: \<open>r\<close> is what \<open>recv\<close> returns, \<open>None\<close> for an error.\<close>

datatype client_next = Goes_on | Ends int

definition client_round ::
  "(string \<Rightarrow> bool) \<Rightarrow> (string \<Rightarrow> bool) \<Rightarrow> string \<Rightarrow> string \<Rightarrow> string option \<Rightarrow> (string \<Rightarrow> string option) \<Rightarrow> (client_next \<times> (string \<Rightarrow> string option)) option" where
  "client_round sent opens filename url r fs = do {
     (text, path) \<leftarrow> client_request filename url;
     if \<not> sent text then Some (Ends 1, fs)
     else (case r of
         None \<Rightarrow> Some (Goes_on, fs)
       | Some reply \<Rightarrow> if reply = [] then Some (Ends 0, fs)
           else do { fs \<leftarrow> client_reply opens path reply fs; Some (Goes_on, fs) }) }"

section \<open>A file of one piece\<close>

text \<open>The header of a reply.\<close>

definition reply_head :: "nat \<Rightarrow> string" where
  "reply_head n = ok_text @ decimal n @ crlf @ crlf"

lemma c_string_text: "nul \<notin> set t \<Longrightarrow> c_string (t @ nul # rest) = t"
  unfolding c_string_def by (subst takeWhile_append2) auto

lemma c_str_text: "nul \<notin> set t \<Longrightarrow> c_str (t @ replicate (Suc n) nul) = Some t"
  by (simp add: c_str_def c_string_text)

lemma length_reply_head: "n < 10000 \<Longrightarrow> length (reply_head n) \<le> 41"
  using decimal_short[of n 4] by (simp add: reply_head_def ok_text_def crlf_def)

lemma send_one_piece:
  assumes "c \<noteq> []" "length c < CONTENT_SIZE03" "nul \<notin> set c" "sent (reply_head (length c) @ c)"
  shows "send_pieces sent c (replicate CONTENT_SIZE03 nul) s =
    Some (s\<lparr>sv_buf := replicate BUFSIZE nul, sv_out := sv_out s @ [reply_head (length c) @ c]\<rparr>)"
proof -
  obtain k where k: "CONTENT_SIZE03 - length c = Suc k" using assms(2) by (cases "CONTENT_SIZE03 - length c") auto
  have e: "blit 0 c (replicate CONTENT_SIZE03 nul) = c @ replicate (Suc k) nul" by (simp add: blit_def k)
  have "length (reply_head (length c)) \<le> 41" by (rule length_reply_head) (use assms(2) in \<open>simp add: CONTENT_SIZE03_def\<close>)
  then have fit: "length (ok_text @ decimal (length c) @ crlf @ crlf @ c @ [nul]) \<le> length (replicate BUFSIZE nul)"
    using assms(2) by (simp add: reply_head_def BUFSIZE_def CONTENT_SIZE03_def)
  have tk: "take CONTENT_SIZE03 c = c" "drop CONTENT_SIZE03 c = []" using assms(2) by simp_all
  show ?thesis
    using assms(1,4) fit
    by (subst send_pieces.simps)
      (simp add: tk e c_str_text[OF assms(3)] st_bytes_def reply_head_def send_pieces.simps[of sent "[]"] del: replicate_Suc)
qed

text \<open>A piece without a NUL that fills the array.\<close>

lemma send_full_piece:
  assumes "CONTENT_SIZE03 \<le> length c" "nul \<notin> set c"
  shows "send_pieces sent c (replicate CONTENT_SIZE03 nul) s = None"
proof -
  have "blit 0 (take CONTENT_SIZE03 c) (replicate CONTENT_SIZE03 nul) = take CONTENT_SIZE03 c" using assms(1) by (simp add: blit_def)
  moreover have "nul \<notin> set (take CONTENT_SIZE03 c)" using assms(2) by (meson in_set_takeD)
  moreover have "c \<noteq> []" using assms(1) by (auto simp: CONTENT_SIZE03_def)
  ultimately show ?thesis by (subst send_pieces.simps) (simp add: c_str_def)
qed

section \<open>What the two ends read\<close>

definition plain_name :: "string \<Rightarrow> bool" where
  "plain_name w \<longleftrightarrow> w \<noteq> [] \<and> (\<forall>c\<in>set w. \<not> is_space c \<and> c \<noteq> nul)"

definition request_text :: "string \<Rightarrow> string \<Rightarrow> string" where
  "request_text w url = ''GET '' @ ''/'' @ w @ '' HTTP/1.1'' @ crlf @ ''Host: '' @ url @ crlf @ crlf"

lemma space_is_space: "is_space (CHR '' '')" "\<not> is_space (CHR ''/'')" "\<not> is_space (CHR ''G'')" "\<not> is_space (CHR ''E'')" "\<not> is_space (CHR ''T'')"
  by (simp_all add: is_space_def)

lemma scan_request_text:
  assumes "plain_name w"
  shows "scan_request (request_text w url @ rest) = Some w"
proof -
  have w: "\<forall>c\<in>set w. c \<noteq> CHR '' ''" using assms by (auto simp: plain_name_def is_space_def)
  have g: "scan_word (''GET'' @ CHR '' '' # ''/'' @ w @ '' HTTP/1.1'' @ crlf @ ''Host: '' @ url @ crlf @ crlf @ rest) =
      Some (''GET'', CHR '' '' # ''/'' @ w @ '' HTTP/1.1'' @ crlf @ ''Host: '' @ url @ crlf @ crlf @ rest)"
    by (rule scan_word_next) (simp_all add: space_is_space)
  then show ?thesis using assms w
    by (simp add: scan_request_def request_text_def space_is_space plain_name_def takeWhile_append2)
qed

lemma skip_plain:
  "\<forall>c\<in>set x. c \<noteq> CHR 0x0D \<Longrightarrow> length pre + length x \<le> len \<Longrightarrow> skip_header (pre @ x @ rest) (length pre) len = skip_header (pre @ x @ rest) (length pre + length x) len"
proof (induction x arbitrary: pre)
  case (Cons c x)
  have "header_ends (pre @ (c # x) @ rest) (length pre) = Some False" using Cons.prems(1) by (simp add: header_ends_def char_at_def)
  then have "skip_header (pre @ (c # x) @ rest) (length pre) len = skip_header (pre @ (c # x) @ rest) (length pre + 1) len"
    using Cons.prems(2) by (subst skip_header.simps) simp
  also have "\<dots> = skip_header ((pre @ [c]) @ x @ rest) (length (pre @ [c]) + length x) len"
    using Cons.IH[of "pre @ [c]"] Cons.prems by simp
  finally show ?case by simp
qed simp

lemma skip_crlf:
  assumes "d \<noteq> CHR 0x0D" "length pre + 2 \<le> len"
  shows "skip_header (pre @ crlf @ d # rest) (length pre) len = skip_header (pre @ crlf @ d # rest) (length pre + 2) len"
proof -
  have "header_ends (pre @ crlf @ d # rest) (length pre) = Some False" "header_ends (pre @ crlf @ d # rest) (length pre + 1) = Some False"
    using assms(1) by (simp_all add: header_ends_def char_at_def crlf_def nth_append)
  then show ?thesis
    using assms(2) skip_header.simps[of "pre @ crlf @ d # rest" "length pre" len] skip_header.simps[of "pre @ crlf @ d # rest" "length pre + 1" len]
    by simp
qed

lemma skip_end: "length pre < len \<Longrightarrow> skip_header (pre @ crlf @ crlf @ rest) (length pre) len = Some (length pre + 4)"
  by (subst skip_header.simps) (simp add: header_ends_def char_at_def crlf_def nth_append)

lemma reply_parts: "reply_head n = ''HTTP/1.1 200 OK'' @ crlf @ CHR ''C'' # ''ontent-Length: '' @ decimal n @ crlf @ crlf"
  by (simp add: reply_head_def ok_text_def)

lemma skip_reply:
  assumes "length (reply_head n) \<le> len"
  shows "skip_header (reply_head n @ rest) 0 len = Some (length (reply_head n))"
proof -
  let ?a = "''HTTP/1.1 200 OK''" and ?b = "''ontent-Length: '' @ decimal n"
  have l: "length (reply_head n) = length ?a + 2 + 1 + length ?b + 4" by (simp add: reply_parts crlf_def)
  have dec: "\<forall>c\<in>set (decimal n). c \<noteq> CHR 0x0D" using decimal_digits[of "CHR 0x0D" n] by (auto simp: is_digit_def)
  then have b: "\<forall>c\<in>set (CHR ''C'' # ?b). c \<noteq> CHR 0x0D" by auto
  have "skip_header (reply_head n @ rest) 0 len = skip_header (?a @ crlf @ CHR ''C'' # ?b @ crlf @ crlf @ rest) (length ?a) len"
    using skip_plain[of ?a "[]" len "crlf @ CHR ''C'' # ?b @ crlf @ crlf @ rest"] assms l by (simp add: reply_parts)
  also have "\<dots> = skip_header (?a @ crlf @ CHR ''C'' # ?b @ crlf @ crlf @ rest) (length ?a + 2) len"
    by (rule skip_crlf) (use assms l in simp_all)
  also have "\<dots> = skip_header ((?a @ crlf) @ (CHR ''C'' # ?b) @ crlf @ crlf @ rest) (length (?a @ crlf)) len" by (simp add: crlf_def)
  also have "\<dots> = skip_header ((?a @ crlf) @ (CHR ''C'' # ?b) @ crlf @ crlf @ rest) (length (?a @ crlf) + length (CHR ''C'' # ?b)) len"
    by (rule skip_plain[OF b]) (use assms l in \<open>simp add: crlf_def\<close>)
  also have "\<dots> = skip_header ((?a @ crlf @ CHR ''C'' # ?b) @ crlf @ crlf @ rest) (length (?a @ crlf @ CHR ''C'' # ?b)) len" by simp
  also have "\<dots> = Some (length (?a @ crlf @ CHR ''C'' # ?b) + 4)" by (rule skip_end) (use assms l in \<open>simp add: crlf_def\<close>)
  finally show ?thesis by (simp add: reply_parts crlf_def)
qed

lemma scan_state_reply: "scan_state (reply_head n @ rest) = Some ''200''"
  by (simp add: scan_state_def reply_parts space_is_space is_space_def)

lemma reply_no_nul: "nul \<notin> set (reply_head n)"
  using decimal_digits[of nul n] by (auto simp: reply_head_def ok_text_def crlf_def is_digit_def)

text \<open>The client stores what follows the header in the piece it received.\<close>

lemma client_stores:
  assumes "length (reply_head n @ c) < BUFSIZE" "opens path"
  shows "client_reply opens path (reply_head n @ c) fs = Some (fs(path \<mapsto> (case fs path of None \<Rightarrow> [] | Some old \<Rightarrow> old) @ c))"
proof -
  let ?r = "reply_head n @ c"
  obtain k where k: "BUFSIZE - length ?r = Suc k" using assms(1) by (cases "BUFSIZE - length ?r") auto
  have buf: "blit 0 ?r (replicate BUFSIZE nul) = ?r @ replicate (Suc k) nul" using k by (simp add: blit_def)
  have "c_str (?r @ replicate (Suc k) nul) = Some (reply_head n @ takeWhile (\<lambda>c. c \<noteq> nul) (c @ replicate (Suc k) nul))"
    using reply_no_nul[of n] unfolding c_str_def c_string_def append_assoc by (subst takeWhile_append2) auto
  moreover have "skip_header (?r @ replicate (Suc k) nul) 0 (length ?r) = Some (length (reply_head n))"
    using skip_reply[of n "length ?r" "c @ replicate (Suc k) nul"] by simp
  moreover have "take BUFSIZE ?r = ?r" using assms(1) by simp
  ultimately show ?thesis
    unfolding client_reply_def Let_def using assms(2) by (simp add: buf scan_state_reply del: replicate_Suc take_append)
qed

lemma client_request_text:
  "length w < 231 \<Longrightarrow> length url < 500 \<Longrightarrow> client_request w url = Some (request_text w url, ''download/'' @ w)"
  by (simp add: client_request_def request_text_def BUFSIZE_def crlf_def)

lemma serve_text:
  assumes "plain_name w" "length w < 240" "length (request_text w url) < BUFSIZE" "length (sv_buf s) = BUFSIZE"
    "nul \<in> set (drop (length (request_text w url)) (sv_buf s))" "nul \<notin> set url"
  shows "serve_request files sent (request_text w url) s =
    (case files w of
       Some content \<Rightarrow> send_pieces sent content (replicate CONTENT_SIZE03 nul) (s\<lparr>sv_filename := Some w, sv_buf := replicate BUFSIZE nul\<rparr>)
     | None \<Rightarrow> Some (s\<lparr>sv_filename := Some w, sv_buf := replicate BUFSIZE nul,
         sv_out := (if sent fail_text then sv_out s @ [fail_text] else sv_out s)\<rparr>))"
proof -
  let ?t = "request_text w url" and ?r = "drop (length (request_text w url)) (sv_buf s)"
  have b: "blit 0 (take BUFSIZE ?t) (sv_buf s) = ?t @ ?r" using assms(3) by (simp add: blit_def)
  have "\<forall>c\<in>set ?t. c \<noteq> nul" using assms(1,6) by (auto simp: request_text_def crlf_def plain_name_def)
  then have "c_str (?t @ ?r) = Some (?t @ takeWhile (\<lambda>c. c \<noteq> nul) ?r)"
    using assms(5) by (simp add: c_str_def c_string_def takeWhile_append2)
  then show ?thesis
    using assms(2) unfolding serve_request_def Let_def b by (simp add: scan_request_text[OF assms(1)] split: option.split)
qed

section \<open>The server with select\<close>

text \<open>The slots of the connections, zero for a free one, their number and the largest descriptor. The
  descriptors the kernel has open for clients are kept beside them, as are those closed because all
  slots were taken.\<close>

definition MAXC :: nat where "MAXC = 8"

record sel =
  se_fd :: "int list"
  se_conn :: int
  se_max :: int
  se_srv :: server
  se_open :: "int set"

text \<open>What one round meets: the descriptors that are readable, what \<open>recv\<close> returns on each (\<open>[]\<close> for the end
  of the connection or an error), and what \<open>accept\<close> returns if the listening socket is readable.\<close>

record arrivals =
  ar_ready :: "int \<Rightarrow> bool"
  ar_recv :: "int \<Rightarrow> string"
  ar_accept :: "int option"

definition sel_slot :: "(string \<Rightarrow> string option) \<Rightarrow> (string \<Rightarrow> bool) \<Rightarrow> arrivals \<Rightarrow> nat \<Rightarrow> sel \<Rightarrow> sel option" where
  "sel_slot files sent a i s =
     (let f = se_fd s ! i in
      if f \<noteq> 0 \<and> ar_ready a f then
        if ar_recv a f \<noteq> [] then do {
          v \<leftarrow> serve_request files sent (ar_recv a f) (se_srv s);
          Some (s\<lparr>se_srv := v\<rparr>) }
        else Some (s\<lparr>se_fd := (se_fd s)[i := 0], se_conn := se_conn s - 1, se_open := se_open s - {f}\<rparr>)
      else Some s)"

fun sel_slots :: "(string \<Rightarrow> string option) \<Rightarrow> (string \<Rightarrow> bool) \<Rightarrow> arrivals \<Rightarrow> nat list \<Rightarrow> sel \<Rightarrow> sel option" where
  "sel_slots files sent a [] s = Some s"
| "sel_slots files sent a (i # is) s = do { s \<leftarrow> sel_slot files sent a i s; sel_slots files sent a is s }"

text \<open>The search for a free slot writes none when there is none.\<close>

fun take_slot :: "int \<Rightarrow> int list \<Rightarrow> int list" where
  "take_slot c [] = []"
| "take_slot c (f # fs) = (if f = 0 then c # fs else f # take_slot c fs)"

definition sel_accept :: "int \<Rightarrow> sel \<Rightarrow> sel" where
  "sel_accept c s =
     (if c \<le> 0 then s
      else if se_conn s < int MAXC then s\<lparr>se_fd := take_slot c (se_fd s), se_conn := se_conn s + 1,
        se_max := (if c > se_max s then c else se_max s), se_open := insert c (se_open s)\<rparr>
      else s)"

definition sel_round :: "(string \<Rightarrow> string option) \<Rightarrow> (string \<Rightarrow> bool) \<Rightarrow> arrivals \<Rightarrow> sel \<Rightarrow> sel option" where
  "sel_round files sent a s = do {
     s \<leftarrow> sel_slots files sent a [0..<MAXC] s;
     Some (case ar_accept a of None \<Rightarrow> s | Some c \<Rightarrow> sel_accept c s) }"

definition sel_init :: "int \<Rightarrow> server \<Rightarrow> sel" where
  "sel_init listener v = \<lparr> se_fd = replicate MAXC 0, se_conn = 0, se_max = listener, se_srv = v, se_open = {} \<rparr>"

text \<open>The kernel gives out no descriptor that is open.\<close>

inductive sel_run :: "(string \<Rightarrow> string option) \<Rightarrow> (string \<Rightarrow> bool) \<Rightarrow> sel \<Rightarrow> sel \<Rightarrow> bool" for files sent where
  start: "sel_run files sent s s"
| round: "sel_run files sent s t \<Longrightarrow> (\<And>c. ar_accept a = Some c \<Longrightarrow> c \<notin> se_open t) \<Longrightarrow> sel_round files sent a t = Some u \<Longrightarrow> sel_run files sent s u"

definition sel_ok :: "sel \<Rightarrow> bool" where
  "sel_ok s \<longleftrightarrow> length (se_fd s) = MAXC \<and> se_conn s = int (length (filter (\<lambda>f. f \<noteq> 0) (se_fd s))) \<and>
     distinct (filter (\<lambda>f. f \<noteq> 0) (se_fd s)) \<and> set (filter (\<lambda>f. f \<noteq> 0) (se_fd s)) = se_open s \<and>
     (\<forall>f\<in>se_open s. f \<le> se_max s)"

abbreviation used :: "int list \<Rightarrow> int list" where "used fs \<equiv> filter (\<lambda>f. f \<noteq> 0) fs"

lemma used_release:
  assumes "i < length fs" "fs ! i \<noteq> 0" "distinct (used fs)"
  shows "Suc (length (used (fs[i := 0]))) = length (used fs)" "distinct (used (fs[i := 0]))" "set (used (fs[i := 0])) = set (used fs) - {fs ! i}"
proof -
  define us vs where "us = take i fs" and "vs = drop (Suc i) fs"
  have fs: "fs = us @ fs ! i # vs" "length us = i" using assms(1) id_take_nth_drop[of i fs] by (simp_all add: us_def vs_def)
  have up: "fs[i := 0] = us @ 0 # vs" using fs(2) by (subst fs(1)) (simp add: list_update_append)
  have u: "used fs = used us @ fs ! i # used vs"
    using arg_cong[OF fs(1), of used] assms(2) by (simp only: filter_append filter.simps if_True simp_thms)
  have d: "distinct (used us @ fs ! i # used vs)" using assms(3) by (simp only: u)
  show "Suc (length (used (fs[i := 0]))) = length (used fs)" unfolding up u by simp
  show "distinct (used (fs[i := 0]))" unfolding up using d by auto
  have "set (used fs) = insert (fs ! i) (set (used us @ used vs))" unfolding u by auto
  moreover have "fs ! i \<notin> set (used us @ used vs)" using d by auto
  ultimately show "set (used (fs[i := 0])) = set (used fs) - {fs ! i}" unfolding up by auto
qed

lemma take_slot_length: "length (take_slot c fs) = length fs"
  by (induction fs) auto

lemma take_slot_split: "0 \<notin> set us \<Longrightarrow> take_slot c (us @ 0 # vs) = us @ c # vs"
  by (induction us) auto

lemma take_slot_used:
  assumes "c \<noteq> 0" "0 \<in> set fs"
  shows "length (used (take_slot c fs)) = Suc (length (used fs))" "set (used (take_slot c fs)) = insert c (set (used fs))"
    "c \<notin> set fs \<Longrightarrow> distinct (used fs) \<Longrightarrow> distinct (used (take_slot c fs))"
proof -
  obtain us vs where fs: "fs = us @ 0 # vs" "0 \<notin> set us" using split_list_first[OF assms(2)] by blast
  have t: "take_slot c fs = us @ c # vs" unfolding fs(1) by (rule take_slot_split[OF fs(2)])
  show "length (used (take_slot c fs)) = Suc (length (used fs))" unfolding t unfolding fs(1) using assms(1) by simp
  show "set (used (take_slot c fs)) = insert c (set (used fs))" unfolding t unfolding fs(1) using assms(1) by auto
  show "distinct (used (take_slot c fs))" if "c \<notin> set fs" "distinct (used fs)"
    using that unfolding t unfolding fs(1) by auto
qed

lemma sel_slot_ok: "sel_ok s \<Longrightarrow> i < MAXC \<Longrightarrow> sel_slot files sent a i s = Some t \<Longrightarrow> sel_ok t \<and> se_open t \<subseteq> se_open s"
proof -
  assume ok: "sel_ok s" and i: "i < MAXC" and t: "sel_slot files sent a i s = Some t"
  have l: "i < length (se_fd s)" using ok i by (simp add: sel_ok_def)
  show ?thesis
  proof (cases "se_fd s ! i \<noteq> 0 \<and> ar_ready a (se_fd s ! i) \<and> ar_recv a (se_fd s ! i) = []")
    case True
    then have "t = s\<lparr>se_fd := (se_fd s)[i := 0], se_conn := se_conn s - 1, se_open := se_open s - {se_fd s ! i}\<rparr>"
      using t by (simp add: sel_slot_def)
    moreover have "distinct (used (se_fd s))" "se_fd s ! i \<noteq> 0" using True ok by (simp_all add: sel_ok_def)
    note used_release[OF l this(2,1)]
    ultimately show ?thesis using ok by (auto simp: sel_ok_def)
  next
    case False
    then show ?thesis using t ok by (auto simp: sel_slot_def sel_ok_def Let_def split: if_splits Option.bind_splits)
  qed
qed

lemma sel_slots_ok: "sel_ok s \<Longrightarrow> \<forall>i\<in>set is. i < MAXC \<Longrightarrow> sel_slots files sent a is s = Some t \<Longrightarrow> sel_ok t \<and> se_open t \<subseteq> se_open s"
proof (induction "is" arbitrary: s)
  case (Cons i "is")
  then obtain u where "sel_slot files sent a i s = Some u" "sel_slots files sent a is u = Some t" by (auto split: Option.bind_splits)
  with Cons sel_slot_ok[of s i files sent a u] show ?case by (meson list.set_intros order_trans)
qed simp

lemma sel_accept_ok:
  assumes "sel_ok s" "c \<notin> se_open s"
  shows "sel_ok (sel_accept c s)"
proof (cases "0 < c \<and> se_conn s < int MAXC")
  case True
  have "length (filter (\<lambda>f. f \<noteq> 0) (se_fd s)) < length (se_fd s)" using assms(1) True by (simp add: sel_ok_def)
  then have z: "0 \<in> set (se_fd s)" using filter_True[of "se_fd s" "\<lambda>f. f \<noteq> 0"] by (cases "0 \<in> set (se_fd s)") fastforce+
  have c: "c \<noteq> 0" using True by simp
  let ?s = "s\<lparr>se_fd := take_slot c (se_fd s), se_conn := se_conn s + 1, se_max := (if c > se_max s then c else se_max s), se_open := insert c (se_open s)\<rparr>"
  have p: "length (se_fd s) = MAXC" "se_conn s = int (length (used (se_fd s)))" "distinct (used (se_fd s))"
    "set (used (se_fd s)) = se_open s" "\<forall>f\<in>se_open s. f \<le> se_max s" using assms(1) unfolding sel_ok_def by blast+
  have "c \<notin> set (se_fd s)"
  proof
    assume "c \<in> set (se_fd s)"
    with c have "c \<in> set (used (se_fd s))" by simp
    with assms(2) show False unfolding p(4) by contradiction
  qed
  note u = take_slot_used[OF c z]
  have "\<forall>f\<in>insert c (se_open s). f \<le> (if c > se_max s then c else se_max s)" using p(5) by auto
  moreover have "distinct (used (take_slot c (se_fd s)))" by (rule u(3)[OF \<open>c \<notin> set (se_fd s)\<close> p(3)])
  moreover have "set (used (take_slot c (se_fd s))) = insert c (se_open s)" unfolding u(2) p(4) ..
  ultimately have "sel_ok ?s" unfolding sel_ok_def using p(1,2) u(1) by (simp add: take_slot_length)
  then show ?thesis using True by (simp add: sel_accept_def)
next
  case False
  with assms(1) show ?thesis by (auto simp: sel_accept_def)
qed

section \<open>Properties\<close>

text \<open>Property C22. A text file shorter than 2000 characters is downloaded as it is: the server finds the name the
  client asked for and sends one reply, and the client appends exactly the file to its copy. If only
  the first \<open>m\<close> characters of the file arrive with the first \<open>recv\<close>, only these are stored.\<close>

theorem http_download:
  assumes "plain_name w" "length w < 231" "length url < 500" "nul \<notin> set url"
    and "length (sv_buf s) = BUFSIZE" "nul \<in> set (drop (length (request_text w url)) (sv_buf s))"
    and "files w = Some c" "c \<noteq> []" "length c < CONTENT_SIZE03" "nul \<notin> set c" "\<And>t. sent t" "opens (''download/'' @ w)"
  shows "\<exists>req path t reply. client_request w url = Some (req, path) \<and> serve_request files sent req s = Some t \<and> sv_out t = sv_out s @ [reply] \<and>
    client_reply opens path reply fs = Some (fs(path \<mapsto> (case fs path of None \<Rightarrow> [] | Some old \<Rightarrow> old) @ c)) \<and>
    client_reply opens path (take (length reply - length c + m) reply) fs =
      Some (fs(path \<mapsto> (case fs path of None \<Rightarrow> [] | Some old \<Rightarrow> old) @ take m c))"
proof -
  let ?reply = "reply_head (length c) @ c" and ?path = "''download/'' @ w"
  have n: "length (reply_head (length c)) \<le> 41" by (rule length_reply_head) (use assms(9) in \<open>simp add: CONTENT_SIZE03_def\<close>)
  have req: "length (request_text w url) < BUFSIZE" using assms(2,3) by (simp add: request_text_def BUFSIZE_def crlf_def)
  have srv: "serve_request files sent (request_text w url) s =
      Some (s\<lparr>sv_filename := Some w, sv_buf := replicate BUFSIZE nul, sv_out := sv_out s @ [?reply]\<rparr>)"
    using serve_text[OF assms(1) _ req assms(5,6,4), of files sent] send_one_piece[of c sent] assms(2,7-11) by simp
  have tk: "take (length ?reply - length c + m) ?reply = reply_head (length c) @ take m c" by simp
  have "length (reply_head (length c) @ take k c) < BUFSIZE" for k using n assms(9) by (simp add: BUFSIZE_def CONTENT_SIZE03_def)
  from client_stores[where opens = opens and path = ?path and fs = fs, OF this assms(12)] have st: "client_reply opens ?path (reply_head (length c) @ take k c) fs =
      Some (fs(?path \<mapsto> (case fs ?path of None \<Rightarrow> [] | Some old \<Rightarrow> old) @ take k c))" for k .
  have "client_reply opens ?path ?reply fs = Some (fs(?path \<mapsto> (case fs ?path of None \<Rightarrow> [] | Some old \<Rightarrow> old) @ c))"
    using st[of "length c"] by simp
  then show ?thesis
    using client_request_text[OF assms(2,3)] srv st[of m] tk
    by (intro exI[of _ "request_text w url"] exI[of _ ?path] exI[of _ "s\<lparr>sv_filename := Some w, sv_buf := replicate BUFSIZE nul, sv_out := sv_out s @ [?reply]\<rparr>"]
        exI[of _ ?reply]) (simp del: append.simps)
qed

definition idle_server :: server where
  "idle_server = \<lparr> sv_buf = replicate BUFSIZE nul, sv_filename = None, sv_out = [] \<rparr>"

theorem http_download_witness:
  "\<exists>req path t reply. client_request ''111.txt'' ''10.0.0.1'' = Some (req, path) \<and>
     serve_request [''111.txt'' \<mapsto> ''hello''] (\<lambda>_. True) req idle_server = Some t \<and> sv_out t = [reply] \<and>
     client_reply (\<lambda>_. True) path reply (\<lambda>_. None) = Some [path \<mapsto> ''hello''] \<and>
     client_reply (\<lambda>_. True) path (take (length reply - 5 + 2) reply) (\<lambda>_. None) = Some [path \<mapsto> ''he'']"
proof -
  have a: "plain_name ''111.txt''" "length ''111.txt'' < 231" "length ''10.0.0.1'' < 500" "nul \<notin> set ''10.0.0.1''"
    by (simp_all add: plain_name_def is_space_def)
  have b: "length (sv_buf idle_server) = BUFSIZE" by (simp add: idle_server_def)
  have "length (request_text ''111.txt'' ''10.0.0.1'') < BUFSIZE" by (simp add: request_text_def crlf_def BUFSIZE_def)
  then have c: "nul \<in> set (drop (length (request_text ''111.txt'' ''10.0.0.1'')) (sv_buf idle_server))" by (simp add: idle_server_def)
  have d: "[''111.txt'' \<mapsto> ''hello''] ''111.txt'' = Some ''hello''" "''hello'' \<noteq> []" "length ''hello'' < CONTENT_SIZE03" "nul \<notin> set ''hello''"
    by (simp_all add: CONTENT_SIZE03_def)
  have l: "length ''hello'' = 5" "take 2 ''hello'' = ''he''" "sv_out idle_server = []" by (simp_all add: idle_server_def)
  from http_download[where files = "[''111.txt'' \<mapsto> ''hello'']" and sent = "\<lambda>_. True" and opens = "\<lambda>_. True" and fs = "\<lambda>_. None" and m = 2,
      OF a b c d] show ?thesis by (simp only: l option.case append_Nil simp_thms)
qed





text \<open>Nothing is sent for an empty file, so the client waits for a reply that does not come.\<close>

theorem empty_file_gets_no_reply:
  assumes "plain_name w" "length w < 240" "length (request_text w url) < BUFSIZE" "nul \<notin> set url" "length (sv_buf s) = BUFSIZE"
    and "nul \<in> set (drop (length (request_text w url)) (sv_buf s))" "files w = Some []"
  shows "\<exists>t. serve_request files sent (request_text w url) s = Some t \<and> sv_out t = sv_out s"
  using serve_text[OF assms(1-3,5,6,4), of files sent] assms(7) by (simp add: send_pieces.simps[of sent "[]"])

text \<open>A name the array takes can be too long for the path that is copied over it.\<close>

theorem long_name_overflows: "231 \<le> length w \<Longrightarrow> client_request w url = None"
  by (simp add: client_request_def)

end
