(* ===== verification/Spec2Isabelle.thy ===== *)
theory Spec2Isabelle
  imports Linked_List Ring_Buffer Hash Synch_Wait Ustack Tcp_Service Tcp_Close Tcp_Handshake Mac_Switch Stp Nat_Config Mospf_Routes
    Ip_Trie Pop_Trie Router07 Tcp11 Tcp12_Link Tcp13 Route_Import Http
begin

text \<open>
  A verification library for the network programs under \<open>src/\<close>: HTTP programs (prj03), a hub (prj04), a
  learning switch (prj05), a spanning tree switch (prj06), a router (prj07), an mOSPF routing daemon
  (prj08), two lookup tries (prj09), an address translator (prj10) and a user-space TCP/IP stack that
  grows from prj11 to prj14. The stack is modelled in its last stage, prj14; of the stages before it
  the development models what they do otherwise: prj11, which only opens and closes connections,
  prj12, which sends one segment at a time, and prj13, which resends.

  \<^bold>\<open>The program.\<close> Every program is a loop over \<open>poll\<close> that hands each frame read from a raw socket to
  \<open>handle_packet\<close>, together with threads that wake up periodically. A frame of the stack goes through
  \<open>handle_packet\<close> (\<open>main.c\<close>) either to \<open>handle_arp_packet\<close> (\<open>arp.c\<close>), which fills the ARP cache
  (\<open>arpcache.c\<close>), or to \<open>handle_ip_packet\<close> (\<open>ip.c\<close>), which answers echo requests (\<open>icmp.c\<close>), forwards,
  or hands the segment to \<open>handle_tcp_packet\<close> (\<open>tcp.c\<close>), which decodes it into a control block, finds
  the socket (\<open>tcp_sock.c\<close>) and runs \<open>tcp_process\<close> (\<open>tcp_in.c\<close>). Segments are sent by \<open>tcp_out.c\<close> through
  \<open>ip_send_packet\<close>, the routing table (\<open>rtable.c\<close>), the ARP cache and \<open>iface_send_packet\<close> (\<open>packet.c\<close>).
  A timer thread (\<open>tcp_timer.c\<close>) resends and releases, application threads (\<open>tcp_apps.c\<close>) sleep and
  wake up through \<open>include/synch_wait.h\<close> and exchange bytes through \<open>include/ring_buffer.h\<close>. All tables
  and queues are intrusive lists (\<open>include/list.h\<close>).

  \<^bold>\<open>Conventions.\<close> A C function is a HOL function of the same name (with the suffix or prefix of its
  project where two projects define it) on an explicit state. \<open>None\<close> means undefined behaviour, a
  failed assertion, or a thread that waits for ever; \<open>Some\<close> carries the result. Integers are words of
  the C width where the code relies on it (\<open>u8\<close>, \<open>u16\<close>, \<open>u32\<close>), and mathematical integers for \<open>int\<close>
  and \<open>time_t\<close>, with the range written out where it can be left. A packet is the list of its bytes; a
  struct in a packet is read and written by a codec at an offset. Fresh memory holds arbitrary bytes
  from an oracle in the state. The frames sent are recorded in order. Functions that run under one
  mutex are one step; where the order of lock and unlock matters (\<open>Router07\<close>, \<open>Nat_Box\<close>) the mutex is
  part of the state, and where a thread can sleep in the middle it is cut into program points
  (\<open>Synch_Wait\<close>, \<open>Tcp_In\<close>, \<open>Tcp_App\<close>).

  \<^bold>\<open>Theories.\<close>
  \<^item> \<open>Net_Prelude\<close>: words, byte buffers with bounded loads and stores, byte order, fact collections.
  \<^item> \<open>Linked_List\<close>: \<open>list.h\<close> on a heap of nodes. Each operation refines the one on HOL lists and leaves
    disjoint lists alone, which justifies that the other theories use HOL lists; deleting while
    iterating filters. Locale \<open>intrusive_list\<close>.
  \<^item> \<open>Ring_Buffer\<close>: \<open>ring_buffer.h\<close>; a byte FIFO over any sequence of operations. Locale \<open>byte_stream\<close>,
    the contract the TCP data path is proved against.
  \<^item> \<open>Synch_Wait\<close>: \<open>synch_wait.h\<close> as functions and as a step relation for any number of threads.
  \<^item> \<open>Hash\<close>, \<open>Checksum\<close>, \<open>Checksum_Variants\<close>: \<open>hash.h\<close>, \<open>tcp_hash.h\<close>, the three \<open>checksum.h\<close>; the specification
    is the one's complement sum.
  \<^item> \<open>Headers\<close>: \<open>ether.h\<close>, \<open>ip.h\<close>, \<open>arp.h\<close>, \<open>icmp.h\<close>, \<open>tcp.h\<close> and the control block of \<open>tcp.c\<close>. Locale \<open>hdr_codec\<close>,
    interpreted for every header, also for those of mOSPF.
  \<^item> \<open>Learning_Table\<close>: locales for tables that learn from traffic, interpreted on the ARP cache and
    on the table of the switch.
  \<^item> \<open>Routing\<close>: \<open>rtable.c\<close> and the longest prefix matches of \<open>ip.c\<close> and \<open>prj07/ip_base.c\<close>.
  \<^item> \<open>Arp_Cache\<close>: \<open>packet.c\<close>, \<open>arp.c\<close>, \<open>arpcache.c\<close>. Resolution of an address over both ends, what one
    learned binding does to waiting packets, and the five rounds after which they are given up.
  \<^item> \<open>Ip_Stack\<close>: \<open>icmp.c\<close> and the sending and forwarding half of \<open>ip.c\<close>.
  \<^item> \<open>Tcp_Sock\<close>, \<open>Tcp_Out\<close>, \<open>Tcp_In\<close>, \<open>Tcp_App\<close>, \<open>Tcp_Timer\<close>, \<open>Tcp_Service\<close>: \<open>tcp_sock.c\<close> (tables, ports,
    reference counts), \<open>tcp_out.c\<close>, \<open>tcp_in.c\<close>, the calls of an application, \<open>tcp_timer.c\<close>, \<open>tcp_apps.c\<close>.
  \<^item> \<open>Tcp_States\<close>: which transitions of the connection state machine one segment can cause.
    \<open>Tcp_Data\<close>: what applications read is a prefix of what the peer wrote, under loss, repetition and
    reordering, and the cases in which the data path stops.
  \<^item> \<open>Tcp_Store\<close>: the socket store under every operation of every thread, with the locale
    \<open>store_invariant\<close>: what the primitive operations keep, all handlers keep. Its instance is the
    reference counting; with it the search for a free port always ends. \<open>Tcp_Close\<close>: the timer thread after a
    passive close, and the schedule of retransmissions. \<open>Tcp_Handshake\<close>: two stacks open a connection.
  \<^item> \<open>Tcp11\<close>: prj11. The search of the bound ports reads the wrong field, with what follows for a second
    connection, and closing an accepted connection never ends. \<open>Tcp12\<close>: prj12, and what its two ways of
    closing leave behind. \<open>Tcp12_Link\<close>: two stacks of prj12 joined by a link that loses nothing transfer a
    byte stream; without flow control the unread data is bounded by an assertion, and a wake-up can be
    lost. \<open>Tcp13\<close>: prj13; what is read is a prefix of what was written, as in prj14.
  \<^item> \<open>Route_Import\<close>: \<open>rtable_internal.c\<close>, the netlink dump and its parser. A dump of routes, stated as an
    encoding of messages and attributes, is loaded as exactly these routes.
  \<^item> \<open>Ustack\<close>: the composed stack of prj14, from the frame to TCP.
  \<^item> \<open>Mac_Switch\<close>: prj05 and the hub of prj04. \<open>Stp\<close>: prj06.
  \<^item> \<open>Mospf_Proto\<close>, \<open>Mospf_Daemon\<close>, \<open>Mospf_Routes\<close>: prj08, the messages, the neighbours and the database,
    and the computation of routes.
  \<^item> \<open>Ip_Trie\<close>, \<open>Pop_Trie\<close>: prj09, the binary trie against the list of rules, the compressed trie
    against the multiway trie it stands for.
  \<^item> \<open>Nat_Box\<close>, \<open>Nat_Config\<close>: prj10, the translation of packets, and the parser of its configuration file with
    the functions of the C library it uses; every configuration that is written is read back.
  \<^item> \<open>Router07\<close>: prj07.
  \<^item> \<open>Http\<close>: prj03, the client, the request handling of both servers and the slots of the select server.
    Client and server composed download a short text file as it is.

  \<^bold>\<open>Bounds.\<close> Loops over lists are structural recursions and need no fuel. The port search of
  \<open>tcp_get_port\<close>, the loops over netlink messages and attributes and those over a file and a header
  recurse with a measure. \<open>rx_run\<close>, \<open>tcp_scans\<close>, \<open>sweep_rounds\<close> and \<open>r7_rounds\<close> count the steps of a
  thread; they are the number of times the thread runs, not a bound on its loop.

  \<^bold>\<open>Not modelled.\<close> The operating system's part: sockets, \<open>poll\<close>, \<open>select\<close>, \<open>ioctl\<close>, thread creation, log files
  and \<open>printf\<close>; what the kernel and the network deliver is a parameter or recorded. The files of prj11 to
  prj13 that are the same as in prj14 are modelled once. The Python and shell scripts; the build
  directories; the binary \<open>libipstack.a\<close>, whose functions are parameters or recorded output.
  Interference between threads inside one critical section, and spurious wake-ups, are excluded by
  the mutexes and not modelled.
\<close>

end
